(* ===== verification/Kernel_Prelude.thy ===== *)
theory Kernel_Prelude
  imports Main "HOL-Library.Word"
begin

text \<open>
  Shared vocabulary of the EdgeX kernel development: the fixed-width integer types of
  \<^verbatim>\<open>include/edgex/kernel.h\<close>, the symbolic error codes the C code returns
  with a minus sign, bounded C strings, and the list and word lemmas that the component theories
  use. The collection \<open>kernel_simps\<close> gathers the rewrite rules of the components'
  small accessors.
\<close>

unbundle bit_operations_syntax

named_theorems kernel_simps

section \<open>Integer types\<close>

type_synonym u8 = "8 word"
type_synonym u16 = "16 word"
type_synonym u32 = "32 word"
type_synonym u64 = "64 word"

text \<open>A pointer is a 64-bit address; \<^verbatim>\<open>NULL\<close> is address 0.\<close>

type_synonym ptr = "64 word"

abbreviation NULL :: ptr where
  "NULL \<equiv> 0"

type_synonym pid_t = "32 word"

text \<open>
  Error codes. The sources return \<^verbatim>\<open>-EINVAL\<close> and the like without giving the numbers,
  so a code is a symbol; a C result that is 0 or a negated code is \<open>errno + 'a\<close>.
\<close>

datatype errno =
    EINVAL | ENOMEM | EAGAIN | ETIMEDOUT | ENOENT | EEXIST | EFAULT | EPERM | ENOTSUP

section \<open>C strings in fixed buffers\<close>

text \<open>
  A C string argument is its characters up to the terminating zero.
  \<^verbatim>\<open>strncpy(dst, src, N - 1); dst[N - 1] = 0\<close> keeps the first \<open>N - 1\<close> of them.
\<close>

definition c_strncpy :: "nat \<Rightarrow> string \<Rightarrow> string" where
  "c_strncpy n src = take (n - 1) src"

lemma length_c_strncpy: "length (c_strncpy n src) \<le> n - 1"
  by (simp add: c_strncpy_def)

lemma c_strncpy_id: "length src < n \<Longrightarrow> c_strncpy n src = src"
  by (simp add: c_strncpy_def)

section \<open>Lists\<close>

lemma nth_list_update_if:
  "i < length xs \<Longrightarrow> xs[i := x] ! j = (if i = j then x else xs ! j)"
  by simp

lemma length_filter_update:
  assumes "i < length xs"
  shows "length (filter P (xs[i := x])) + (if P (xs ! i) then 1 else 0)
       = length (filter P xs) + (if P x then 1 else 0)"
  using assms
proof (induction xs arbitrary: i)
  case Nil
  then show ?case by simp
next
  case (Cons y ys)
  show ?case
  proof (cases i)
    case 0
    then show ?thesis by auto
  next
    case (Suc j)
    with Cons.prems have "j < length ys" by simp
    from Cons.IH [OF this] Suc show ?thesis by auto
  qed
qed

text \<open>
  \<^verbatim>\<open>memmove(&a[i], &a[i + 1], (n - i - 1) * sizeof a[0])\<close>: deleting slot \<open>i\<close> of
  the \<open>n\<close> slots in use by moving the later ones down. The last slot keeps its content.
\<close>

definition array_delete :: "nat \<Rightarrow> nat \<Rightarrow> 'a list \<Rightarrow> 'a list" where
  "array_delete i n xs = take i xs @ take (n - i - 1) (drop (Suc i) xs) @ drop (n - 1) xs"

lemma length_array_delete [simp]:
  "i < n \<Longrightarrow> n \<le> length xs \<Longrightarrow> length (array_delete i n xs) = length xs"
  by (simp add: array_delete_def)

lemma take_array_delete:
  "i < n \<Longrightarrow> n \<le> length xs \<Longrightarrow>
   take (n - 1) (array_delete i n xs) = take i (take n xs) @ drop (Suc i) (take n xs)"
  by (simp add: array_delete_def drop_take)

lemma fold_update_length [simp]: "length (fold (\<lambda>i l. l[k i := f i l]) is l) = length l"
  by (induction "is" arbitrary: l) simp_all

lemma fold_update_nth:
  "b + n \<le> length l \<Longrightarrow>
   fold (\<lambda>i l. l[b + i := v i]) [0 ..< n] l ! j = (if b \<le> j \<and> j < b + n then v (j - b) else l ! j)"
  by (induction n) (auto simp: nth_list_update)

section \<open>Linear search loops\<close>

text \<open>
  The loop \<^verbatim>\<open>for (i = ...; i < n; i++) if (test(a[i])) return i;\<close>: the index of the first
  element from \<open>i\<close> on that satisfies the test.
\<close>

fun scan_from :: "('a \<Rightarrow> bool) \<Rightarrow> 'a list \<Rightarrow> nat \<Rightarrow> nat option" where
  "scan_from P [] i = None"
| "scan_from P (x # xs) i = (if P x then Some i else scan_from P xs (Suc i))"

lemma scan_from_Some_ge: "scan_from P xs i = Some j \<Longrightarrow> i \<le> j \<and> j < i + length xs"
  by (induction xs arbitrary: i) (fastforce split: if_splits)+

lemma scan_from_Some:
  "scan_from P xs i = Some j \<longleftrightarrow>
     i \<le> j \<and> j < i + length xs \<and> P (xs ! (j - i)) \<and> (\<forall>k < j - i. \<not> P (xs ! k))"
proof (induction xs arbitrary: i)
  case Nil
  then show ?case by auto
next
  case (Cons x xs)
  show ?case
  proof (cases "P x")
    case True
    then show ?thesis by (auto simp: nth_Cons' split: if_splits)
  next
    case False
    have "(\<forall>k < j - i. \<not> P ((x # xs) ! k)) \<longleftrightarrow> (\<forall>k < j - Suc i. \<not> P (xs ! k))" if "i < j"
      using that False by (auto simp: nth_Cons split: nat.splits)
    moreover have "(x # xs) ! (j - i) = xs ! (j - Suc i)" if "i < j"
      using that by (metis Suc_diff_Suc nth_Cons_Suc)
    ultimately show ?thesis
      using False Cons.IH [of "Suc i"] by (cases "i < j") (auto simp: not_less le_less)
  qed
qed

lemma scan_from_None: "scan_from P xs i = None \<longleftrightarrow> (\<forall>x \<in> set xs. \<not> P x)"
  by (induction xs arbitrary: i) auto

lemma scan_from_enumerate:
  "scan_from P xs i =
     (case map fst (filter (\<lambda>(i, x). P x) (enumerate i xs)) of [] \<Rightarrow> None | j # _ \<Rightarrow> Some j)"
  by (induction xs arbitrary: i) auto

lemma scan_from_rest:
  "scan_from P xs i = Some j \<Longrightarrow> \<not> P y \<Longrightarrow>
   map fst (filter (\<lambda>(i, x). P x) (enumerate i (xs[j - i := y])))
     = tl (map fst (filter (\<lambda>(i, x). P x) (enumerate i xs)))"
proof (induction xs arbitrary: i)
  case Nil
  then show ?case by simp
next
  case (Cons x xs)
  show ?case
  proof (cases "P x")
    case True
    with Cons.prems show ?thesis by auto
  next
    case False
    with Cons.prems have "scan_from P xs (Suc i) = Some j"
      by simp
    moreover from scan_from_Some_ge [OF this] have "j - i = Suc (j - Suc i)"
      by arith
    ultimately show ?thesis
      using False Cons.IH [of "Suc i"] Cons.prems by simp
  qed
qed

section \<open>Association lists in arrays\<close>

lemma distinct_skip: "distinct xs \<Longrightarrow> distinct (take i xs @ drop (Suc i) xs)"
  by (simp add: set_take_disj_set_drop_if_distinct)

lemma map_of_snoc_fresh: "k \<notin> fst ` set xs \<Longrightarrow> map_of (xs @ [(k, v)]) = (map_of xs)(k \<mapsto> v)"
  by (induction xs) (auto simp: fun_eq_iff)

lemma map_of_list_update:
  assumes "distinct (map fst xs)" "i < length xs" "fst (xs ! i) = k"
  shows "map_of (xs[i := (k, v)]) = (map_of xs)(k \<mapsto> v)"
  using assms
proof (induction xs arbitrary: i)
  case Nil
  then show ?case by simp
next
  case (Cons x xs)
  show ?case
  proof (cases i)
    case 0
    with Cons.prems show ?thesis by (cases x) auto
  next
    case (Suc j)
    with Cons.prems have "fst x \<noteq> k"
      by (auto dest: nth_mem)
    moreover have "map_of (xs[j := (k, v)]) = (map_of xs)(k \<mapsto> v)"
      using Cons.prems Suc by (intro Cons.IH) auto
    ultimately show ?thesis
      using Suc by (cases x) (auto simp: fun_upd_twist)
  qed
qed

lemma map_of_delete:
  assumes "distinct (map fst xs)" "i < length xs"
  shows "map_of (take i xs @ drop (Suc i) xs) = (map_of xs)(fst (xs ! i) := None)"
  using assms
proof (induction xs arbitrary: i)
  case Nil
  then show ?case by simp
next
  case (Cons x xs)
  show ?case
  proof (cases i)
    case 0
    with Cons.prems show ?thesis
      by (cases x) (auto simp: fun_eq_iff map_of_eq_None_iff)
  next
    case (Suc j)
    with Cons.prems have "fst x \<noteq> fst (xs ! j)"
      by (auto dest: nth_mem)
    moreover have "map_of (take j xs @ drop (Suc j) xs) = (map_of xs)(fst (xs ! j) := None)"
      using Cons.prems Suc by (intro Cons.IH) auto
    ultimately show ?thesis
      using Suc by (cases x) (auto simp: fun_upd_twist)
  qed
qed

lemma remove1_index:
  assumes "scan_from (\<lambda>x. x = q) xs 0 = Some i"
  shows "take i xs @ drop (Suc i) xs = remove1 q xs"
proof -
  from assms have i: "i < length xs" "xs ! i = q" "\<forall>k < i. xs ! k \<noteq> q"
    by (auto simp: scan_from_Some)
  then have "q \<notin> set (take i xs)"
    by (auto simp: in_set_conv_nth)
  moreover have "xs = take i xs @ q # drop (Suc i) xs"
    using i id_take_nth_drop [of i xs] by simp
  ultimately show ?thesis
    by (metis remove1_append remove1.simps(2))
qed

section \<open>Words\<close>

lemma u32_of_nat_neq_0: "0 < k \<Longrightarrow> k < 2 ^ 32 \<Longrightarrow> (of_nat k :: u32) \<noteq> 0"
  by (simp add: word_of_nat_eq_0_iff nat_dvd_not_less)

lemma word_and_not_mask:
  fixes x :: "'a::len word"
  shows "x AND NOT (mask n) = x - take_bit n x"
proof -
  have "x - (x AND mask n) = x AND NOT (x AND mask n)"
    by (rule disjunctive_diff) (simp add: bit_and_iff)
  also have "\<dots> = x AND NOT (mask n)"
    by (auto simp: bit_eq_iff bit_and_iff bit_or_iff bit_not_iff)
  finally show ?thesis
    by (simp add: take_bit_eq_mask)
qed

text \<open>\<^verbatim>\<open>(size + 15) & ~15\<close>: the next multiple of 16, if the addition does not wrap.\<close>

definition align16 :: "u64 \<Rightarrow> u64" where
  "align16 sz = (sz + 15) AND NOT 15"

lemma unat_align16_mod: "unat (align16 sz) = (unat (sz + 15) div 16) * 16"
proof -
  have "(15 :: u64) = mask 4"
    by (simp add: mask_eq_exp_minus_1)
  then have "align16 sz = (sz + 15) - take_bit 4 (sz + 15)"
    unfolding align16_def by (simp only: word_and_not_mask)
  moreover have "take_bit 4 (sz + 15) \<le> sz + 15"
    unfolding word_le_nat_alt unsigned_take_bit_eq by (simp add: take_bit_eq_mod)
  ultimately have "unat (align16 sz) = unat (sz + 15) - unat (sz + 15) mod 16"
    by (simp only: unat_sub unsigned_take_bit_eq) (simp add: take_bit_eq_mod)
  then show ?thesis
    by (simp add: minus_mod_eq_div_mult)
qed

lemma unat_align16:
  "unat sz < 2 ^ 64 - 15 \<Longrightarrow> unat (align16 sz) = (unat sz + 15) div 16 * 16"
  by (simp add: unat_align16_mod unat_word_ariths)

end
