(* ===== verification/Sync_Ops.thy ===== *)
theory Sync_Ops
  imports Kernel_Prelude
begin

text \<open>
  The synchronisation calls that \<^verbatim>\<open>kernel/ipc/message\<close> and the memory subsystem make on objects
  they embed: \<^verbatim>\<open>mutex_init\<close>, \<^verbatim>\<open>semaphore_init\<close> with an initial and a maximal
  count, and so on. No source file defines this variant of the interface (\<^verbatim>\<open>kernel/ipc.c\<close>
  has handles with other signatures), so the operations are a parameter of the definitions that call
  them. A Boolean result says whether the C result was 0.
\<close>

record 'm mutex_ops =
  mtx_init :: "bool \<times> 'm"
  mtx_lock :: "'m \<Rightarrow> 'm"
  mtx_unlock :: "'m \<Rightarrow> 'm"
  mtx_destroy :: "'m \<Rightarrow> 'm"

record 's sem_ops =
  sem_init :: "u32 \<Rightarrow> u32 \<Rightarrow> bool \<times> 's"
  sem_wait :: "u32 \<Rightarrow> 's \<Rightarrow> bool \<times> 's"
  sem_trywait :: "'s \<Rightarrow> bool \<times> 's"
  sem_post :: "'s \<Rightarrow> 's"
  sem_destroy :: "'s \<Rightarrow> 's"

text \<open>
  What the callers rely on: a semaphore has a count; \<^verbatim>\<open>trywait\<close> takes one unit exactly
  when there is one and otherwise leaves the semaphore alone; \<^verbatim>\<open>post\<close> returns one unit,
  below the maximum the semaphore was created with.
\<close>

locale counting_semaphore =
  fixes ops :: "'s sem_ops"
    and sval :: "'s \<Rightarrow> nat"
    and smax :: "'s \<Rightarrow> nat"
  assumes init_ok: "i \<le> m \<Longrightarrow> sem_init ops i m = (True, s) \<Longrightarrow>
                      sval s = unat i \<and> smax s = unat m"
    and trywait_ok: "0 < sval s \<Longrightarrow>
                      \<exists>s'. sem_trywait ops s = (True, s') \<and> sval s' = sval s - 1 \<and> smax s' = smax s"
    and trywait_empty: "sval s = 0 \<Longrightarrow> sem_trywait ops s = (False, s)"
    and post_ok: "sval s < smax s \<Longrightarrow>
                      sval (sem_post ops s) = sval s + 1 \<and> smax (sem_post ops s) = smax s"

end
