(* ===== verification/Queue_Registry.thy ===== *)
theory Queue_Registry
  imports Sync_Ops
begin

text \<open>
  The task-to-queue registry of \<^verbatim>\<open>kernel/ipc/message/queue_registry.c\<close>: fixed arrays of
  entries and of queue handles with explicit counts, and the five operations on them. The function
  \<^verbatim>\<open>create_task_message_queue\<close>, which also creates the queue, is in the theory of the
  message queues. The lemmas relate the arrays to a finite map from tasks to lists of queues.
\<close>

section \<open>Data\<close>

definition MAX_TASK_QUEUES :: nat where "MAX_TASK_QUEUES = 16"
definition MAX_REGISTERED_TASKS :: nat where "MAX_REGISTERED_TASKS = 64"

definition QUEUE_LOOKUP_SEND :: int where "QUEUE_LOOKUP_SEND = 1"
definition QUEUE_LOOKUP_RECEIVE :: int where "QUEUE_LOOKUP_RECEIVE = 2"
definition QUEUE_LOOKUP_ANY :: int where "QUEUE_LOOKUP_ANY = 3"

record queue_registry_entry =
  re_task_id :: u32
  re_queues :: "ptr list"
  re_queue_count :: nat
  re_recv_queue_idx :: nat
  re_send_queue_idx :: nat

record 'm queue_registry =
  registry_lock :: 'm
  task_registry :: "queue_registry_entry list"
  registry_entry_count :: nat
  registry_initialized :: bool

definition zero_entry :: queue_registry_entry where
  "zero_entry = \<lparr>re_task_id = 0, re_queues = replicate MAX_TASK_QUEUES NULL, re_queue_count = 0,
                 re_recv_queue_idx = 0, re_send_queue_idx = 0\<rparr>"

section \<open>Operations\<close>

definition init_queue_registry :: "'m mutex_ops \<Rightarrow> 'm queue_registry \<Rightarrow> 'm queue_registry" where
  "init_queue_registry mo r =
     (if \<not> registry_initialized r
      then r\<lparr>registry_lock := snd (mtx_init mo),
             task_registry := replicate MAX_REGISTERED_TASKS zero_entry,
             registry_entry_count := 0, registry_initialized := True\<rparr>
      else r)"

definition find_registry_entry :: "u32 \<Rightarrow> 'm queue_registry \<Rightarrow> nat option" where
  "find_registry_entry tid r =
     scan_from (\<lambda>e. re_task_id e = tid) (take (registry_entry_count r) (task_registry r)) 0"

definition find_or_create_registry_entry ::
    "u32 \<Rightarrow> 'm queue_registry \<Rightarrow> nat option \<times> 'm queue_registry" where
  "find_or_create_registry_entry tid r =
     (case find_registry_entry tid r of
        Some i \<Rightarrow> (Some i, r)
      | None \<Rightarrow>
          if registry_entry_count r \<ge> MAX_REGISTERED_TASKS then (None, r)
          else let i = registry_entry_count r in
            (Some i, r\<lparr>registry_entry_count := i + 1,
                       task_registry := (task_registry r)[i := (task_registry r ! i)
                         \<lparr>re_task_id := tid, re_queue_count := 0, re_recv_queue_idx := 0,
                          re_send_queue_idx := 0\<rparr>]\<rparr>))"

definition entry_queues :: "queue_registry_entry \<Rightarrow> ptr list" where
  "entry_queues e = take (re_queue_count e) (re_queues e)"

definition entry_add :: "ptr \<Rightarrow> queue_registry_entry \<Rightarrow> queue_registry_entry" where
  "entry_add q e =
     (if scan_from (\<lambda>x. x = q) (entry_queues e) 0 \<noteq> None then e
      else if re_queue_count e < MAX_TASK_QUEUES
      then let k = re_queue_count e;
               e1 = e\<lparr>re_queue_count := k + 1, re_queues := (re_queues e)[k := q]\<rparr>
           in if k = 0 then e1\<lparr>re_recv_queue_idx := 0, re_send_queue_idx := 0\<rparr> else e1
      else e)"

definition entry_remove :: "ptr \<Rightarrow> queue_registry_entry \<Rightarrow> queue_registry_entry" where
  "entry_remove q e =
     (case scan_from (\<lambda>x. x = q) (entry_queues e) 0 of
        None \<Rightarrow> e
      | Some i \<Rightarrow>
          let e1 = (if i < re_queue_count e - 1
                    then e\<lparr>re_queues := array_delete i (re_queue_count e) (re_queues e)\<rparr> else e);
              e2 = e1\<lparr>re_queue_count := re_queue_count e1 - 1\<rparr>;
              e3 = (if re_recv_queue_idx e2 \<ge> re_queue_count e2
                    then e2\<lparr>re_recv_queue_idx := 0\<rparr> else e2)
          in if re_send_queue_idx e3 \<ge> re_queue_count e3
             then e3\<lparr>re_send_queue_idx := 0\<rparr> else e3)"

definition with_registry_lock ::
    "'m mutex_ops \<Rightarrow> ('m queue_registry \<Rightarrow> 'm queue_registry) \<Rightarrow> 'm queue_registry \<Rightarrow> 'm queue_registry"
where
  "with_registry_lock mo body r =
     (let r1 = body (r\<lparr>registry_lock := mtx_lock mo (registry_lock r)\<rparr>)
      in r1\<lparr>registry_lock := mtx_unlock mo (registry_lock r1)\<rparr>)"

definition register_locked :: "u32 \<Rightarrow> ptr \<Rightarrow> 'm queue_registry \<Rightarrow> 'm queue_registry" where
  "register_locked tid q r =
     (case find_or_create_registry_entry tid r of
        (None, r1) \<Rightarrow> r1
      | (Some i, r1) \<Rightarrow>
          r1\<lparr>task_registry := (task_registry r1)[i := entry_add q (task_registry r1 ! i)]\<rparr>)"

definition register_task_queue ::
    "'m mutex_ops \<Rightarrow> u32 \<Rightarrow> ptr \<Rightarrow> 'm queue_registry \<Rightarrow> 'm queue_registry" where
  "register_task_queue mo tid q r =
     (let r0 = init_queue_registry mo r
      in if q = NULL then r0 else with_registry_lock mo (register_locked tid q) r0)"

definition unregister_locked :: "u32 \<Rightarrow> ptr \<Rightarrow> 'm queue_registry \<Rightarrow> 'm queue_registry" where
  "unregister_locked tid q r =
     (case find_registry_entry tid r of
        None \<Rightarrow> r
      | Some i \<Rightarrow>
          r\<lparr>task_registry := (task_registry r)[i := entry_remove q (task_registry r ! i)]\<rparr>)"

definition unregister_task_queue ::
    "'m mutex_ops \<Rightarrow> u32 \<Rightarrow> ptr \<Rightarrow> 'm queue_registry \<Rightarrow> 'm queue_registry" where
  "unregister_task_queue mo tid q r =
     (if \<not> registry_initialized r \<or> q = NULL then r
      else with_registry_lock mo (unregister_locked tid q) r)"

definition lookup_entry :: "int \<Rightarrow> queue_registry_entry \<Rightarrow> ptr" where
  "lookup_entry mode e =
     (if re_queue_count e > 0
      then if mode = QUEUE_LOOKUP_RECEIVE then re_queues e ! re_recv_queue_idx e
           else if mode = QUEUE_LOOKUP_SEND then re_queues e ! re_send_queue_idx e
           else if mode = QUEUE_LOOKUP_ANY then re_queues e ! 0
           else NULL
      else NULL)"

definition find_task_queue ::
    "'m mutex_ops \<Rightarrow> u32 \<Rightarrow> int \<Rightarrow> 'm queue_registry \<Rightarrow> ptr \<times> 'm queue_registry" where
  "find_task_queue mo tid mode r =
     (let r0 = init_queue_registry mo r
      in (case find_registry_entry tid r0 of
            None \<Rightarrow> NULL
          | Some i \<Rightarrow> lookup_entry mode (task_registry r0 ! i),
          with_registry_lock mo (\<lambda>r1. r1) r0))"

definition get_current_task_queue ::
    "'m mutex_ops \<Rightarrow> u32 \<Rightarrow> int \<Rightarrow> 'm queue_registry \<Rightarrow> ptr \<times> 'm queue_registry" where
  "get_current_task_queue mo current_id mode r = find_task_queue mo current_id mode r"

definition cleanup_locked :: "u32 \<Rightarrow> 'm queue_registry \<Rightarrow> 'm queue_registry" where
  "cleanup_locked tid r =
     (case find_registry_entry tid r of
        None \<Rightarrow> r
      | Some i \<Rightarrow>
          let r1 = (if i < registry_entry_count r - 1
                    then r\<lparr>task_registry :=
                           array_delete i (registry_entry_count r) (task_registry r)\<rparr>
                    else r)
          in r1\<lparr>registry_entry_count := registry_entry_count r1 - 1\<rparr>)"

definition cleanup_task_queues :: "'m mutex_ops \<Rightarrow> u32 \<Rightarrow> 'm queue_registry \<Rightarrow> 'm queue_registry" where
  "cleanup_task_queues mo tid r =
     (if \<not> registry_initialized r then r else with_registry_lock mo (cleanup_locked tid) r)"

section \<open>The registry as a map from tasks to queues\<close>

definition entry_ok :: "queue_registry_entry \<Rightarrow> bool" where
  "entry_ok e \<longleftrightarrow>
     re_queue_count e \<le> MAX_TASK_QUEUES \<and> re_recv_queue_idx e = 0 \<and> re_send_queue_idx e = 0 \<and>
     distinct (entry_queues e) \<and> NULL \<notin> set (entry_queues e)"

definition used_entries :: "'m queue_registry \<Rightarrow> queue_registry_entry list" where
  "used_entries r = (if registry_initialized r then take (registry_entry_count r) (task_registry r) else [])"

definition registry_inv :: "'m queue_registry \<Rightarrow> bool" where
  "registry_inv r \<longleftrightarrow>
     (registry_initialized r \<longrightarrow>
        length (task_registry r) = MAX_REGISTERED_TASKS \<and>
        registry_entry_count r \<le> MAX_REGISTERED_TASKS \<and>
        distinct (map re_task_id (used_entries r)) \<and>
        (\<forall>e \<in> set (used_entries r). entry_ok e) \<and>
        (\<forall>e \<in> set (task_registry r). length (re_queues e) = MAX_TASK_QUEUES))"

definition registry_assoc :: "'m queue_registry \<Rightarrow> (u32 \<times> ptr list) list" where
  "registry_assoc r = map (\<lambda>e. (re_task_id e, entry_queues e)) (used_entries r)"

definition registry_map :: "'m queue_registry \<Rightarrow> u32 \<rightharpoonup> ptr list" where
  "registry_map r = map_of (registry_assoc r)"

text \<open>What the operations promise, on the map.\<close>

definition spec_register :: "u32 \<Rightarrow> ptr \<Rightarrow> (u32 \<rightharpoonup> ptr list) \<Rightarrow> u32 \<rightharpoonup> ptr list" where
  "spec_register t q a =
     (if q = NULL then a
      else case a t of
        None \<Rightarrow> if card (dom a) < MAX_REGISTERED_TASKS then a(t \<mapsto> [q]) else a
      | Some qs \<Rightarrow> if q \<in> set qs \<or> length qs \<ge> MAX_TASK_QUEUES then a else a(t \<mapsto> qs @ [q]))"

definition spec_unregister :: "u32 \<Rightarrow> ptr \<Rightarrow> (u32 \<rightharpoonup> ptr list) \<Rightarrow> u32 \<rightharpoonup> ptr list" where
  "spec_unregister t q a = (case a t of None \<Rightarrow> a | Some qs \<Rightarrow> a(t \<mapsto> remove1 q qs))"

definition spec_find :: "u32 \<Rightarrow> int \<Rightarrow> (u32 \<rightharpoonup> ptr list) \<Rightarrow> ptr" where
  "spec_find t mode a =
     (case a t of
        Some (q # qs) \<Rightarrow> if mode \<in> {1, 2, 3} then q else NULL
      | _ \<Rightarrow> NULL)"

lemmas lookup_modes = QUEUE_LOOKUP_SEND_def QUEUE_LOOKUP_RECEIVE_def QUEUE_LOOKUP_ANY_def

lemma used_entries_lock [simp]: "used_entries (r\<lparr>registry_lock := l\<rparr>) = used_entries r"
  by (simp add: used_entries_def)

lemma find_registry_entry_lock [simp]:
  "find_registry_entry t (r\<lparr>registry_lock := l\<rparr>) = find_registry_entry t r"
  by (simp add: find_registry_entry_def)

lemma registry_inv_lock [simp]: "registry_inv (r\<lparr>registry_lock := l\<rparr>) = registry_inv r"
  by (simp add: registry_inv_def)

lemma registry_map_lock [simp]: "registry_map (r\<lparr>registry_lock := l\<rparr>) = registry_map r"
  by (simp add: registry_map_def registry_assoc_def)

lemma used_entries_init [simp]:
  "used_entries (init_queue_registry mo r) = used_entries r"
  "registry_initialized (init_queue_registry mo r)"
  by (auto simp: used_entries_def init_queue_registry_def)

lemma registry_map_init [simp]: "registry_map (init_queue_registry mo r) = registry_map r"
  by (simp add: registry_map_def registry_assoc_def)

lemma registry_inv_init: "registry_inv r \<Longrightarrow> registry_inv (init_queue_registry mo r)"
  by (auto simp: registry_inv_def init_queue_registry_def used_entries_def zero_entry_def
      entry_ok_def)

lemma find_entry_used:
  "registry_initialized r \<Longrightarrow>
   find_registry_entry t r = scan_from (\<lambda>e. re_task_id e = t) (used_entries r) 0"
  by (simp add: find_registry_entry_def used_entries_def)

lemma find_entry_None:
  "registry_initialized r \<Longrightarrow> find_registry_entry t r = None \<longleftrightarrow> registry_map r t = None"
  by (auto simp: find_entry_used scan_from_None registry_map_def registry_assoc_def
      map_of_eq_None_iff image_image)

lemma find_entry_Some:
  assumes "registry_inv r" "registry_initialized r" "find_registry_entry t r = Some i"
  shows "i < length (used_entries r) \<and> re_task_id (used_entries r ! i) = t \<and>
         i < registry_entry_count r \<and> used_entries r ! i = task_registry r ! i \<and>
         entry_ok (task_registry r ! i) \<and> length (re_queues (task_registry r ! i)) = MAX_TASK_QUEUES \<and>
         registry_map r t = Some (entry_queues (task_registry r ! i))"
proof -
  have i: "i < length (used_entries r)" "re_task_id (used_entries r ! i) = t"
    using assms by (auto simp: find_entry_used scan_from_Some)
  moreover have "registry_map r t = Some (entry_queues (used_entries r ! i))"
    unfolding registry_map_def registry_assoc_def
    using assms i by (intro map_of_is_SomeI)
      (auto simp: registry_inv_def comp_def in_set_conv_nth intro!: exI [of _ i])
  moreover have "entry_ok (used_entries r ! i)"
    using assms i by (auto simp: registry_inv_def)
  ultimately show ?thesis
    using assms by (auto simp: used_entries_def registry_inv_def)
qed

lemma card_dom_registry:
  assumes "registry_inv r" "registry_initialized r"
  shows "card (dom (registry_map r)) = registry_entry_count r"
proof -
  have "dom (registry_map r) = set (map re_task_id (used_entries r))"
    by (simp add: registry_map_def registry_assoc_def dom_map_of_conv_image_fst image_image)
  moreover have "card (set (map re_task_id (used_entries r))) = length (map re_task_id (used_entries r))"
    using assms by (intro distinct_card) (simp add: registry_inv_def)
  ultimately show ?thesis
    using assms by (simp add: registry_inv_def used_entries_def)
qed

section \<open>Each operation on the map\<close>

lemma entry_add_spec:
  assumes "entry_ok e" "length (re_queues e) = MAX_TASK_QUEUES" "q \<noteq> NULL"
  shows "entry_ok (entry_add q e) \<and> length (re_queues (entry_add q e)) = MAX_TASK_QUEUES \<and>
         re_task_id (entry_add q e) = re_task_id e \<and>
         entry_queues (entry_add q e)
           = (if q \<in> set (entry_queues e) \<or> length (entry_queues e) \<ge> MAX_TASK_QUEUES
              then entry_queues e else entry_queues e @ [q])"
proof -
  have len: "length (entry_queues e) = re_queue_count e"
    using assms by (simp add: entry_queues_def entry_ok_def)
  have mem: "scan_from (\<lambda>x. x = q) (entry_queues e) 0 = None \<longleftrightarrow> q \<notin> set (entry_queues e)"
    by (auto simp: scan_from_None)
  show ?thesis
  proof (cases "q \<in> set (entry_queues e) \<or> re_queue_count e \<ge> MAX_TASK_QUEUES")
    case True
    then have "entry_add q e = e"
      using mem by (auto simp: entry_add_def)
    with True assms len show ?thesis by simp
  next
    case False
    then have "take (Suc (re_queue_count e)) ((re_queues e)[re_queue_count e := q]) = entry_queues e @ [q]"
      using assms(2) by (simp add: entry_queues_def take_Suc_conv_app_nth)
    then have eq: "entry_queues (entry_add q e) = entry_queues e @ [q]"
      using False mem by (simp add: entry_add_def Let_def entry_queues_def [of "entry_add q e"])
        (auto simp: entry_queues_def)
    moreover have "re_queue_count (entry_add q e) = Suc (re_queue_count e)"
        "re_recv_queue_idx (entry_add q e) = 0" "re_send_queue_idx (entry_add q e) = 0"
        "length (re_queues (entry_add q e)) = MAX_TASK_QUEUES"
        "re_task_id (entry_add q e) = re_task_id e"
      using False mem assms by (simp_all add: entry_add_def Let_def entry_ok_def)
    ultimately show ?thesis
      using False assms len by (simp add: entry_ok_def)
  qed
qed

lemma entry_remove_spec:
  assumes "entry_ok e" "length (re_queues e) = MAX_TASK_QUEUES"
  shows "entry_ok (entry_remove q e) \<and> length (re_queues (entry_remove q e)) = MAX_TASK_QUEUES \<and>
         re_task_id (entry_remove q e) = re_task_id e \<and>
         entry_queues (entry_remove q e) = remove1 q (entry_queues e)"
proof (cases "scan_from (\<lambda>x. x = q) (entry_queues e) 0")
  case None
  then have "remove1 q (entry_queues e) = entry_queues e"
    by (auto simp: scan_from_None intro: remove1_idem)
  with None assms show ?thesis
    by (simp add: entry_remove_def)
next
  case (Some i)
  then have i: "i < re_queue_count e"
    by (auto simp: scan_from_Some entry_queues_def)
  have cnt: "re_queue_count e \<le> length (re_queues e)"
    using assms by (simp add: entry_ok_def)
  let ?qs = "if i < re_queue_count e - 1
             then array_delete i (re_queue_count e) (re_queues e) else re_queues e"
  have r: "re_queues (entry_remove q e) = ?qs" "re_queue_count (entry_remove q e) = re_queue_count e - 1"
      "re_task_id (entry_remove q e) = re_task_id e"
      "re_recv_queue_idx (entry_remove q e) = 0" "re_send_queue_idx (entry_remove q e) = 0"
    using Some assms by (simp_all add: entry_remove_def Let_def entry_ok_def)
  have "take (re_queue_count e - 1) ?qs = take i (entry_queues e) @ drop (Suc i) (entry_queues e)"
    using i cnt take_array_delete [OF i cnt]
    by (cases "i = re_queue_count e - 1") (auto simp: entry_queues_def)
  then have q: "entry_queues (entry_remove q e) = remove1 q (entry_queues e)"
    unfolding remove1_index [OF Some, symmetric] entry_queues_def [of "entry_remove q e"] r .
  have "length ?qs = MAX_TASK_QUEUES"
    using i cnt assms(2) by simp
  moreover have "entry_ok (entry_remove q e)"
    using assms q r notin_set_remove1 [of NULL "entry_queues e"] by (auto simp: entry_ok_def)
  ultimately show ?thesis
    using q r by simp
qed

lemma registry_update_entry:
  assumes "registry_inv r" "registry_initialized r" "find_registry_entry t r = Some i"
    and "entry_ok e'" "length (re_queues e') = MAX_TASK_QUEUES" "re_task_id e' = t"
  shows "registry_inv (r\<lparr>task_registry := (task_registry r)[i := e']\<rparr>) \<and>
         registry_map (r\<lparr>task_registry := (task_registry r)[i := e']\<rparr>)
           = (registry_map r)(t \<mapsto> entry_queues e')"
proof -
  let ?r = "r\<lparr>task_registry := (task_registry r)[i := e']\<rparr>"
  note f = find_entry_Some [OF assms(1-3)]
  have u: "used_entries ?r = (used_entries r)[i := e']"
    using assms(2) by (simp add: used_entries_def take_update_swap)
  have ids: "map re_task_id (used_entries ?r) = map re_task_id (used_entries r)"
    using f assms(6) by (metis list_update_id map_update u)
  have "registry_inv ?r"
    using assms ids u
    by (auto simp: registry_inv_def dest!: set_update_subset_insert [THEN subsetD])
  moreover have "registry_map ?r = (registry_map r)(t \<mapsto> entry_queues e')"
    unfolding registry_map_def registry_assoc_def u map_update
    using f assms by (subst map_of_list_update) (auto simp: registry_inv_def comp_def)
  ultimately show ?thesis ..
qed

lemma registry_create_entry:
  fixes r r' :: "'m queue_registry"
  assumes "registry_inv r" "registry_initialized r" "find_registry_entry t r = None"
    and "registry_entry_count r < MAX_REGISTERED_TASKS"
    and "find_or_create_registry_entry t r = (i, r')"
  shows "registry_inv r' \<and> registry_initialized r' \<and> i = Some (registry_entry_count r) \<and>
         find_registry_entry t r' = i \<and> registry_map r' = (registry_map r)(t \<mapsto> [])"
proof -
  let ?n = "registry_entry_count r"
  let ?e = "(task_registry r ! ?n)\<lparr>re_task_id := t, re_queue_count := 0, re_recv_queue_idx := 0,
              re_send_queue_idx := 0\<rparr>"
  have r': "r' = r\<lparr>registry_entry_count := ?n + 1, task_registry := (task_registry r)[?n := ?e]\<rparr>"
    and i: "i = Some ?n"
    using assms(3-5) by (auto simp: find_or_create_registry_entry_def Let_def)
  have n: "?n < length (task_registry r)"
    using assms by (simp add: registry_inv_def)
  have u: "used_entries r' = used_entries r @ [?e]"
    using assms(2) n by (simp add: r' used_entries_def take_Suc_conv_app_nth)
  have new: "t \<notin> re_task_id ` set (used_entries r)"
    using assms(2,3) by (auto simp: find_entry_used scan_from_None)
  have e: "entry_queues ?e = []" "entry_ok ?e"
    by (simp_all add: entry_queues_def entry_ok_def)
  have "length (re_queues ?e) = MAX_TASK_QUEUES"
    using assms(1,2) n by (auto simp: registry_inv_def)
  then have "\<forall>e \<in> set (task_registry r'). length (re_queues e) = MAX_TASK_QUEUES"
    using assms(1,2) set_update_subset_insert [of "task_registry r" ?n ?e]
    by (auto simp: r' registry_inv_def)
  then have "registry_inv r'"
    using assms(1,2,4) new e u by (auto simp: registry_inv_def r')
  moreover have "registry_map r' = (registry_map r)(t \<mapsto> [])"
    unfolding registry_map_def registry_assoc_def u using new e(1)
    by (simp add: map_of_snoc_fresh image_image del: map_of_append)
  moreover have "find_registry_entry t r' = i"
  proof -
    have "length (used_entries r) = ?n"
      using assms n by (simp add: used_entries_def)
    then have "scan_from (\<lambda>e. re_task_id e = t) (used_entries r @ [?e]) 0 = Some ?n"
      using new by (auto simp: scan_from_Some nth_append)
    moreover have "registry_initialized r'"
      using assms(2) by (simp add: r')
    ultimately show ?thesis
      by (simp add: find_entry_used u i)
  qed
  ultimately show ?thesis
    using assms(2) i by (simp add: r')
qed

lemma register_locked_refines:
  assumes "registry_inv r" "registry_initialized r" "q \<noteq> NULL"
  shows "registry_inv (register_locked t q r) \<and>
         registry_map (register_locked t q r) = spec_register t q (registry_map r)"
proof -
  note add = entry_add_spec [OF _ _ assms(3)]
  consider (old) i where "find_registry_entry t r = Some i"
    | (full) "find_registry_entry t r = None" "registry_entry_count r \<ge> MAX_REGISTERED_TASKS"
    | (new) "find_registry_entry t r = None" "registry_entry_count r < MAX_REGISTERED_TASKS"
    by (cases "find_registry_entry t r"; cases "registry_entry_count r < MAX_REGISTERED_TASKS") auto
  then show ?thesis
  proof cases
    case old
    let ?e = "task_registry r ! i"
    have e: "entry_ok ?e" "length (re_queues ?e) = MAX_TASK_QUEUES" "re_task_id ?e = t"
      and m: "registry_map r t = Some (entry_queues ?e)"
      using find_entry_Some [OF assms(1,2) old] by metis+
    have "registry_inv (r\<lparr>task_registry := (task_registry r)[i := entry_add q ?e]\<rparr>) \<and>
         registry_map (r\<lparr>task_registry := (task_registry r)[i := entry_add q ?e]\<rparr>)
           = (registry_map r)(t \<mapsto> entry_queues (entry_add q ?e))"
      using add [OF e(1,2)] e(3) by (intro registry_update_entry [OF assms(1,2) old]) simp_all
    moreover have "(registry_map r)(t \<mapsto> entry_queues ?e) = registry_map r"
      using m by (rule fun_upd_idem)
    then have "spec_register t q (registry_map r) = (registry_map r)(t \<mapsto> entry_queues (entry_add q ?e))"
      using m add [OF e(1,2)] assms(3) by (simp add: spec_register_def)
    ultimately show ?thesis
      using old by (simp add: register_locked_def find_or_create_registry_entry_def)
  next
    case full
    moreover have "registry_map r t = None" "\<not> card (dom (registry_map r)) < MAX_REGISTERED_TASKS"
      using find_entry_None [of r t] full assms card_dom_registry [of r] by auto
    ultimately show ?thesis
      using assms by (simp add: spec_register_def register_locked_def find_or_create_registry_entry_def)
  next
    case new
    obtain i r' where c: "find_or_create_registry_entry t r = (i, r')"
      by (rule prod.exhaust)
    define n where "n = registry_entry_count r"
    note cr = registry_create_entry [OF assms(1,2) new c]
    have inv': "registry_inv r'" "registry_initialized r'" "find_registry_entry t r' = Some n"
      using cr by (simp_all add: n_def)
    let ?e = "task_registry r' ! n"
    have e: "entry_ok ?e" "length (re_queues ?e) = MAX_TASK_QUEUES" "re_task_id ?e = t"
      and m: "registry_map r' t = Some (entry_queues ?e)"
      using find_entry_Some [OF inv'] by metis+
    have "registry_inv (r'\<lparr>task_registry := (task_registry r')[n := entry_add q ?e]\<rparr>) \<and>
         registry_map (r'\<lparr>task_registry := (task_registry r')[n := entry_add q ?e]\<rparr>)
           = (registry_map r')(t \<mapsto> entry_queues (entry_add q ?e))"
      using add [OF e(1,2)] e(3) by (intro registry_update_entry [OF inv']) simp_all
    moreover have "entry_queues (entry_add q ?e) = [q]"
      using m cr add [OF e(1,2)] by (simp add: MAX_TASK_QUEUES_def)
    moreover have "registry_map r t = None" "card (dom (registry_map r)) < MAX_REGISTERED_TASKS"
      using find_entry_None [of r t] new assms card_dom_registry [of r] by auto
    moreover have "i = Some n" "registry_map r' = (registry_map r)(t \<mapsto> [])"
      using cr by (simp_all add: n_def)
    ultimately show ?thesis
      using c assms(3) by (simp add: spec_register_def register_locked_def)
  qed
qed

lemma unregister_locked_refines:
  assumes "registry_inv r" "registry_initialized r"
  shows "registry_inv (unregister_locked t q r) \<and>
         registry_map (unregister_locked t q r) = spec_unregister t q (registry_map r)"
proof (cases "find_registry_entry t r")
  case None
  then show ?thesis
    using find_entry_None [OF assms(2), of t] assms by (simp add: unregister_locked_def spec_unregister_def)
next
  case (Some i)
  note f = find_entry_Some [OF assms Some]
  let ?e = "task_registry r ! i"
  have "registry_inv (r\<lparr>task_registry := (task_registry r)[i := entry_remove q ?e]\<rparr>) \<and>
        registry_map (r\<lparr>task_registry := (task_registry r)[i := entry_remove q ?e]\<rparr>)
          = (registry_map r)(t \<mapsto> entry_queues (entry_remove q ?e))"
    using entry_remove_spec f by (intro registry_update_entry [OF assms Some]) auto
  then show ?thesis
    using Some f entry_remove_spec [of ?e q] by (simp add: unregister_locked_def spec_unregister_def)
qed

lemma cleanup_locked_refines:
  assumes "registry_inv r" "registry_initialized r"
  shows "registry_inv (cleanup_locked t r) \<and>
         registry_map (cleanup_locked t r) = (registry_map r)(t := None)"
proof (cases "find_registry_entry t r")
  case None
  then show ?thesis
    using find_entry_None [OF assms(2), of t] assms by (simp add: cleanup_locked_def fun_upd_idem)
next
  case (Some i)
  note f = find_entry_Some [OF assms Some]
  then have f1: "i < length (used_entries r)" "re_task_id (used_entries r ! i) = t"
    by blast+
  define n where "n = registry_entry_count r"
  define reg where "reg = (if i < n - 1 then array_delete i n (task_registry r) else task_registry r)"
  define r' where "r' = r\<lparr>task_registry := reg, registry_entry_count := n - 1\<rparr>"
  have n: "i < n" "n \<le> length (task_registry r)"
    using assms f by (auto simp: registry_inv_def n_def)
  have c: "cleanup_locked t r = r'"
    using Some by (simp add: cleanup_locked_def Let_def r'_def reg_def n_def)
  have "take (n - 1) reg = take i (take n (task_registry r)) @ drop (Suc i) (take n (task_registry r))"
    using n take_array_delete [OF n] by (cases "i = n - 1") (auto simp: reg_def)
  then have u: "used_entries r' = take i (used_entries r) @ drop (Suc i) (used_entries r)"
    using assms(2) by (simp add: used_entries_def r'_def n_def)
  have d: "distinct (map re_task_id (used_entries r))"
    using assms by (simp add: registry_inv_def)
  have "distinct (map re_task_id (used_entries r'))"
    unfolding u using distinct_skip [OF d, of i] by (simp add: take_map drop_map)
  moreover have "\<forall>e \<in> set (used_entries r'). entry_ok e"
    unfolding u using assms by (auto simp: registry_inv_def dest: in_set_takeD in_set_dropD)
  moreover have "\<forall>e \<in> set reg. length (re_queues e) = MAX_TASK_QUEUES" "length reg = MAX_REGISTERED_TASKS"
    using assms n
    by (auto simp: registry_inv_def reg_def array_delete_def dest: in_set_takeD in_set_dropD)
  ultimately have "registry_inv r'"
    using assms n by (auto simp: registry_inv_def r'_def n_def)
  moreover have "registry_map r' = (registry_map r)(t := None)"
    unfolding registry_map_def using map_of_delete [of "registry_assoc r" i] d f1
    by (simp add: registry_assoc_def u comp_def take_map drop_map)
  ultimately show ?thesis
    by (simp add: c)
qed

lemma with_registry_lock_refines:
  assumes "registry_inv r" "registry_initialized r"
    and "\<And>r. registry_inv r \<Longrightarrow> registry_initialized r \<Longrightarrow>
           registry_inv (body r) \<and> registry_map (body r) = g (registry_map r)"
  shows "registry_inv (with_registry_lock mo body r) \<and>
         registry_map (with_registry_lock mo body r) = g (registry_map r)"
  using assms(1,2) assms(3) [of "r\<lparr>registry_lock := mtx_lock mo (registry_lock r)\<rparr>"]
  by (simp add: with_registry_lock_def Let_def)

lemma register_refines:
  assumes "registry_inv r"
  shows "registry_inv (register_task_queue mo t q r) \<and>
         registry_map (register_task_queue mo t q r) = spec_register t q (registry_map r)"
proof (cases "q = NULL")
  case True
  with assms show ?thesis
    by (simp add: register_task_queue_def spec_register_def registry_inv_init)
next
  case False
  then have "registry_inv (with_registry_lock mo (register_locked t q) (init_queue_registry mo r)) \<and>
      registry_map (with_registry_lock mo (register_locked t q) (init_queue_registry mo r))
        = spec_register t q (registry_map (init_queue_registry mo r))"
    using registry_inv_init [OF assms]
    by (intro with_registry_lock_refines register_locked_refines) auto
  with False show ?thesis
    by (simp add: register_task_queue_def)
qed

lemma uninitialized_map: "\<not> registry_initialized r \<Longrightarrow> registry_map r = Map.empty"
  by (simp add: registry_map_def registry_assoc_def used_entries_def)

lemma unregister_refines:
  assumes "registry_inv r"
  shows "registry_inv (unregister_task_queue mo t q r) \<and>
         registry_map (unregister_task_queue mo t q r)
           = (if q = NULL then registry_map r else spec_unregister t q (registry_map r))"
  using assms with_registry_lock_refines [of r "unregister_locked t q" "spec_unregister t q" mo]
    unregister_locked_refines [of _ t q]
  by (auto simp: unregister_task_queue_def spec_unregister_def uninitialized_map)

lemma cleanup_refines:
  assumes "registry_inv r"
  shows "registry_inv (cleanup_task_queues mo t r) \<and>
         registry_map (cleanup_task_queues mo t r) = (registry_map r)(t := None)"
  using assms with_registry_lock_refines [of r "cleanup_locked t" "\<lambda>a. a(t := None)" mo]
    cleanup_locked_refines [of _ t]
  by (auto simp: cleanup_task_queues_def uninitialized_map)

lemma lookup_entry_spec:
  assumes "entry_ok e" "length (re_queues e) = MAX_TASK_QUEUES"
  shows "lookup_entry mode e = (case entry_queues e of [] \<Rightarrow> NULL | q # _ \<Rightarrow> if mode \<in> {1, 2, 3} then q else NULL)"
  using assms by (cases "re_queues e"; cases "re_queue_count e")
    (auto simp: lookup_entry_def entry_ok_def entry_queues_def lookup_modes MAX_TASK_QUEUES_def)

lemma find_task_queue_refines:
  assumes "registry_inv r"
  shows "fst (find_task_queue mo t mode r) = spec_find t mode (registry_map r) \<and>
         registry_inv (snd (find_task_queue mo t mode r)) \<and>
         registry_map (snd (find_task_queue mo t mode r)) = registry_map r"
proof -
  define r0 where "r0 = init_queue_registry mo r"
  have inv: "registry_inv r0" "registry_initialized r0"
    using registry_inv_init [OF assms] by (simp_all add: r0_def)
  have m: "registry_map r0 = registry_map r"
    by (simp add: r0_def)
  have "fst (find_task_queue mo t mode r) = spec_find t mode (registry_map r0)"
  proof (cases "find_registry_entry t r0")
    case None
    moreover have "registry_map r0 t = None"
      using None find_entry_None [OF inv(2)] by blast
    ultimately show ?thesis
      by (simp add: find_task_queue_def r0_def [symmetric] Let_def spec_find_def)
  next
    case (Some i)
    then show ?thesis
      using find_entry_Some [OF inv Some] lookup_entry_spec [of "task_registry r0 ! i" mode]
      by (simp add: find_task_queue_def r0_def [symmetric] Let_def spec_find_def)
  qed
  then show ?thesis
    using inv m by (simp add: find_task_queue_def r0_def [symmetric] Let_def with_registry_lock_def)
qed

section \<open>The directory interface\<close>

text \<open>
  What a client of the registry relies on: the operations act on a map from tasks to lists of
  queues, and a lookup reads that map.
\<close>

locale queue_directory =
  fixes inv :: "'r \<Rightarrow> bool"
    and dir :: "'r \<Rightarrow> u32 \<rightharpoonup> ptr list"
    and reg :: "u32 \<Rightarrow> ptr \<Rightarrow> 'r \<Rightarrow> 'r"
    and unreg :: "u32 \<Rightarrow> ptr \<Rightarrow> 'r \<Rightarrow> 'r"
    and drop_task :: "u32 \<Rightarrow> 'r \<Rightarrow> 'r"
    and find :: "u32 \<Rightarrow> int \<Rightarrow> 'r \<Rightarrow> ptr"
  assumes reg_law: "inv r \<Longrightarrow> inv (reg t q r) \<and> dir (reg t q r) = spec_register t q (dir r)"
    and unreg_law: "inv r \<Longrightarrow> inv (unreg t q r) \<and>
          dir (unreg t q r) = (if q = NULL then dir r else spec_unregister t q (dir r))"
    and drop_law: "inv r \<Longrightarrow> inv (drop_task t r) \<and> dir (drop_task t r) = (dir r)(t := None)"
    and find_law: "inv r \<Longrightarrow> find t mode r = spec_find t mode (dir r)"
begin

lemma find_registered:
  assumes "inv r" "dir r t = None" "card (dom (dir r)) < MAX_REGISTERED_TASKS" "q \<noteq> NULL"
    "mode \<in> {1, 2, 3}"
  shows "find t mode (reg t q r) = q"
  using assms by (simp add: reg_law find_law spec_register_def spec_find_def)

lemma find_after_drop: "inv r \<Longrightarrow> find t mode (drop_task t r) = NULL"
  by (simp add: drop_law find_law spec_find_def)

lemma find_modes_agree:
  "inv r \<Longrightarrow> mode \<in> {1, 2, 3} \<Longrightarrow> mode' \<in> {1, 2, 3} \<Longrightarrow> find t mode r = find t mode' r"
  by (auto simp: find_law spec_find_def split: option.splits list.splits)

end

interpretation rq: queue_directory registry_inv registry_map "register_task_queue mo"
    "unregister_task_queue mo" "cleanup_task_queues mo" "\<lambda>t mode r. fst (find_task_queue mo t mode r)"
  for mo
  by unfold_locales (simp_all add: register_refines unregister_refines cleanup_refines
      find_task_queue_refines)

text \<open>Sequences of registry calls, on the arrays and on the map.\<close>

datatype registry_op = Register u32 ptr | Unregister u32 ptr | Cleanup u32

definition registry_step :: "'m mutex_ops \<Rightarrow> registry_op \<Rightarrow> 'm queue_registry \<Rightarrow> 'm queue_registry" where
  "registry_step mo op r =
     (case op of
        Register t q \<Rightarrow> register_task_queue mo t q r
      | Unregister t q \<Rightarrow> unregister_task_queue mo t q r
      | Cleanup t \<Rightarrow> cleanup_task_queues mo t r)"

definition spec_step :: "registry_op \<Rightarrow> (u32 \<rightharpoonup> ptr list) \<Rightarrow> u32 \<rightharpoonup> ptr list" where
  "spec_step op a =
     (case op of
        Register t q \<Rightarrow> spec_register t q a
      | Unregister t q \<Rightarrow> if q = NULL then a else spec_unregister t q a
      | Cleanup t \<Rightarrow> a(t := None))"

definition registry_boot :: "'m \<Rightarrow> 'm queue_registry" where
  "registry_boot l = \<lparr>registry_lock = l, task_registry = replicate MAX_REGISTERED_TASKS zero_entry,
                      registry_entry_count = 0, registry_initialized = False\<rparr>"

lemma registry_boot_inv [simp]: "registry_inv (registry_boot l)"
  by (simp add: registry_inv_def registry_boot_def)

lemma registry_boot_map [simp]: "registry_map (registry_boot l) = Map.empty"
  by (simp add: uninitialized_map registry_boot_def)

lemma registry_step_refines:
  "registry_inv r \<Longrightarrow>
   registry_inv (registry_step mo op r) \<and> registry_map (registry_step mo op r) = spec_step op (registry_map r)"
  by (cases op) (simp_all add: registry_step_def spec_step_def rq.reg_law rq.unreg_law rq.drop_law)

lemma registry_run_refines:
  "registry_inv r \<Longrightarrow>
   registry_inv (fold (registry_step mo) ops r) \<and>
   registry_map (fold (registry_step mo) ops r) = fold spec_step ops (registry_map r)"
  by (induction ops arbitrary: r) (simp_all add: registry_step_refines)

section \<open>Properties\<close>

text \<open>
  C6. The registry implements a bounded map from tasks to lists of queues: after any sequence of
  register, unregister and cleanup calls from the boot state, every lookup returns the first queue of
  the list that the same sequence builds on the map.
\<close>

theorem registry_implements_map:
  "fst (find_task_queue mo t mode (fold (registry_step mo) ops (registry_boot l)))
     = spec_find t mode (fold spec_step ops Map.empty)"
  using registry_run_refines [of "registry_boot l" mo ops] by (simp add: rq.find_law)

text \<open>
  The send and the receive lookup never differ: no operation moves the default indices away
  from 0, so after any sequence of calls both modes return the same queue.
\<close>

theorem lookup_send_is_receive:
  "fst (find_task_queue mo t QUEUE_LOOKUP_SEND (fold (registry_step mo) ops (registry_boot l)))
     = fst (find_task_queue mo t QUEUE_LOOKUP_RECEIVE (fold (registry_step mo) ops (registry_boot l)))"
  using registry_run_refines [of "registry_boot l" mo ops]
  by (intro rq.find_modes_agree) (simp_all add: lookup_modes)

end
