(* ===== verification/Ipc_Stats.thy ===== *)
theory Ipc_Stats
  imports Kernel_Prelude
begin

text \<open>
  The IPC statistics of \<^verbatim>\<open>kernel/ipc_init.c\<close> and the object types of
  \<^verbatim>\<open>include/edgex/ipc/common.h\<close>.
\<close>

definition MAX_IPC_NAME_LENGTH :: nat where
  "MAX_IPC_NAME_LENGTH = 64"

definition IPC_STAT_OBJECT_CREATED :: int where "IPC_STAT_OBJECT_CREATED = 1"
definition IPC_STAT_OBJECT_DESTROYED :: int where "IPC_STAT_OBJECT_DESTROYED = 2"

datatype ipc_object_type =
    IPC_TYPE_MUTEX | IPC_TYPE_SEMAPHORE | IPC_TYPE_EVENT | IPC_TYPE_EVENT_SET
  | IPC_TYPE_MESSAGE_QUEUE | IPC_TYPE_SHARED_MEMORY

record ipc_stats =
  ipc_objects_created :: u64
  ipc_objects_destroyed :: u64
  mutex_count :: u32
  semaphore_count :: u32
  event_count :: u32
  event_set_count :: u32
  message_queue_count :: u32
  shared_memory_count :: u32
  mutex_operations :: u64
  semaphore_operations :: u64
  event_operations :: u64
  message_operations :: u64
  shared_memory_operations :: u64
  total_wait_time :: u64
  active_waiters :: u32
  stat_timeouts :: u32
  allocation_failures :: u32
  permission_failures :: u32
  timeout_failures :: u32

definition init_ipc_stats :: ipc_stats where
  "init_ipc_stats =
     \<lparr>ipc_objects_created = 0, ipc_objects_destroyed = 0, mutex_count = 0, semaphore_count = 0,
      event_count = 0, event_set_count = 0, message_queue_count = 0, shared_memory_count = 0,
      mutex_operations = 0, semaphore_operations = 0, event_operations = 0, message_operations = 0,
      shared_memory_operations = 0, total_wait_time = 0, active_waiters = 0, stat_timeouts = 0,
      allocation_failures = 0, permission_failures = 0, timeout_failures = 0\<rparr>"

text \<open>The argument \<^verbatim>\<open>value\<close> is not used by the code.\<close>

definition update_ipc_stats :: "int \<Rightarrow> int \<Rightarrow> ipc_stats \<Rightarrow> ipc_stats" where
  "update_ipc_stats stat_type v st =
     (if stat_type = IPC_STAT_OBJECT_CREATED
      then st\<lparr>ipc_objects_created := ipc_objects_created st + 1\<rparr>
      else if stat_type = IPC_STAT_OBJECT_DESTROYED
      then st\<lparr>ipc_objects_destroyed := ipc_objects_destroyed st + 1\<rparr>
      else st)"

end
