(* ===== verification/Kernel_Heap.thy ===== *)
theory Kernel_Heap
  imports Kernel_Prelude
begin

text \<open>
  The kernel heap and the byte operations of \<^verbatim>\<open>kernel/memory.c\<close> (lines 296--385).
  Memory is a function from addresses to bytes; the heap state \<open>kheap\<close> holds the two static
  variables of \<^verbatim>\<open>kmalloc\<close>. Address arithmetic wraps at 64 bits as in the code.
\<close>

section \<open>Byte operations\<close>

type_synonym bytes = "u64 \<Rightarrow> u8"

definition memset :: "ptr \<Rightarrow> u8 \<Rightarrow> u64 \<Rightarrow> bytes \<Rightarrow> bytes" where
  "memset s c n mem = fold (\<lambda>i b. b(s + of_nat i := c)) [0 ..< unat n] mem"

definition copy_byte :: "ptr \<Rightarrow> ptr \<Rightarrow> nat \<Rightarrow> bytes \<Rightarrow> bytes" where
  "copy_byte d s i b = b(d + of_nat i := b (s + of_nat i))"

definition memcpy :: "ptr \<Rightarrow> ptr \<Rightarrow> u64 \<Rightarrow> bytes \<Rightarrow> bytes" where
  "memcpy dest src n mem = fold (copy_byte dest src) [0 ..< unat n] mem"

text \<open>The loop of \<^verbatim>\<open>memcmp\<close> from index \<open>i\<close> with \<open>k\<close> bytes to go.\<close>

fun memcmp_from :: "ptr \<Rightarrow> ptr \<Rightarrow> nat \<Rightarrow> nat \<Rightarrow> bytes \<Rightarrow> int" where
  "memcmp_from s1 s2 i 0 mem = 0"
| "memcmp_from s1 s2 i (Suc k) mem =
     (let a = mem (s1 + of_nat i); b = mem (s2 + of_nat i)
      in if a \<noteq> b then uint a - uint b else memcmp_from s1 s2 (Suc i) k mem)"

definition memcmp :: "ptr \<Rightarrow> ptr \<Rightarrow> u64 \<Rightarrow> bytes \<Rightarrow> int" where
  "memcmp s1 s2 n mem = memcmp_from s1 s2 0 (unat n) mem"

definition memmove :: "ptr \<Rightarrow> ptr \<Rightarrow> u64 \<Rightarrow> bytes \<Rightarrow> bytes" where
  "memmove dest src n mem =
     (if dest < src then fold (copy_byte dest src) [0 ..< unat n] mem
      else if dest > src then fold (copy_byte dest src) (rev [0 ..< unat n]) mem
      else mem)"

section \<open>The kernel heap\<close>

definition HEAP_START :: u64 where "HEAP_START = 0xFFFFFFFF90000000"
definition HEAP_SIZE :: u64 where "HEAP_SIZE = 16 * 1024 * 1024"

record kheap =
  next_addr :: u64
  remaining :: u64

definition kheap_boot :: kheap where
  "kheap_boot = \<lparr>next_addr = HEAP_START, remaining = HEAP_SIZE\<rparr>"

definition kmalloc :: "u64 \<Rightarrow> kheap \<Rightarrow> ptr \<times> kheap" where
  "kmalloc sz h =
     (let sz' = align16 sz
      in if sz' > remaining h then (NULL, h)
         else (next_addr h, \<lparr>next_addr = next_addr h + sz', remaining = remaining h - sz'\<rparr>))"

definition kzalloc :: "u64 \<Rightarrow> kheap \<Rightarrow> bytes \<Rightarrow> ptr \<times> kheap \<times> bytes" where
  "kzalloc sz h mem =
     (let (p, h') = kmalloc sz h
      in (p, h', if p \<noteq> NULL then fold (\<lambda>i b. b(p + of_nat i := 0)) [0 ..< unat sz] mem else mem))"

definition kfree :: "ptr \<Rightarrow> kheap \<Rightarrow> kheap" where
  "kfree p h = h"

section \<open>Lemmas: copying\<close>

text \<open>The byte range of an object does not wrap around the address space.\<close>

definition no_wrap :: "ptr \<Rightarrow> u64 \<Rightarrow> bool" where
  "no_wrap p n \<longleftrightarrow> unat p + unat n \<le> 2 ^ 64"

lemma no_wrap_unat:
  "no_wrap p n \<Longrightarrow> i < unat n \<Longrightarrow> unat (p + of_nat i) = unat p + i"
  using unsigned_less [of n] by (simp add: no_wrap_def unat_word_ariths unat_of_nat)

lemma no_wrap_inj:
  "no_wrap p n \<Longrightarrow> i < unat n \<Longrightarrow> j < unat n \<Longrightarrow> p + of_nat i = p + of_nat j \<longleftrightarrow> i = j"
  by (metis add_left_cancel no_wrap_unat)

text \<open>
  A copy loop that has run over the indices \<open>is\<close>, when no index reads a byte that an
  earlier one of them has written.
\<close>

lemma fold_copy_byte:
  assumes "distinct is"
    and "inj_on (\<lambda>i. d + of_nat i) (set is)"
    and "sorted_wrt (\<lambda>i j. d + of_nat i \<noteq> s + of_nat j) is"
  shows "(\<forall>i \<in> set is. fold (copy_byte d s) is mem (d + of_nat i) = mem (s + of_nat i)) \<and>
         (\<forall>a. (\<forall>i \<in> set is. a \<noteq> d + of_nat i) \<longrightarrow> fold (copy_byte d s) is mem a = mem a)"
  using assms
proof (induction "is" arbitrary: mem)
  case Nil
  then show ?case by simp
next
  case (Cons i "is")
  have src: "copy_byte d s i mem (s + of_nat j) = mem (s + of_nat j)" if "j \<in> set is" for j
    using Cons.prems(3) that by (auto simp: copy_byte_def)
  have IH: "(\<forall>j \<in> set is. fold (copy_byte d s) is (copy_byte d s i mem) (d + of_nat j)
                          = copy_byte d s i mem (s + of_nat j)) \<and>
        (\<forall>a. (\<forall>j \<in> set is. a \<noteq> d + of_nat j) \<longrightarrow>
             fold (copy_byte d s) is (copy_byte d s i mem) a = copy_byte d s i mem a)"
    using Cons.prems by (intro Cons.IH) auto
  moreover have "\<forall>j \<in> set is. d + of_nat i \<noteq> d + of_nat j"
    using Cons.prems(1,2) by (auto simp: inj_on_def)
  ultimately show ?case
    using src by (auto simp: copy_byte_def [of d s i mem])
qed

lemma memmove_sorted_forward:
  assumes "no_wrap dest n" "no_wrap src n" "dest < src"
  shows "sorted_wrt (\<lambda>i j. dest + of_nat i \<noteq> src + of_nat j) [0 ..< unat n]"
proof (rule sorted_wrt_mono_rel [OF _ sorted_wrt_upt])
  fix i j assume "i \<in> set [0 ..< unat n]" "j \<in> set [0 ..< unat n]" "i < j"
  then show "dest + of_nat i \<noteq> src + of_nat j"
    using assms by (auto simp: word_less_nat_alt no_wrap_unat dest!: arg_cong [of _ _ unat])
qed

lemma memmove_sorted_backward:
  assumes "no_wrap dest n" "no_wrap src n" "src < dest"
  shows "sorted_wrt (\<lambda>i j. dest + of_nat i \<noteq> src + of_nat j) (rev [0 ..< unat n])"
  unfolding sorted_wrt_rev
proof (rule sorted_wrt_mono_rel [OF _ sorted_wrt_upt])
  fix i j assume "i \<in> set [0 ..< unat n]" "j \<in> set [0 ..< unat n]" "i < j"
  then show "dest + of_nat j \<noteq> src + of_nat i"
    using assms by (auto simp: word_less_nat_alt no_wrap_unat dest!: arg_cong [of _ _ unat])
qed

lemma fold_set_byte:
  "fold (\<lambda>i b. b(s + of_nat i := c)) [0 ..< k] mem a =
     (if \<exists>i < k. a = s + of_nat i then c else mem a)"
  by (induction k) (auto simp: less_Suc_eq)

section \<open>Lemmas: the heap\<close>

text \<open>The bump pointer stays 16-aligned and \<open>remaining\<close> is the distance to the end.\<close>

definition kheap_inv :: "kheap \<Rightarrow> bool" where
  "kheap_inv h \<longleftrightarrow>
     unat HEAP_START \<le> unat (next_addr h) \<and>
     unat (next_addr h) + unat (remaining h) = unat HEAP_START + unat HEAP_SIZE \<and>
     16 dvd unat (next_addr h)"

lemma kheap_boot_inv: "kheap_inv kheap_boot"
  by (simp add: kheap_inv_def kheap_boot_def HEAP_START_def HEAP_SIZE_def)

lemma kmalloc_NULL: "kmalloc sz h = (NULL, h') \<Longrightarrow> kheap_inv h \<Longrightarrow> h' = h"
  by (auto simp: kmalloc_def Let_def kheap_inv_def HEAP_START_def split: if_splits)

lemma kmalloc_Some:
  assumes "kheap_inv h" "kmalloc sz h = (p, h')" "p \<noteq> NULL"
  shows "p = next_addr h \<and> kheap_inv h' \<and>
         unat (next_addr h') = unat p + unat (align16 sz) \<and>
         unat (remaining h') = unat (remaining h) - unat (align16 sz) \<and>
         unat (align16 sz) \<le> unat (remaining h)"
proof -
  have le: "align16 sz \<le> remaining h" and p: "p = next_addr h"
    and h': "h' = \<lparr>next_addr = next_addr h + align16 sz, remaining = remaining h - align16 sz\<rparr>"
    using assms(2,3) by (auto simp: kmalloc_def Let_def split: if_splits)
  have a: "unat (next_addr h + align16 sz) = unat (next_addr h) + unat (align16 sz)"
    using assms(1) le by (simp add: unat_word_ariths kheap_inv_def HEAP_START_def HEAP_SIZE_def
        word_le_nat_alt)
  have "unat (remaining h - align16 sz) = unat (remaining h) - unat (align16 sz)"
    using le by (rule unat_sub)
  moreover have "16 dvd unat (align16 sz)"
    by (simp add: unat_align16_mod)
  ultimately show ?thesis
    using assms(1) le p h' a by (simp add: kheap_inv_def word_le_nat_alt)
qed

text \<open>A sequence of requests: every result with the size that was asked for.\<close>

fun kmalloc_list :: "u64 list \<Rightarrow> kheap \<Rightarrow> (ptr \<times> u64) list \<times> kheap" where
  "kmalloc_list [] h = ([], h)"
| "kmalloc_list (sz # szs) h =
     (let (p, h1) = kmalloc sz h; (bs, h2) = kmalloc_list szs h1 in ((p, sz) # bs, h2))"

definition live_blocks :: "(ptr \<times> u64) list \<Rightarrow> (ptr \<times> u64) list" where
  "live_blocks bs = filter (\<lambda>(p, n). p \<noteq> NULL) bs"

lemma live_blocks_Nil [simp]: "live_blocks [] = []"
  by (simp add: live_blocks_def)

lemma live_blocks_Cons [simp]:
  "live_blocks ((p, n) # bs) = (if p \<noteq> NULL then (p, n) # live_blocks bs else live_blocks bs)"
  by (simp add: live_blocks_def)

lemma unat_le_align16: "unat sz < 2 ^ 64 - 15 \<Longrightarrow> unat sz \<le> unat (align16 sz)"
  unfolding unat_align16 by arith

lemma kmalloc_list_blocks:
  assumes "kheap_inv h" "\<forall>sz \<in> set szs. unat sz < 2 ^ 64 - 15" "kmalloc_list szs h = (bs, h')"
  shows "kheap_inv h' \<and>
         sorted_wrt (\<lambda>(p, n) (q, k). unat p + unat n \<le> unat q) (live_blocks bs) \<and>
         (\<forall>(p, n) \<in> set (live_blocks bs). 16 dvd unat p \<and> unat (next_addr h) \<le> unat p \<and>
            unat p + unat n \<le> unat HEAP_START + unat HEAP_SIZE)"
  using assms
proof (induction szs arbitrary: h bs)
  case Nil
  then show ?case by (simp add: live_blocks_def)
next
  case (Cons sz szs)
  obtain p h1 where k: "kmalloc sz h = (p, h1)" by fastforce
  obtain cs where c: "kmalloc_list szs h1 = (cs, h')" and bs: "bs = (p, sz) # cs"
    using Cons.prems(3) k by (auto split: prod.splits)
  show ?case
  proof (cases "p = NULL")
    case True
    with k Cons.prems(1) have "h1 = h" by (auto dest: kmalloc_NULL)
    with True Cons c bs show ?thesis by simp
  next
    case False
    note s = kmalloc_Some [OF Cons.prems(1) k False]
    have le: "unat sz \<le> unat (align16 sz)"
      using Cons.prems(2) by (intro unat_le_align16) simp
    have IH: "kheap_inv h' \<and>
         sorted_wrt (\<lambda>(p, n) (q, k). unat p + unat n \<le> unat q) (live_blocks cs) \<and>
         (\<forall>(p, n) \<in> set (live_blocks cs). 16 dvd unat p \<and> unat (next_addr h1) \<le> unat p \<and>
            unat p + unat n \<le> unat HEAP_START + unat HEAP_SIZE)"
      using Cons.prems(2) s c by (intro Cons.IH) auto
    moreover have "16 dvd unat p \<and> unat p + unat sz \<le> unat HEAP_START + unat HEAP_SIZE"
      using s le Cons.prems(1) by (auto simp: kheap_inv_def)
    moreover have "\<forall>(q, n) \<in> set (live_blocks cs). unat p + unat sz \<le> unat q \<and> unat (next_addr h) \<le> unat q"
      using IH s le by fastforce
    ultimately show ?thesis
      using False bs s by auto
  qed
qed

lemma memcmp_from_less:
  "memcmp_from s1 s2 i k mem < 0 \<longleftrightarrow>
     (\<exists>j < k. (\<forall>l < j. mem (s1 + of_nat (i + l)) = mem (s2 + of_nat (i + l))) \<and>
            mem (s1 + of_nat (i + j)) < mem (s2 + of_nat (i + j)))"
proof (induction k arbitrary: i)
  case 0
  then show ?case by simp
next
  case (Suc k)
  have ex: "(\<exists>j < Suc k. P j) \<longleftrightarrow> P 0 \<or> (\<exists>j < k. P (Suc j))" for P
    by (auto simp: less_Suc_eq_0_disj)
  have all: "(\<forall>l < Suc j. P l) \<longleftrightarrow> P 0 \<and> (\<forall>l < j. P (Suc l))" for P and j :: nat
    by (auto simp: less_Suc_eq_0_disj)
  show ?case
    unfolding ex all using Suc.IH [of "Suc i"]
    by (auto simp: Let_def word_less_def algebra_simps)
qed

lemma memcmp_from_zero:
  "memcmp_from s1 s2 i k mem = 0 \<longleftrightarrow>
     (\<forall>j < k. mem (s1 + of_nat (i + j)) = mem (s2 + of_nat (i + j)))"
proof (induction k arbitrary: i)
  case 0
  then show ?case by simp
next
  case (Suc k)
  have all: "(\<forall>l < Suc k. P l) \<longleftrightarrow> P 0 \<and> (\<forall>l < k. P (Suc l))" for P
    by (auto simp: less_Suc_eq_0_disj)
  show ?case
    unfolding all using Suc.IH [of "Suc i"] by (simp add: Let_def algebra_simps word_uint_eq_iff)
qed

section \<open>Properties\<close>

text \<open>
  C15. Heap safety: for any sequence of requests of sizes below \<open>2 ^ 64 - 15\<close> bytes, which are those
  that do not wrap when rounded up, the blocks that \<open>kmalloc\<close> returns are 16-byte aligned, lie inside the 16 MB heap and do not overlap
  one another.
\<close>

theorem kmalloc_disjoint:
  assumes "kheap_inv h" "\<forall>sz \<in> set szs. unat sz < 2 ^ 64 - 15" "kmalloc_list szs h = (bs, h')"
  shows "sorted_wrt (\<lambda>(p, n) (q, k). unat p + unat n \<le> unat q) (live_blocks bs) \<and>
         (\<forall>(p, n) \<in> set (live_blocks bs). 16 dvd unat p \<and> unat HEAP_START \<le> unat p \<and>
            unat p + unat n \<le> unat HEAP_START + unat HEAP_SIZE)"
  using kmalloc_list_blocks [OF assms] assms(1) by (fastforce simp: kheap_inv_def)

text \<open>
  A request within 15 bytes of the size limit wraps to size 0: \<open>kmalloc\<close> reports success
  without reserving a byte, so the next block starts at the same address.
\<close>

theorem kmalloc_wraps:
  assumes "2 ^ 64 - 15 \<le> unat sz"
  shows "kmalloc sz h = (next_addr h, h)"
proof -
  have "unat sz < 2 ^ 64"
    using unsigned_less [of sz] by simp
  with assms have "(unat sz + 15) mod 2 ^ 64 < 16"
    by (simp add: le_mod_geq)
  then have "unat (sz + 15) < 16"
    by (simp add: unat_word_ariths)
  then have "align16 sz = 0"
    by (simp add: unat_eq_zero [symmetric] unat_align16_mod del: unat_eq_zero)
  then show ?thesis
    by (simp add: kmalloc_def)
qed

text \<open>
  \<open>memmove\<close> is correct on overlapping regions: afterwards the destination holds what the
  source held before, and every byte outside the destination is unchanged.
\<close>

theorem memmove_correct:
  assumes "no_wrap dest n" "no_wrap src n"
  shows "(\<forall>i < unat n. memmove dest src n mem (dest + of_nat i) = mem (src + of_nat i)) \<and>
         (\<forall>a. (\<forall>i < unat n. a \<noteq> dest + of_nat i) \<longrightarrow> memmove dest src n mem a = mem a)"
proof -
  have inj: "inj_on (\<lambda>i. dest + of_nat i) {0 ..< unat n}"
    using no_wrap_inj [OF assms(1)] by (auto intro!: inj_onI)
  consider "dest < src" | "src < dest" | "dest = src"
    using less_linear [of dest src] by blast
  then show ?thesis
  proof cases
    case 1
    with fold_copy_byte [of "[0 ..< unat n]" dest src mem] memmove_sorted_forward [OF assms 1] inj
    show ?thesis by (simp add: memmove_def)
  next
    case 2
    with fold_copy_byte [of "rev [0 ..< unat n]" dest src mem] memmove_sorted_backward [OF assms 2] inj
    show ?thesis by (simp add: memmove_def less_not_sym)
  next
    case 3
    then show ?thesis by (simp add: memmove_def)
  qed
qed

text \<open>
  \<open>memcmp\<close> compares lexicographically as unsigned bytes: it returns 0 exactly when the
  two regions agree, and a negative number exactly when the first difference is smaller on the left.
\<close>

theorem memcmp_lexicographic:
  "(memcmp s1 s2 n mem = 0 \<longleftrightarrow> (\<forall>i < unat n. mem (s1 + of_nat i) = mem (s2 + of_nat i))) \<and>
   (memcmp s1 s2 n mem < 0 \<longleftrightarrow>
      (\<exists>k < unat n. (\<forall>i < k. mem (s1 + of_nat i) = mem (s2 + of_nat i)) \<and>
                  mem (s1 + of_nat k) < mem (s2 + of_nat k)))"
  by (simp add: memcmp_def memcmp_from_less memcmp_from_zero)

section \<open>Concrete instances\<close>

theorem kmalloc_disjoint_witness:
  "live_blocks (fst (kmalloc_list [24, 0x2000000, 1] kheap_boot))
     = [(0xFFFFFFFF90000000, 24), (0xFFFFFFFF90000020, 1)] \<and>
   sorted_wrt (\<lambda>(p, n) (q, k). unat p + unat n \<le> unat q)
     (live_blocks (fst (kmalloc_list [24, 0x2000000, 1] kheap_boot)))"
proof -
  have "kmalloc_list [24, 0x2000000, 1] kheap_boot =
      ([(0xFFFFFFFF90000000, 24), (0, 0x2000000), (0xFFFFFFFF90000020, 1)],
       \<lparr>next_addr = 0xFFFFFFFF90000030, remaining = 0xFFFFD0\<rparr>)"
    by code_simp
  with kmalloc_disjoint [OF kheap_boot_inv _ this] show ?thesis
    by simp
qed

theorem kmalloc_wraps_witness: "kmalloc 0xFFFFFFFFFFFFFFFF kheap_boot = (HEAP_START, kheap_boot)"
  using kmalloc_wraps [of "0xFFFFFFFFFFFFFFFF" kheap_boot] by (simp add: kheap_boot_def)

theorem memmove_correct_witness:
  "memmove 0x1002 0x1000 4 (\<lambda>a. ucast a) 0x1005 = 3"
proof -
  have "no_wrap 0x1002 4" "no_wrap 0x1000 4"
    by (simp_all add: no_wrap_def)
  from memmove_correct [OF this, of "\<lambda>a. ucast a", THEN conjunct1, rule_format, of 3]
  show ?thesis by simp
qed

theorem memcmp_lexicographic_witness: "memcmp 1 2 3 (\<lambda>a. ucast a) < 0"
proof -
  have "\<exists>k < unat (3 :: u64). (\<forall>i < k. ucast (1 + of_nat i :: u64) = (ucast (2 + of_nat i :: u64) :: u8)) \<and>
      (ucast (1 + of_nat k :: u64) :: u8) < ucast (2 + of_nat k :: u64)"
    by (rule exI [of _ 0]) simp
  then show ?thesis
    using memcmp_lexicographic [of 1 2 3 "\<lambda>a. ucast a"] by blast
qed

end
