(* ===== verification/Message_Format.thy ===== *)
theory Message_Format
  imports Kernel_Prelude
begin

text \<open>
  Messages as \<^verbatim>\<open>include/edgex/ipc/message.h\<close> declares them, for the two message systems of
  the kernel. Both sources write \<^verbatim>\<open>header.message_id\<close> and \<^verbatim>\<open>header.timestamp\<close>;
  the structure calls the first \<^verbatim>\<open>id\<close> and keeps the second outside the header, and so does
  the record here.
\<close>

definition MAX_MESSAGE_SIZE :: u32 where "MAX_MESSAGE_SIZE = 1024"

definition MESSAGE_PRIORITY_NORMAL :: u32 where "MESSAGE_PRIORITY_NORMAL = 1"
definition MESSAGE_PRIORITY_HIGH :: u32 where "MESSAGE_PRIORITY_HIGH = 2"
definition MESSAGE_PRIORITY_URGENT :: u32 where "MESSAGE_PRIORITY_URGENT = 3"
definition MESSAGE_FLAG_BLOCKING :: u32 where "MESSAGE_FLAG_BLOCKING = 0"
definition MESSAGE_FLAG_WAIT_REPLY :: u32 where "MESSAGE_FLAG_WAIT_REPLY = 8"
definition MESSAGE_FLAG_URGENT :: u32 where "MESSAGE_FLAG_URGENT = 4"
definition MESSAGE_TYPE_RESPONSE :: u32 where "MESSAGE_TYPE_RESPONSE = 2"

record message =
  m_id :: u32
  m_sender :: u32
  m_receiver :: u32
  m_type :: u32
  m_priority :: u32
  m_flags :: u32
  m_size :: u32
  m_reply_id :: u32
  m_timestamp :: u64
  m_payload :: "u8 list"

definition SIZEOF_MESSAGE :: u64 where "SIZEOF_MESSAGE = 1064"

end
