(* ===== verification/Msg_Ring.thy ===== *)
theory Msg_Ring
  imports Queue_Registry Ipc_Stats Kernel_Heap Message_Format "HOL-Library.Monad_Syntax"
begin

text \<open>
  The message queues of \<^verbatim>\<open>kernel/ipc/message/message.c\<close>: a ring buffer of messages per queue,
  with insertion by priority, a table of all queues, replies, cleanup after a task and the timeout
  scan. Ring positions and sizes are natural numbers, which the buffer size bounds; priority and
  statistics counters are words, because the code can drive them below zero. A result \<^term>\<open>None\<close>
  stands for a call that does not return or that dereferences an address where no queue is.
  The critical sections run to completion: the calls on the
  queue's mutex are threaded through the state but never suspend.
\<close>

section \<open>Data\<close>

definition DEFAULT_MAX_QUEUE_SIZE :: u32 where "DEFAULT_MAX_QUEUE_SIZE = 64"
definition MAX_QUEUES :: nat where "MAX_QUEUES = 256"
definition QUEUE_TIMEOUT_MS :: u32 where "QUEUE_TIMEOUT_MS = 5000"

record ('m, 's) message_queue =
  q_type :: ipc_object_type
  q_name :: string
  q_ref_count :: u32
  q_lock :: 'm
  q_msg_available :: 's
  q_space_available :: 's
  q_max_size :: nat
  q_current_size :: nat
  q_head :: nat
  q_tail :: nat
  q_high_priority_count :: u32
  q_urgent_priority_count :: u32
  q_messages :: "message list"
  q_messages_sent :: u64
  q_messages_received :: u64
  q_blocked_sends :: u64
  q_blocked_receives :: u64
  q_dropped_messages :: u64
  q_timeouts :: u64

text \<open>
  The static variables of the file, together with the objects the queue handles point to
  (\<open>ms_objs\<close>) and the components the file calls: the kernel heap, the IPC statistics and
  the queue registry.
\<close>

record ('m, 's) msg_sys =
  ms_lock :: 'm
  ms_queues :: "ptr list"
  ms_num_queues :: nat
  ms_next_message_id :: u32
  ms_initialized :: bool
  ms_objs :: "ptr \<rightharpoonup> ('m, 's) message_queue"
  ms_heap :: kheap
  ms_stats :: ipc_stats
  ms_registry :: "'m queue_registry"

section \<open>The ring buffer\<close>

definition prev_idx :: "nat \<Rightarrow> nat \<Rightarrow> nat" where
  "prev_idx n p = (if p = 0 then n - 1 else p - 1)"

text \<open>
  The backward search of \<^verbatim>\<open>insert_message_by_priority\<close> with at most \<open>k\<close> steps to go:
  the position it stops at and the number of messages it passed.
\<close>

fun find_insert_pos :: "nat \<Rightarrow> u32 \<Rightarrow> message list \<Rightarrow> nat \<Rightarrow> nat \<Rightarrow> nat \<Rightarrow> nat \<times> nat" where
  "find_insert_pos n pr ms 0 pos cnt = (pos, cnt)"
| "find_insert_pos n pr ms (Suc k) pos cnt =
     (let idx = prev_idx n pos
      in if m_priority (ms ! idx) \<ge> pr then (pos, cnt)
         else find_insert_pos n pr ms k idx (Suc cnt))"

text \<open>The shifting loop \<^verbatim>\<open>while (curr != insert_pos)\<close>.\<close>

partial_function (option) shift_up :: "nat \<Rightarrow> nat \<Rightarrow> nat \<Rightarrow> message list \<Rightarrow> message list option" where
  "shift_up n ins cur ms =
     (if cur = ins then Some ms
      else shift_up n ins (prev_idx n cur) (ms[cur := ms ! prev_idx n cur]))"

definition is_high :: "u32 \<Rightarrow> bool" where
  "is_high p \<longleftrightarrow> p = MESSAGE_PRIORITY_HIGH \<or> p = MESSAGE_PRIORITY_URGENT"

definition count_insert :: "u32 \<Rightarrow> ('m, 's) message_queue \<Rightarrow> ('m, 's) message_queue" where
  "count_insert p q =
     (if p = MESSAGE_PRIORITY_HIGH then q\<lparr>q_high_priority_count := q_high_priority_count q + 1\<rparr>
      else if p = MESSAGE_PRIORITY_URGENT
      then q\<lparr>q_urgent_priority_count := q_urgent_priority_count q + 1\<rparr>
      else q)"

definition count_remove :: "u32 \<Rightarrow> ('m, 's) message_queue \<Rightarrow> ('m, 's) message_queue" where
  "count_remove p q =
     (if p = MESSAGE_PRIORITY_URGENT
      then q\<lparr>q_urgent_priority_count := q_urgent_priority_count q - 1\<rparr>
      else if p = MESSAGE_PRIORITY_HIGH
      then q\<lparr>q_high_priority_count := q_high_priority_count q - 1\<rparr>
      else q)"

definition insert_message_by_priority ::
    "message \<Rightarrow> ('m, 's) message_queue \<Rightarrow> ((errno + unit) \<times> ('m, 's) message_queue) option" where
  "insert_message_by_priority msg q =
     (if q_current_size q \<ge> q_max_size q then Some (Inl EAGAIN, q)
      else
        let n = q_max_size q;
            (pos, cnt) = find_insert_pos n (m_priority msg) (q_messages q) (q_current_size q) (q_tail q) 0;
            ins = (if is_high (m_priority msg) \<and> cnt > 0 then pos else q_tail q);
            q1 = count_insert (m_priority msg) q
        in do {
             ms \<leftarrow> (if ins \<noteq> q_tail q then shift_up n ins (q_tail q) (q_messages q)
                    else Some (q_messages q));
             Some (Inr (), q1\<lparr>q_messages := ms[ins := msg], q_tail := (q_tail q + 1) mod n,
                              q_current_size := q_current_size q + 1\<rparr>)
           })"

text \<open>The urgent branch of \<^verbatim>\<open>send_message\<close>: the message goes in front of the head.\<close>

definition insert_urgent ::
    "message \<Rightarrow> ('m, 's) message_queue \<Rightarrow> (errno + unit) \<times> ('m, 's) message_queue" where
  "insert_urgent msg q =
     (let prev_head = (if q_head q > 0 then q_head q - 1 else q_max_size q - 1)
      in if q_current_size q < q_max_size q
         then (Inr (), q\<lparr>q_head := prev_head, q_messages := (q_messages q)[prev_head := msg],
                         q_current_size := q_current_size q + 1,
                         q_urgent_priority_count := q_urgent_priority_count q + 1\<rparr>)
         else (Inl EAGAIN, q))"

text \<open>The critical section of \<^verbatim>\<open>receive_message\<close>.\<close>

definition take_head :: "('m, 's) message_queue \<Rightarrow> message option \<times> ('m, 's) message_queue" where
  "take_head q =
     (if q_current_size q > 0
      then let msg = q_messages q ! q_head q;
               q1 = q\<lparr>q_head := (q_head q + 1) mod q_max_size q,
                      q_current_size := q_current_size q - 1\<rparr>;
               q2 = count_remove (m_priority msg) q1
           in (Some msg, q2\<lparr>q_messages_received := q_messages_received q2 + 1\<rparr>)
      else (None, q))"

section \<open>Sending and receiving\<close>

text \<open>
  The first half of \<^verbatim>\<open>send_message\<close> on the queue: a slot, or the error and the queue with
  the counter that records it.
\<close>

definition acquire_space ::
    "'s sem_ops \<Rightarrow> u32 \<Rightarrow> ('m, 's) message_queue \<Rightarrow> (errno + unit) \<times> ('m, 's) message_queue" where
  "acquire_space so flags q =
     (if flags AND MESSAGE_FLAG_BLOCKING \<noteq> 0
      then case sem_wait so QUEUE_TIMEOUT_MS (q_space_available q) of
             (False, s) \<Rightarrow> (Inl ETIMEDOUT, q\<lparr>q_space_available := s, q_timeouts := q_timeouts q + 1\<rparr>)
           | (True, s) \<Rightarrow> (Inr (), q\<lparr>q_space_available := s, q_blocked_sends := q_blocked_sends q + 1\<rparr>)
      else case sem_trywait so (q_space_available q) of
             (False, s) \<Rightarrow>
               (Inl EAGAIN, q\<lparr>q_space_available := s, q_dropped_messages := q_dropped_messages q + 1\<rparr>)
           | (True, s) \<Rightarrow> (Inr (), q\<lparr>q_space_available := s\<rparr>))"

definition acquire_message ::
    "'s sem_ops \<Rightarrow> u32 \<Rightarrow> ('m, 's) message_queue \<Rightarrow> (errno + unit) \<times> ('m, 's) message_queue" where
  "acquire_message so flags q =
     (if flags AND MESSAGE_FLAG_BLOCKING \<noteq> 0
      then case sem_wait so QUEUE_TIMEOUT_MS (q_msg_available q) of
             (False, s) \<Rightarrow> (Inl ETIMEDOUT, q\<lparr>q_msg_available := s, q_timeouts := q_timeouts q + 1\<rparr>)
           | (True, s) \<Rightarrow> (Inr (), q\<lparr>q_msg_available := s, q_blocked_receives := q_blocked_receives q + 1\<rparr>)
      else case sem_trywait so (q_msg_available q) of
             (False, s) \<Rightarrow> (Inl EAGAIN, q\<lparr>q_msg_available := s\<rparr>)
           | (True, s) \<Rightarrow> (Inr (), q\<lparr>q_msg_available := s\<rparr>))"

definition fill_header :: "u32 \<Rightarrow> u64 \<Rightarrow> u32 \<Rightarrow> u32 \<Rightarrow> message \<Rightarrow> message" where
  "fill_header tid now mid flags msg =
     msg\<lparr>m_sender := tid, m_id := mid, m_timestamp := now, m_flags := flags,
         m_size := (if m_size msg > MAX_MESSAGE_SIZE then MAX_MESSAGE_SIZE else m_size msg)\<rparr>"

text \<open>
  The rest of \<^verbatim>\<open>send_message\<close> on the queue object, from the semaphore on: result and queue.
\<close>

definition queue_send ::
    "'m mutex_ops \<Rightarrow> 's sem_ops \<Rightarrow> message \<Rightarrow> u32 \<Rightarrow> ('m, 's) message_queue \<Rightarrow>
     ((errno + unit) \<times> ('m, 's) message_queue) option" where
  "queue_send mo so msg flags q =
     (case acquire_space so flags q of
        (Inl e, q1) \<Rightarrow> Some (Inl e, q1)
      | (Inr _, q1) \<Rightarrow>
          let q2 = q1\<lparr>q_lock := mtx_lock mo (q_lock q1)\<rparr>
          in do {
               (res, q3) \<leftarrow> (if flags AND MESSAGE_FLAG_URGENT \<noteq> 0 then Some (insert_urgent msg q2)
                             else insert_message_by_priority msg q2);
               let q4 = (case res of Inr _ \<Rightarrow> q3\<lparr>q_messages_sent := q_messages_sent q3 + 1\<rparr> | Inl _ \<Rightarrow> q3);
               let q5 = q4\<lparr>q_lock := mtx_unlock mo (q_lock q4)\<rparr>;
               Some (res,
                 case res of
                   Inr _ \<Rightarrow> q5\<lparr>q_msg_available := sem_post so (q_msg_available q5)\<rparr>
                 | Inl _ \<Rightarrow> q5\<lparr>q_space_available := sem_post so (q_space_available q5)\<rparr>)
             })"

definition queue_receive ::
    "'m mutex_ops \<Rightarrow> 's sem_ops \<Rightarrow> u32 \<Rightarrow> ('m, 's) message_queue \<Rightarrow>
     (errno + message) \<times> ('m, 's) message_queue" where
  "queue_receive mo so flags q =
     (case acquire_message so flags q of
        (Inl e, q1) \<Rightarrow> (Inl e, q1)
      | (Inr _, q1) \<Rightarrow>
          let q2 = q1\<lparr>q_lock := mtx_lock mo (q_lock q1)\<rparr>;
              (m, q3) = take_head q2;
              q4 = q3\<lparr>q_lock := mtx_unlock mo (q_lock q3)\<rparr>
          in (case m of
                Some msg \<Rightarrow> (Inr msg, q4\<lparr>q_space_available := sem_post so (q_space_available q4)\<rparr>)
              | None \<Rightarrow> (Inl EAGAIN, q4\<lparr>q_msg_available := sem_post so (q_msg_available q4)\<rparr>)))"

definition update_message_statistics :: "int \<Rightarrow> ('m, 's) msg_sys \<Rightarrow> ('m, 's) msg_sys" where
  "update_message_statistics operation s =
     s\<lparr>ms_stats := update_ipc_stats (IPC_STAT_OBJECT_CREATED + operation) 1 (ms_stats s)\<rparr>"

text \<open>
  \<open>tid\<close> is the result of \<^verbatim>\<open>get_current_task_id\<close> and \<open>now\<close> that of
  \<^verbatim>\<open>get_current_time_ms\<close>. The caller's message is returned with the header fields that the
  call has filled in.
\<close>

definition send_message ::
    "'m mutex_ops \<Rightarrow> 's sem_ops \<Rightarrow> u32 \<Rightarrow> u64 \<Rightarrow> ptr \<Rightarrow> message option \<Rightarrow> u32 \<Rightarrow> ('m, 's) msg_sys \<Rightarrow>
     ((errno + unit) \<times> message option \<times> ('m, 's) msg_sys) option" where
  "send_message mo so tid now qp message flags s =
     (case message of
        None \<Rightarrow> Some (Inl EINVAL, None, s)
      | Some m \<Rightarrow>
          if qp = NULL then Some (Inl EINVAL, Some m, s)
          else
            let msg = fill_header tid now (ms_next_message_id s) flags m;
                s1 = s\<lparr>ms_next_message_id := ms_next_message_id s + 1\<rparr>
            in do {
                 q \<leftarrow> ms_objs s1 qp;
                 (res, q') \<leftarrow> queue_send mo so msg flags q;
                 let s2 = s1\<lparr>ms_objs := (ms_objs s1)(qp \<mapsto> q')\<rparr>;
                 Some (res, Some msg,
                       case res of Inr _ \<Rightarrow> update_message_statistics 1 s2 | Inl _ \<Rightarrow> s2)
               })"

definition receive_message ::
    "'m mutex_ops \<Rightarrow> 's sem_ops \<Rightarrow> ptr \<Rightarrow> bool \<Rightarrow> u32 \<Rightarrow> ('m, 's) msg_sys \<Rightarrow>
     ((errno + message) \<times> ('m, 's) msg_sys) option" where
  "receive_message mo so qp have_buffer flags s =
     (if qp = NULL \<or> \<not> have_buffer then Some (Inl EINVAL, s)
      else do {
             q \<leftarrow> ms_objs s qp;
             let (res, q') = queue_receive mo so flags q;
             let s1 = s\<lparr>ms_objs := (ms_objs s)(qp \<mapsto> q')\<rparr>;
             Some (res, case res of Inr _ \<Rightarrow> update_message_statistics 2 s1 | Inl _ \<Rightarrow> s1)
           })"

definition fill_reply :: "u32 \<Rightarrow> u64 \<Rightarrow> u32 \<Rightarrow> message \<Rightarrow> message \<Rightarrow> message" where
  "fill_reply tid now mid original reply =
     reply\<lparr>m_receiver := m_sender original, m_sender := tid, m_type := MESSAGE_TYPE_RESPONSE,
           m_priority := MESSAGE_PRIORITY_HIGH, m_id := mid, m_timestamp := now,
           m_reply_id := m_id original\<rparr>"

definition first_queue :: "('m, 's) msg_sys \<Rightarrow> ptr" where
  "first_queue s =
     (case scan_from (\<lambda>p. p \<noteq> NULL) (take (ms_num_queues s) (ms_queues s)) 0 of
        None \<Rightarrow> NULL | Some i \<Rightarrow> ms_queues s ! i)"

definition reply_to_message ::
    "'m mutex_ops \<Rightarrow> 's sem_ops \<Rightarrow> u32 \<Rightarrow> u64 \<Rightarrow> message option \<Rightarrow> message option \<Rightarrow> u32 \<Rightarrow> ('m, 's) msg_sys \<Rightarrow>
     ((errno + unit) \<times> message option \<times> ('m, 's) msg_sys) option" where
  "reply_to_message mo so tid now original reply flags s =
     (case (original, reply) of
        (Some orig, Some rep) \<Rightarrow>
          let rep' = fill_reply tid now (ms_next_message_id s) orig rep;
              (target, reg) = find_task_queue mo (m_sender orig) QUEUE_LOOKUP_RECEIVE (ms_registry s);
              s1 = s\<lparr>ms_next_message_id := ms_next_message_id s + 1, ms_registry := reg\<rparr>
          in if target \<noteq> NULL then send_message mo so tid now target (Some rep') flags s1
             else
               let target' = first_queue s1;
                   s2 = s1\<lparr>ms_lock := mtx_unlock mo (mtx_lock mo (ms_lock s1))\<rparr>
               in if target' = NULL then Some (Inl ENOENT, Some rep', s2)
                  else send_message mo so tid now target' (Some rep') flags s2
      | _ \<Rightarrow> Some (Inl EINVAL, reply, s))"

text \<open>
  The search of \<^verbatim>\<open>find_response_message\<close> with \<open>k\<close> messages to go. The code
  returns a pointer into the buffer; the model returns the index of the slot.
\<close>

fun find_response_from :: "nat \<Rightarrow> message list \<Rightarrow> u32 \<Rightarrow> u32 \<Rightarrow> nat \<Rightarrow> nat \<Rightarrow> nat option" where
  "find_response_from n ms original_id sender pos 0 = None"
| "find_response_from n ms original_id sender pos (Suc k) =
     (let msg = ms ! pos
      in if m_type msg = MESSAGE_TYPE_RESPONSE \<and> m_id msg = original_id \<and> m_sender msg = sender
         then Some pos
         else find_response_from n ms original_id sender ((pos + 1) mod n) k)"

definition find_response_message :: "u32 \<Rightarrow> u32 \<Rightarrow> ('m, 's) message_queue \<Rightarrow> nat option" where
  "find_response_message original_id sender q =
     (if q_current_size q = 0 then None
      else find_response_from (q_max_size q) (q_messages q) original_id sender (q_head q)
             (q_current_size q))"

section \<open>Creating and destroying queues\<close>

definition count_created :: "('m, 's) msg_sys \<Rightarrow> ('m, 's) msg_sys" where
  "count_created s = s\<lparr>ms_stats := update_ipc_stats IPC_STAT_OBJECT_CREATED 1 (ms_stats s)\<rparr>"

definition count_failed :: "('m, 's) msg_sys \<Rightarrow> ('m, 's) msg_sys" where
  "count_failed s = s\<lparr>ms_stats := update_ipc_stats IPC_STAT_OBJECT_CREATED 0 (ms_stats s)\<rparr>"

definition init_message_subsystem :: "'m mutex_ops \<Rightarrow> ('m, 's) msg_sys \<Rightarrow> ('m, 's) msg_sys" where
  "init_message_subsystem mo s =
     (if \<not> ms_initialized s
      then count_created (s\<lparr>ms_lock := snd (mtx_init mo), ms_queues := replicate MAX_QUEUES NULL,
                            ms_num_queues := 0, ms_next_message_id := 1, ms_initialized := True\<rparr>)
      else s)"

definition SIZEOF_MESSAGE_QUEUE :: u64 where "SIZEOF_MESSAGE_QUEUE = 184"

definition new_queue ::
    "string \<Rightarrow> 'm \<Rightarrow> 's \<Rightarrow> 's \<Rightarrow> u32 \<Rightarrow> (nat \<Rightarrow> message) \<Rightarrow> ('m, 's) message_queue" where
  "new_queue name lk avail space max_messages uninit =
     \<lparr>q_type = IPC_TYPE_MESSAGE_QUEUE, q_name = c_strncpy MAX_IPC_NAME_LENGTH name,
      q_ref_count = 1, q_lock = lk, q_msg_available = avail, q_space_available = space,
      q_max_size = unat max_messages, q_current_size = 0, q_head = 0, q_tail = 0,
      q_high_priority_count = 0, q_urgent_priority_count = 0,
      q_messages = map uninit [0 ..< unat max_messages],
      q_messages_sent = 0, q_messages_received = 0, q_blocked_sends = 0, q_blocked_receives = 0,
      q_dropped_messages = 0, q_timeouts = 0\<rparr>"

text \<open>
  \<open>uninit\<close> gives the contents of the buffer that \<^verbatim>\<open>kmalloc\<close> returned, which the code
  does not initialise. \<^verbatim>\<open>kfree\<close> does nothing, so the failing branches only give up the
  pointers.
\<close>

definition create_message_queue ::
    "'m mutex_ops \<Rightarrow> 's sem_ops \<Rightarrow> (nat \<Rightarrow> message) \<Rightarrow> string option \<Rightarrow> u32 \<Rightarrow> ('m, 's) msg_sys \<Rightarrow>
     ptr \<times> ('m, 's) msg_sys" where
  "create_message_queue mo so uninit name max_messages s =
     (let s0 = init_message_subsystem mo s in
      case name of
        None \<Rightarrow> (NULL, s0)
      | Some nm \<Rightarrow>
          if length nm \<ge> MAX_IPC_NAME_LENGTH then (NULL, s0)
          else
            let mx = (if max_messages = 0 then DEFAULT_MAX_QUEUE_SIZE else max_messages);
                (qp, h1) = kmalloc SIZEOF_MESSAGE_QUEUE (ms_heap s0);
                s1 = s0\<lparr>ms_heap := h1\<rparr> in
            if qp = NULL then (NULL, count_failed s1)
            else
              let (bp, h2) = kmalloc (SIZEOF_MESSAGE * ucast mx) h1;
                  s2 = s1\<lparr>ms_heap := h2\<rparr>;
                  (ok1, lk) = mtx_init mo;
                  (ok2, avail) = sem_init so 0 mx;
                  (ok3, space) = sem_init so mx mx in
              if bp = NULL \<or> \<not> ok1 \<or> \<not> ok2 \<or> \<not> ok3 then (NULL, count_failed s2)
              else
                let q = new_queue nm lk avail space mx uninit;
                    s3 = s2\<lparr>ms_lock := mtx_unlock mo (mtx_lock mo (ms_lock s2))\<rparr> in
                if ms_num_queues s3 < MAX_QUEUES
                then (qp, count_created
                        (s3\<lparr>ms_queues := (ms_queues s3)[ms_num_queues s3 := qp],
                            ms_num_queues := ms_num_queues s3 + 1,
                            ms_objs := (ms_objs s3)(qp \<mapsto> q)\<rparr>))
                else (NULL, count_failed s3))"

definition find_queue_index :: "ptr \<Rightarrow> ('m, 's) msg_sys \<Rightarrow> nat option" where
  "find_queue_index qp s = scan_from (\<lambda>p. p = qp) (take (ms_num_queues s) (ms_queues s)) 0"

text \<open>\<^verbatim>\<open>kfree\<close> leaves the destroyed object in place.\<close>

definition destroy_message_queue_internal ::
    "'m mutex_ops \<Rightarrow> 's sem_ops \<Rightarrow> ptr \<Rightarrow> ('m, 's) msg_sys \<Rightarrow> ('m, 's) msg_sys option" where
  "destroy_message_queue_internal mo so qp s =
     (if qp = NULL then Some s
      else do {
             q \<leftarrow> ms_objs s qp;
             let q' = q\<lparr>q_space_available := sem_destroy so (q_space_available q),
                        q_msg_available := sem_destroy so (q_msg_available q),
                        q_lock := mtx_destroy mo (q_lock q)\<rparr>;
             Some (s\<lparr>ms_objs := (ms_objs s)(qp \<mapsto> q'), ms_heap := kfree qp (ms_heap s),
                     ms_stats := update_ipc_stats IPC_STAT_OBJECT_DESTROYED 1 (ms_stats s)\<rparr>)
           })"

definition destroy_message_queue ::
    "'m mutex_ops \<Rightarrow> 's sem_ops \<Rightarrow> ptr \<Rightarrow> ('m, 's) msg_sys \<Rightarrow> ('m, 's) msg_sys option" where
  "destroy_message_queue mo so qp s =
     (if qp = NULL then Some s
      else
        let s1 = s\<lparr>ms_lock := mtx_unlock mo (mtx_lock mo (ms_lock s))\<rparr>
        in case find_queue_index qp s1 of
             None \<Rightarrow> Some s1
           | Some i \<Rightarrow>
               let n = ms_num_queues s1 - 1;
                   qs = (ms_queues s1)[i := ms_queues s1 ! n]
               in destroy_message_queue_internal mo so qp
                    (s1\<lparr>ms_num_queues := n, ms_queues := qs[n := NULL]\<rparr>))"

definition create_task_message_queue ::
    "'m mutex_ops \<Rightarrow> 's sem_ops \<Rightarrow> (nat \<Rightarrow> message) \<Rightarrow> string option \<Rightarrow> u32 \<Rightarrow> u32 \<Rightarrow> ('m, 's) msg_sys \<Rightarrow>
     ptr \<times> ('m, 's) msg_sys" where
  "create_task_message_queue mo so uninit name max_messages owner s =
     (let (qp, s1) = create_message_queue mo so uninit name max_messages s
      in if qp = NULL then (NULL, s1)
         else (qp, s1\<lparr>ms_registry := register_task_queue mo owner qp (ms_registry s1)\<rparr>))"

section \<open>Cleanup and timeouts\<close>

text \<open>The inner copy loop of \<^verbatim>\<open>cleanup_task_messages\<close> with \<open>k\<close> messages to move.\<close>

fun shift_down :: "nat \<Rightarrow> nat \<Rightarrow> nat \<Rightarrow> nat \<Rightarrow> message list \<Rightarrow> message list" where
  "shift_down n mv nx 0 ms = ms"
| "shift_down n mv nx (Suc k) ms = shift_down n nx ((nx + 1) mod n) k (ms[mv := ms ! nx])"

definition involves :: "u32 \<Rightarrow> message \<Rightarrow> bool" where
  "involves pid m \<longleftrightarrow> m_sender m = pid \<or> m_receiver m = pid"

text \<open>
  Removing the message at ring position \<open>pos\<close>, the \<open>j\<close>-th of the queue. The code
  reads the priority through a pointer to the slot after it has moved the later messages.
\<close>

definition remove_at :: "nat \<Rightarrow> nat \<Rightarrow> ('m, 's) message_queue \<Rightarrow> ('m, 's) message_queue" where
  "remove_at pos j q =
     (let n = q_max_size q;
          ms = (if j < q_current_size q - 1
                then shift_down n pos ((pos + 1) mod n) (q_current_size q - (j + 1)) (q_messages q)
                else q_messages q);
          q1 = count_remove (m_priority (ms ! pos)) (q\<lparr>q_messages := ms\<rparr>)
      in q1\<lparr>q_tail := (if q_tail q1 > 0 then q_tail q1 - 1 else n - 1),
            q_current_size := q_current_size q1 - 1\<rparr>)"

lemma remove_at_size [simp]: "q_current_size (remove_at pos j q) = q_current_size q - 1"
  by (simp add: remove_at_def Let_def count_remove_def)

function cleanup_loop ::
    "u32 \<Rightarrow> nat \<Rightarrow> nat \<Rightarrow> nat \<Rightarrow> ('m, 's) message_queue \<Rightarrow> nat \<times> ('m, 's) message_queue" where
  "cleanup_loop pid pos j removed q =
     (if j < q_current_size q
      then if involves pid (q_messages q ! pos)
           then cleanup_loop pid pos j (removed + 1) (remove_at pos j q)
           else cleanup_loop pid ((pos + 1) mod q_max_size q) (j + 1) removed q
      else (removed, q))"
  by pat_completeness auto

termination cleanup_loop
  by (relation "measure (\<lambda>(pid, pos, j, removed, q). q_current_size q - j)") auto

declare cleanup_loop.simps [simp del]

definition cleanup_queue ::
    "'m mutex_ops \<Rightarrow> 's sem_ops \<Rightarrow> u32 \<Rightarrow> ('m, 's) message_queue \<Rightarrow> ('m, 's) message_queue" where
  "cleanup_queue mo so pid q =
     (let q1 = q\<lparr>q_lock := mtx_lock mo (q_lock q)\<rparr>;
          (removed, q2) = cleanup_loop pid (q_head q1) 0 0 q1;
          q3 = (if removed > 0
                then let qd = q2\<lparr>q_msg_available := sem_destroy so (q_msg_available q2),
                                  q_space_available := sem_destroy so (q_space_available q2)\<rparr>
                     in qd\<lparr>q_msg_available :=
                             snd (sem_init so (of_nat (q_current_size qd)) (of_nat (q_max_size qd))),
                           q_space_available :=
                             snd (sem_init so (of_nat (q_max_size qd - q_current_size qd))
                                    (of_nat (q_max_size qd)))\<rparr>
                else q2)
      in q3\<lparr>q_lock := mtx_unlock mo (q_lock q3)\<rparr>)"

text \<open>The loops over all queues: an entry that is \<^verbatim>\<open>NULL\<close> is skipped.\<close>

fun each_queue ::
    "(('m, 's) message_queue \<Rightarrow> ('m, 's) message_queue) \<Rightarrow> ptr list \<Rightarrow>
     (ptr \<rightharpoonup> ('m, 's) message_queue) \<Rightarrow> (ptr \<rightharpoonup> ('m, 's) message_queue) option" where
  "each_queue f [] objs = Some objs"
| "each_queue f (p # ps) objs =
     (if p = NULL then each_queue f ps objs
      else case objs p of
             None \<Rightarrow> None
           | Some q \<Rightarrow> each_queue f ps (objs(p \<mapsto> f q)))"

definition cleanup_task_messages ::
    "'m mutex_ops \<Rightarrow> 's sem_ops \<Rightarrow> u32 \<Rightarrow> ('m, 's) msg_sys \<Rightarrow> ('m, 's) msg_sys option" where
  "cleanup_task_messages mo so pid s =
     (if pid \<le> 0 then Some s
      else do {
             objs \<leftarrow> each_queue (cleanup_queue mo so pid) (take (ms_num_queues s) (ms_queues s)) (ms_objs s);
             Some (s\<lparr>ms_objs := objs, ms_lock := mtx_unlock mo (mtx_lock mo (ms_lock s))\<rparr>)
           })"

definition MESSAGE_TIMEOUT_THRESHOLD :: u64 where "MESSAGE_TIMEOUT_THRESHOLD = 30000"

definition is_timed_out :: "u64 \<Rightarrow> message \<Rightarrow> bool" where
  "is_timed_out now m \<longleftrightarrow>
     m_flags m AND MESSAGE_FLAG_WAIT_REPLY \<noteq> 0 \<and> now - m_timestamp m > MESSAGE_TIMEOUT_THRESHOLD"

fun timeout_loop :: "u64 \<Rightarrow> nat \<Rightarrow> nat \<Rightarrow> ('m, 's) message_queue \<Rightarrow> ('m, 's) message_queue" where
  "timeout_loop now pos 0 q = q"
| "timeout_loop now pos (Suc k) q =
     (let m = q_messages q ! pos;
          q1 = (if is_timed_out now m
                then q\<lparr>q_messages := (q_messages q)[pos := m\<lparr>m_flags := m_flags m OR push_bit 31 1\<rparr>],
                       q_timeouts := q_timeouts q + 1\<rparr>
                else q)
      in timeout_loop now ((pos + 1) mod q_max_size q) k q1)"

definition timeout_queue :: "'m mutex_ops \<Rightarrow> u64 \<Rightarrow> ('m, 's) message_queue \<Rightarrow> ('m, 's) message_queue" where
  "timeout_queue mo now q =
     (let q1 = timeout_loop now (q_head q) (q_current_size q) (q\<lparr>q_lock := mtx_lock mo (q_lock q)\<rparr>)
      in q1\<lparr>q_lock := mtx_unlock mo (q_lock q1)\<rparr>)"

definition check_message_timeouts ::
    "'m mutex_ops \<Rightarrow> u64 \<Rightarrow> ('m, 's) msg_sys \<Rightarrow> ('m, 's) msg_sys option" where
  "check_message_timeouts mo now s =
     do {
       objs \<leftarrow> each_queue (timeout_queue mo now) (take (ms_num_queues s) (ms_queues s)) (ms_objs s);
       Some (s\<lparr>ms_objs := objs, ms_lock := mtx_unlock mo (mtx_lock mo (ms_lock s))\<rparr>)
     }"

end
