(* ===== verification/Msg_Ring_Refine.thy ===== *)
theory Msg_Ring_Refine
  imports Msg_Ring "HOL-Library.Multiset"
begin

text \<open>
  The message ring refined to lists. The contents of a queue are the messages from the head on; each
  operation of the theory of the message queues acts on them as a list function. The delivery
  order follows: a stable sort by priority class.
\<close>

section \<open>Positions in the ring\<close>

definition ring_slice :: "nat \<Rightarrow> nat \<Rightarrow> nat \<Rightarrow> 'a list \<Rightarrow> 'a list" where
  "ring_slice n h c ms = map (\<lambda>i. ms ! ((h + i) mod n)) [0 ..< c]"

definition ring_contents :: "('m, 's) message_queue \<Rightarrow> message list" where
  "ring_contents q = ring_slice (q_max_size q) (q_head q) (q_current_size q) (q_messages q)"

definition ring_wf :: "('m, 's) message_queue \<Rightarrow> bool" where
  "ring_wf q \<longleftrightarrow>
     0 < q_max_size q \<and> length (q_messages q) = q_max_size q \<and> q_head q < q_max_size q \<and>
     q_current_size q \<le> q_max_size q \<and> q_tail q = (q_head q + q_current_size q) mod q_max_size q"

lemma length_ring_slice [simp]: "length (ring_slice n h c ms) = c"
  by (simp add: ring_slice_def)

lemma nth_ring_slice [simp]: "i < c \<Longrightarrow> ring_slice n h c ms ! i = ms ! ((h + i) mod n)"
  by (simp add: ring_slice_def)

lemma ring_slice_Suc: "ring_slice n h (Suc c) ms = ring_slice n h c ms @ [ms ! ((h + c) mod n)]"
  by (simp add: ring_slice_def)

lemma ring_slice_Cons:
  "ring_slice n h (Suc c) ms = ms ! (h mod n) # ring_slice n ((h + 1) mod n) c ms"
  by (rule nth_equalityI)
     (auto simp: nth_Cons mod_add_left_eq split: nat.split)

lemma length_ring_contents [simp]: "length (ring_contents q) = q_current_size q"
  by (simp add: ring_contents_def)

lemma ring_pos_inj_le:
  fixes h i j n :: nat
  assumes "i \<le> j" "j < n" "(h + i) mod n = (h + j) mod n"
  shows "i = j"
proof -
  have "n dvd (h + j) - (h + i)"
    using assms by (subst mod_eq_dvd_iff_nat [symmetric]) auto
  then have "n dvd j - i" by simp
  with assms show ?thesis
    by (cases "j - i = 0") (auto dest: dvd_imp_le)
qed

lemma ring_pos_inj:
  fixes h i j n :: nat
  assumes "i < n" "j < n"
  shows "(h + i) mod n = (h + j) mod n \<longleftrightarrow> i = j"
  using assms ring_pos_inj_le [of i j n h] ring_pos_inj_le [of j i n h] by (cases "i \<le> j") auto

lemma prev_idx_pos:
  assumes "0 < n"
  shows "prev_idx n ((h + Suc i) mod n) = (h + i) mod n"
proof (cases "Suc ((h + i) mod n) = n")
  case True
  then have "(h + Suc i) mod n = 0"
    by (simp add: mod_Suc)
  with True show ?thesis
    by (simp add: prev_idx_def)
next
  case False
  then have "(h + Suc i) mod n = Suc ((h + i) mod n)"
    by (simp add: mod_Suc)
  then show ?thesis
    by (simp add: prev_idx_def)
qed

lemma ring_slice_update:
  assumes "0 < n" "length ms = n" "c \<le> n" "i < c"
  shows "ring_slice n h c (ms[(h + i) mod n := x]) = (ring_slice n h c ms)[i := x]"
  using assms by (intro nth_equalityI) (auto simp: nth_list_update ring_pos_inj)

lemma ring_slice_outside:
  assumes "0 < n" "length ms = n" "c \<le> i" "i < n"
  shows "ring_slice n h c (ms[(h + i) mod n := x]) = ring_slice n h c ms"
  using assms by (intro nth_equalityI) (auto simp: nth_list_update ring_pos_inj)

section \<open>The search and the shift\<close>

definition passed :: "u32 \<Rightarrow> message list \<Rightarrow> nat" where
  "passed pr xs = length (takeWhile (\<lambda>m. m_priority m < pr) (rev xs))"

lemma passed_le: "passed pr xs \<le> length xs"
  unfolding passed_def using length_takeWhile_le [of _ "rev xs"] by simp

lemma find_insert_pos_ring:
  assumes "0 < n"
  shows "find_insert_pos n pr ms k ((h + k) mod n) cnt =
           ((h + (k - passed pr (ring_slice n h k ms))) mod n, cnt + passed pr (ring_slice n h k ms))"
proof (induction k arbitrary: cnt)
  case 0
  then show ?case by (simp add: passed_def ring_slice_def)
next
  case (Suc k)
  have p: "passed pr (ring_slice n h (Suc k) ms)
      = (if m_priority (ms ! ((h + k) mod n)) < pr then Suc (passed pr (ring_slice n h k ms)) else 0)"
    by (simp add: passed_def ring_slice_Suc)
  show ?case
    using Suc.IH
    by (cases "m_priority (ms ! ((h + k) mod n)) < pr")
       (simp_all add: p prev_idx_pos [OF assms, simplified] Let_def not_less not_le)
qed

lemma shift_up_ring:
  assumes "0 < n" "length ms = n" "j \<le> c" "c < n"
  shows "\<exists>ms'. shift_up n ((h + j) mod n) ((h + c) mod n) ms = Some ms' \<and> length ms' = n \<and>
           (\<forall>i < n. ms' ! ((h + i) mod n)
                    = (if j < i \<and> i \<le> c then ms ! ((h + (i - 1)) mod n) else ms ! ((h + i) mod n)))"
  using assms
proof (induction "c - j" arbitrary: c ms)
  case 0
  then show ?case by (subst shift_up.simps) auto
next
  case (Suc d)
  then obtain c' where c: "c = Suc c'" "j \<le> c'"
    by (cases c) auto
  let ?ms = "ms[(h + c) mod n := ms ! ((h + c') mod n)]"
  have ne: "(h + c) mod n \<noteq> (h + j) mod n"
    using Suc.prems c by (subst ring_pos_inj) auto
  have pv: "prev_idx n ((h + c) mod n) = (h + c') mod n"
    using prev_idx_pos [OF Suc.prems(1), of h c'] c by simp
  have step: "shift_up n ((h + j) mod n) ((h + c) mod n) ms
      = shift_up n ((h + j) mod n) ((h + c') mod n) ?ms"
    by (subst shift_up.simps) (simp only: pv ne if_False)
  obtain ms' where ms': "shift_up n ((h + j) mod n) ((h + c') mod n) ?ms = Some ms'" "length ms' = n"
    "\<forall>i < n. ms' ! ((h + i) mod n)
       = (if j < i \<and> i \<le> c' then ?ms ! ((h + (i - 1)) mod n) else ?ms ! ((h + i) mod n))"
  proof -
    have "d = c' - j" using Suc.hyps(2) c by simp
    from Suc.hyps(1) [OF this, of ?ms] Suc.prems c that show thesis by auto
  qed
  have upd: "?ms ! ((h + i) mod n) = (if i = c then ms ! ((h + c') mod n) else ms ! ((h + i) mod n))"
    if "i < n" for i
    using that Suc.prems ring_pos_inj [of i n c h] by (auto simp: nth_list_update)
  have "\<forall>i < n. ms' ! ((h + i) mod n)
      = (if j < i \<and> i \<le> c then ms ! ((h + (i - 1)) mod n) else ms ! ((h + i) mod n))"
  proof (intro allI impI)
    fix i assume i: "i < n"
    show "ms' ! ((h + i) mod n)
        = (if j < i \<and> i \<le> c then ms ! ((h + (i - 1)) mod n) else ms ! ((h + i) mod n))"
      using ms'(3) [rule_format, OF i] upd [OF i] upd [of "i - 1"] i c
      by (cases "i = c") (auto simp: le_Suc_eq)
  qed
  with step ms' show ?case by auto
qed

section \<open>Each operation on the contents\<close>

definition ring_insert :: "message \<Rightarrow> message list \<Rightarrow> message list" where
  "ring_insert msg xs =
     (if is_high (m_priority msg)
      then let k = length xs - passed (m_priority msg) xs in take k xs @ msg # drop k xs
      else xs @ [msg])"

lemma count_insert_fields [simp]:
  "q_max_size (count_insert p q) = q_max_size q"
  "q_current_size (count_insert p q) = q_current_size q"
  "q_head (count_insert p q) = q_head q"
  "q_tail (count_insert p q) = q_tail q"
  "q_messages (count_insert p q) = q_messages q"
  "q_msg_available (count_insert p q) = q_msg_available q"
  "q_space_available (count_insert p q) = q_space_available q"
  "q_lock (count_insert p q) = q_lock q"
  by (simp_all add: count_insert_def)

lemma count_remove_fields [simp]:
  "q_max_size (count_remove p q) = q_max_size q"
  "q_current_size (count_remove p q) = q_current_size q"
  "q_head (count_remove p q) = q_head q"
  "q_tail (count_remove p q) = q_tail q"
  "q_messages (count_remove p q) = q_messages q"
  "q_msg_available (count_remove p q) = q_msg_available q"
  "q_space_available (count_remove p q) = q_space_available q"
  "q_lock (count_remove p q) = q_lock q"
  by (simp_all add: count_remove_def)

lemma insert_at_ring:
  assumes "0 < n" "length ms = n" "j \<le> c" "c < n"
  obtains ms' where
    "(if (h + j) mod n \<noteq> (h + c) mod n then shift_up n ((h + j) mod n) ((h + c) mod n) ms else Some ms)
       = Some ms'"
    "length ms' = n"
    "ring_slice n h (Suc c) (ms'[(h + j) mod n := x])
       = take j (ring_slice n h c ms) @ x # drop j (ring_slice n h c ms)"
proof -
  obtain ms' where ms': "shift_up n ((h + j) mod n) ((h + c) mod n) ms = Some ms'" "length ms' = n"
    "\<forall>i < n. ms' ! ((h + i) mod n)
       = (if j < i \<and> i \<le> c then ms ! ((h + (i - 1)) mod n) else ms ! ((h + i) mod n))"
    using shift_up_ring [OF assms, of h] by blast
  have "shift_up n ((h + j) mod n) ((h + c) mod n) ms = Some ms" if "(h + j) mod n = (h + c) mod n"
    using that by (subst shift_up.simps) simp
  with ms'(1) have "(if (h + j) mod n \<noteq> (h + c) mod n then shift_up n ((h + j) mod n) ((h + c) mod n) ms
      else Some ms) = Some ms'"
    by auto
  moreover have "ring_slice n h (Suc c) (ms'[(h + j) mod n := x])
      = take j (ring_slice n h c ms) @ x # drop j (ring_slice n h c ms)"
  proof (rule nth_equalityI)
    fix i assume "i < length (ring_slice n h (Suc c) (ms'[(h + j) mod n := x]))"
    then have i: "i < n" "i \<le> c" using assms by auto
    have "ms'[(h + j) mod n := x] ! ((h + i) mod n) = (if i = j then x else ms' ! ((h + i) mod n))"
      using i assms ms'(2) ring_pos_inj [of i n j h] by (auto simp: nth_list_update)
    then show "ring_slice n h (Suc c) (ms'[(h + j) mod n := x]) ! i
        = (take j (ring_slice n h c ms) @ x # drop j (ring_slice n h c ms)) ! i"
      using i ms'(3) assms(3) by (auto simp: nth_append nth_Cons' min_def)
  qed (use assms in simp)
  ultimately show ?thesis
    using that ms'(2) by blast
qed

lemma insert_message_ring:
  assumes "ring_wf q" "q_current_size q < q_max_size q"
  obtains q' where "insert_message_by_priority msg q = Some (Inr (), q')"
    "ring_wf q'" "ring_contents q' = ring_insert msg (ring_contents q)"
    "q_msg_available q' = q_msg_available q" "q_space_available q' = q_space_available q"
    "q_max_size q' = q_max_size q" "q_current_size q' = Suc (q_current_size q)"
    "q_high_priority_count q' = q_high_priority_count (count_insert (m_priority msg) q)"
    "q_urgent_priority_count q' = q_urgent_priority_count (count_insert (m_priority msg) q)"
proof -
  let ?n = "q_max_size q" and ?h = "q_head q" and ?c = "q_current_size q" and ?ms = "q_messages q"
  let ?p = "passed (m_priority msg) (ring_contents q)"
  define j where "j = (if is_high (m_priority msg) then ?c - ?p else ?c)"
  have wf: "0 < ?n" "length ?ms = ?n" "?h < ?n" "q_tail q = (?h + ?c) mod ?n"
    using assms by (auto simp: ring_wf_def)
  have find: "find_insert_pos ?n (m_priority msg) ?ms ?c (q_tail q) 0 = ((?h + (?c - ?p)) mod ?n, ?p)"
    unfolding wf(4) by (subst find_insert_pos_ring [OF wf(1)]) (simp add: ring_contents_def)
  have ins: "(if is_high (m_priority msg) \<and> ?p > 0 then (?h + (?c - ?p)) mod ?n else q_tail q)
      = (?h + j) mod ?n"
    by (auto simp: j_def wf(4))
  have "j \<le> ?c" by (simp add: j_def)
  then obtain ms' where ms': "(if (?h + j) mod ?n \<noteq> (?h + ?c) mod ?n
      then shift_up ?n ((?h + j) mod ?n) ((?h + ?c) mod ?n) ?ms else Some ?ms) = Some ms'"
    "length ms' = ?n"
    "ring_slice ?n ?h (Suc ?c) (ms'[(?h + j) mod ?n := msg])
       = take j (ring_slice ?n ?h ?c ?ms) @ msg # drop j (ring_slice ?n ?h ?c ?ms)"
    using insert_at_ring [OF wf(1,2) _ assms(2)] by metis
  let ?q = "(count_insert (m_priority msg) q)\<lparr>q_messages := ms'[(?h + j) mod ?n := msg],
      q_tail := (q_tail q + 1) mod ?n, q_current_size := ?c + 1\<rparr>"
  have "insert_message_by_priority msg q =
      Option.bind (if (?h + j) mod ?n \<noteq> (?h + ?c) mod ?n
                   then shift_up ?n ((?h + j) mod ?n) ((?h + ?c) mod ?n) ?ms else Some ?ms)
        (\<lambda>ms. Some (Inr (), (count_insert (m_priority msg) q)\<lparr>q_messages := ms[(?h + j) mod ?n := msg],
           q_tail := (q_tail q + 1) mod ?n, q_current_size := ?c + 1\<rparr>))"
    using assms(2) by (simp add: insert_message_by_priority_def find ins Let_def not_le wf(4) [symmetric])
  then have "insert_message_by_priority msg q = Some (Inr (), ?q)"
    unfolding ms'(1) by simp
  moreover have "ring_wf ?q"
    using wf assms(2) ms'(2) by (simp add: ring_wf_def mod_Suc_eq)
  moreover have "ring_contents ?q = ring_insert msg (ring_contents q)"
    using ms'(3) by (simp add: ring_contents_def ring_insert_def j_def Let_def)
  ultimately show ?thesis
    using that by simp
qed

lemma insert_urgent_ring:
  assumes "ring_wf q" "q_current_size q < q_max_size q" "insert_urgent msg q = (r, q')"
  shows "r = Inr () \<and> ring_wf q' \<and> ring_contents q' = msg # ring_contents q \<and>
         q_msg_available q' = q_msg_available q \<and> q_space_available q' = q_space_available q \<and>
         q_max_size q' = q_max_size q \<and> q_current_size q' = Suc (q_current_size q) \<and>
         q_urgent_priority_count q' = q_urgent_priority_count q + 1 \<and>
         q_high_priority_count q' = q_high_priority_count q"
proof -
  let ?n = "q_max_size q" and ?h = "q_head q" and ?c = "q_current_size q" and ?ms = "q_messages q"
  define h' where "h' = (if ?h > 0 then ?h - 1 else ?n - 1)"
  have wf: "0 < ?n" "length ?ms = ?n" "?h < ?n" "q_tail q = (?h + ?c) mod ?n"
    using assms by (auto simp: ring_wf_def)
  have h': "h' < ?n" "(h' + 1) mod ?n = ?h"
    using wf by (auto simp: h'_def)
  have q': "r = Inr ()" "q' = q\<lparr>q_head := h', q_messages := ?ms[h' := msg], q_current_size := ?c + 1,
      q_urgent_priority_count := q_urgent_priority_count q + 1\<rparr>"
    using assms(2,3) by (auto simp: insert_urgent_def Let_def h'_def)
  have slot: "h' \<noteq> (?h + i) mod ?n" if "i < ?c" for i
  proof -
    have "(?h + i) mod ?n = (h' + Suc i) mod ?n"
      using h'(2) by (metis add.assoc add.commute mod_add_left_eq plus_1_eq_Suc)
    then show ?thesis
      using ring_pos_inj [of "Suc i" ?n 0 h'] that assms(2) h'(1) by simp
  qed
  have "ring_slice ?n h' (Suc ?c) (?ms[h' := msg]) = msg # ring_slice ?n ?h ?c ?ms"
    unfolding ring_slice_Cons h'(2) using wf h'(1) slot by (simp add: ring_slice_def)
  moreover have "(h' + Suc ?c) mod ?n = (?h + ?c) mod ?n"
    using h'(2) by (metis add_Suc_right add_Suc_shift mod_add_left_eq Suc_eq_plus1)
  ultimately show ?thesis
    using q' wf h' assms(2) by (simp add: ring_wf_def ring_contents_def)
qed

lemma take_head_ring:
  assumes "ring_wf q" "q_current_size q > 0" "take_head q = (m, q')"
  shows "m = Some (hd (ring_contents q)) \<and> ring_wf q' \<and> ring_contents q' = tl (ring_contents q) \<and>
         q_msg_available q' = q_msg_available q \<and> q_space_available q' = q_space_available q \<and>
         q_max_size q' = q_max_size q \<and> q_current_size q' = q_current_size q - 1 \<and>
         q_high_priority_count q'
           = q_high_priority_count (count_remove (m_priority (hd (ring_contents q))) q) \<and>
         q_urgent_priority_count q'
           = q_urgent_priority_count (count_remove (m_priority (hd (ring_contents q))) q)"
proof -
  obtain c where c: "q_current_size q = Suc c"
    using assms(2) by (cases "q_current_size q") auto
  have "ring_contents q = q_messages q ! q_head q
      # ring_slice (q_max_size q) ((q_head q + 1) mod q_max_size q) c (q_messages q)"
    using assms(1) by (simp add: ring_contents_def c ring_slice_Cons ring_wf_def)
  with assms c show ?thesis
    by (auto simp: take_head_def Let_def ring_wf_def ring_contents_def mod_add_left_eq count_remove_def)
qed

section \<open>Cleanup\<close>

lemma shift_down_ring:
  assumes "0 < n" "length ms = n" "j + k < n"
  shows "length (shift_down n ((h + j) mod n) ((h + j + 1) mod n) k ms) = n \<and>
         (\<forall>i < n. shift_down n ((h + j) mod n) ((h + j + 1) mod n) k ms ! ((h + i) mod n)
            = (if j \<le> i \<and> i < j + k then ms ! ((h + (i + 1)) mod n) else ms ! ((h + i) mod n)))"
  using assms
proof (induction k arbitrary: j ms)
  case 0
  then show ?case by auto
next
  case (Suc k)
  let ?ms = "ms[(h + j) mod n := ms ! ((h + (j + 1)) mod n)]"
  have upd: "?ms ! ((h + i) mod n) = (if i = j then ms ! ((h + (j + 1)) mod n) else ms ! ((h + i) mod n))"
    if "i < n" for i
    using that Suc.prems ring_pos_inj [of i n j h] by (auto simp: nth_list_update)
  have step: "shift_down n ((h + j) mod n) ((h + j + 1) mod n) (Suc k) ms
      = shift_down n ((h + Suc j) mod n) ((h + Suc j + 1) mod n) k ?ms"
    by (simp add: mod_Suc_eq)
  have IH: "length (shift_down n ((h + Suc j) mod n) ((h + Suc j + 1) mod n) k ?ms) = n \<and>
      (\<forall>i < n. shift_down n ((h + Suc j) mod n) ((h + Suc j + 1) mod n) k ?ms ! ((h + i) mod n)
         = (if Suc j \<le> i \<and> i < Suc j + k then ?ms ! ((h + (i + 1)) mod n) else ?ms ! ((h + i) mod n)))"
    using Suc.prems by (intro Suc.IH) auto
  have "(if Suc j \<le> i \<and> i < Suc j + k then ?ms ! ((h + (i + 1)) mod n) else ?ms ! ((h + i) mod n))
      = (if j \<le> i \<and> i < j + Suc k then ms ! ((h + (i + 1)) mod n) else ms ! ((h + i) mod n))"
    if "i < n" for i
    using upd [OF that] upd [of "i + 1"] Suc.prems by (cases "i = j") auto
  with IH show ?case unfolding step by simp
qed

lemma remove_at_ring:
  assumes "ring_wf q" "j < q_current_size q"
  shows "ring_wf (remove_at ((q_head q + j) mod q_max_size q) j q) \<and>
         ring_contents (remove_at ((q_head q + j) mod q_max_size q) j q)
           = take j (ring_contents q) @ drop (Suc j) (ring_contents q)"
proof -
  let ?n = "q_max_size q" and ?h = "q_head q" and ?c = "q_current_size q"
  define ms where "ms = (if j < ?c - 1 then shift_down ?n ((?h + j) mod ?n) ((?h + j + 1) mod ?n) (?c - (j + 1))
      (q_messages q) else q_messages q)"
  have wf: "0 < ?n" "length (q_messages q) = ?n" "?h < ?n" "?c \<le> ?n" "q_tail q = (?h + ?c) mod ?n"
    using assms(1) by (auto simp: ring_wf_def)
  have ms: "length ms = ?n \<and> (\<forall>i < ?c - 1. ms ! ((?h + i) mod ?n)
      = (if j \<le> i then q_messages q ! ((?h + (i + 1)) mod ?n) else q_messages q ! ((?h + i) mod ?n)))"
    using shift_down_ring [OF wf(1,2), of j "?c - (j + 1)" ?h] wf(2,4) assms(2)
    by (auto simp: ms_def)
  have sl: "ring_slice ?n ?h (?c - 1) ms = take j (ring_contents q) @ drop (Suc j) (ring_contents q)"
    using ms assms(2) by (intro nth_equalityI) (auto simp: ring_contents_def nth_append min_def)
  have "(if q_tail q > 0 then q_tail q - 1 else ?n - 1) = prev_idx ?n ((?h + Suc (?c - 1)) mod ?n)"
    using assms(2) wf by (simp add: prev_idx_def)
  then have t: "(if q_tail q > 0 then q_tail q - 1 else ?n - 1) = (?h + (?c - 1)) mod ?n"
    using prev_idx_pos [OF wf(1)] by simp
  have eq: "q_messages (remove_at ((?h + j) mod ?n) j q) = ms" "q_head (remove_at ((?h + j) mod ?n) j q) = ?h"
    "q_max_size (remove_at ((?h + j) mod ?n) j q) = ?n"
    "q_tail (remove_at ((?h + j) mod ?n) j q) = (?h + (?c - 1)) mod ?n"
    using t by (auto simp: remove_at_def Let_def ms_def mod_Suc_eq)
  show ?thesis
    using wf ms sl by (simp add: ring_wf_def ring_contents_def eq)
qed

lemma remove_at_head [simp]:
  "q_head (remove_at pos j q) = q_head q" "q_max_size (remove_at pos j q) = q_max_size q"
  "q_lock (remove_at pos j q) = q_lock q"
  "q_msg_available (remove_at pos j q) = q_msg_available q"
  "q_space_available (remove_at pos j q) = q_space_available q"
  by (simp_all add: remove_at_def Let_def)

lemma cleanup_loop_ring:
  assumes "ring_wf q" "j \<le> q_current_size q" "pos = (q_head q + j) mod q_max_size q"
    and "cleanup_loop pid pos j removed q = (r, q')"
  shows "ring_wf q' \<and> q_max_size q' = q_max_size q \<and>
         q_msg_available q' = q_msg_available q \<and> q_space_available q' = q_space_available q \<and>
         ring_contents q' = take j (ring_contents q) @ filter (\<lambda>m. \<not> involves pid m) (drop j (ring_contents q)) \<and>
         r = removed + length (filter (involves pid) (drop j (ring_contents q)))"
  using assms
proof (induction pid pos j removed q rule: cleanup_loop.induct)
  case (1 pid pos j removed q)
  show ?case
  proof (cases "j < q_current_size q")
    case False
    then have "cleanup_loop pid pos j removed q = (removed, q)"
      by (subst cleanup_loop.simps) simp
    with False "1.prems" show ?thesis by simp
  next
    case True
    have at: "ring_contents q ! j = q_messages q ! pos"
      using True "1.prems"(3) by (simp add: ring_contents_def)
    have dr: "drop j (ring_contents q) = q_messages q ! pos # drop (Suc j) (ring_contents q)"
      using True at by (metis Cons_nth_drop_Suc length_ring_contents)
    show ?thesis
    proof (cases "involves pid (q_messages q ! pos)")
      case inv: True
      note ra = remove_at_ring [OF "1.prems"(1) True, folded "1.prems"(3)]
      have "cleanup_loop pid pos j (removed + 1) (remove_at pos j q) = (r, q')"
        using "1.prems"(4) True inv by (simp add: cleanup_loop.simps [of pid pos j removed q])
      from "1.IH"(1) [OF True inv _ _ _ this] ra True "1.prems"(3) dr inv show ?thesis
        by auto
    next
      case noninv: False
      have "cleanup_loop pid ((pos + 1) mod q_max_size q) (j + 1) removed q = (r, q')"
        using "1.prems"(4) True noninv by (simp add: cleanup_loop.simps [of pid pos j removed q])
      moreover have "(pos + 1) mod q_max_size q = (q_head q + (j + 1)) mod q_max_size q"
        using "1.prems"(3) by (simp add: mod_Suc_eq)
      moreover have "take (Suc j) (ring_contents q) = take j (ring_contents q) @ [q_messages q ! pos]"
        using True at by (simp add: take_Suc_conv_app_nth)
      ultimately show ?thesis
        using "1.IH"(2) [OF True noninv "1.prems"(1)] True dr noninv by simp
    qed
  qed
qed

section \<open>Delivery order\<close>

text \<open>
  The delivery class: urgent messages first, then high ones, then all others in one class.
\<close>

definition msg_class :: "message \<Rightarrow> nat" where
  "msg_class m = (if m_priority m = MESSAGE_PRIORITY_URGENT then 0
                  else if m_priority m = MESSAGE_PRIORITY_HIGH then 1 else 2)"

definition valid_priority :: "message \<Rightarrow> bool" where
  "valid_priority m \<longleftrightarrow> m_priority m \<le> MESSAGE_PRIORITY_URGENT"

lemmas priority_defs = MESSAGE_PRIORITY_URGENT_def MESSAGE_PRIORITY_HIGH_def

lemma priority_cases: "p \<le> 3 \<Longrightarrow> p = 0 \<or> p = 1 \<or> p = 2 \<or> p = (3 :: u32)"
  by (auto simp: word_unat_eq_iff word_le_nat_alt)

lemma passed_class:
  assumes "valid_priority x" "valid_priority y" "is_high (m_priority x)"
  shows "m_priority y < m_priority x \<longleftrightarrow> msg_class x < msg_class y"
  using assms priority_cases [of "m_priority y"]
  by (auto simp: valid_priority_def is_high_def msg_class_def priority_defs)

lemma ring_insert_split:
  assumes "\<forall>m \<in> set (x # xs). valid_priority m" "sorted (map msg_class xs)"
  obtains ys zs where "xs = ys @ zs" "ring_insert x xs = ys @ x # zs"
    "\<forall>y \<in> set ys. msg_class y \<le> msg_class x" "\<forall>z \<in> set zs. msg_class x < msg_class z"
proof (cases "is_high (m_priority x)")
  case False
  with assms(1) have "msg_class x = 2"
    by (auto simp: msg_class_def is_high_def)
  moreover have "msg_class y \<le> 2" for y
    by (simp add: msg_class_def)
  ultimately show ?thesis
    using that [of xs "[]"] False by (simp add: ring_insert_def)
next
  case True
  let ?P = "\<lambda>m. m_priority m < m_priority x"
  define zs where "zs = rev (takeWhile ?P (rev xs))"
  define ys where "ys = rev (dropWhile ?P (rev xs))"
  have xs: "xs = ys @ zs"
    by (simp add: ys_def zs_def rev_append [symmetric] del: rev_append)
  have "length xs - passed (m_priority x) xs = length ys"
  proof -
    have "length xs = length ys + length zs"
      by (subst xs) simp
    then show ?thesis by (simp add: passed_def zs_def)
  qed
  then have ins: "ring_insert x xs = ys @ x # zs"
    using True xs by (simp add: ring_insert_def Let_def)
  have z: "msg_class x < msg_class z" if "z \<in> set zs" for z
  proof -
    have "?P z" "z \<in> set xs"
      using that set_takeWhileD [of z ?P "rev xs"] by (auto simp: zs_def)
    with assms(1) True show ?thesis
      using passed_class [of x z] by simp
  qed
  have y: "msg_class y \<le> msg_class x" if "y \<in> set ys" for y
  proof -
    have ne: "ys \<noteq> []" using that by auto
    then have "\<not> ?P (last ys)"
      using hd_dropWhile [of ?P "rev xs"] by (simp add: ys_def last_rev)
    moreover have "valid_priority (last ys)"
      using assms(1) xs ne by auto
    ultimately have "msg_class (last ys) \<le> msg_class x"
      using passed_class [of x "last ys"] assms(1) True by simp
    moreover have "msg_class y \<le> msg_class (last ys)"
    proof -
      define zs' where "zs' = butlast ys"
      have ys: "ys = zs' @ [last ys]"
        using ne by (simp add: zs'_def)
      have "sorted (map msg_class ys)"
        using assms(2) unfolding xs by (simp add: sorted_append)
      then have "\<forall>z \<in> set zs'. msg_class z \<le> msg_class (last ys)"
        by (subst (asm) ys) (simp add: sorted_append)
      moreover have "y \<in> set zs' \<or> y = last ys"
        using that by (subst (asm) ys) auto
      ultimately show ?thesis by auto
    qed
    ultimately show ?thesis by simp
  qed
  show ?thesis
    using that [OF xs ins] y z by blast
qed

lemma ring_insert_sort_key:
  assumes "\<forall>m \<in> set (x # xs). valid_priority m"
  shows "ring_insert x (sort_key msg_class xs) = sort_key msg_class (xs @ [x])"
proof -
  obtain ys zs where s: "sort_key msg_class xs = ys @ zs"
      and ins: "ring_insert x (sort_key msg_class xs) = ys @ x # zs"
      and y: "\<forall>y \<in> set ys. msg_class y \<le> msg_class x" and z: "\<forall>z \<in> set zs. msg_class x < msg_class z"
    by (rule ring_insert_split [of x "sort_key msg_class xs"]) (use assms in auto)
  have "sorted (map msg_class (ys @ zs))"
    unfolding s [symmetric] by simp
  then have "sorted (map msg_class (ys @ x # zs))"
    using y z by (auto simp: sorted_append intro: less_imp_le)
  moreover have "mset (ys @ x # zs) = mset (xs @ [x])"
    using arg_cong [OF s, of mset] by simp
  moreover have "filter (\<lambda>m. msg_class k = msg_class m) (ys @ x # zs)
      = filter (\<lambda>m. msg_class k = msg_class m) (xs @ [x])" for k
  proof -
    have "filter (\<lambda>m. msg_class k = msg_class m) xs = filter (\<lambda>m. msg_class k = msg_class m) (ys @ zs)"
      using sort_key_stable [of msg_class "msg_class k" xs] by (simp add: s eq_commute)
    moreover have "msg_class k = msg_class x \<Longrightarrow> filter (\<lambda>m. msg_class k = msg_class m) zs = []"
      using z by (auto simp: filter_empty_conv)
    ultimately show ?thesis by simp
  qed
  ultimately show ?thesis
    unfolding ins by (intro properties_for_sort_key [symmetric]) auto
qed

lemma ring_inserts_sort:
  "\<forall>m \<in> set xs. valid_priority m \<Longrightarrow> fold ring_insert xs [] = sort_key msg_class xs"
  by (induction xs rule: rev_induct) (simp_all add: ring_insert_sort_key)

section \<open>Sending and receiving with the semaphores\<close>

text \<open>
  The semaphores of a queue count its messages and its free slots.
\<close>

definition queue_ok :: "('s \<Rightarrow> nat) \<Rightarrow> ('s \<Rightarrow> nat) \<Rightarrow> ('m, 's) message_queue \<Rightarrow> bool" where
  "queue_ok sval smax q \<longleftrightarrow>
     ring_wf q \<and>
     sval (q_msg_available q) = q_current_size q \<and> smax (q_msg_available q) = q_max_size q \<and>
     sval (q_space_available q) = q_max_size q - q_current_size q \<and>
     smax (q_space_available q) = q_max_size q"

lemma ring_wf_sync [simp]:
  "ring_wf (q\<lparr>q_lock := l\<rparr>) = ring_wf q"
  "ring_wf (q\<lparr>q_msg_available := s\<rparr>) = ring_wf q"
  "ring_wf (q\<lparr>q_space_available := s\<rparr>) = ring_wf q"
  "ring_wf (q\<lparr>q_messages_sent := k\<rparr>) = ring_wf q"
  "ring_wf (q\<lparr>q_dropped_messages := k\<rparr>) = ring_wf q"
  by (simp_all add: ring_wf_def)

lemma ring_contents_sync [simp]:
  "ring_contents (q\<lparr>q_lock := l\<rparr>) = ring_contents q"
  "ring_contents (q\<lparr>q_msg_available := s\<rparr>) = ring_contents q"
  "ring_contents (q\<lparr>q_space_available := s\<rparr>) = ring_contents q"
  "ring_contents (q\<lparr>q_messages_sent := k\<rparr>) = ring_contents q"
  "ring_contents (q\<lparr>q_dropped_messages := k\<rparr>) = ring_contents q"
  by (simp_all add: ring_contents_def)

lemma not_blocking [simp]: "flags AND MESSAGE_FLAG_BLOCKING = 0"
  by (simp add: MESSAGE_FLAG_BLOCKING_def)

context counting_semaphore
begin

lemma queue_send_insert:
  assumes "queue_ok sval smax q" "q_current_size q < q_max_size q"
  obtains q' where "queue_send mo ops msg flags q = Some (Inr (), q')" "queue_ok sval smax q'"
    "ring_contents q' = (if flags AND MESSAGE_FLAG_URGENT \<noteq> 0 then msg # ring_contents q
                         else ring_insert msg (ring_contents q))"
    "q_max_size q' = q_max_size q" "q_current_size q' = Suc (q_current_size q)"
    "q_high_priority_count q' = (if flags AND MESSAGE_FLAG_URGENT \<noteq> 0 then q_high_priority_count q
       else q_high_priority_count (count_insert (m_priority msg) q))"
    "q_urgent_priority_count q' = (if flags AND MESSAGE_FLAG_URGENT \<noteq> 0
       then q_urgent_priority_count q + 1
       else q_urgent_priority_count (count_insert (m_priority msg) q))"
proof -
  have "0 < sval (q_space_available q)"
    using assms by (simp add: queue_ok_def)
  then obtain sp where sp: "sem_trywait ops (q_space_available q) = (True, sp)"
      "sval sp = sval (q_space_available q) - 1" "smax sp = smax (q_space_available q)"
    using trywait_ok by blast
  let ?q2 = "q\<lparr>q_space_available := sp, q_lock := mtx_lock mo (q_lock q)\<rparr>"
  have wf: "ring_wf ?q2" "q_current_size ?q2 < q_max_size ?q2"
    using assms by (simp_all add: queue_ok_def)
  have acq: "acquire_space ops flags q = (Inr (), q\<lparr>q_space_available := sp\<rparr>)"
    by (simp add: acquire_space_def sp)
  obtain q3 where q3: "(if flags AND MESSAGE_FLAG_URGENT \<noteq> 0 then Some (insert_urgent msg ?q2)
      else insert_message_by_priority msg ?q2) = Some (Inr (), q3)"
    "ring_wf q3" "ring_contents q3 = (if flags AND MESSAGE_FLAG_URGENT \<noteq> 0 then msg # ring_contents q
                         else ring_insert msg (ring_contents q))"
    "q_msg_available q3 = q_msg_available q" "q_space_available q3 = sp"
    "q_max_size q3 = q_max_size q" "q_current_size q3 = Suc (q_current_size q)"
    "q_high_priority_count q3 = (if flags AND MESSAGE_FLAG_URGENT \<noteq> 0 then q_high_priority_count q
       else q_high_priority_count (count_insert (m_priority msg) q))"
    "q_urgent_priority_count q3 = (if flags AND MESSAGE_FLAG_URGENT \<noteq> 0
       then q_urgent_priority_count q + 1
       else q_urgent_priority_count (count_insert (m_priority msg) q))"
  proof (cases "flags AND MESSAGE_FLAG_URGENT \<noteq> 0")
    case True
    obtain r q3 where "insert_urgent msg ?q2 = (r, q3)"
      by (rule prod.exhaust)
    with insert_urgent_ring [OF wf this] True that [of q3] show ?thesis by simp
  next
    case False
    obtain q3 where "insert_message_by_priority msg ?q2 = Some (Inr (), q3)" "ring_wf q3"
      "ring_contents q3 = ring_insert msg (ring_contents ?q2)"
      "q_msg_available q3 = q_msg_available ?q2" "q_space_available q3 = q_space_available ?q2"
      "q_max_size q3 = q_max_size ?q2" "q_current_size q3 = Suc (q_current_size ?q2)"
      "q_high_priority_count q3 = q_high_priority_count (count_insert (m_priority msg) ?q2)"
      "q_urgent_priority_count q3 = q_urgent_priority_count (count_insert (m_priority msg) ?q2)"
      using insert_message_ring [OF wf] by metis
    with False that [of q3] show ?thesis by (simp add: count_insert_def)
  qed
  let ?q4 = "q3\<lparr>q_messages_sent := q_messages_sent q3 + 1, q_lock := mtx_unlock mo (q_lock q3),
      q_msg_available := sem_post ops (q_msg_available q3)\<rparr>"
  have "queue_send mo ops msg flags q = Some (Inr (), ?q4)"
    using q3(1)
    by (cases "flags AND MESSAGE_FLAG_URGENT = 0") (simp_all add: queue_send_def acq Let_def)
  moreover have "sval (sem_post ops (q_msg_available q)) = Suc (q_current_size q) \<and>
      smax (sem_post ops (q_msg_available q)) = q_max_size q"
    using post_ok [of "q_msg_available q"] assms by (simp add: queue_ok_def)
  then have "queue_ok sval smax ?q4"
    using q3 assms sp(2,3) by (simp add: queue_ok_def)
  ultimately show ?thesis
    using that q3 by simp
qed

lemma queue_send_full:
  assumes "queue_ok sval smax q" "q_current_size q = q_max_size q"
  shows "queue_send mo ops msg flags q
           = Some (Inl EAGAIN, q\<lparr>q_dropped_messages := q_dropped_messages q + 1\<rparr>)"
  using assms by (simp add: queue_send_def acquire_space_def queue_ok_def trywait_empty)

lemma queue_receive_head:
  assumes "queue_ok sval smax q" "ring_contents q = m # rest"
    and "queue_receive mo ops flags q = (r, q')"
  shows "r = Inr m \<and> queue_ok sval smax q' \<and> ring_contents q' = rest \<and>
         q_max_size q' = q_max_size q \<and>
         q_high_priority_count q' = q_high_priority_count (count_remove (m_priority m) q) \<and>
         q_urgent_priority_count q' = q_urgent_priority_count (count_remove (m_priority m) q)"
proof -
  have c: "0 < q_current_size q"
    using assms(2) length_ring_contents [of q] by simp
  then have "0 < sval (q_msg_available q)"
    using assms by (simp add: queue_ok_def)
  then obtain av where av: "sem_trywait ops (q_msg_available q) = (True, av)"
      "sval av = sval (q_msg_available q) - 1" "smax av = smax (q_msg_available q)"
    using trywait_ok by blast
  let ?q2 = "q\<lparr>q_msg_available := av, q_lock := mtx_lock mo (q_lock q)\<rparr>"
  obtain m' q3 where t: "take_head ?q2 = (m', q3)"
    by (rule prod.exhaust)
  have wf: "ring_wf ?q2" "0 < q_current_size ?q2"
    using assms c by (simp_all add: queue_ok_def)
  note th = take_head_ring [OF wf t]
  let ?q4 = "q3\<lparr>q_lock := mtx_unlock mo (q_lock q3),
      q_space_available := sem_post ops (q_space_available q3)\<rparr>"
  have "queue_receive mo ops flags q = (Inr m, ?q4)"
    using th assms(2) by (simp add: queue_receive_def acquire_message_def av t Let_def)
  moreover have "sval (q_space_available q) < smax (q_space_available q)"
    using assms(1) c by (auto simp: queue_ok_def ring_wf_def)
  from post_ok [OF this] have "queue_ok sval smax ?q4"
    using th assms(1) av c by (auto simp: queue_ok_def ring_wf_def)
  ultimately show ?thesis
    using assms(2,3) th by (simp add: count_remove_def)
qed

lemma queue_receive_empty:
  assumes "queue_ok sval smax q" "q_current_size q = 0"
  shows "queue_receive mo ops flags q = (Inl EAGAIN, q)"
  using assms by (simp add: queue_receive_def acquire_message_def queue_ok_def trywait_empty)

end

end
