(* ===== verification/Msg_Ring_Props.thy ===== *)
theory Msg_Ring_Props
  imports Msg_Ring_Refine
begin

text \<open>
  Properties of the message queues: the invariant over sequences of sends and receives, the delivery
  order, cleanup after a task, and the places where the priority counters and the response search do
  not do what their names say. The semaphore calls are a parameter; the hypothesis
  \<open>counting_semaphore\<close> states what the queue relies on.
\<close>

section \<open>Sequences of sends and receives\<close>

datatype ring_op = RSend message u32 | RReceive u32

definition ring_op_step ::
    "'m mutex_ops \<Rightarrow> 's sem_ops \<Rightarrow> ring_op \<Rightarrow> ('m, 's) message_queue \<Rightarrow> ('m, 's) message_queue option" where
  "ring_op_step mo so op q =
     (case op of
        RSend m flags \<Rightarrow> map_option snd (queue_send mo so m flags q)
      | RReceive flags \<Rightarrow> Some (snd (queue_receive mo so flags q)))"

fun ring_run ::
    "'m mutex_ops \<Rightarrow> 's sem_ops \<Rightarrow> ring_op list \<Rightarrow> ('m, 's) message_queue \<Rightarrow> ('m, 's) message_queue option" where
  "ring_run mo so [] q = Some q"
| "ring_run mo so (op # ops) q = Option.bind (ring_op_step mo so op q) (ring_run mo so ops)"

fun send_all ::
    "'m mutex_ops \<Rightarrow> 's sem_ops \<Rightarrow> message list \<Rightarrow> ('m, 's) message_queue \<Rightarrow> ('m, 's) message_queue option" where
  "send_all mo so [] q = Some q"
| "send_all mo so (m # ms) q =
     (case queue_send mo so m 0 q of
        Some (Inr _, q') \<Rightarrow> send_all mo so ms q'
      | _ \<Rightarrow> None)"

fun receive_n ::
    "'m mutex_ops \<Rightarrow> 's sem_ops \<Rightarrow> nat \<Rightarrow> ('m, 's) message_queue \<Rightarrow>
     (errno + message) list \<times> ('m, 's) message_queue" where
  "receive_n mo so 0 q = ([], q)"
| "receive_n mo so (Suc n) q =
     (let (r, q1) = queue_receive mo so 0 q; (rs, q2) = receive_n mo so n q1 in (r # rs, q2))"

text \<open>The two counters agree with the contents of the queue.\<close>

definition count_prio :: "u32 \<Rightarrow> message list \<Rightarrow> nat" where
  "count_prio p xs = length (filter (\<lambda>m. m_priority m = p) xs)"

definition counts_ok :: "('m, 's) message_queue \<Rightarrow> bool" where
  "counts_ok q \<longleftrightarrow>
     q_high_priority_count q = of_nat (count_prio MESSAGE_PRIORITY_HIGH (ring_contents q)) \<and>
     q_urgent_priority_count q = of_nat (count_prio MESSAGE_PRIORITY_URGENT (ring_contents q))"

definition op_urgent :: "ring_op \<Rightarrow> bool" where
  "op_urgent op = (case op of RSend m flags \<Rightarrow> flags AND MESSAGE_FLAG_URGENT \<noteq> 0 | RReceive _ \<Rightarrow> False)"

lemma count_prio_insert:
  "count_prio p (ring_insert m xs) = count_prio p xs + (if m_priority m = p then 1 else 0)"
proof -
  have "length (filter P (take k xs)) + length (filter P (drop k xs)) = length (filter P xs)"
    for P :: "message \<Rightarrow> bool" and k
    by (metis append_take_drop_id filter_append length_append)
  then show ?thesis
    by (simp add: count_prio_def ring_insert_def Let_def)
qed

lemma count_prio_Cons:
  "count_prio p (m # xs) = count_prio p xs + (if m_priority m = p then 1 else 0)"
  by (simp add: count_prio_def)

context counting_semaphore
begin

lemma ring_step_ok:
  assumes "queue_ok sval smax q"
  obtains q' where "ring_op_step mo ops op q = Some q'" "queue_ok sval smax q'"
    "counts_ok q \<Longrightarrow> \<not> op_urgent op \<Longrightarrow> counts_ok q'"
proof (cases op)
  case (RSend m flags)
  have "q_current_size q \<le> q_max_size q"
    using assms by (simp add: queue_ok_def ring_wf_def)
  then consider (room) "q_current_size q < q_max_size q" | (full) "q_current_size q = q_max_size q"
    by linarith
  then show ?thesis
  proof cases
    case room
    obtain q' where q': "queue_send mo ops m flags q = Some (Inr (), q')" "queue_ok sval smax q'"
      "ring_contents q' = (if flags AND MESSAGE_FLAG_URGENT \<noteq> 0 then m # ring_contents q
         else ring_insert m (ring_contents q))"
      "q_high_priority_count q' = (if flags AND MESSAGE_FLAG_URGENT \<noteq> 0 then q_high_priority_count q
         else q_high_priority_count (count_insert (m_priority m) q))"
      "q_urgent_priority_count q' = (if flags AND MESSAGE_FLAG_URGENT \<noteq> 0
         then q_urgent_priority_count q + 1
         else q_urgent_priority_count (count_insert (m_priority m) q))"
      by (rule queue_send_insert [OF assms room, of mo m flags])
    have "counts_ok q'" if "counts_ok q" "\<not> op_urgent op"
      using that q'(3-5) RSend
      by (simp add: counts_ok_def op_urgent_def count_prio_insert count_insert_def priority_defs)
    with that [of q'] q'(1,2) RSend show ?thesis
      by (simp add: ring_op_step_def)
  next
    case full
    let ?q = "q\<lparr>q_dropped_messages := q_dropped_messages q + 1\<rparr>"
    have "queue_ok sval smax ?q" "counts_ok q \<Longrightarrow> counts_ok ?q"
      using assms by (simp_all add: queue_ok_def counts_ok_def)
    with that [of ?q] queue_send_full [OF assms full] RSend show ?thesis
      by (simp add: ring_op_step_def)
  qed
next
  case (RReceive flags)
  show ?thesis
  proof (cases "ring_contents q")
    case Nil
    then have "q_current_size q = 0"
      by (metis length_ring_contents list.size(3))
    with that [of q] queue_receive_empty [OF assms this] assms RReceive show ?thesis
      by (simp add: ring_op_step_def)
  next
    case (Cons m rest)
    obtain r q' where r: "queue_receive mo ops flags q = (r, q')"
      by (rule prod.exhaust)
    note h = queue_receive_head [OF assms Cons r]
    have "counts_ok q'" if "counts_ok q"
      using that h Cons
      by (simp add: counts_ok_def count_remove_def count_prio_Cons priority_defs)
    with that [of q'] h r RReceive show ?thesis
      by (simp add: ring_op_step_def)
  qed
qed

lemma ring_run_ok:
  assumes "queue_ok sval smax q"
  shows "\<exists>q'. ring_run mo ops rops q = Some q' \<and> queue_ok sval smax q' \<and>
           (counts_ok q \<and> (\<forall>op \<in> set rops. \<not> op_urgent op) \<longrightarrow> counts_ok q')"
  using assms
proof (induction rops arbitrary: q)
  case Nil
  then show ?case by simp
next
  case (Cons op rops)
  obtain q1 where q1: "ring_op_step mo ops op q = Some q1" "queue_ok sval smax q1"
    "counts_ok q \<Longrightarrow> \<not> op_urgent op \<Longrightarrow> counts_ok q1"
    by (rule ring_step_ok [OF Cons.prems, of mo op]) blast
  with Cons.IH [OF q1(2)] show ?case by auto
qed

lemma send_all_ok:
  assumes "queue_ok sval smax q" "q_current_size q + length ms \<le> q_max_size q"
  shows "\<exists>q'. send_all mo ops ms q = Some q' \<and> queue_ok sval smax q' \<and>
              ring_contents q' = fold ring_insert ms (ring_contents q)"
  using assms
proof (induction ms arbitrary: q)
  case Nil
  then show ?case by simp
next
  case (Cons m ms)
  have "q_current_size q < q_max_size q"
    using Cons.prems(2) by simp
  from queue_send_insert [OF Cons.prems(1) this, of mo m 0]
  obtain q' where q': "queue_send mo ops m 0 q = Some (Inr (), q')" "queue_ok sval smax q'"
    "ring_contents q' = ring_insert m (ring_contents q)"
    "q_max_size q' = q_max_size q" "q_current_size q' = Suc (q_current_size q)"
    by auto
  with Cons.IH [OF q'(2)] Cons.prems(2) show ?case by simp
qed

lemma receive_n_ok:
  assumes "queue_ok sval smax q" "n \<le> length (ring_contents q)"
  shows "fst (receive_n mo ops n q) = map Inr (take n (ring_contents q))"
  using assms
proof (induction n arbitrary: q)
  case 0
  then show ?case by simp
next
  case (Suc n)
  then obtain m rest where m: "ring_contents q = m # rest"
    by (cases "ring_contents q") auto
  obtain r q1 where r: "queue_receive mo ops 0 q = (r, q1)"
    by (rule prod.exhaust)
  note h = queue_receive_head [OF Suc.prems(1) m r]
  then have "fst (receive_n mo ops n q1) = map Inr (take n rest)"
    using Suc.IH [of q1] Suc.prems(2) m by (metis Suc_le_mono length_Cons)
  with r h m show ?case
    by (simp add: case_prod_beta)
qed

lemma cleanup_queue_ok:
  assumes "queue_ok sval smax q" "q_max_size q < 2 ^ 32"
  shows "let q' = cleanup_queue mo ops pid q in
         ring_wf q' \<and> ring_contents q' = filter (\<lambda>m. \<not> involves pid m) (ring_contents q) \<and>
         (fst (sem_init ops (of_nat (q_current_size q')) (of_nat (q_max_size q))) \<and>
          fst (sem_init ops (of_nat (q_max_size q - q_current_size q')) (of_nat (q_max_size q)))
          \<longrightarrow> queue_ok sval smax q')"
proof -
  let ?q1 = "q\<lparr>q_lock := mtx_lock mo (q_lock q)\<rparr>"
  obtain r q2 where c: "cleanup_loop pid (q_head ?q1) 0 0 ?q1 = (r, q2)"
    by (rule prod.exhaust)
  have wf: "ring_wf ?q1" "0 \<le> q_current_size ?q1" "q_head ?q1 = (q_head ?q1 + 0) mod q_max_size ?q1"
    using assms by (simp_all add: queue_ok_def ring_wf_def)
  note l = cleanup_loop_ring [OF wf c]
  have size: "q_current_size q2 = q_current_size q - r" "q_current_size q2 \<le> q_max_size q"
    "q_max_size q2 = q_max_size q"
  proof -
    have "length (ring_contents q2) + r = length (ring_contents q)"
      using l sum_length_filter_compl [of "involves pid" "ring_contents q"] by simp
    then show "q_current_size q2 = q_current_size q - r" by simp
    show "q_max_size q2 = q_max_size q" using l by simp
    with l show "q_current_size q2 \<le> q_max_size q" by (simp add: ring_wf_def)
  qed
  have init: "sval (snd (sem_init ops (of_nat i) (of_nat (q_max_size q)))) = i \<and>
      smax (snd (sem_init ops (of_nat i) (of_nat (q_max_size q)))) = q_max_size q"
    if "i \<le> q_max_size q" "fst (sem_init ops (of_nat i) (of_nat (q_max_size q)))" for i
  proof -
    have "sem_init ops (of_nat i) (of_nat (q_max_size q)) = (True, snd (sem_init ops (of_nat i) (of_nat (q_max_size q))))"
      using that(2) by (metis prod.collapse)
    with init_ok [of "of_nat i" "of_nat (q_max_size q)"] that(1) assms(2) show ?thesis
      by (simp add: word_le_nat_alt unat_of_nat)
  qed
  show ?thesis
    using c l size init [of "q_current_size q2"] init [of "q_max_size q - q_current_size q2"] assms(1)
    by (cases "r = 0") (auto simp: cleanup_queue_def Let_def queue_ok_def ring_wf_def ring_contents_def)
qed

end

lemma find_response_from_None:
  "find_response_from n ms oid sd ((h + j) mod n) k = None \<longleftrightarrow>
     (\<forall>i < k. \<not> (m_type (ms ! ((h + (j + i)) mod n)) = MESSAGE_TYPE_RESPONSE \<and>
               m_id (ms ! ((h + (j + i)) mod n)) = oid \<and> m_sender (ms ! ((h + (j + i)) mod n)) = sd))"
proof (induction k arbitrary: j)
  case 0
  then show ?case by simp
next
  case (Suc k)
  have all: "(\<forall>i < Suc k. P i) \<longleftrightarrow> P 0 \<and> (\<forall>i < k. P (Suc i))" for P
    by (auto simp: less_Suc_eq_0_disj)
  have "((h + j) mod n + 1) mod n = (h + Suc j) mod n"
    by (simp add: mod_Suc_eq)
  then show ?case
    unfolding all using Suc.IH [of "Suc j"] by (simp add: Let_def)
qed

lemma find_response_None:
  assumes "ring_wf q"
  shows "find_response_message oid sd q = None \<longleftrightarrow>
    (\<forall>m \<in> set (ring_contents q). \<not> (m_type m = MESSAGE_TYPE_RESPONSE \<and> m_id m = oid \<and> m_sender m = sd))"
proof -
  have h: "q_head q mod q_max_size q = q_head q"
    using assms by (simp add: ring_wf_def)
  show ?thesis
    using find_response_from_None [of "q_max_size q" "q_messages q" oid sd "q_head q" 0 "q_current_size q"]
    by (simp add: find_response_message_def ring_contents_def ring_slice_def h) auto
qed

section \<open>Properties\<close>

text \<open>
  C13. Every sequence of sends and receives on a queue returns, keeps the ring well formed and
  keeps the two semaphores equal to the number of messages and of free slots. As long as no send
  carries the urgent flag, the two priority counters stay equal to the number of high and of urgent
  messages in the queue.
\<close>

theorem ring_run_invariant:
  assumes "counting_semaphore so sval smax" "queue_ok sval smax q"
  shows "\<exists>q'. ring_run mo so rops q = Some q' \<and> queue_ok sval smax q' \<and>
           (counts_ok q \<and> (\<forall>op \<in> set rops. \<not> op_urgent op) \<longrightarrow> counts_ok q')"
  by (rule counting_semaphore.ring_run_ok [OF assms])

text \<open>
  Messages sent to an empty queue that has room for them are received in the order of a stable sort
  by class: urgent before high before all others, first in first out inside a class.
\<close>

lemma ring_delivery_classes:
  assumes "counting_semaphore so sval smax" "queue_ok sval smax q" "q_current_size q = 0"
    and "length ms \<le> q_max_size q" "\<forall>m \<in> set ms. valid_priority m"
  shows "\<exists>q'. send_all mo so ms q = Some q' \<and>
              fst (receive_n mo so (length ms) q') = map Inr (sort_key msg_class ms)"
proof -
  have "ring_contents q = []"
    using assms(3) length_ring_contents [of q] by (metis length_0_conv)
  then obtain q' where q': "send_all mo so ms q = Some q'" "queue_ok sval smax q'"
      "ring_contents q' = sort_key msg_class ms"
    using counting_semaphore.send_all_ok [OF assms(1,2), of ms mo] assms(3-5)
    by (auto simp: ring_inserts_sort)
  moreover have "fst (receive_n mo so (length ms) q') = map Inr (sort_key msg_class ms)"
    using counting_semaphore.receive_n_ok [OF assms(1) q'(2), of "length ms" mo] q'(3) by simp
  ultimately show ?thesis by blast
qed

text \<open>
  The classes are the priority levels as soon as low and normal messages do not meet in the queue.
\<close>

definition priority_level :: "message \<Rightarrow> nat" where
  "priority_level m = unat MESSAGE_PRIORITY_URGENT - unat (m_priority m)"

lemma class_is_level:
  assumes "\<forall>m \<in> set ms. valid_priority m"
    and "(\<forall>m \<in> set ms. m_priority m \<noteq> 0) \<or> (\<forall>m \<in> set ms. m_priority m \<noteq> 1)"
    and "a \<in> set ms" "b \<in> set ms"
  shows "msg_class a \<le> msg_class b \<longleftrightarrow> priority_level a \<le> priority_level b"
proof -
  have "m_priority a = 0 \<or> m_priority a = 1 \<or> m_priority a = 2 \<or> m_priority a = 3"
    and "m_priority b = 0 \<or> m_priority b = 1 \<or> m_priority b = 2 \<or> m_priority b = 3"
    using assms(1,3,4) by (auto simp: valid_priority_def priority_defs intro!: priority_cases)
  then show ?thesis
    using assms(2-4) by (auto simp: msg_class_def priority_level_def priority_defs)
qed

lemma sort_class_is_sort_level:
  assumes "\<forall>m \<in> set ms. valid_priority m"
    and "(\<forall>m \<in> set ms. m_priority m \<noteq> 0) \<or> (\<forall>m \<in> set ms. m_priority m \<noteq> 1)"
  shows "sort_key msg_class ms = sort_key priority_level ms"
proof (rule properties_for_sort_key)
  note le = class_is_level [OF assms]
  show "mset (sort_key priority_level ms) = mset ms" by simp
  show "filter (\<lambda>x. msg_class k = msg_class x) (sort_key priority_level ms)
      = filter (\<lambda>x. msg_class k = msg_class x) ms" if "k \<in> set (sort_key priority_level ms)" for k
  proof -
    have k: "k \<in> set ms" using that by simp
    have "msg_class k = msg_class x \<longleftrightarrow> priority_level x = priority_level k" if "x \<in> set ms" for x
      using le [OF k that] le [OF that k] by linarith
    then have "filter (\<lambda>x. msg_class k = msg_class x) (sort_key priority_level ms)
          = filter (\<lambda>x. priority_level x = priority_level k) (sort_key priority_level ms)"
      and "filter (\<lambda>x. msg_class k = msg_class x) ms = filter (\<lambda>x. priority_level x = priority_level k) ms"
      by (intro filter_cong; simp)+
    then show ?thesis
      using sort_key_stable [of priority_level "priority_level k" ms] by simp
  qed
  have "sorted_wrt (\<lambda>x y. priority_level x \<le> priority_level y) (sort_key priority_level ms)"
    using sorted_sort_key [of priority_level ms] by (simp add: sorted_map)
  then have "sorted_wrt (\<lambda>x y. msg_class x \<le> msg_class y) (sort_key priority_level ms)"
    by (rule sorted_wrt_mono_rel [rotated]) (use le in auto)
  then show "sorted (map msg_class (sort_key priority_level ms))"
    by (simp add: sorted_map)
qed

text \<open>
  C1. Delivery order: messages with legal priorities that are sent without the urgent flag to an
  empty queue with room for them, and among which low ones (0) and normal ones (1) do not both occur, are received
  in the order of a stable sort by priority: the higher priority first, first in first out among
  messages of the same priority.
\<close>

theorem ring_delivery_order:
  assumes "counting_semaphore so sval smax" "queue_ok sval smax q" "q_current_size q = 0"
    and "length ms \<le> q_max_size q" "\<forall>m \<in> set ms. valid_priority m"
    and "(\<forall>m \<in> set ms. m_priority m \<noteq> 0) \<or> (\<forall>m \<in> set ms. m_priority m \<noteq> 1)"
  shows "\<exists>q'. send_all mo so ms q = Some q' \<and>
              fst (receive_n mo so (length ms) q') = map Inr (sort_key priority_level ms)"
  using ring_delivery_classes [OF assms(1-5), of mo] sort_class_is_sort_level [OF assms(5,6)] by simp

text \<open>
  Between low (0) and normal (1) messages there is no order but the order of sending: a normal message
  does not overtake a low one that was sent before it, although the header orders the two levels.
\<close>

theorem normal_does_not_overtake_low:
  assumes "counting_semaphore so sval smax" "queue_ok sval smax q" "q_current_size q = 0"
    and "length ms \<le> q_max_size q" "\<forall>m \<in> set ms. m_priority m \<le> 1"
  shows "\<exists>q'. send_all mo so ms q = Some q' \<and> fst (receive_n mo so (length ms) q') = map Inr ms"
proof -
  have c2: "msg_class m = 2" if "m \<in> set ms" for m
    using bspec [OF assms(5) that] by (auto simp: msg_class_def priority_defs word_le_nat_alt)
  have "\<forall>m \<in> set ms. valid_priority m"
    using assms(5) by (auto simp: valid_priority_def priority_defs elim!: order_trans)
  moreover have "sort_key msg_class ms = ms"
    using c2 by (intro properties_for_sort_key) (auto simp: sorted_iff_nth_mono)
  ultimately show ?thesis
    using ring_delivery_classes [OF assms(1-4), of mo] by simp
qed

text \<open>
  C35. Cleanup after a task removes from a queue exactly the messages that the task sent or should
  receive, keeps the others in order and leaves the ring well formed. The two semaphores are created
  again with the new counts; when both creations succeed they equal the number of messages and of free
  slots.
\<close>

theorem cleanup_queue_filters:
  assumes "counting_semaphore so sval smax" "queue_ok sval smax q" "q_max_size q < 2 ^ 32"
  shows "let q' = cleanup_queue mo so pid q in
         ring_wf q' \<and> ring_contents q' = filter (\<lambda>m. \<not> involves pid m) (ring_contents q) \<and>
         (fst (sem_init so (of_nat (q_current_size q')) (of_nat (q_max_size q))) \<and>
          fst (sem_init so (of_nat (q_max_size q - q_current_size q')) (of_nat (q_max_size q)))
          \<longrightarrow> queue_ok sval smax q')"
  by (rule counting_semaphore.cleanup_queue_ok [OF assms(1-3)])

text \<open>
  The urgent flag breaks the priority counters: a high-priority message that is sent with the flag
  to an empty queue and received again leaves the urgent counter one too high and the high counter
  one too low, so a high counter of 0 wraps to the largest 32-bit number.
\<close>

theorem urgent_flag_counter_drift:
  assumes "counting_semaphore so sval smax" "queue_ok sval smax q" "ring_contents q = []"
    and "m_priority m = MESSAGE_PRIORITY_HIGH" "flags AND MESSAGE_FLAG_URGENT \<noteq> 0"
  shows "\<exists>q1 q2. queue_send mo so m flags q = Some (Inr (), q1) \<and>
           queue_receive mo so 0 q1 = (Inr m, q2) \<and> ring_contents q2 = [] \<and>
           q_high_priority_count q2 = q_high_priority_count q - 1 \<and>
           q_urgent_priority_count q2 = q_urgent_priority_count q + 1"
proof -
  have "q_current_size q < q_max_size q"
    using assms(2,3) length_ring_contents [of q] by (simp add: queue_ok_def ring_wf_def)
  then obtain q1 where q1: "queue_send mo so m flags q = Some (Inr (), q1)" "queue_ok sval smax q1"
    "ring_contents q1 = [m]" "q_high_priority_count q1 = q_high_priority_count q"
    "q_urgent_priority_count q1 = q_urgent_priority_count q + 1"
    by (rule counting_semaphore.queue_send_insert [OF assms(1,2), of mo m flags]) (use assms in auto)
  obtain r q2 where r: "queue_receive mo so 0 q1 = (r, q2)"
    by (rule prod.exhaust)
  with counting_semaphore.queue_receive_head [OF assms(1) q1(2,3) r] q1 assms(4) show ?thesis
    by (auto simp: count_remove_def priority_defs)
qed

text \<open>
  A reply is never found by the response search: \<open>reply_to_message\<close> records the
  original message in \<^verbatim>\<open>reply_id\<close> and gives the reply a fresh id, while
  \<open>find_response_message\<close> compares the id. After a reply to a task with an empty receive
  queue, the search for the original id in that queue finds nothing, unless the fresh id happens to be
  the original one.
\<close>

theorem reply_not_found:
  assumes "counting_semaphore so sval smax"
    and "fst (find_task_queue mo (m_sender orig) QUEUE_LOOKUP_RECEIVE (ms_registry s)) = qp" "qp \<noteq> NULL"
    and "ms_objs s qp = Some q" "queue_ok sval smax q" "ring_contents q = []"
    and "m_id orig \<noteq> ms_next_message_id s + 1"
  shows "\<exists>rep' s' q'. reply_to_message mo so tid now (Some orig) (Some rep) flags s = Some (Inr (), Some rep', s') \<and>
           ms_objs s' qp = Some q' \<and> ring_contents q' = [rep'] \<and> m_reply_id rep' = m_id orig \<and>
           find_response_message (m_id orig) tid q' = None"
proof -
  let ?rep = "fill_header tid now (ms_next_message_id s + 1) flags
      (fill_reply tid now (ms_next_message_id s) orig rep)"
  obtain reg where reg: "find_task_queue mo (m_sender orig) QUEUE_LOOKUP_RECEIVE (ms_registry s) = (qp, reg)"
    using assms(2) by (metis prod.collapse)
  have "q_current_size q < q_max_size q"
    using assms(5,6) length_ring_contents [of q] by (simp add: queue_ok_def ring_wf_def)
  then obtain q' where q': "queue_send mo so ?rep flags q = Some (Inr (), q')" "queue_ok sval smax q'"
    "ring_contents q' = [?rep]"
    by (rule counting_semaphore.queue_send_insert [OF assms(1,5), of mo ?rep flags])
       (use assms(6) in \<open>auto simp: ring_insert_def\<close>)
  have "m_id ?rep \<noteq> m_id orig" "m_reply_id ?rep = m_id orig"
    using assms(7) by (simp_all add: fill_header_def fill_reply_def)
  moreover have "find_response_message (m_id orig) tid q' = None"
    using q' \<open>m_id ?rep \<noteq> m_id orig\<close> by (subst find_response_None) (auto simp: queue_ok_def)
  ultimately show ?thesis
    using q' assms(3,4)
    by (auto simp: reply_to_message_def reg send_message_def Let_def update_message_statistics_def)
qed

section \<open>Concrete instances\<close>

definition pair_sem :: "(nat \<times> nat) sem_ops" where
  "pair_sem = \<lparr>sem_init = (\<lambda>i m. (True, (unat i, unat m))), sem_wait = (\<lambda>t s. (fst s > 0, (fst s - 1, snd s))),
               sem_trywait = (\<lambda>s. (fst s > 0, (fst s - 1, snd s))),
               sem_post = (\<lambda>s. (fst s + 1, snd s)), sem_destroy = (\<lambda>s. s)\<rparr>"

definition unit_mutex :: "unit mutex_ops" where
  "unit_mutex = \<lparr>mtx_init = (True, ()), mtx_lock = (\<lambda>m. m), mtx_unlock = (\<lambda>m. m), mtx_destroy = (\<lambda>m. m)\<rparr>"

definition sample_msg :: "u32 \<Rightarrow> u32 \<Rightarrow> u32 \<Rightarrow> message" where
  "sample_msg i from prio =
     \<lparr>m_id = i, m_sender = from, m_receiver = 9, m_type = 0, m_priority = prio, m_flags = 0, m_size = 4,
      m_reply_id = 0, m_timestamp = 0, m_payload = []\<rparr>"

definition sample_queue :: "(unit, nat \<times> nat) message_queue" where
  "sample_queue = new_queue ''inbox'' () (0, 4) (4, 4) 4 (\<lambda>i. sample_msg 0 0 0)"

definition sample_queue2 :: "(unit, nat \<times> nat) message_queue" where
  "sample_queue2 = sample_queue\<lparr>q_head := 3, q_tail := 1, q_current_size := 2,
     q_msg_available := (2, 4), q_space_available := (2, 4),
     q_messages := [sample_msg 2 3 0, sample_msg 0 0 0, sample_msg 0 0 0, sample_msg 1 2 0]\<rparr>"

definition sample_msgs :: "message list" where
  "sample_msgs = [sample_msg 1 2 1, sample_msg 2 2 1, sample_msg 3 2 2, sample_msg 4 2 3]"

definition sample_sys :: "(unit, nat \<times> nat) msg_sys" where
  "sample_sys =
     \<lparr>ms_lock = (), ms_queues = replicate MAX_QUEUES NULL, ms_num_queues = 0, ms_next_message_id = 7,
      ms_initialized = True, ms_objs = [0x1000 \<mapsto> sample_queue], ms_heap = kheap_boot,
      ms_stats = init_ipc_stats,
      ms_registry = register_task_queue unit_mutex 5 0x1000 (registry_boot ())\<rparr>"

lemma pair_sem_ok: "counting_semaphore pair_sem fst snd"
  by unfold_locales (auto simp: pair_sem_def)

lemma sample_queue_ok: "queue_ok fst snd sample_queue" "counts_ok sample_queue"
    "ring_contents sample_queue = []" "q_current_size sample_queue = 0" "q_max_size sample_queue = 4"
  by (simp_all add: sample_queue_def new_queue_def queue_ok_def ring_wf_def counts_ok_def count_prio_def
      ring_contents_def ring_slice_def)

theorem ring_run_invariant_witness:
  "\<exists>q'. ring_run unit_mutex pair_sem [RSend (sample_msg 1 2 3) 0, RReceive 0, RReceive 0] sample_queue
          = Some q' \<and> queue_ok fst snd q' \<and> counts_ok q'"
  using ring_run_invariant [OF pair_sem_ok sample_queue_ok(1),
      of unit_mutex "[RSend (sample_msg 1 2 3) 0, RReceive 0, RReceive 0]"] sample_queue_ok(2)
  by (auto simp: op_urgent_def)

theorem ring_delivery_order_witness:
  "\<exists>q'. send_all unit_mutex pair_sem sample_msgs sample_queue = Some q' \<and>
         fst (receive_n unit_mutex pair_sem (length sample_msgs) q')
           = map Inr [sample_msg 4 2 3, sample_msg 3 2 2, sample_msg 1 2 1, sample_msg 2 2 1]"
proof -
  have "sort_key priority_level sample_msgs
      = [sample_msg 4 2 3, sample_msg 3 2 2, sample_msg 1 2 1, sample_msg 2 2 1]"
    by code_simp
  moreover have "length sample_msgs \<le> q_max_size sample_queue" "\<forall>m \<in> set sample_msgs. valid_priority m"
    and "\<forall>m \<in> set sample_msgs. m_priority m \<noteq> 0"
    by code_simp+
  ultimately show ?thesis
    using ring_delivery_order [OF pair_sem_ok sample_queue_ok(1,4), of sample_msgs unit_mutex] by simp
qed

theorem cleanup_queue_filters_witness:
  "queue_ok fst snd (cleanup_queue unit_mutex pair_sem 2 sample_queue2) \<and>
   ring_contents (cleanup_queue unit_mutex pair_sem 2 sample_queue2) = [sample_msg 2 3 0]"
proof -
  have "queue_ok fst snd sample_queue2" "q_max_size sample_queue2 < 2 ^ 32"
      "ring_contents sample_queue2 = [sample_msg 1 2 0, sample_msg 2 3 0]"
    by (simp_all add: sample_queue2_def sample_queue_def new_queue_def queue_ok_def ring_wf_def
        ring_contents_def ring_slice_def upt_rec)
  moreover have "fst (sem_init pair_sem i m)" for i m
    by (simp add: pair_sem_def)
  ultimately show ?thesis
    using cleanup_queue_filters [OF pair_sem_ok, of sample_queue2 unit_mutex 2]
    by (simp add: Let_def involves_def sample_msg_def)
qed

theorem urgent_flag_counter_drift_witness:
  "\<exists>q1 q2. queue_send unit_mutex pair_sem (sample_msg 1 2 2) 4 sample_queue = Some (Inr (), q1) \<and>
           queue_receive unit_mutex pair_sem 0 q1 = (Inr (sample_msg 1 2 2), q2) \<and>
           q_high_priority_count q2 = 0xFFFFFFFF"
  using urgent_flag_counter_drift [OF pair_sem_ok sample_queue_ok(1,3), of "sample_msg 1 2 2" 4 unit_mutex]
  by (auto simp: sample_msg_def priority_defs MESSAGE_FLAG_URGENT_def sample_queue_def new_queue_def)

theorem reply_not_found_witness:
  "\<exists>rep' s' q'. reply_to_message unit_mutex pair_sem 6 0 (Some (sample_msg 3 5 1)) (Some (sample_msg 0 0 0)) 0
       sample_sys = Some (Inr (), Some rep', s') \<and>
     ms_objs s' 0x1000 = Some q' \<and> ring_contents q' = [rep'] \<and>
     find_response_message 3 6 q' = None"
proof -
  have "fst (find_task_queue unit_mutex (m_sender (sample_msg 3 5 1)) QUEUE_LOOKUP_RECEIVE (ms_registry sample_sys))
      = 0x1000"
    by code_simp
  from reply_not_found [OF pair_sem_ok this _ _ sample_queue_ok(1,3), of 6 0 "sample_msg 0 0 0" 0]
  show ?thesis by (auto simp: sample_sys_def sample_msg_def)
qed

end
