(* ===== verification/Task_Context.thy ===== *)
theory Task_Context
  imports Kernel_Prelude
begin

text \<open>
  The saved CPU state of a task: the structure \<^verbatim>\<open>task_context_t\<close>, the frame that
  \<^verbatim>\<open>setup_initial_stack\<close> builds, and the two pieces of assembly in \<^verbatim>\<open>kernel/scheduler.c\<close>
  that load one: the first run of a task and \<^verbatim>\<open>context_switch\<close>. Memory is a function from the
  addresses of 64-bit words to cpu_words; the structure with base \<open>c\<close> has its \<open>k\<close>-th field at
  \<open>c + 8 * k\<close>.
\<close>

section \<open>Registers and the stack\<close>

datatype reg =
    R15 | R14 | R13 | R12 | R11 | R10 | R9 | R8 | RBP | RDI | RSI | RDX | RCX | RBX | RAX

record cpu =
  gpr :: "reg \<Rightarrow> u64"
  rsp :: u64
  rip :: u64
  rflags :: u64
  seg_cs :: u64
  seg_ss :: u64
  cpu_words :: "u64 \<Rightarrow> u64"

definition push :: "u64 \<Rightarrow> cpu \<Rightarrow> cpu" where
  "push v c = c\<lparr>rsp := rsp c - 8, cpu_words := (cpu_words c)(rsp c - 8 := v)\<rparr>"

definition push_reg :: "reg \<Rightarrow> cpu \<Rightarrow> cpu" where
  "push_reg r c = push (gpr c r) c"

definition pop_reg :: "reg \<Rightarrow> cpu \<Rightarrow> cpu" where
  "pop_reg r c = c\<lparr>gpr := (gpr c)(r := cpu_words c (rsp c)), rsp := rsp c + 8\<rparr>"

definition pushfq :: "cpu \<Rightarrow> cpu" where
  "pushfq c = push (rflags c) c"

definition popfq :: "cpu \<Rightarrow> cpu" where
  "popfq c = c\<lparr>rflags := cpu_words c (rsp c), rsp := rsp c + 8\<rparr>"

text \<open>\<^verbatim>\<open>leave\<close> is \<^verbatim>\<open>movq %rbp, %rsp; popq %rbp\<close>.\<close>

definition leave :: "cpu \<Rightarrow> cpu" where
  "leave c = pop_reg RBP (c\<lparr>rsp := gpr c RBP\<rparr>)"

definition ret :: "cpu \<Rightarrow> cpu" where
  "ret c = c\<lparr>rip := cpu_words c (rsp c), rsp := rsp c + 8\<rparr>"

definition iretq :: "cpu \<Rightarrow> cpu" where
  "iretq c =
     c\<lparr>rip := cpu_words c (rsp c), seg_cs := cpu_words c (rsp c + 8), rflags := cpu_words c (rsp c + 16),
       rsp := cpu_words c (rsp c + 24), seg_ss := cpu_words c (rsp c + 32)\<rparr>"

section \<open>The task context\<close>

definition SIZEOF_TASK_CONTEXT :: u64 where "SIZEOF_TASK_CONTEXT = 160"

text \<open>Offsets of the fields that the code sets.\<close>

definition CTX_RAX :: u64 where "CTX_RAX = 112"
definition CTX_RIP :: u64 where "CTX_RIP = 120"
definition CTX_CS :: u64 where "CTX_CS = 128"
definition CTX_RFLAGS :: u64 where "CTX_RFLAGS = 136"
definition CTX_RSP :: u64 where "CTX_RSP = 144"
definition CTX_SS :: u64 where "CTX_SS = 152"

lemmas ctx_defs =
  SIZEOF_TASK_CONTEXT_def CTX_RAX_def CTX_RIP_def CTX_CS_def CTX_RFLAGS_def CTX_RSP_def CTX_SS_def

definition zero_context :: "u64 \<Rightarrow> (u64 \<Rightarrow> u64) \<Rightarrow> u64 \<Rightarrow> u64" where
  "zero_context c mem = fold (\<lambda>k m. m(c + 8 * of_nat k := 0)) [0 ..< 20] mem"

text \<open>\<^verbatim>\<open>setup_initial_stack\<close>: the address of the new context and the memory that holds it.\<close>

definition setup_initial_stack ::
    "ptr \<Rightarrow> u64 \<Rightarrow> u64 \<Rightarrow> (u64 \<Rightarrow> u64) \<Rightarrow> ptr \<times> (u64 \<Rightarrow> u64)" where
  "setup_initial_stack kernel_stack kernel_stack_size entry_point mem =
     (let top = ((kernel_stack + kernel_stack_size) AND NOT 15) - SIZEOF_TASK_CONTEXT;
          m0 = zero_context top mem
      in (top, m0(top + CTX_RIP := entry_point, top + CTX_RFLAGS := 0x202, top + CTX_CS := 0x08,
                  top + CTX_SS := 0x10, top + CTX_RSP := top)))"

section \<open>The assembly\<close>

text \<open>The first run of a task in \<^verbatim>\<open>switch_to_task\<close>.\<close>

definition load_initial_context :: "u64 \<Rightarrow> cpu \<Rightarrow> cpu" where
  "load_initial_context ctx c =
     iretq (fold pop_reg [R15, R14, R13, R12, R11, R10, R9, R8, RDI, RSI, RDX, RCX, RBX, RAX]
       (c\<lparr>rsp := ctx\<rparr>))"

text \<open>
  \<^verbatim>\<open>context_switch\<close>, entered with the return address on the stack, the address of the old task's
  context pointer in \<^const>\<open>RDI\<close> and the new context in \<^const>\<open>RSI\<close>.
\<close>

definition cs_save :: "cpu \<Rightarrow> cpu" where
  "cs_save c0 =
     (let c1 = push_reg RBP c0;
          c2 = c1\<lparr>gpr := (gpr c1)(RBP := rsp c1)\<rparr>;
          c3 = fold push_reg [RAX, RBX, RCX, RDX, RSI, RDI, R8, R9, R10, R11, R12, R13, R14, R15] c2
      in pushfq c3)"

definition cs_store_rsp :: "cpu \<Rightarrow> cpu" where
  "cs_store_rsp c =
     (let c1 = c\<lparr>gpr := (gpr c)(RAX := cpu_words c (gpr c RDI))\<rparr>
      in c1\<lparr>cpu_words := (cpu_words c1)(gpr c1 RAX := rsp c1)\<rparr>)"

definition cs_load :: "cpu \<Rightarrow> cpu" where
  "cs_load c =
     ret (leave
       (fold pop_reg [R15, R14, R13, R12, R11, R10, R9, R8, RDI, RSI, RDX, RCX, RBX, RAX]
         (popfq (c\<lparr>rsp := gpr c RSI\<rparr>))))"

definition context_switch :: "cpu \<Rightarrow> cpu" where
  "context_switch c = cs_load (cs_store_rsp (cs_save c))"

section \<open>Lemmas\<close>

lemma fold_push_gpr [simp]: "gpr (fold push_reg rs c) = gpr c"
  by (induction rs arbitrary: c) (simp_all add: push_reg_def push_def)

lemma fold_push_rsp [simp]: "rsp (fold push_reg rs c) = rsp c - 8 * of_nat (length rs)"
  by (induction rs arbitrary: c) (simp_all add: push_reg_def push_def distrib_left diff_diff_add)

lemma fold_push_words:
  "(\<forall>k. 0 < k \<and> k \<le> length rs \<longrightarrow> a \<noteq> rsp c - 8 * of_nat k) \<Longrightarrow> cpu_words (fold push_reg rs c) a = cpu_words c a"
proof (induction rs arbitrary: c)
  case Nil
  then show ?case by simp
next
  case (Cons r rs)
  have "a \<noteq> rsp c - 8"
    using Cons.prems by (auto dest: spec [of _ 1])
  moreover have "\<forall>k. 0 < k \<and> k \<le> length rs \<longrightarrow> a \<noteq> rsp (push_reg r c) - 8 * of_nat k"
  proof (intro allI impI)
    fix k assume "0 < k \<and> k \<le> length rs"
    then have "a \<noteq> rsp c - 8 * of_nat (Suc k)"
      using Cons.prems by (simp del: of_nat_Suc)
    then show "a \<noteq> rsp (push_reg r c) - 8 * of_nat k"
      by (simp add: push_reg_def push_def algebra_simps)
  qed
  ultimately show ?case
    using Cons.IH [of "push_reg r c"] by (simp add: push_reg_def push_def)
qed

lemma zero_context_at: "k < 20 \<Longrightarrow> zero_context c mem (c + 8 * of_nat k) = 0"
proof -
  have "fold (\<lambda>k m. m(c + 8 * of_nat k := 0)) ks mem (c + 8 * of_nat k) = 0" if "k \<in> set ks" for ks k
    using that by (induction ks arbitrary: mem rule: rev_induct) (auto simp: fun_upd_def)
  then show "k < 20 \<Longrightarrow> zero_context c mem (c + 8 * of_nat k) = 0"
    by (simp add: zero_context_def)
qed

lemma mult8_neq_0: "0 < k \<Longrightarrow> k \<le> 16 \<Longrightarrow> (8 :: u64) * of_nat k \<noteq> 0"
  by (simp add: word_unat_eq_iff unat_word_ariths unat_of_nat)

lemma cs_save_words:
  assumes "\<forall>k. 0 < k \<and> k \<le> 16 \<longrightarrow> a \<noteq> rsp c - 8 * of_nat k"
  shows "cpu_words (cs_save c) a = cpu_words c a"
proof -
  define c2 where "c2 = (push_reg RBP c)\<lparr>gpr := (gpr c)(RBP := rsp c - 8)\<rparr>"
  define rs where "rs = [RAX, RBX, RCX, RDX, RSI, RDI, R8, R9, R10, R11, R12, R13, R14, R15]"
  have save: "cs_save c = pushfq (fold push_reg rs c2)"
    by (simp add: cs_save_def Let_def c2_def rs_def push_reg_def push_def)
  have len: "length rs = 14" by (simp add: rs_def)
  have c2: "rsp c2 = rsp c - 8" "cpu_words c2 = (cpu_words c)(rsp c - 8 := gpr c RBP)"
    by (simp_all add: c2_def push_reg_def push_def)
  have "a \<noteq> rsp c - 8" "a \<noteq> rsp c - 128"
    using assms [rule_format, of 1] assms [rule_format, of 16] by simp_all
  moreover have "a \<noteq> rsp c2 - 8 * of_nat k" if "0 < k" "k \<le> length rs" for k
    using assms [rule_format, of "Suc k"] that len by (simp add: c2 distrib_left diff_diff_add)
  then have "cpu_words (fold push_reg rs c2) a = cpu_words c2 a"
    by (intro fold_push_words) simp
  ultimately show ?thesis
    unfolding save by (simp add: pushfq_def push_def c2 len)
qed

lemma cs_save_rbp: "cpu_words (cs_save c) (rsp c - 8) = gpr c RBP"
proof -
  define c2 where "c2 = (push_reg RBP c)\<lparr>gpr := (gpr c)(RBP := rsp c - 8)\<rparr>"
  define rs where "rs = [RAX, RBX, RCX, RDX, RSI, RDI, R8, R9, R10, R11, R12, R13, R14, R15]"
  have save: "cs_save c = pushfq (fold push_reg rs c2)"
    by (simp add: cs_save_def Let_def c2_def rs_def push_reg_def push_def)
  have len: "length rs = 14" by (simp add: rs_def)
  have c2: "rsp c2 = rsp c - 8" "cpu_words c2 (rsp c - 8) = gpr c RBP"
    by (simp_all add: c2_def push_reg_def push_def)
  have "rsp c - 8 \<noteq> rsp c2 - 8 * of_nat k" if "0 < k" "k \<le> length rs" for k
    using mult8_neq_0 [of k] that len by (simp add: c2)
  then have "cpu_words (fold push_reg rs c2) (rsp c - 8) = gpr c RBP"
    using c2 by (subst fold_push_words) simp_all
  moreover have "rsp c - 8 \<noteq> rsp (fold push_reg rs c2) - 8"
    using mult8_neq_0 [of 14] by (simp add: c2 len)
  ultimately show ?thesis
    unfolding save by (simp add: pushfq_def push_def)
qed

section \<open>Properties\<close>

text \<open>
  The first run of a task does not reach its entry point. The context has a slot for
  \<^verbatim>\<open>rbp\<close> that the pops skip, so \<^verbatim>\<open>iretq\<close> takes the saved \<^verbatim>\<open>rax\<close>, which is 0,
  as the instruction pointer and the entry point as the code segment.
\<close>

theorem first_run_jumps_to_zero:
  assumes "setup_initial_stack kstack ksize entry (cpu_words c) = (ctx, mem)"
  shows "rip (load_initial_context ctx (c\<lparr>cpu_words := mem\<rparr>)) = 0 \<and>
         seg_cs (load_initial_context ctx (c\<lparr>cpu_words := mem\<rparr>)) = entry"
proof -
  have mem: "mem = (zero_context ctx (cpu_words c))(ctx + 120 := entry, ctx + 136 := 0x202,
      ctx + 128 := 0x08, ctx + 152 := 0x10, ctx + 144 := ctx)"
    using assms by (auto simp: setup_initial_stack_def Let_def ctx_defs)
  have "mem (ctx + 112) = 0"
    using zero_context_at [of 14 ctx "cpu_words c"] by (simp add: mem)
  moreover have "mem (ctx + 120) = entry"
    by (simp add: mem)
  ultimately show ?thesis
    by (simp add: load_initial_context_def iretq_def pop_reg_def add.commute)
qed

text \<open>
  \<^verbatim>\<open>context_switch\<close> does not switch: it never restores \<^verbatim>\<open>rbp\<close> from the new
  context, and \<^verbatim>\<open>leave\<close> takes the stack back to the frame of the caller. Whatever the new
  context is, execution continues at the return address of the call, on the stack of the old task,
  with the caller's frame pointer.
\<close>

theorem context_switch_returns_to_caller:
  assumes "cpu_words c (gpr c RDI) \<noteq> rsp c" "cpu_words c (gpr c RDI) \<noteq> rsp c - 8"
    and "\<forall>k. 0 < k \<and> k \<le> 16 \<longrightarrow> gpr c RDI \<noteq> rsp c - 8 * of_nat k"
  shows "rip (context_switch c) = cpu_words c (rsp c) \<and> rsp (context_switch c) = rsp c + 8 \<and>
         gpr (context_switch c) RBP = gpr c RBP"
proof -
  define d where "d = cs_save c"
  define e where "e = cs_store_rsp d"
  have d: "gpr d RBP = rsp c - 8" "gpr d RDI = gpr c RDI"
      "cpu_words d (rsp c) = cpu_words c (rsp c)" "cpu_words d (rsp c - 8) = gpr c RBP"
      "cpu_words d (gpr c RDI) = cpu_words c (gpr c RDI)"
    using cs_save_words [of "rsp c" c] cs_save_words [of "gpr c RDI" c] cs_save_rbp [of c] assms(3)
      mult8_neq_0
    by (simp_all add: d_def cs_save_def Let_def pushfq_def push_def push_reg_def)
  have e: "gpr e RBP = rsp c - 8" "cpu_words e (rsp c) = cpu_words c (rsp c)" "cpu_words e (rsp c - 8) = gpr c RBP"
    using assms(1,2) d by (simp_all add: e_def cs_store_rsp_def Let_def)
  have "context_switch c = cs_load e"
    by (simp add: context_switch_def e_def d_def)
  with e show ?thesis
    by (simp add: cs_load_def ret_def leave_def pop_reg_def popfq_def)
qed

section \<open>Concrete instances\<close>

definition sample_cpu :: cpu where
  "sample_cpu = \<lparr>gpr = (\<lambda>r. if r = RDI then 0x5000 else 1), rsp = 0x9000, rip = 0, rflags = 2, seg_cs = 8, seg_ss = 16,
                 cpu_words = (\<lambda>a. if a = 0x5000 then 0x6000 else if a = 0x9000 then 0x1234 else 0)\<rparr>"

theorem first_run_jumps_to_zero_witness:
  "rip (load_initial_context (fst (setup_initial_stack 0x10000 0x10000 0x4000 (cpu_words sample_cpu)))
     (sample_cpu\<lparr>cpu_words := snd (setup_initial_stack 0x10000 0x10000 0x4000 (cpu_words sample_cpu))\<rparr>)) = 0"
  using first_run_jumps_to_zero [of "0x10000" "0x10000" "0x4000" sample_cpu
      "fst (setup_initial_stack 0x10000 0x10000 0x4000 (cpu_words sample_cpu))"
      "snd (setup_initial_stack 0x10000 0x10000 0x4000 (cpu_words sample_cpu))"] by simp

theorem context_switch_returns_to_caller_witness:
  "rip (context_switch sample_cpu) = 0x1234 \<and> rsp (context_switch sample_cpu) = 0x9008"
proof -
  have "gpr sample_cpu RDI \<noteq> rsp sample_cpu - 8 * of_nat k" if "0 < k \<and> k \<le> 16" for k
  proof -
    have "(8 :: u64) * of_nat k \<noteq> 0x4000"
      using that by (simp add: word_unat_eq_iff unat_word_ariths unat_of_nat)
    then show ?thesis by (simp add: sample_cpu_def algebra_simps)
  qed
  then show ?thesis
    using context_switch_returns_to_caller [of sample_cpu] by (simp add: sample_cpu_def)
qed

end
