(* ===== verification/Scheduler.thy ===== *)
theory Scheduler
  imports Kernel_Heap Task_Context "HOL-Library.Monad_Syntax"
begin

text \<open>
  The scheduler of \<^verbatim>\<open>kernel/scheduler.c\<close> at the level of its pointers: task control blocks in
  a heap from addresses to records, the queues as head pointers that share the \<^verbatim>\<open>next\<close> and
  \<^verbatim>\<open>prev\<close> fields of the blocks with the list of all tasks. A result \<^term>\<open>None\<close> stands
  for a walk that does not end or that follows a pointer to no task.

  A function that switches to another task returns \<^const>\<open>True\<close> with the state in which the new
  task runs; the statements after the switch (\<^verbatim>\<open>exit_critical\<close>) then belong to the time when the
  old task is resumed, and are applied only when no switch took place. The CPU registers are the
  subject of another theory. \<^verbatim>\<open>get_kernel_page_directory\<close> and
  \<^verbatim>\<open>switch_page_directory\<close> have no source: the first is the parameter \<open>kpd\<close>, of the second
  the argument of the last call is kept. \<^verbatim>\<open>pid_t\<close>, which no header defines, is a 32-bit
  number.
\<close>

section \<open>Data\<close>

definition PID_INVALID :: pid_t where "PID_INVALID = 0"
definition PID_KERNEL :: pid_t where "PID_KERNEL = 1"
definition DEFAULT_KERNEL_STACK_SIZE :: u64 where "DEFAULT_KERNEL_STACK_SIZE = 64 * 1024"
definition DEFAULT_TIME_SLICE :: u64 where "DEFAULT_TIME_SLICE = 10"
definition TASK_FLAG_KERNEL :: u32 where "TASK_FLAG_KERNEL = 1"
definition TASK_FLAG_USER :: u32 where "TASK_FLAG_USER = 2"
definition TASK_FLAG_IDLE :: u32 where "TASK_FLAG_IDLE = 4"

datatype task_state =
    TASK_STATE_READY | TASK_STATE_RUNNING | TASK_STATE_BLOCKED | TASK_STATE_SLEEPING
  | TASK_STATE_TERMINATED

definition TASK_PRIORITY_IDLE :: u32 where "TASK_PRIORITY_IDLE = 0"
definition TASK_PRIORITY_NORMAL :: u32 where "TASK_PRIORITY_NORMAL = 2"
definition TASK_PRIORITY_REALTIME :: u32 where "TASK_PRIORITY_REALTIME = 4"

record task =
  t_pid :: pid_t
  t_name :: string
  t_state :: task_state
  t_priority :: u32
  t_flags :: u32
  t_kernel_stack :: ptr
  t_kernel_stack_size :: u64
  t_page_dir :: ptr
  t_context :: ptr
  t_time_slice :: u64
  t_remaining_ticks :: u64
  t_total_ticks :: u64
  t_wake_tick :: u64
  t_next :: ptr
  t_prev :: ptr

text \<open>
  The structure \<^verbatim>\<open>scheduler\<close>, the heap of task control blocks, the interrupt flag of the CPU,
  the kernel heap, the page directory of the last switch, and the words of the kernel stacks.
\<close>

record sched =
  current_task :: ptr
  idle_task_tcb :: ptr
  task_list_head :: ptr
  ready_queue :: "ptr list"
  blocked_queue :: ptr
  sleeping_queue :: ptr
  tick_count :: u64
  next_pid :: pid_t
  task_count :: u32
  ready_count :: u32
  blocked_count :: u32
  sleeping_count :: u32
  scheduler_running :: bool
  preemption_enabled :: bool
  in_critical_section :: bool
  tcbs :: "ptr \<rightharpoonup> task"
  interrupts_on :: bool
  sc_heap :: kheap
  sc_page_dir :: ptr
  sc_words :: "u64 \<Rightarrow> u64"

text \<open>The variables that a \<^verbatim>\<open>task_t** queue\<close> argument can point to.\<close>

datatype qref = QTasks | QReady nat | QBlocked | QSleeping

fun get_q :: "qref \<Rightarrow> sched \<Rightarrow> ptr" where
  "get_q QTasks s = task_list_head s"
| "get_q (QReady i) s = ready_queue s ! i"
| "get_q QBlocked s = blocked_queue s"
| "get_q QSleeping s = sleeping_queue s"

fun set_q :: "qref \<Rightarrow> ptr \<Rightarrow> sched \<Rightarrow> sched" where
  "set_q QTasks p s = s\<lparr>task_list_head := p\<rparr>"
| "set_q (QReady i) p s = s\<lparr>ready_queue := (ready_queue s)[i := p]\<rparr>"
| "set_q QBlocked p s = s\<lparr>blocked_queue := p\<rparr>"
| "set_q QSleeping p s = s\<lparr>sleeping_queue := p\<rparr>"

text \<open>An assignment to fields of the task at an address.\<close>

definition on_task :: "ptr \<Rightarrow> (task \<Rightarrow> task) \<Rightarrow> sched \<Rightarrow> sched option" where
  "on_task p f s =
     (case tcbs s p of None \<Rightarrow> None | Some t \<Rightarrow> Some (s\<lparr>tcbs := (tcbs s)(p \<mapsto> f t)\<rparr>))"

section \<open>Critical sections and accessors\<close>

definition enter_critical :: "sched \<Rightarrow> sched" where
  "enter_critical s = s\<lparr>interrupts_on := False, in_critical_section := True\<rparr>"

definition exit_critical :: "sched \<Rightarrow> sched" where
  "exit_critical s = s\<lparr>in_critical_section := False, interrupts_on := True\<rparr>"

definition get_current_task :: "sched \<Rightarrow> ptr" where
  "get_current_task s = current_task s"

definition get_current_pid :: "sched \<Rightarrow> pid_t option" where
  "get_current_pid s =
     (if current_task s \<noteq> NULL then map_option t_pid (tcbs s (current_task s)) else Some PID_INVALID)"

definition get_tick_count :: "sched \<Rightarrow> u64" where
  "get_tick_count s = tick_count s"

section \<open>Queues\<close>

text \<open>The walk to the last task of a queue.\<close>

partial_function (option) queue_last :: "(ptr \<rightharpoonup> task) \<Rightarrow> ptr \<Rightarrow> ptr option" where
  "queue_last h p =
     (case h p of
        None \<Rightarrow> None
      | Some t \<Rightarrow> if t_next t = NULL then Some p else queue_last h (t_next t))"

definition add_task_to_queue :: "qref \<Rightarrow> ptr \<Rightarrow> sched \<Rightarrow> sched option" where
  "add_task_to_queue q p s =
     (if p = NULL then Some s
      else do {
        s1 \<leftarrow> on_task p (\<lambda>t. t\<lparr>t_next := NULL, t_prev := NULL\<rparr>) s;
        if get_q q s1 = NULL then Some (set_q q p s1)
        else do {
          l \<leftarrow> queue_last (tcbs s1) (get_q q s1);
          s2 \<leftarrow> on_task l (\<lambda>t. t\<lparr>t_next := p\<rparr>) s1;
          on_task p (\<lambda>t. t\<lparr>t_prev := l\<rparr>) s2
        }
      })"

definition remove_task_from_queue :: "qref \<Rightarrow> ptr \<Rightarrow> sched \<Rightarrow> sched option" where
  "remove_task_from_queue q p s =
     (if p = NULL \<or> get_q q s = NULL then Some s
      else do {
        t \<leftarrow> tcbs s p;
        s2 \<leftarrow> (if get_q q s = p
               then let s1 = set_q q (t_next t) s
                    in if get_q q s1 \<noteq> NULL then on_task (get_q q s1) (\<lambda>u. u\<lparr>t_prev := NULL\<rparr>) s1
                       else Some s1
               else do {
                 s1 \<leftarrow> (if t_prev t \<noteq> NULL then on_task (t_prev t) (\<lambda>u. u\<lparr>t_next := t_next t\<rparr>) s
                        else Some s);
                 t1 \<leftarrow> tcbs s1 p;
                 if t_next t1 \<noteq> NULL then on_task (t_next t1) (\<lambda>u. u\<lparr>t_prev := t_prev t1\<rparr>) s1
                 else Some s1
               });
        on_task p (\<lambda>u. u\<lparr>t_next := NULL, t_prev := NULL\<rparr>) s2
      })"

definition queue_index :: "task \<Rightarrow> nat" where
  "queue_index t =
     unat (if t_priority t > TASK_PRIORITY_REALTIME then TASK_PRIORITY_NORMAL else t_priority t)"

definition add_task_to_ready_queue :: "ptr \<Rightarrow> sched \<Rightarrow> sched option" where
  "add_task_to_ready_queue p s =
     (if p = NULL then Some s
      else do {
        t \<leftarrow> tcbs s p;
        s1 \<leftarrow> add_task_to_queue (QReady (queue_index t)) p s;
        s2 \<leftarrow> on_task p (\<lambda>u. u\<lparr>t_state := TASK_STATE_READY\<rparr>) s1;
        Some (s2\<lparr>ready_count := ready_count s2 + 1\<rparr>)
      })"

fun next_ready_from :: "nat list \<Rightarrow> sched \<Rightarrow> (ptr \<times> sched) option" where
  "next_ready_from [] s = Some (idle_task_tcb s, s)"
| "next_ready_from (i # is) s =
     (if ready_queue s ! i \<noteq> NULL
      then do {
        s1 \<leftarrow> remove_task_from_queue (QReady i) (ready_queue s ! i) s;
        Some (ready_queue s ! i, s1\<lparr>ready_count := ready_count s1 - 1\<rparr>)
      }
      else next_ready_from is s)"

definition get_next_ready_task :: "sched \<Rightarrow> (ptr \<times> sched) option" where
  "get_next_ready_task s = next_ready_from [4, 3, 2, 1, 0] s"

fun remove_from_queues :: "qref list \<Rightarrow> ptr \<Rightarrow> sched \<Rightarrow> sched option" where
  "remove_from_queues [] p s = Some s"
| "remove_from_queues (q # qs) p s =
     do { s1 \<leftarrow> remove_task_from_queue q p s; remove_from_queues qs p s1 }"

abbreviation ready_refs :: "qref list" where
  "ready_refs \<equiv> [QReady 0, QReady 1, QReady 2, QReady 3, QReady 4]"

section \<open>Creating and finding tasks\<close>

definition SIZEOF_TASK :: u64 where "SIZEOF_TASK = 128"

definition zero_task :: task where
  "zero_task =
     \<lparr>t_pid = 0, t_name = [], t_state = TASK_STATE_READY, t_priority = 0, t_flags = 0,
      t_kernel_stack = NULL, t_kernel_stack_size = 0, t_page_dir = NULL, t_context = NULL,
      t_time_slice = 0, t_remaining_ticks = 0, t_total_ticks = 0, t_wake_tick = 0,
      t_next = NULL, t_prev = NULL\<rparr>"

definition new_task ::
    "ptr \<Rightarrow> pid_t \<Rightarrow> string \<Rightarrow> u32 \<Rightarrow> u32 \<Rightarrow> ptr \<Rightarrow> ptr \<Rightarrow> task" where
  "new_task kpd pid name priority flags stack ctx =
     zero_task\<lparr>t_kernel_stack_size := DEFAULT_KERNEL_STACK_SIZE, t_kernel_stack := stack,
               t_pid := pid, t_name := c_strncpy 32 name, t_state := TASK_STATE_READY,
               t_priority := priority, t_flags := flags, t_time_slice := DEFAULT_TIME_SLICE,
               t_remaining_ticks := DEFAULT_TIME_SLICE, t_page_dir := kpd, t_context := ctx\<rparr>"

definition create_task ::
    "ptr \<Rightarrow> string \<Rightarrow> u64 \<Rightarrow> u32 \<Rightarrow> u32 \<Rightarrow> sched \<Rightarrow> (ptr \<times> sched) option" where
  "create_task kpd name entry_point priority flags s =
     (let s0 = enter_critical s;
          (p, h1) = kmalloc SIZEOF_TASK (sc_heap s0);
          s1 = s0\<lparr>sc_heap := h1\<rparr> in
      if p = NULL then Some (NULL, exit_critical s1)
      else
        let (stack, h2) = kmalloc DEFAULT_KERNEL_STACK_SIZE h1;
            s2 = s1\<lparr>sc_heap := h2\<rparr> in
        if stack = NULL then Some (NULL, exit_critical s2)
        else
          let (ctx, ws) = setup_initial_stack stack DEFAULT_KERNEL_STACK_SIZE entry_point (sc_words s2);
              t = new_task kpd (next_pid s2) name priority flags stack ctx;
              s3 = s2\<lparr>next_pid := next_pid s2 + 1, sc_words := ws, tcbs := (tcbs s2)(p \<mapsto> t)\<rparr>
          in do {
               s4 \<leftarrow> add_task_to_queue QTasks p s3;
               s5 \<leftarrow> add_task_to_ready_queue p (s4\<lparr>task_count := task_count s4 + 1\<rparr>);
               Some (p, exit_critical s5)
             })"

definition pid_of_result :: "(ptr \<times> sched) option \<Rightarrow> (pid_t \<times> sched) option" where
  "pid_of_result r =
     do { (p, s) \<leftarrow> r;
          if p \<noteq> NULL then do { t \<leftarrow> tcbs s p; Some (t_pid t, s) } else Some (PID_INVALID, s) }"

definition create_kernel_task :: "ptr \<Rightarrow> string \<Rightarrow> u64 \<Rightarrow> u32 \<Rightarrow> sched \<Rightarrow> (pid_t \<times> sched) option" where
  "create_kernel_task kpd name entry_point priority s =
     pid_of_result (create_task kpd name entry_point priority TASK_FLAG_KERNEL s)"

definition create_user_task :: "ptr \<Rightarrow> string \<Rightarrow> u64 \<Rightarrow> u32 \<Rightarrow> sched \<Rightarrow> (pid_t \<times> sched) option" where
  "create_user_task kpd name entry_point priority s =
     pid_of_result (create_task kpd name entry_point priority TASK_FLAG_USER s)"

partial_function (option) find_pid_from :: "(ptr \<rightharpoonup> task) \<Rightarrow> pid_t \<Rightarrow> ptr \<Rightarrow> ptr option" where
  "find_pid_from h pid p =
     (if p = NULL then Some NULL
      else case h p of
             None \<Rightarrow> None
           | Some t \<Rightarrow> if t_pid t = pid then Some p else find_pid_from h pid (t_next t))"

definition find_task_by_pid :: "pid_t \<Rightarrow> sched \<Rightarrow> ptr option" where
  "find_task_by_pid pid s = find_pid_from (tcbs s) pid (task_list_head s)"

section \<open>Switching\<close>

definition switch_to_task :: "ptr \<Rightarrow> sched \<Rightarrow> (bool \<times> sched) option" where
  "switch_to_task p s =
     (if p = NULL \<or> current_task s = p then Some (False, s)
      else do {
        s1 \<leftarrow> on_task p (\<lambda>t. t\<lparr>t_state := TASK_STATE_RUNNING, t_remaining_ticks := t_time_slice t\<rparr>) s;
        t \<leftarrow> tcbs s1 p;
        let old = current_task s1;
        let s2 = s1\<lparr>current_task := p\<rparr>;
        if old = NULL
        then Some (True, if t_page_dir t \<noteq> NULL then s2\<lparr>sc_page_dir := t_page_dir t\<rparr> else s2)
        else do {
          o1 \<leftarrow> tcbs s2 old;
          s3 \<leftarrow> (if t_state o1 = TASK_STATE_RUNNING
                 then do {
                   s' \<leftarrow> on_task old (\<lambda>u. u\<lparr>t_state := TASK_STATE_READY\<rparr>) s2;
                   add_task_to_ready_queue old s'
                 }
                 else Some s2);
          o2 \<leftarrow> tcbs s3 old;
          t2 \<leftarrow> tcbs s3 p;
          Some (True, if t_page_dir t2 \<noteq> NULL \<and> t_page_dir o2 \<noteq> t_page_dir t2
                      then s3\<lparr>sc_page_dir := t_page_dir t2\<rparr> else s3)
        }
      })"

definition schedule_next_task :: "sched \<Rightarrow> (bool \<times> sched) option" where
  "schedule_next_task s =
     (if \<not> scheduler_running s then Some (False, s)
      else do { (p, s1) \<leftarrow> get_next_ready_task s; switch_to_task p s1 })"

text \<open>The end of a critical section after a call that may have switched.\<close>

definition leave_critical :: "bool \<times> sched \<Rightarrow> bool \<times> sched" where
  "leave_critical r = (case r of (sw, s) \<Rightarrow> (sw, if sw then s else exit_critical s))"

definition schedule :: "sched \<Rightarrow> (bool \<times> sched) option" where
  "schedule s0 =
     (let s = enter_critical s0
      in if \<not> scheduler_running s \<or> in_critical_section s then Some (False, exit_critical s)
         else map_option leave_critical (schedule_next_task s))"

definition yield :: "sched \<Rightarrow> (bool \<times> sched) option" where
  "yield s = schedule s"

definition yield_handler :: "sched \<Rightarrow> (bool \<times> sched) option" where
  "yield_handler s = schedule s"

section \<open>State changes\<close>

definition terminate_task :: "pid_t \<Rightarrow> sched \<Rightarrow> (bool \<times> sched) option" where
  "terminate_task pid s0 =
     (let s = enter_critical s0 in
      if pid \<le> PID_KERNEL then Some (False, exit_critical s)
      else do {
        p \<leftarrow> find_task_by_pid pid s;
        if p = NULL then Some (False, exit_critical s)
        else do {
          s1 \<leftarrow> on_task p (\<lambda>t. t\<lparr>t_state := TASK_STATE_TERMINATED\<rparr>) s;
          s2 \<leftarrow> remove_from_queues (ready_refs @ [QBlocked, QSleeping]) p s1;
          r \<leftarrow> (if current_task s2 = p then schedule_next_task s2 else Some (False, s2));
          Some (leave_critical r)
        }
      })"

text \<open>After \<^verbatim>\<open>terminate_task\<close> a task that still runs halts for ever.\<close>

definition exit_task :: "sched \<Rightarrow> (bool \<times> sched) option" where
  "exit_task s =
     (if current_task s \<noteq> NULL
      then do { t \<leftarrow> tcbs s (current_task s); terminate_task (t_pid t) s }
      else Some (False, s))"

definition sleep_task :: "u64 \<Rightarrow> sched \<Rightarrow> (bool \<times> sched) option" where
  "sleep_task milliseconds s0 =
     (let s = enter_critical s0; p = current_task s in
      if p = NULL \<or> p = idle_task_tcb s then Some (False, exit_critical s)
      else do {
        s1 \<leftarrow> on_task p (\<lambda>t. t\<lparr>t_wake_tick := tick_count s + milliseconds, t_state := TASK_STATE_SLEEPING\<rparr>) s;
        s2 \<leftarrow> remove_from_queues ready_refs p s1;
        s3 \<leftarrow> add_task_to_queue QSleeping p s2;
        r \<leftarrow> schedule_next_task (s3\<lparr>sleeping_count := sleeping_count s3 + 1\<rparr>);
        Some (leave_critical r)
      })"

definition wake_task :: "pid_t \<Rightarrow> sched \<Rightarrow> sched option" where
  "wake_task pid s0 =
     (let s = enter_critical s0 in
      do {
        p \<leftarrow> find_task_by_pid pid s;
        if p = NULL then Some (exit_critical s)
        else do {
          t \<leftarrow> tcbs s p;
          if t_state t \<noteq> TASK_STATE_SLEEPING then Some (exit_critical s)
          else do {
            s1 \<leftarrow> remove_task_from_queue QSleeping p s;
            s2 \<leftarrow> add_task_to_ready_queue p (s1\<lparr>sleeping_count := sleeping_count s1 - 1\<rparr>);
            Some (exit_critical s2)
          }
        }
      })"

definition block_task :: "pid_t \<Rightarrow> sched \<Rightarrow> (bool \<times> sched) option" where
  "block_task pid s0 =
     (let s = enter_critical s0 in
      do {
        p \<leftarrow> find_task_by_pid pid s;
        if p = NULL \<or> p = idle_task_tcb s then Some (False, exit_critical s)
        else do {
          s1 \<leftarrow> on_task p (\<lambda>t. t\<lparr>t_state := TASK_STATE_BLOCKED\<rparr>) s;
          s2 \<leftarrow> remove_from_queues ready_refs p s1;
          s3 \<leftarrow> add_task_to_queue QBlocked p s2;
          let s4 = s3\<lparr>blocked_count := blocked_count s3 + 1\<rparr>;
          r \<leftarrow> (if current_task s4 = p then schedule_next_task s4 else Some (False, s4));
          Some (leave_critical r)
        }
      })"

definition unblock_task :: "pid_t \<Rightarrow> sched \<Rightarrow> sched option" where
  "unblock_task pid s0 =
     (let s = enter_critical s0 in
      do {
        p \<leftarrow> find_task_by_pid pid s;
        if p = NULL then Some (exit_critical s)
        else do {
          t \<leftarrow> tcbs s p;
          if t_state t \<noteq> TASK_STATE_BLOCKED then Some (exit_critical s)
          else do {
            s1 \<leftarrow> remove_task_from_queue QBlocked p s;
            s2 \<leftarrow> add_task_to_ready_queue p (s1\<lparr>blocked_count := blocked_count s1 - 1\<rparr>);
            Some (exit_critical s2)
          }
        }
      })"

section \<open>The timer\<close>

partial_function (option) wake_loop :: "ptr \<Rightarrow> sched \<Rightarrow> sched option" where
  "wake_loop p s =
     (if p = NULL then Some s
      else case tcbs s p of
             None \<Rightarrow> None
           | Some t \<Rightarrow>
               if tick_count s \<ge> t_wake_tick t
               then do {
                 s1 \<leftarrow> remove_task_from_queue QSleeping p s;
                 s2 \<leftarrow> add_task_to_ready_queue p (s1\<lparr>sleeping_count := sleeping_count s1 - 1\<rparr>);
                 wake_loop (t_next t) s2
               }
               else wake_loop (t_next t) s)"

definition check_sleeping_tasks :: "sched \<Rightarrow> sched option" where
  "check_sleeping_tasks s = wake_loop (sleeping_queue s) s"

definition timer_tick_handler :: "sched \<Rightarrow> (bool \<times> sched) option" where
  "timer_tick_handler s0 =
     (let s = s0\<lparr>tick_count := tick_count s0 + 1\<rparr> in
      do {
        s1 \<leftarrow> (if sleeping_count s > 0 then check_sleeping_tasks s else Some s);
        if \<not> preemption_enabled s1 then Some (False, s1)
        else if current_task s1 = NULL \<or> current_task s1 = idle_task_tcb s1 then Some (False, s1)
        else do {
          t \<leftarrow> tcbs s1 (current_task s1);
          if t_state t \<noteq> TASK_STATE_RUNNING then Some (False, s1)
          else do {
            let r = (if t_remaining_ticks t > 0 then t_remaining_ticks t - 1 else t_remaining_ticks t);
            s2 \<leftarrow> on_task (current_task s1) (\<lambda>u. u\<lparr>t_total_ticks := t_total_ticks u + 1, t_remaining_ticks := r\<rparr>) s1;
            if r = 0 then schedule s2 else Some (False, s2)
          }
        }
      })"

section \<open>Initialisation\<close>

text \<open>
  \<^verbatim>\<open>idle_entry\<close> is the address of \<^verbatim>\<open>idle_task_function\<close>. The registration of the
  interrupt handlers belongs to the interrupt component. \<^term>\<open>None\<close> covers the kernel panic.
\<close>

definition zero_sched :: "sched \<Rightarrow> sched" where
  "zero_sched s =
     s\<lparr>current_task := NULL, idle_task_tcb := NULL, task_list_head := NULL,
       ready_queue := replicate 5 NULL, blocked_queue := NULL, sleeping_queue := NULL,
       tick_count := 0, next_pid := 0, task_count := 0, ready_count := 0, blocked_count := 0,
       sleeping_count := 0, scheduler_running := False, preemption_enabled := False,
       in_critical_section := False\<rparr>"

definition init_scheduler :: "ptr \<Rightarrow> u64 \<Rightarrow> sched \<Rightarrow> (bool \<times> sched) option" where
  "init_scheduler kpd idle_entry s =
     (let s1 = (zero_sched s)\<lparr>next_pid := PID_KERNEL + 1\<rparr> in
      do {
        (p, s2) \<leftarrow> create_task kpd ''idle'' idle_entry TASK_PRIORITY_IDLE
                     (TASK_FLAG_KERNEL OR TASK_FLAG_IDLE) s1;
        let s3 = s2\<lparr>idle_task_tcb := p\<rparr>;
        if p = NULL then None
        else switch_to_task p (s3\<lparr>scheduler_running := True, preemption_enabled := True\<rparr>)
      })"

end
