(* ===== verification/Scheduler_Queues.thy ===== *)
theory Scheduler_Queues
  imports Scheduler
begin

text \<open>
  The pointer-level queue operations of the scheduler refined to lists. A queue is a doubly linked
  segment in the heap of task control blocks; \<open>queue_rep s R\<close> says that the seven queues of the
  scheduler are disjoint and hold the lists \<open>R\<close>. Each operation is shown to end, to do the list
  operation its comment promises, and to leave everything else alone.
\<close>

section \<open>Doubly linked segments\<close>

definition head_or :: "ptr \<Rightarrow> ptr list \<Rightarrow> ptr" where
  "head_or d ps = (if ps = [] then d else hd ps)"

definition last_or :: "ptr \<Rightarrow> ptr list \<Rightarrow> ptr" where
  "last_or d ps = (if ps = [] then d else last ps)"

definition link :: "(ptr \<rightharpoonup> task) \<Rightarrow> ptr \<Rightarrow> (ptr \<times> ptr) option" where
  "link h p = map_option (\<lambda>t. (t_prev t, t_next t)) (h p)"

fun dlseg :: "(ptr \<rightharpoonup> task) \<Rightarrow> ptr \<Rightarrow> ptr list \<Rightarrow> ptr \<Rightarrow> bool" where
  "dlseg h pv [] nx = True"
| "dlseg h pv (p # ps) nx = (p \<noteq> NULL \<and> link h p = Some (pv, head_or nx ps) \<and> dlseg h p ps nx)"

text \<open>The task without its links.\<close>

definition core :: "task \<Rightarrow> task" where
  "core t = t\<lparr>t_next := NULL, t_prev := NULL\<rparr>"

definition cores :: "(ptr \<rightharpoonup> task) \<Rightarrow> ptr \<rightharpoonup> task" where
  "cores h p = map_option core (h p)"

lemma head_or_simps [simp]:
  "head_or d [] = d" "head_or d (p # ps) = p" "ps \<noteq> [] \<Longrightarrow> head_or d (ps @ qs) = hd ps"
  by (simp_all add: head_or_def)

lemma last_or_simps [simp]: "last_or d [] = d" "last_or d (p # ps) = last_or p ps"
  "last_or d (ps @ [p]) = p"
  by (simp_all add: last_or_def)

lemma dlseg_append:
  "dlseg h pv (ps @ qs) nx \<longleftrightarrow> dlseg h pv ps (head_or nx qs) \<and> dlseg h (last_or pv ps) qs nx"
proof (induction ps arbitrary: pv)
  case Nil
  then show ?case by simp
next
  case (Cons p ps)
  have "head_or nx (ps @ qs) = head_or (head_or nx qs) ps"
    by (simp add: head_or_def)
  with Cons show ?case by auto
qed

lemma dlseg_cong:
  "(\<forall>p \<in> set ps. link h p = link h' p) \<Longrightarrow> dlseg h pv ps nx = dlseg h' pv ps nx"
  by (induction ps arbitrary: pv) auto

lemma dlseg_nonnull: "dlseg h pv ps nx \<Longrightarrow> p \<in> set ps \<Longrightarrow> p \<noteq> NULL"
  by (induction ps arbitrary: pv) auto

lemma dlseg_alloc: "dlseg h pv ps nx \<Longrightarrow> p \<in> set ps \<Longrightarrow> \<exists>t. h p = Some t"
  by (induction ps arbitrary: pv) (auto simp: link_def)

lemma link_upd: "link (h(p \<mapsto> t)) x = (if x = p then Some (t_prev t, t_next t) else link h x)"
  by (simp add: link_def)

lemma link_eqI: "h x = h' x \<Longrightarrow> link h x = link h' x"
  by (simp add: link_def)

text \<open>Changing the successor of the last node, or the predecessor of the first.\<close>

lemma dlseg_snoc_upd:
  assumes "dlseg h pv (ps @ [l]) nx" "l \<notin> set ps" "h l = Some t"
  shows "dlseg (h(l \<mapsto> t\<lparr>t_next := nx'\<rparr>)) pv (ps @ [l]) nx'"
proof -
  have "dlseg (h(l \<mapsto> t\<lparr>t_next := nx'\<rparr>)) pv ps l = dlseg h pv ps l"
    using assms(2) by (intro dlseg_cong) (auto simp: link_upd)
  moreover have "t_prev t = last_or pv ps"
    using assms by (simp add: dlseg_append link_def)
  ultimately show ?thesis
    using assms by (simp add: dlseg_append link_upd)
qed

lemma dlseg_Cons_upd:
  assumes "dlseg h pv (f # ps) nx" "f \<notin> set ps" "h f = Some t"
  shows "dlseg (h(f \<mapsto> t\<lparr>t_prev := pv'\<rparr>)) pv' (f # ps) nx"
proof -
  have "dlseg (h(f \<mapsto> t\<lparr>t_prev := pv'\<rparr>)) f ps nx = dlseg h f ps nx"
    using assms(2) by (intro dlseg_cong) (auto simp: link_upd)
  with assms show ?thesis by (simp add: link_upd) (simp add: link_def)
qed

lemma core_links [simp]: "core (t\<lparr>t_next := a\<rparr>) = core t" "core (t\<lparr>t_prev := a\<rparr>) = core t"
  by (simp_all add: core_def)

lemma cores_upd: "h p = Some t \<Longrightarrow> core t' = core t \<Longrightarrow> cores (h(p \<mapsto> t')) = cores h"
  by (auto simp: cores_def fun_eq_iff)

lemma cores_SomeD: "cores h' = cores h \<Longrightarrow> h p = Some t \<Longrightarrow> \<exists>t'. h' p = Some t' \<and> core t' = core t"
  by (auto simp: cores_def fun_eq_iff map_option_eq_Some dest!: spec [of _ p])

section \<open>The operations on one queue\<close>

lemma queue_last_seg:
  "dlseg h pv ps NULL \<Longrightarrow> ps \<noteq> [] \<Longrightarrow> queue_last h (hd ps) = Some (last ps)"
proof (induction ps arbitrary: pv)
  case Nil
  then show ?case by simp
next
  case (Cons p ps)
  then obtain t where t: "h p = Some t" "t_next t = head_or NULL ps"
    by (auto simp: link_def)
  show ?case
  proof (cases ps)
    case Nil
    with t show ?thesis by (subst queue_last.simps) simp
  next
    case (Cons q qs)
    with Cons.prems have "q \<noteq> NULL" by simp
    with t Cons Cons.IH [of p] Cons.prems show ?thesis
      by (subst queue_last.simps) simp
  qed
qed

lemma set_q_get_q: "(\<And>i. q = QReady i \<Longrightarrow> i < length (ready_queue s)) \<Longrightarrow> set_q q (get_q q s) s = s"
  by (cases q) (auto simp: list_update_id)

lemma set_q_tcbs: "set_q q p (s\<lparr>tcbs := h\<rparr>) = (set_q q p s)\<lparr>tcbs := h\<rparr>"
  by (cases q) simp_all

lemma get_q_tcbs [simp]: "get_q q (s\<lparr>tcbs := h\<rparr>) = get_q q s"
  by (cases q) simp_all

lemma tcbs_set_q [simp]: "tcbs (set_q q p s) = tcbs s"
  by (cases q) simp_all

definition ref_ok :: "qref \<Rightarrow> sched \<Rightarrow> bool" where
  "ref_ok q s \<longleftrightarrow> (case q of QReady i \<Rightarrow> i < length (ready_queue s) | _ \<Rightarrow> True)"

lemma get_set_q: "ref_ok q s \<Longrightarrow> get_q q (set_q q p s) = p"
  by (cases q) (auto simp: ref_ok_def)

lemma set_q_same: "ref_ok q s \<Longrightarrow> get_q q s = p \<Longrightarrow> set_q q p s = s"
  by (cases q) (auto simp: ref_ok_def)

lemma add_task_to_queue_seg:
  assumes "ref_ok q s" "get_q q s = head_or NULL ps" "dlseg (tcbs s) NULL ps NULL"
    and "p \<noteq> NULL" "p \<notin> set ps" "distinct ps" "tcbs s p = Some t"
  shows "\<exists>h. add_task_to_queue q p s = Some ((set_q q (head_or NULL (ps @ [p])) s)\<lparr>tcbs := h\<rparr>) \<and>
             dlseg h NULL (ps @ [p]) NULL \<and> cores h = cores (tcbs s) \<and>
             (\<forall>x. x \<notin> insert p (set ps) \<longrightarrow> h x = tcbs s x)"
proof (cases ps rule: rev_cases)
  case Nil
  let ?h = "(tcbs s)(p \<mapsto> t\<lparr>t_next := NULL, t_prev := NULL\<rparr>)"
  have "add_task_to_queue q p s = Some ((set_q q p s)\<lparr>tcbs := ?h\<rparr>)"
    using assms Nil by (simp add: add_task_to_queue_def on_task_def set_q_tcbs)
  moreover have "cores ?h = cores (tcbs s)"
    using assms(7) by (rule cores_upd) simp
  moreover have "dlseg ?h NULL (ps @ [p]) NULL" "\<forall>x. x \<notin> insert p (set ps) \<longrightarrow> ?h x = tcbs s x"
    using assms(4) Nil by (simp_all add: link_upd)
  ultimately show ?thesis
    using Nil by (intro exI [of _ ?h]) simp
next
  case (snoc rs l)
  let ?h0 = "(tcbs s)(p \<mapsto> t\<lparr>t_next := NULL, t_prev := NULL\<rparr>)"
  have pl: "p \<noteq> l" "p \<notin> set rs" "l \<notin> set rs"
    using assms snoc by auto
  have seg0: "dlseg ?h0 NULL (rs @ [l]) NULL"
    using assms(3,5) snoc by (subst dlseg_cong [of _ _ "tcbs s"]) (auto simp: link_upd)
  have "ps \<noteq> []" using snoc by simp
  then have hd: "get_q q s = hd ps" "hd ps \<in> set ps"
    using assms(2) by (simp_all add: head_or_def)
  then have ne: "get_q q s \<noteq> NULL" "get_q q s = hd ps"
    using dlseg_nonnull [OF assms(3)] by simp_all
  have last: "queue_last ?h0 (get_q q s) = Some l"
    using queue_last_seg [OF seg0] ne snoc by simp
  obtain u where u: "tcbs s l = Some u"
    using dlseg_alloc [OF assms(3), of l] snoc by auto
  let ?h1 = "?h0(l \<mapsto> u\<lparr>t_next := p\<rparr>)"
  let ?h2 = "?h1(p \<mapsto> t\<lparr>t_next := NULL, t_prev := l\<rparr>)"
  have add: "add_task_to_queue q p s = Some (s\<lparr>tcbs := ?h2\<rparr>)"
    using assms(4,7) ne last u pl
    by (simp add: add_task_to_queue_def on_task_def)
  have same: "set_q q (head_or NULL (ps @ [p])) s = s"
    using set_q_same [OF assms(1) ne(2)] \<open>ps \<noteq> []\<close> by simp
  have seg1: "dlseg ?h1 NULL (rs @ [l]) p"
    using seg0 pl u by (intro dlseg_snoc_upd) auto
  then have "dlseg ?h2 NULL (rs @ [l]) p"
    using pl by (subst dlseg_cong [of _ _ ?h1]) (auto simp: link_upd)
  then have "dlseg ?h2 NULL (ps @ [p]) NULL"
    using assms(4) snoc by (simp add: dlseg_append link_upd)
  moreover have "cores ?h2 = cores (tcbs s)"
    using assms(7) u pl by (auto simp: cores_def fun_eq_iff)
  moreover have "\<forall>x. x \<notin> insert p (set ps) \<longrightarrow> ?h2 x = tcbs s x"
    using snoc by simp
  ultimately show ?thesis
    using add same by (intro exI [of _ ?h2]) simp
qed

lemma remove_task_head_seg:
  assumes "ref_ok q s" "get_q q s = p" "dlseg (tcbs s) NULL (p # ps) NULL" "distinct (p # ps)"
  shows "\<exists>h. remove_task_from_queue q p s = Some ((set_q q (head_or NULL ps) s)\<lparr>tcbs := h\<rparr>) \<and>
             dlseg h NULL ps NULL \<and> link h p = Some (NULL, NULL) \<and> cores h = cores (tcbs s) \<and>
             (\<forall>x. x \<notin> set (p # ps) \<longrightarrow> h x = tcbs s x)"
proof -
  from assms(3) obtain t where t: "tcbs s p = Some t" "t_next t = head_or NULL ps" and p: "p \<noteq> NULL"
    by (auto simp: link_def)
  show ?thesis
  proof (cases ps)
    case Nil
    let ?h = "(tcbs s)(p \<mapsto> t\<lparr>t_next := NULL, t_prev := NULL\<rparr>)"
    have "remove_task_from_queue q p s = Some ((set_q q NULL s)\<lparr>tcbs := ?h\<rparr>)"
      using assms(1,2) t p Nil
      by (simp add: remove_task_from_queue_def on_task_def Let_def get_set_q)
    moreover have "cores ?h = cores (tcbs s)"
      using t(1) by (rule cores_upd) simp
    ultimately show ?thesis
      using Nil by (intro exI [of _ ?h]) (simp add: link_upd)
  next
    case (Cons f rs)
    obtain u where u: "tcbs s f = Some u"
      using assms(3) Cons dlseg_alloc [OF assms(3), of f] by auto
    have f: "f \<noteq> NULL" "f \<noteq> p" "f \<notin> set rs" "p \<notin> set rs"
      using assms(3,4) Cons by auto
    let ?h1 = "(tcbs s)(f \<mapsto> u\<lparr>t_prev := NULL\<rparr>)"
    let ?h = "?h1(p \<mapsto> t\<lparr>t_next := NULL, t_prev := NULL\<rparr>)"
    have "remove_task_from_queue q p s = Some ((set_q q f s)\<lparr>tcbs := ?h\<rparr>)"
      using assms(1,2) t p Cons f u
      by (simp add: remove_task_from_queue_def on_task_def Let_def get_set_q)
    moreover have "dlseg ?h1 NULL (f # rs) NULL"
      using assms(3) Cons f u by (intro dlseg_Cons_upd [of _ p]) auto
    then have "dlseg ?h NULL (f # rs) NULL"
      using f by (subst dlseg_cong [of _ _ ?h1]) (auto simp: link_upd)
    moreover have "cores ?h = cores (tcbs s)"
      using t(1) u f by (auto simp: cores_def fun_eq_iff)
    ultimately show ?thesis
      using Cons by (intro exI [of _ ?h]) (simp add: link_upd)
  qed
qed

lemma remove_task_mid_seg:
  assumes "ref_ok q s" "get_q q s = head_or NULL ps" "dlseg (tcbs s) NULL ps NULL" "distinct ps"
    and "ps = as @ p # bs" "as \<noteq> []"
  shows "\<exists>h. remove_task_from_queue q p s = Some (s\<lparr>tcbs := h\<rparr>) \<and>
             dlseg h NULL (as @ bs) NULL \<and> link h p = Some (NULL, NULL) \<and> cores h = cores (tcbs s) \<and>
             (\<forall>x. x \<notin> set ps \<longrightarrow> h x = tcbs s x)"
proof -
  obtain cs l where as: "as = cs @ [l]"
    using assms(6) by (cases as rule: rev_cases) auto
  have seg: "dlseg (tcbs s) NULL (cs @ [l]) p" "dlseg (tcbs s) p bs NULL" "p \<noteq> NULL"
      "link (tcbs s) p = Some (l, head_or NULL bs)"
    using assms(3) by (simp_all add: assms(5) as dlseg_append)
  obtain t u where t: "tcbs s p = Some t" "t_prev t = l" "t_next t = head_or NULL bs"
    and u: "tcbs s l = Some u"
    using seg(4) dlseg_alloc [OF seg(1), of l] by (auto simp: link_def)
  have d: "l \<noteq> p" "l \<notin> set cs" "l \<notin> set bs" "p \<notin> set cs" "p \<notin> set bs" "set cs \<inter> set bs = {}"
      "l \<noteq> NULL"
    using assms(4) dlseg_nonnull [OF seg(1), of l] by (auto simp: assms(5) as)
  have ne: "get_q q s \<noteq> NULL" "get_q q s \<noteq> p"
    using assms(2) d dlseg_nonnull [OF seg(1), of "hd (cs @ [l])"]
    by (cases cs; auto simp: assms(5) as)+
  let ?h1 = "(tcbs s)(l \<mapsto> u\<lparr>t_next := head_or NULL bs\<rparr>)"
  have seg1: "dlseg ?h1 NULL (cs @ [l]) (head_or NULL bs)"
    using seg(1) d u by (intro dlseg_snoc_upd) auto
  have seg1b: "dlseg ?h1 p bs NULL"
    using seg(2) d by (subst dlseg_cong [of _ _ "tcbs s"]) (auto simp: link_upd)
  show ?thesis
  proof (cases bs)
    case Nil
    let ?h = "?h1(p \<mapsto> t\<lparr>t_next := NULL, t_prev := NULL\<rparr>)"
    have "remove_task_from_queue q p s = Some (s\<lparr>tcbs := ?h\<rparr>)"
      using seg(3) ne t u d Nil by (simp add: remove_task_from_queue_def on_task_def)
    moreover have "dlseg ?h NULL (cs @ [l]) NULL"
      using seg1 Nil d by (subst dlseg_cong [of _ _ ?h1]) (auto simp: link_upd)
    moreover have "cores ?h = cores (tcbs s)"
      using t(1) u d by (auto simp: cores_def fun_eq_iff)
    ultimately show ?thesis
      using Nil by (intro exI [of _ ?h]) (simp add: link_upd assms(5) as)
  next
    case (Cons f rs)
    obtain w where w: "tcbs s f = Some w"
      using dlseg_alloc [OF seg(2), of f] Cons by auto
    have f: "f \<noteq> NULL" "f \<noteq> p" "f \<noteq> l" "f \<notin> set cs" "f \<notin> set rs" "p \<notin> set rs" "l \<notin> set rs"
      using d seg(2) assms(4) Cons by (auto simp: assms(5) as)
    let ?h2 = "?h1(f \<mapsto> w\<lparr>t_prev := l\<rparr>)"
    let ?h = "?h2(p \<mapsto> t\<lparr>t_next := NULL, t_prev := NULL\<rparr>)"
    have "remove_task_from_queue q p s = Some (s\<lparr>tcbs := ?h\<rparr>)"
      using seg(3) ne t u w d f Cons by (simp add: remove_task_from_queue_def on_task_def)
    moreover have "dlseg ?h2 l (f # rs) NULL"
      using seg1b Cons f w by (intro dlseg_Cons_upd [of _ p]) auto
    then have "dlseg ?h l (f # rs) NULL"
      using f by (subst dlseg_cong [of _ _ ?h2]) (auto simp: link_upd)
    moreover have "dlseg ?h NULL (cs @ [l]) f"
      using seg1 Cons d f by (subst dlseg_cong [of _ _ ?h1]) (auto simp: link_upd)
    moreover have "cores ?h = cores (tcbs s)"
      using t(1) u w d f by (auto simp: cores_def fun_eq_iff)
    moreover have "(as @ bs) = (cs @ [l]) @ f # rs"
      by (simp add: as Cons)
    ultimately show ?thesis
      by (intro exI [of _ ?h])
         (simp add: link_upd assms(5) as Cons dlseg_append)
  qed
qed

section \<open>All queues of the scheduler\<close>

definition refs :: "qref set" where
  "refs = {QReady 0, QReady 1, QReady 2, QReady 3, QReady 4, QBlocked, QSleeping}"

definition queue_rep :: "sched \<Rightarrow> (qref \<Rightarrow> ptr list) \<Rightarrow> bool" where
  "queue_rep s R \<longleftrightarrow>
     length (ready_queue s) = 5 \<and>
     (\<forall>q \<in> refs. get_q q s = head_or NULL (R q) \<and> dlseg (tcbs s) NULL (R q) NULL \<and> distinct (R q)) \<and>
     (\<forall>q \<in> refs. \<forall>q' \<in> refs. q \<noteq> q' \<longrightarrow> set (R q) \<inter> set (R q') = {})"

text \<open>A task outside all queues, with its links cleared, as the running task is.\<close>

definition detached :: "sched \<Rightarrow> (qref \<Rightarrow> ptr list) \<Rightarrow> ptr \<Rightarrow> bool" where
  "detached s R p \<longleftrightarrow> p \<noteq> NULL \<and> link (tcbs s) p = Some (NULL, NULL) \<and> (\<forall>q \<in> refs. p \<notin> set (R q))"

text \<open>Everything but the heads of the seven queues and the links of the tasks is unchanged.\<close>

definition same_rest :: "sched \<Rightarrow> sched \<Rightarrow> bool" where
  "same_rest s s' \<longleftrightarrow>
     s'\<lparr>ready_queue := ready_queue s, blocked_queue := blocked_queue s,
        sleeping_queue := sleeping_queue s, tcbs := tcbs s\<rparr> = s \<and>
     cores (tcbs s') = cores (tcbs s)"

lemma same_rest_refl [simp]: "same_rest s s"
  by (simp add: same_rest_def)

lemma same_restD:
  assumes "same_rest s s'"
  shows "current_task s' = current_task s" "idle_task_tcb s' = idle_task_tcb s"
    "task_list_head s' = task_list_head s" "tick_count s' = tick_count s"
    "ready_count s' = ready_count s" "blocked_count s' = blocked_count s"
    "sleeping_count s' = sleeping_count s" "scheduler_running s' = scheduler_running s"
    "in_critical_section s' = in_critical_section s" "interrupts_on s' = interrupts_on s"
    "cores (tcbs s') = cores (tcbs s)"
  using assms unfolding same_rest_def by (cases s; cases s'; simp)+

lemma same_rest_trans: "same_rest s s' \<Longrightarrow> same_rest s' s'' \<Longrightarrow> same_rest s s''"
  unfolding same_rest_def by (cases s; cases s'; cases s'') simp

lemma same_rest_set_q:
  "q \<in> refs \<Longrightarrow> cores h = cores (tcbs s) \<Longrightarrow> same_rest s ((set_q q p s)\<lparr>tcbs := h\<rparr>)"
  by (auto simp: same_rest_def refs_def)

lemma get_q_set_q_other: "q \<in> refs \<Longrightarrow> q' \<in> refs \<Longrightarrow> q \<noteq> q' \<Longrightarrow> get_q q' (set_q q p s) = get_q q' s"
  by (auto simp: refs_def)

lemma length_ready_set_q [simp]: "length (ready_queue (set_q q p s)) = length (ready_queue s)"
  by (cases q) simp_all

lemma ref_ok_refs: "q \<in> refs \<Longrightarrow> length (ready_queue s) = 5 \<Longrightarrow> ref_ok q s"
  by (auto simp: refs_def ref_ok_def)

lemma queue_repD:
  assumes "queue_rep s R" "q \<in> refs"
  shows "ref_ok q s" "get_q q s = head_or NULL (R q)" "dlseg (tcbs s) NULL (R q) NULL" "distinct (R q)"
  using assms by (auto simp: queue_rep_def ref_ok_refs)

lemma queue_rep_disjoint:
  assumes "queue_rep s R" "q \<in> refs" "q' \<in> refs" "q \<noteq> q'"
  shows "set (R q) \<inter> set (R q') = {}"
proof -
  have "\<forall>q \<in> refs. \<forall>q' \<in> refs. q \<noteq> q' \<longrightarrow> set (R q) \<inter> set (R q') = {}"
    using assms(1) unfolding queue_rep_def by (elim conjE)
  from this [rule_format, OF assms(2-4)] show ?thesis .
qed

text \<open>A change of one queue, from its segment to a new one inside the same tasks and \<open>p\<close>.\<close>

lemma queue_rep_change:
  assumes "queue_rep s R" "q \<in> refs"
    and "dlseg h NULL ps NULL" "distinct ps" "set ps \<subseteq> insert p (set (R q))"
    and "\<forall>x. x \<notin> insert p (set (R q)) \<longrightarrow> h x = tcbs s x"
    and "\<forall>q' \<in> refs. q' \<noteq> q \<longrightarrow> p \<notin> set (R q')"
  shows "queue_rep ((set_q q (head_or NULL ps) s)\<lparr>tcbs := h\<rparr>) (R(q := ps))"
proof -
  have dis: "set (R q) \<inter> set (R q') = {}" if "q' \<in> refs" "q' \<noteq> q" for q'
    using queue_rep_disjoint [OF assms(1,2) that(1)] that(2) by simp
  have other: "dlseg h NULL (R q') NULL" if "q' \<in> refs" "q' \<noteq> q" for q'
  proof -
    have "\<forall>x \<in> set (R q'). link h x = link (tcbs s) x"
    proof
      fix x assume x: "x \<in> set (R q')"
      have "x \<notin> set (R q)"
        using dis [OF that] x by auto
      moreover have "x \<noteq> p"
        using assms(7) that x by auto
      ultimately show "link h x = link (tcbs s) x"
        using assms(6) by (intro link_eqI) simp
    qed
    then have "dlseg h NULL (R q') NULL = dlseg (tcbs s) NULL (R q') NULL"
      by (rule dlseg_cong)
    with queue_repD(3) [OF assms(1) that(1)] show ?thesis by simp
  qed
  have len: "length (ready_queue s) = 5"
    using assms(1) by (simp add: queue_rep_def)
  let ?s = "(set_q q (head_or NULL ps) s)\<lparr>tcbs := h\<rparr>" and ?R = "R(q := ps)"
  have "get_q q' ?s = head_or NULL (?R q') \<and> dlseg (tcbs ?s) NULL (?R q') NULL \<and> distinct (?R q')"
    if "q' \<in> refs" for q'
  proof (cases "q' = q")
    case True
    with assms(3,4) get_set_q [OF queue_repD(1) [OF assms(1,2)]] show ?thesis by simp
  next
    case False
    then show ?thesis
      using get_q_set_q_other [OF assms(2) that] queue_repD(2,4) [OF assms(1) that]
        other [OF that False] by simp
  qed
  moreover have "set (?R q') \<inter> set (?R q'') = {}" if "q' \<in> refs" "q'' \<in> refs" "q' \<noteq> q''" for q' q''
  proof -
    have ps: "set ps \<inter> set (R x) = {}" if "x \<in> refs" "x \<noteq> q" for x
    proof -
      have "p \<notin> set (R x)" using assms(7) that by simp
      then show ?thesis using dis [OF that] assms(5) by auto
    qed
    show ?thesis
      using ps [of q'] ps [of q''] queue_rep_disjoint [OF assms(1) that] that
      by (cases "q' = q"; cases "q'' = q") (simp_all add: Int_commute)
  qed
  ultimately show ?thesis
    unfolding queue_rep_def using len by simp
qed

lemma add_rep:
  assumes "queue_rep s R" "q \<in> refs" "p \<noteq> NULL" "tcbs s p \<noteq> None" "\<forall>q \<in> refs. p \<notin> set (R q)"
  obtains s' where "add_task_to_queue q p s = Some s'" "queue_rep s' (R(q := R q @ [p]))"
    "same_rest s s'" "\<forall>x. x \<notin> insert p (set (R q)) \<longrightarrow> tcbs s' x = tcbs s x"
proof -
  note r = queue_repD [OF assms(1,2)]
  obtain t where t: "tcbs s p = Some t" using assms(4) by auto
  have p: "p \<notin> set (R q)" using assms(2,5) by simp
  obtain h where h: "add_task_to_queue q p s = Some ((set_q q (head_or NULL (R q @ [p])) s)\<lparr>tcbs := h\<rparr>)"
    "dlseg h NULL (R q @ [p]) NULL" "cores h = cores (tcbs s)"
    "\<forall>x. x \<notin> insert p (set (R q)) \<longrightarrow> h x = tcbs s x"
    using add_task_to_queue_seg [OF r(1,2,3) assms(3) p r(4) t] by metis
  have "queue_rep ((set_q q (head_or NULL (R q @ [p])) s)\<lparr>tcbs := h\<rparr>) (R(q := R q @ [p]))"
    using h assms(5) r(4) p by (intro queue_rep_change [OF assms(1,2), where p = p]) auto
  with that [OF h(1)] h(3,4) same_rest_set_q [OF assms(2) h(3)] show ?thesis by simp
qed

lemma remove_rep:
  assumes "queue_rep s R" "q \<in> refs" "p \<in> set (R q)"
  obtains s' where "remove_task_from_queue q p s = Some s'" "queue_rep s' (R(q := remove1 p (R q)))"
    "same_rest s s'" "detached s' (R(q := remove1 p (R q))) p"
    "\<forall>x. x \<notin> set (R q) \<longrightarrow> tcbs s' x = tcbs s x"
proof -
  note r = queue_repD [OF assms(1,2)]
  obtain as bs where split: "R q = as @ p # bs" "p \<notin> set as"
    using assms(3) by (metis split_list_first)
  have rem: "remove1 p (R q) = as @ bs"
    using split by (simp add: remove1_append)
  obtain h where h: "remove_task_from_queue q p s = Some ((set_q q (head_or NULL (as @ bs)) s)\<lparr>tcbs := h\<rparr>)"
    "dlseg h NULL (as @ bs) NULL" "link h p = Some (NULL, NULL)" "cores h = cores (tcbs s)"
    "\<forall>x. x \<notin> set (R q) \<longrightarrow> h x = tcbs s x"
  proof (cases "as = []")
    case True
    with remove_task_head_seg [OF r(1), of p bs] r split that show ?thesis by auto
  next
    case False
    have "set_q q (head_or NULL (as @ bs)) s = s"
      using r(1,2) False split by (intro set_q_same) simp_all
    with remove_task_mid_seg [OF r split(1) False] that show ?thesis by auto
  qed
  have nin: "p \<notin> set (as @ bs)"
    using r(4) split by auto
  have oth: "\<forall>q' \<in> refs. q' \<noteq> q \<longrightarrow> p \<notin> set (R q')"
    using queue_rep_disjoint [OF assms(1,2)] assms(3) by blast
  have rep: "queue_rep ((set_q q (head_or NULL (as @ bs)) s)\<lparr>tcbs := h\<rparr>) (R(q := remove1 p (R q)))"
    unfolding rem using h oth r(4) split assms(3)
    by (intro queue_rep_change [OF assms(1,2), where p = p]) auto
  have "detached ((set_q q (head_or NULL (as @ bs)) s)\<lparr>tcbs := h\<rparr>) (R(q := remove1 p (R q))) p"
    unfolding detached_def rem using h(3) nin oth dlseg_nonnull [OF r(3) assms(3)] by auto
  with that [OF h(1)] rep h(4,5) same_rest_set_q [OF assms(2) h(4)] show ?thesis by simp
qed

text \<open>Removing a detached task from any queue changes nothing.\<close>

lemma remove_detached:
  assumes "queue_rep s R" "q \<in> refs" "detached s R p"
  shows "remove_task_from_queue q p s = Some s"
proof -
  obtain t where t: "tcbs s p = Some t" "t_prev t = NULL" "t_next t = NULL"
    using assms(3) by (auto simp: detached_def link_def)
  have "t\<lparr>t_next := NULL, t_prev := NULL\<rparr> = t"
    using t by (cases t) simp
  then have id: "(tcbs s)(p \<mapsto> t\<lparr>t_next := NULL, t_prev := NULL\<rparr>) = tcbs s"
    using t(1) by (simp add: fun_upd_idem)
  have "get_q q s \<noteq> p"
    using queue_repD(2) [OF assms(1,2)] assms(2,3) by (cases "R q") (auto simp: detached_def)
  then show ?thesis
    using t id by (cases s) (simp add: remove_task_from_queue_def on_task_def)
qed

lemma remove_all_detached:
  "queue_rep s R \<Longrightarrow> detached s R p \<Longrightarrow> set qs \<subseteq> refs \<Longrightarrow> remove_from_queues qs p s = Some s"
  by (induction qs) (simp_all add: remove_detached)

end
