(* ===== verification/Scheduler_Props.thy ===== *)
theory Scheduler_Props
  imports Scheduler_Queues "HOL-Library.Multiset"
begin

text \<open>
  Properties of the scheduler over the queue representation: the order in which ready tasks are
  picked, blocking and unblocking, and waking sleepers.
\<close>

section \<open>Fields that are not links\<close>

lemma queue_rep_links:
  "(\<And>x. link h x = link (tcbs s) x) \<Longrightarrow> queue_rep (s\<lparr>tcbs := h\<rparr>) R = queue_rep s R"
  unfolding queue_rep_def by (simp add: dlseg_cong [of _ h "tcbs s"])

lemma queue_rep_cong:
  assumes "\<And>q. q \<in> refs \<Longrightarrow> R q = R' q"
  shows "queue_rep s R = queue_rep s R'"
  unfolding queue_rep_def using assms by (auto simp del: get_q.simps)

lemma queue_rep_count [simp]:
  "queue_rep (s\<lparr>ready_count := n\<rparr>) R = queue_rep s R"
  "queue_rep (s\<lparr>blocked_count := n\<rparr>) R = queue_rep s R"
  "queue_rep (s\<lparr>sleeping_count := n\<rparr>) R = queue_rep s R"
  "queue_rep (enter_critical s) R = queue_rep s R"
  "queue_rep (exit_critical s) R = queue_rep s R"
  by (simp_all add: queue_rep_def refs_def enter_critical_def exit_critical_def)

lemma on_task_Some: "tcbs s p = Some t \<Longrightarrow> on_task p f s = Some (s\<lparr>tcbs := (tcbs s)(p \<mapsto> f t)\<rparr>)"
  by (simp add: on_task_def)

lemma queue_rep_on_task:
  assumes "queue_rep s R" "tcbs s p = Some t" "t_next t' = t_next t" "t_prev t' = t_prev t"
  shows "queue_rep (s\<lparr>tcbs := (tcbs s)(p \<mapsto> t')\<rparr>) R"
  using assms by (subst queue_rep_links) (auto simp: link_def)

lemma queue_index_le: "queue_index t \<le> 4"
  by (auto simp: queue_index_def TASK_PRIORITY_REALTIME_def TASK_PRIORITY_NORMAL_def word_less_nat_alt
      not_less)

lemma le4_cases: "(i :: nat) \<le> 4 \<longleftrightarrow> i = 0 \<or> i = 1 \<or> i = 2 \<or> i = 3 \<or> i = 4"
  by auto

lemma ready_in_refs: "i \<le> 4 \<Longrightarrow> QReady i \<in> refs"
  unfolding le4_cases refs_def by auto

definition task_index :: "sched \<Rightarrow> ptr \<Rightarrow> nat" where
  "task_index s p = (case tcbs s p of None \<Rightarrow> 0 | Some t \<Rightarrow> queue_index t)"

lemma queue_index_core [simp]: "queue_index (core t) = queue_index t"
  by (simp add: queue_index_def core_def)

lemma task_index_cores: "cores (tcbs s') = cores (tcbs s) \<Longrightarrow> task_index s' p = task_index s p"
proof -
  have "task_index s p = (case cores (tcbs s) p of None \<Rightarrow> 0 | Some t \<Rightarrow> queue_index t)" for s
    by (simp add: task_index_def cores_def split: option.splits)
  then show "cores (tcbs s') = cores (tcbs s) \<Longrightarrow> task_index s' p = task_index s p"
    by simp
qed

lemma task_index_le: "task_index s p \<le> 4"
  by (simp add: task_index_def queue_index_le split: option.splits)

section \<open>The ready queues\<close>

lemma add_ready_rep:
  assumes "queue_rep s R" "p \<noteq> NULL" "tcbs s p \<noteq> None" "\<forall>q \<in> refs. p \<notin> set (R q)"
  obtains s' where "add_task_to_ready_queue p s = Some s'"
    "queue_rep s' (R(QReady (task_index s p) := R (QReady (task_index s p)) @ [p]))"
    "\<forall>x. task_index s' x = task_index s x" "\<forall>x. (tcbs s' x = None) = (tcbs s x = None)"
    "ready_count s' = ready_count s + 1" "current_task s' = current_task s"
    "idle_task_tcb s' = idle_task_tcb s" "scheduler_running s' = scheduler_running s"
    "tick_count s' = tick_count s" "sleeping_count s' = sleeping_count s"
    "blocked_count s' = blocked_count s"
    "\<forall>x. x \<noteq> p \<longrightarrow> cores (tcbs s') x = cores (tcbs s) x"
    "map_option t_state (tcbs s' p) = Some TASK_STATE_READY"
proof -
  obtain t where t: "tcbs s p = Some t" using assms(3) by auto
  let ?q = "QReady (queue_index t)"
  have q: "?q \<in> refs" by (simp add: ready_in_refs queue_index_le)
  have idx: "task_index s p = queue_index t" using t by (simp add: task_index_def)
  obtain s1 where s1: "add_task_to_queue ?q p s = Some s1" "queue_rep s1 (R(?q := R ?q @ [p]))"
    "same_rest s s1" "\<forall>x. x \<notin> insert p (set (R ?q)) \<longrightarrow> tcbs s1 x = tcbs s x"
    by (rule add_rep [OF assms(1) q assms(2,3,4)])
  note rest = same_restD [OF s1(3)]
  obtain t1 where t1: "tcbs s1 p = Some t1" "core t1 = core t"
    using cores_SomeD [OF rest(11) t] by blast
  let ?t = "t1\<lparr>t_state := TASK_STATE_READY\<rparr>"
  let ?s = "s1\<lparr>tcbs := (tcbs s1)(p \<mapsto> ?t), ready_count := ready_count s1 + 1\<rparr>"
  have run: "add_task_to_ready_queue p s = Some ?s"
    using assms(2) t s1(1) t1 by (simp add: add_task_to_ready_queue_def on_task_Some)
  have rep: "queue_rep ?s (R(?q := R ?q @ [p]))"
    using queue_rep_on_task [OF s1(2) t1(1), of ?t] by simp
  have "queue_index ?t = queue_index t1"
    by (simp add: queue_index_def)
  also have "\<dots> = queue_index t"
    using t1(2) by (metis queue_index_core)
  finally have "queue_index ?t = queue_index t" .
  then have ti: "task_index ?s x = task_index s x" for x
    using task_index_cores [OF rest(11), of x] t by (simp add: task_index_def)
  have dom: "(tcbs ?s x = None) = (tcbs s x = None)" for x
    using fun_cong [OF rest(11), of x] t t1 by (auto simp: cores_def)
  have co: "cores (tcbs ?s) x = cores (tcbs s) x" if "x \<noteq> p" for x
    using fun_cong [OF rest(11), of x] that by (simp add: cores_def)
  show ?thesis
    by (rule that [OF run]) (use rep ti dom co rest idx in simp_all)
qed

definition ready_order :: "(qref \<Rightarrow> ptr list) \<Rightarrow> ptr list" where
  "ready_order R = concat (map (\<lambda>i. R (QReady i)) [4, 3, 2, 1, 0])"

lemma next_ready_empty:
  assumes "queue_rep s R" "set is \<subseteq> {0..4}" "\<forall>i \<in> set is. R (QReady i) = []"
  shows "next_ready_from is s = Some (idle_task_tcb s, s)"
  using assms(2,3)
proof (induction "is")
  case Nil
  then show ?case by simp
next
  case (Cons i "is")
  then have "ready_queue s ! i = NULL"
    using queue_repD(2) [OF assms(1) ready_in_refs, of i] by simp
  with Cons show ?case by simp
qed

lemma next_ready_pick:
  assumes "queue_rep s R" "set is \<subseteq> {0..4}" "distinct is"
    and "concat (map (\<lambda>i. R (QReady i)) is) = p # rest"
  shows "\<exists>s' R'. next_ready_from is s = Some (p, s') \<and> queue_rep s' R' \<and> detached s' R' p \<and>
           concat (map (\<lambda>i. R' (QReady i)) is) = rest \<and>
           (\<forall>q. q \<notin> QReady ` set is \<longrightarrow> R' q = R q) \<and>
           (\<exists>s1. same_rest s s1 \<and> s' = s1\<lparr>ready_count := ready_count s1 - 1\<rparr>)"
  using assms(2-4)
proof (induction "is")
  case Nil
  then show ?case by simp
next
  case (Cons i "is")
  have q: "QReady i \<in> refs" using Cons.prems by (intro ready_in_refs) simp
  have hd: "ready_queue s ! i = head_or NULL (R (QReady i))"
    using queue_repD(2) [OF assms(1) q] by simp
  show ?case
  proof (cases "R (QReady i)")
    case Nil
    with Cons obtain s' R' where *: "next_ready_from is s = Some (p, s')" "queue_rep s' R'"
      "detached s' R' p" "concat (map (\<lambda>i. R' (QReady i)) is) = rest"
      "\<forall>q. q \<notin> QReady ` set is \<longrightarrow> R' q = R q"
      "\<exists>s1. same_rest s s1 \<and> s' = s1\<lparr>ready_count := ready_count s1 - 1\<rparr>"
      by auto
    moreover have "R' (QReady i) = []"
      using *(5) Cons.prems(2) Nil by auto
    moreover have "next_ready_from (i # is) s = next_ready_from is s"
      using hd Nil by simp
    ultimately show ?thesis
      by (intro exI [of _ s'] exI [of _ R']) simp
  next
    case (Cons p' rest')
    then have p': "p' = p" "p \<in> set (R (QReady i))" "p \<noteq> NULL"
      using Cons.prems(3) dlseg_nonnull [OF queue_repD(3) [OF assms(1) q], of p'] by auto
    obtain s1 where s1: "remove_task_from_queue (QReady i) p s = Some s1"
      "queue_rep s1 (R(QReady i := remove1 p (R (QReady i))))" "same_rest s s1"
      "detached s1 (R(QReady i := remove1 p (R (QReady i)))) p"
      by (rule remove_rep [OF assms(1) q p'(2)])
    let ?s = "s1\<lparr>ready_count := ready_count s1 - 1\<rparr>" and ?R = "R(QReady i := rest')"
    have "next_ready_from (i # is) s = Some (p, ?s)"
      using hd p' Cons s1(1) by simp
    moreover have "queue_rep ?s ?R" "detached ?s ?R p"
      using s1(2,4) Cons p'(1) by (simp_all add: detached_def)
    moreover have "concat (map (\<lambda>j. ?R (QReady j)) is) = concat (map (\<lambda>j. R (QReady j)) is)"
      using Cons.prems(2) by (intro arg_cong [of _ _ concat] map_cong) auto
    then have "concat (map (\<lambda>j. ?R (QReady j)) (i # is)) = rest"
      using Cons Cons.prems(3) by simp
    moreover have "\<forall>q. q \<notin> QReady ` set (i # is) \<longrightarrow> ?R q = R q"
      by simp
    ultimately show ?thesis
      using s1(3) by blast
  qed
qed

lemma get_next_ready_rep:
  assumes "queue_rep s R" "ready_order R = p # rest"
  shows "\<exists>s' R'. get_next_ready_task s = Some (p, s') \<and> queue_rep s' R' \<and> detached s' R' p \<and>
           ready_order R' = rest \<and> R' QBlocked = R QBlocked \<and> R' QSleeping = R QSleeping \<and>
           (\<exists>s1. same_rest s s1 \<and> s' = s1\<lparr>ready_count := ready_count s1 - 1\<rparr>)"
proof -
  obtain s' R' where *: "next_ready_from [4, 3, 2, 1, 0] s = Some (p, s')" "queue_rep s' R'"
    "detached s' R' p" "concat (map (\<lambda>i. R' (QReady i)) [4, 3, 2, 1, 0]) = rest"
    "\<forall>q. q \<notin> QReady ` set [4, 3, 2, 1, 0] \<longrightarrow> R' q = R q"
    "\<exists>s1. same_rest s s1 \<and> s' = s1\<lparr>ready_count := ready_count s1 - 1\<rparr>"
    using next_ready_pick [OF assms(1) _ _ assms(2) [unfolded ready_order_def]] by auto
  moreover have "R' QBlocked = R QBlocked" "R' QSleeping = R QSleeping"
    using *(5) by auto
  ultimately show ?thesis
    unfolding get_next_ready_task_def ready_order_def by blast
qed

lemma get_next_ready_idle:
  assumes "queue_rep s R" "ready_order R = []"
  shows "get_next_ready_task s = Some (idle_task_tcb s, s)"
  unfolding get_next_ready_task_def
  using assms(2) by (intro next_ready_empty [OF assms(1)]) (auto simp: ready_order_def)

section \<open>Enqueueing and dequeueing many tasks\<close>

fun enqueue_all :: "ptr list \<Rightarrow> sched \<Rightarrow> sched option" where
  "enqueue_all [] s = Some s"
| "enqueue_all (p # ps) s = Option.bind (add_task_to_ready_queue p s) (enqueue_all ps)"

fun dequeue_n :: "nat \<Rightarrow> sched \<Rightarrow> (ptr list \<times> sched) option" where
  "dequeue_n 0 s = Some ([], s)"
| "dequeue_n (Suc n) s =
     Option.bind (get_next_ready_task s) (\<lambda>(p, s1).
       Option.bind (dequeue_n n s1) (\<lambda>(ps, s2). Some (p # ps, s2)))"

definition add_ready :: "(ptr \<Rightarrow> nat) \<Rightarrow> ptr list \<Rightarrow> (qref \<Rightarrow> ptr list) \<Rightarrow> qref \<Rightarrow> ptr list" where
  "add_ready f ps R q = (case q of QReady i \<Rightarrow> R q @ filter (\<lambda>p. f p = i) ps | _ \<Rightarrow> R q)"

lemma add_ready_Nil [simp]: "add_ready f [] R = R"
  by (auto simp: add_ready_def fun_eq_iff split: qref.split)

lemma add_ready_Cons:
  "add_ready f (p # ps) R = add_ready f ps (R(QReady (f p) := R (QReady (f p)) @ [p]))"
  by (auto simp: add_ready_def fun_eq_iff split: qref.split)

lemma add_ready_app: "add_ready f ps (add_ready f qs R) = add_ready f (qs @ ps) R"
  by (auto simp: add_ready_def fun_eq_iff split: qref.split)

lemma enqueue_all_rep:
  assumes "queue_rep s R" "distinct ps"
    and "\<forall>p \<in> set ps. p \<noteq> NULL \<and> tcbs s p \<noteq> None \<and> (\<forall>q \<in> refs. p \<notin> set (R q))"
  shows "\<exists>s'. enqueue_all ps s = Some s' \<and> queue_rep s' (add_ready (task_index s) ps R)"
  using assms
proof (induction ps arbitrary: s R)
  case Nil
  then show ?case by simp
next
  case (Cons p ps)
  let ?q = "QReady (task_index s p)"
  obtain s1 where s1: "add_task_to_ready_queue p s = Some s1" "queue_rep s1 (R(?q := R ?q @ [p]))"
    "\<forall>x. task_index s1 x = task_index s x" "\<forall>x. (tcbs s1 x = None) = (tcbs s x = None)"
    by (rule add_ready_rep [OF Cons.prems(1), of p]) (use Cons.prems(3) in auto)
  have "\<forall>x \<in> set ps. x \<noteq> NULL \<and> tcbs s1 x \<noteq> None \<and> (\<forall>q \<in> refs. x \<notin> set ((R(?q := R ?q @ [p])) q))"
    using Cons.prems(2,3) s1(4) by auto
  moreover have "distinct ps"
    using Cons.prems(2) by simp
  ultimately obtain s' where
    "enqueue_all ps s1 = Some s'" "queue_rep s' (add_ready (task_index s1) ps (R(?q := R ?q @ [p])))"
    using Cons.IH [OF s1(2)] by blast
  moreover have "task_index s1 = task_index s"
    using s1(3) by (simp add: fun_eq_iff)
  ultimately show ?case
    using s1(1) by (simp only: add_ready_Cons enqueue_all.simps bind.simps) simp
qed

lemma dequeue_n_rep:
  "queue_rep s R \<Longrightarrow> n \<le> length (ready_order R) \<Longrightarrow>
   \<exists>s'. dequeue_n n s = Some (take n (ready_order R), s')"
proof (induction n arbitrary: s R)
  case 0
  then show ?case by simp
next
  case (Suc n)
  then obtain p rest where o: "ready_order R = p # rest"
    by (cases "ready_order R") auto
  obtain s1 R1 where s1: "get_next_ready_task s = Some (p, s1)" "queue_rep s1 R1" "ready_order R1 = rest"
    using get_next_ready_rep [OF Suc.prems(1) o] by blast
  with Suc.IH [OF s1(2)] Suc.prems(2) o show ?case by fastforce
qed

lemma buckets_sort_key:
  fixes f :: "'a \<Rightarrow> nat"
  assumes "\<And>p. f p \<le> 4"
  shows "concat (map (\<lambda>i. filter (\<lambda>p. f p = i) ps) [4, 3, 2, 1, 0]) = sort_key (\<lambda>p. 4 - f p) ps"
proof (rule properties_for_sort_key [symmetric])
  have c: "f p = 0 \<or> f p = 1 \<or> f p = 2 \<or> f p = 3 \<or> f p = 4" for p
    using assms [of p] by auto
  show "mset (concat (map (\<lambda>i. filter (\<lambda>p. f p = i) ps) [4, 3, 2, 1, 0])) = mset ps"
  proof (induction ps)
    case (Cons a ps)
    then show ?case using c [of a] by auto
  qed simp
  show "filter (\<lambda>x. 4 - f k = 4 - f x) (concat (map (\<lambda>i. filter (\<lambda>p. f p = i) ps) [4, 3, 2, 1, 0]))
      = filter (\<lambda>x. 4 - f k = 4 - f x) ps" for k
  proof -
    have e: "4 - f k = 4 - f x \<longleftrightarrow> f x = f k" for x
      using assms [of k] assms [of x] by auto
    have "filter (\<lambda>x. f x = f k) (filter (\<lambda>p. f p = i) ps) = (if i = f k then filter (\<lambda>p. f p = i) ps else [])" for i
      by (induction ps) auto
    then show ?thesis
      using c [of k] unfolding e by auto
  qed
  show "sorted (map (\<lambda>p. 4 - f p) (concat (map (\<lambda>i. filter (\<lambda>p. f p = i) ps) [4, 3, 2, 1, 0])))"
  proof -
    have "sorted (map (\<lambda>p. 4 - f p) (filter (\<lambda>p. f p = i) ps))" for i
      by (induction ps) auto
    then show ?thesis by (auto simp: sorted_append)
  qed
qed

lemma ready_order_add_ready:
  assumes "ready_order R = []" "\<And>p. f p \<le> 4"
  shows "ready_order (add_ready f ps R) = sort_key (\<lambda>p. 4 - f p) ps"
proof -
  have "R (QReady i) = []" if "i \<in> {0, 1, 2, 3, 4}" for i
    using assms(1) that by (auto simp: ready_order_def)
  then have "ready_order (add_ready f ps R) = concat (map (\<lambda>i. filter (\<lambda>p. f p = i) ps) [4, 3, 2, 1, 0])"
    by (simp add: ready_order_def add_ready_def)
  then show ?thesis
    using buckets_sort_key [of f ps] assms(2) by simp
qed

section \<open>Blocking and unblocking\<close>

lemma detached_on_task:
  assumes "detached s R x" "tcbs s p = Some t" "t_next t' = t_next t" "t_prev t' = t_prev t"
  shows "detached (s\<lparr>tcbs := (tcbs s)(p \<mapsto> t')\<rparr>) R x"
  using assms by (auto simp: detached_def link_def)

definition state_of :: "sched \<Rightarrow> ptr \<Rightarrow> task_state option" where
  "state_of s p = map_option t_state (tcbs s p)"

lemma state_of_cores: "cores (tcbs s') p = cores (tcbs s) p \<Longrightarrow> state_of s' p = state_of s p"
proof -
  have "state_of s p = map_option t_state (cores (tcbs s) p)" for s
    by (simp add: state_of_def cores_def core_def option.map_comp comp_def)
  then show "cores (tcbs s') p = cores (tcbs s) p \<Longrightarrow> state_of s' p = state_of s p"
    by simp
qed

text \<open>Switching away from a task that is no longer running: the new task runs, nothing is queued.\<close>

lemma switch_to_rep:
  assumes "queue_rep s R" "detached s R n" "current_task s = p" "p \<noteq> NULL" "n \<noteq> p"
    and "state_of s p = Some st" "st \<noteq> TASK_STATE_RUNNING"
  obtains s' where "switch_to_task n s = Some (True, s')" "queue_rep s' R" "detached s' R n"
    "current_task s' = n" "state_of s' n = Some TASK_STATE_RUNNING" "state_of s' p = Some st"
proof -
  obtain t u where t: "tcbs s n = Some t" and u: "tcbs s p = Some u" "t_state u = st"
    using assms(2,6) by (auto simp: detached_def link_def state_of_def)
  let ?t = "t\<lparr>t_state := TASK_STATE_RUNNING, t_remaining_ticks := t_time_slice t\<rparr>"
  let ?s1 = "s\<lparr>tcbs := (tcbs s)(n \<mapsto> ?t)\<rparr>"
  let ?s2 = "?s1\<lparr>current_task := n\<rparr>"
  have rep: "queue_rep ?s1 R" "detached ?s1 R n"
    using queue_rep_on_task [OF assms(1) t, of ?t] detached_on_task [OF assms(2) t, of ?t] by simp_all
  have dir: "queue_rep (?s2\<lparr>sc_page_dir := d\<rparr>) R" "detached (?s2\<lparr>sc_page_dir := d\<rparr>) R n"
      "queue_rep ?s2 R" "detached ?s2 R n" for d
    using rep by (simp_all add: queue_rep_def refs_def detached_def)
  have n: "n \<noteq> NULL" using assms(2) by (simp add: detached_def)
  have "\<exists>s'. switch_to_task n s = Some (True, s') \<and> (s' = ?s2 \<or> (\<exists>d. s' = ?s2\<lparr>sc_page_dir := d\<rparr>))"
    using assms(3-5,7) n t u by (auto simp: switch_to_task_def on_task_Some Let_def)
  then obtain s' where s': "switch_to_task n s = Some (True, s')"
    "s' = ?s2 \<or> (\<exists>d. s' = ?s2\<lparr>sc_page_dir := d\<rparr>)"
    by blast
  show ?thesis
    by (rule that [OF s'(1)]) (use s'(2) dir u assms(5) in \<open>auto simp: state_of_def\<close>)
qed

lemma schedule_next_rep:
  assumes "queue_rep s R" "scheduler_running s" "current_task s = p" "p \<noteq> NULL"
    and "state_of s p = Some st" "st \<noteq> TASK_STATE_RUNNING" "ready_order R = n # rest" "n \<noteq> p"
  obtains s' R' where "schedule_next_task s = Some (True, s')" "queue_rep s' R'" "detached s' R' n"
    "current_task s' = n" "ready_order R' = rest" "R' QBlocked = R QBlocked" "R' QSleeping = R QSleeping"
    "state_of s' n = Some TASK_STATE_RUNNING" "state_of s' p = Some st"
proof -
  obtain s1 R' s0 where g: "get_next_ready_task s = Some (n, s1)" "queue_rep s1 R'" "detached s1 R' n"
    "ready_order R' = rest" "R' QBlocked = R QBlocked" "R' QSleeping = R QSleeping"
    "same_rest s s0" "s1 = s0\<lparr>ready_count := ready_count s0 - 1\<rparr>"
    using get_next_ready_rep [OF assms(1,7)] by blast
  note rest = same_restD [OF g(7)]
  have "current_task s1 = p" "state_of s1 p = Some st"
    using rest assms(3,5) g(8) state_of_cores [of s0 p s] by (simp_all add: state_of_def)
  from switch_to_rep [OF g(2,3) this(1) assms(4,8) this(2) assms(6)] obtain s' where s':
    "switch_to_task n s1 = Some (True, s')" "queue_rep s' R'" "detached s' R' n"
    "current_task s' = n" "state_of s' n = Some TASK_STATE_RUNNING" "state_of s' p = Some st"
    by blast
  have "schedule_next_task s = Some (True, s')"
    using assms(2) g(1) s'(1) by (simp add: schedule_next_task_def)
  from that [OF this s'(2,3,4) g(4,5,6) s'(5,6)] show ?thesis .
qed

lemma find_enter [simp]: "find_task_by_pid pid (enter_critical s) = find_task_by_pid pid s"
  by (simp add: find_task_by_pid_def enter_critical_def)

lemma detached_enter [simp]: "detached (enter_critical s) R p = detached s R p"
  by (simp add: detached_def enter_critical_def)

lemma enter_fields [simp]:
  "tcbs (enter_critical s) = tcbs s" "current_task (enter_critical s) = current_task s"
  "idle_task_tcb (enter_critical s) = idle_task_tcb s"
  "scheduler_running (enter_critical s) = scheduler_running s"
  "ready_count (enter_critical s) = ready_count s" "blocked_count (enter_critical s) = blocked_count s"
  "tick_count (enter_critical s) = tick_count s" "sleeping_count (enter_critical s) = sleeping_count s"
  "tcbs (exit_critical s) = tcbs s" "current_task (exit_critical s) = current_task s"
  "ready_count (exit_critical s) = ready_count s" "blocked_count (exit_critical s) = blocked_count s"
  by (simp_all add: enter_critical_def exit_critical_def)

lemma ready_order_upd [simp]:
  "ready_order (R(QBlocked := xs)) = ready_order R" "ready_order (R(QSleeping := xs)) = ready_order R"
  by (simp_all add: ready_order_def)

text \<open>The state changes before the call of the scheduler, shared by blocking and sleeping.\<close>

lemma park_rep:
  assumes "queue_rep s R" "detached s R p" "q \<in> refs" "tcbs s p = Some t"
    and "t_next t' = t_next t" "t_prev t' = t_prev t"
  obtains s1 s2 where "s1 = s\<lparr>tcbs := (tcbs s)(p \<mapsto> t')\<rparr>"
    "remove_from_queues ready_refs p s1 = Some s1" "add_task_to_queue q p s1 = Some s2"
    "queue_rep s2 (R(q := R q @ [p]))" "same_rest s1 s2" "state_of s2 p = Some (t_state t')"
proof -
  let ?s = "s\<lparr>tcbs := (tcbs s)(p \<mapsto> t')\<rparr>"
  have rep: "queue_rep ?s R" and det: "detached ?s R p"
    using queue_rep_on_task [OF assms(1,4-6)] detached_on_task [OF assms(2,4-6)] by simp_all
  have p: "p \<noteq> NULL" "tcbs ?s p \<noteq> None" "\<forall>q \<in> refs. p \<notin> set (R q)"
    using det by (auto simp: detached_def)
  obtain s2 where s2: "add_task_to_queue q p ?s = Some s2" "queue_rep s2 (R(q := R q @ [p]))"
    "same_rest ?s s2"
    by (rule add_rep [OF rep assms(3) p])
  have "cores (tcbs s2) p = cores (tcbs ?s) p"
    using same_restD(11) [OF s2(3)] by simp
  from state_of_cores [OF this] have "state_of s2 p = Some (t_state t')"
    by (simp add: state_of_def)
  moreover have "remove_from_queues ready_refs p ?s = Some ?s"
    by (rule remove_all_detached [OF rep det]) (auto intro: ready_in_refs)
  ultimately show ?thesis
    using that [OF refl] s2 by blast
qed

lemma block_current_rep:
  assumes "queue_rep s R" "scheduler_running s" "current_task s = p" "detached s R p"
    and "p \<noteq> idle_task_tcb s" "find_task_by_pid pid s = Some p" "ready_order R = n # rest"
  obtains s' R' where "block_task pid s = Some (True, s')" "queue_rep s' R'" "detached s' R' n"
    "current_task s' = n" "ready_order R' = rest" "R' QBlocked = R QBlocked @ [p]"
    "R' QSleeping = R QSleeping" "state_of s' n = Some TASK_STATE_RUNNING"
    "state_of s' p = Some TASK_STATE_BLOCKED"
proof -
  obtain t where t: "tcbs s p = Some t" using assms(4) by (auto simp: detached_def link_def)
  let ?t = "t\<lparr>t_state := TASK_STATE_BLOCKED\<rparr>" and ?R = "R(QBlocked := R QBlocked @ [p])"
  let ?s0 = "enter_critical s"
  have p: "p \<noteq> NULL" "\<forall>q \<in> refs. p \<notin> set (R q)" using assms(4) by (auto simp: detached_def)
  have n: "n \<noteq> p"
  proof -
    have "n \<in> set (ready_order R)" using assms(7) by simp
    then show ?thesis using p(2) ready_in_refs by (auto simp: ready_order_def)
  qed
  obtain s1 s2 where s2: "s1 = ?s0\<lparr>tcbs := (tcbs ?s0)(p \<mapsto> ?t)\<rparr>"
    "remove_from_queues ready_refs p s1 = Some s1" "add_task_to_queue QBlocked p s1 = Some s2"
    "queue_rep s2 ?R" "same_rest s1 s2" "state_of s2 p = Some (t_state ?t)"
    by (rule park_rep [of ?s0 R p QBlocked t ?t]) (use assms(1,4) t in \<open>simp_all add: refs_def\<close>)
  let ?s4 = "s2\<lparr>blocked_count := blocked_count s2 + 1\<rparr>"
  note rest = same_restD [OF s2(5)]
  have pre: "queue_rep ?s4 ?R" "scheduler_running ?s4" "current_task ?s4 = p"
      "state_of ?s4 p = Some TASK_STATE_BLOCKED" "ready_order ?R = n # rest"
    using s2(4,6) assms(2,3,7) rest s2(1) by (simp_all add: state_of_def)
  obtain s' R' where s': "schedule_next_task ?s4 = Some (True, s')" "queue_rep s' R'" "detached s' R' n"
    "current_task s' = n" "ready_order R' = rest" "R' QBlocked = ?R QBlocked" "R' QSleeping = ?R QSleeping"
    "state_of s' n = Some TASK_STATE_RUNNING" "state_of s' p = Some TASK_STATE_BLOCKED"
    by (rule schedule_next_rep [OF pre(1,2,3) p(1) pre(4) _ pre(5) n]) simp_all
  have "on_task p (\<lambda>t. t\<lparr>t_state := TASK_STATE_BLOCKED\<rparr>) ?s0 = Some s1"
    using t s2(1) by (simp add: on_task_Some)
  then have "block_task pid s = Some (True, s')"
    using assms(5,6) p(1) s2(2,3) s'(1) pre(3)
    by (simp add: block_task_def leave_critical_def Let_def del: remove_from_queues.simps)
  from that [OF this s'(2-5) _ _ s'(8,9)] s'(6,7) show ?thesis by simp
qed

lemma unblock_rep:
  assumes "queue_rep s R" "find_task_by_pid pid s = Some p" "p \<in> set (R QBlocked)"
    and "state_of s p = Some TASK_STATE_BLOCKED"
  obtains s' where "unblock_task pid s = Some s'"
    "queue_rep s' ((R(QBlocked := remove1 p (R QBlocked)))
       (QReady (task_index s p) := R (QReady (task_index s p)) @ [p]))"
    "state_of s' p = Some TASK_STATE_READY" "ready_count s' = ready_count s + 1"
    "blocked_count s' = blocked_count s - 1" "current_task s' = current_task s"
proof -
  let ?s0 = "enter_critical s" and ?R = "R(QBlocked := remove1 p (R QBlocked))"
  have q: "QBlocked \<in> refs" by (simp add: refs_def)
  obtain s1 where s1: "remove_task_from_queue QBlocked p ?s0 = Some s1" "queue_rep s1 ?R"
    "same_rest ?s0 s1" "detached s1 ?R p"
    by (rule remove_rep [of ?s0 R QBlocked p]) (use assms(1,3) q in simp_all)
  note rest = same_restD [OF s1(3)]
  let ?s1 = "s1\<lparr>blocked_count := blocked_count s1 - 1\<rparr>"
  have p: "queue_rep ?s1 ?R" "p \<noteq> NULL" "tcbs ?s1 p \<noteq> None" "\<forall>q \<in> refs. p \<notin> set (?R q)"
    using s1(2,4) by (auto simp: detached_def link_def)
  have ti: "task_index ?s1 p = task_index s p"
    using task_index_cores [OF rest(11), of p] by (simp add: task_index_def)
  obtain s2 where s2: "add_task_to_ready_queue p ?s1 = Some s2"
    "queue_rep s2 (?R(QReady (task_index ?s1 p) := ?R (QReady (task_index ?s1 p)) @ [p]))"
    "ready_count s2 = ready_count ?s1 + 1" "current_task s2 = current_task ?s1"
    "blocked_count s2 = blocked_count ?s1" "map_option t_state (tcbs s2 p) = Some TASK_STATE_READY"
    by (rule add_ready_rep [OF p])
  have "unblock_task pid s = Some (exit_critical s2)"
    using assms(2,4) p(2) s1(1) s2(1) by (auto simp: unblock_task_def state_of_def)
  then show ?thesis
    by (rule that)
      (use s2 ti rest in \<open>simp_all add: state_of_def\<close>)
qed

section \<open>Waking sleepers\<close>

definition due :: "sched \<Rightarrow> ptr \<Rightarrow> bool" where
  "due s p = (case tcbs s p of None \<Rightarrow> False | Some t \<Rightarrow> t_wake_tick t \<le> tick_count s)"

lemma due_cores:
  assumes "cores (tcbs s') p = cores (tcbs s) p" "tick_count s' = tick_count s"
  shows "due s' p = due s p"
proof -
  have "due s p = (case cores (tcbs s) p of None \<Rightarrow> False | Some t \<Rightarrow> t_wake_tick t \<le> tick_count s)" for s
    by (simp add: due_def cores_def core_def split: option.splits)
  from this [of s] this [of s'] assms show ?thesis by (simp split: option.splits)
qed

lemma wake_one_rep:
  assumes "queue_rep s R" "R QSleeping = ys @ p # zs"
  obtains s1 s2 where "remove_task_from_queue QSleeping p s = Some s1"
    "add_task_to_ready_queue p (s1\<lparr>sleeping_count := sleeping_count s1 - 1\<rparr>) = Some s2"
    "queue_rep s2 (add_ready (task_index s) [p] (R(QSleeping := ys @ zs)))"
    "\<forall>x. task_index s2 x = task_index s x" "\<forall>x. x \<noteq> p \<longrightarrow> due s2 x = due s x"
    "sleeping_count s2 = sleeping_count s - 1" "ready_count s2 = ready_count s + 1"
    "current_task s2 = current_task s"
proof -
  let ?R = "R(QSleeping := ys @ zs)"
  have q: "QSleeping \<in> refs" by (simp add: refs_def)
  have d: "p \<notin> set ys" "remove1 p (R QSleeping) = ys @ zs"
    using queue_repD(4) [OF assms(1) q] assms(2) by (auto simp: remove1_append)
  obtain s1 where s1: "remove_task_from_queue QSleeping p s = Some s1"
    "queue_rep s1 ?R" "same_rest s s1" "detached s1 ?R p"
    using remove_rep [OF assms(1) q, of p] assms(2) unfolding d(2) by auto
  note rest = same_restD [OF s1(3)]
  let ?s1 = "s1\<lparr>sleeping_count := sleeping_count s1 - 1\<rparr>"
  have p: "queue_rep ?s1 ?R" "p \<noteq> NULL" "tcbs ?s1 p \<noteq> None" "\<forall>q \<in> refs. p \<notin> set (?R q)"
    using s1(2,4) by (auto simp: detached_def link_def simp del: fun_upd_apply)
  have ti: "task_index ?s1 x = task_index s x" for x
    using task_index_cores [OF rest(11), of x] by (simp add: task_index_def)
  obtain s2 where s2: "add_task_to_ready_queue p ?s1 = Some s2"
    "queue_rep s2 (?R(QReady (task_index ?s1 p) := ?R (QReady (task_index ?s1 p)) @ [p]))"
    "\<forall>x. task_index s2 x = task_index ?s1 x" "ready_count s2 = ready_count ?s1 + 1"
    "current_task s2 = current_task ?s1" "tick_count s2 = tick_count ?s1"
    "sleeping_count s2 = sleeping_count ?s1" "\<forall>x. x \<noteq> p \<longrightarrow> cores (tcbs s2) x = cores (tcbs ?s1) x"
    by (rule add_ready_rep [OF p])
  have "due s2 x = due s x" if "x \<noteq> p" for x
    using s2(6,8) that rest by (intro due_cores) simp_all
  moreover have "queue_rep s2 (add_ready (task_index s) [p] ?R)"
    using s2(2) unfolding ti by (simp add: add_ready_Cons)
  ultimately show ?thesis
    using that [OF s1(1) s2(1)] s2(3-7) ti rest by simp
qed

lemma add_ready_wake:
  "add_ready f zs ((add_ready f [p] (R(QSleeping := xs)))(QSleeping := ys)) =
   add_ready f (p # zs) (R(QSleeping := ys))"
  by (auto simp: add_ready_def fun_eq_iff split: qref.split)

lemma wake_loop_rep:
  "queue_rep s R \<Longrightarrow> R QSleeping = ys @ zs \<Longrightarrow>
   \<exists>s'. wake_loop (head_or NULL zs) s = Some s' \<and>
     queue_rep s' (add_ready (task_index s) (filter (due s) zs)
       (R(QSleeping := ys @ filter (\<lambda>p. \<not> due s p) zs))) \<and>
     sleeping_count s' = sleeping_count s - of_nat (length (filter (due s) zs)) \<and>
     ready_count s' = ready_count s + of_nat (length (filter (due s) zs)) \<and>
     current_task s' = current_task s"
proof (induction zs arbitrary: s R ys)
  case Nil
  then have "R(QSleeping := ys) = R" by (simp add: fun_upd_idem)
  with Nil show ?case by (simp add: wake_loop.simps)
next
  case (Cons p zs)
  have q: "QSleeping \<in> refs" by (simp add: refs_def)
  have seg: "dlseg (tcbs s) NULL (ys @ p # zs) NULL" "distinct (ys @ p # zs)"
    using queue_repD [OF Cons.prems(1) q] Cons.prems(2) by simp_all
  then obtain t where t: "tcbs s p = Some t" "t_next t = head_or NULL zs" "p \<noteq> NULL"
    by (auto simp: dlseg_append link_def)
  show ?case
  proof (cases "due s p")
    case True
    obtain s1 s2 where s2: "remove_task_from_queue QSleeping p s = Some s1"
      "add_task_to_ready_queue p (s1\<lparr>sleeping_count := sleeping_count s1 - 1\<rparr>) = Some s2"
      "queue_rep s2 (add_ready (task_index s) [p] (R(QSleeping := ys @ zs)))"
      "\<forall>x. task_index s2 x = task_index s x" "\<forall>x. x \<noteq> p \<longrightarrow> due s2 x = due s x"
      "sleeping_count s2 = sleeping_count s - 1" "ready_count s2 = ready_count s + 1"
      "current_task s2 = current_task s"
      by (rule wake_one_rep [OF Cons.prems])
    have run: "wake_loop (head_or NULL (p # zs)) s = wake_loop (head_or NULL zs) s2"
      using True t s2(1,2) by (subst wake_loop.simps) (simp add: due_def)
    have eq: "task_index s2 = task_index s" "filter (due s2) zs = filter (due s) zs"
        "filter (\<lambda>p. \<not> due s2 p) zs = filter (\<lambda>p. \<not> due s p) zs"
      using s2(4,5) seg(2) by (auto intro: filter_cong)
    have "(add_ready (task_index s) [p] (R(QSleeping := ys @ zs))) QSleeping = ys @ zs"
      by (simp add: add_ready_def)
    from Cons.IH [OF s2(3) this] show ?thesis
      unfolding run eq add_ready_wake s2(6-8) using True
      by (simp add: algebra_simps del: fun_upd_apply)
  next
    case False
    have "wake_loop (head_or NULL (p # zs)) s = wake_loop (head_or NULL zs) s"
      using False t by (subst wake_loop.simps) (simp add: due_def)
    with Cons.IH [OF Cons.prems(1), of "ys @ [p]"] Cons.prems(2) False show ?thesis by simp
  qed
qed

section \<open>Properties\<close>

text \<open>A small system for the instances below: nothing is queued, three tasks exist.\<close>

definition idle_system :: sched where
  "idle_system =
     \<lparr>current_task = 0, idle_task_tcb = 0x50, task_list_head = 0x10, ready_queue = replicate 5 0,
      blocked_queue = 0, sleeping_queue = 0, tick_count = 7, next_pid = 9, task_count = 3,
      ready_count = 0, blocked_count = 0, sleeping_count = 0, scheduler_running = True,
      preemption_enabled = True, in_critical_section = False,
      tcbs = [0x10 \<mapsto> zero_task\<lparr>t_pid := 2, t_priority := 2\<rparr>,
              0x20 \<mapsto> zero_task\<lparr>t_pid := 3, t_priority := 4\<rparr>,
              0x30 \<mapsto> zero_task\<lparr>t_pid := 4, t_priority := 2\<rparr>],
      interrupts_on = True, sc_heap = kheap_boot, sc_page_dir = 0, sc_words = (\<lambda>_. 0)\<rparr>"

text \<open>The first task runs, the second is ready, the third sleeps until tick 5.\<close>

definition busy_system :: sched where
  "busy_system = idle_system\<lparr>current_task := 0x10, ready_queue := [0, 0, 0, 0, 0x20],
                   sleeping_queue := 0x30, sleeping_count := 1, ready_count := 1,
                   tcbs := [0x10 \<mapsto> zero_task\<lparr>t_pid := 2, t_priority := 2, t_state := TASK_STATE_RUNNING\<rparr>,
                            0x20 \<mapsto> zero_task\<lparr>t_pid := 3, t_priority := 4\<rparr>,
                            0x30 \<mapsto> zero_task\<lparr>t_pid := 4, t_priority := 2, t_wake_tick := 5,
                                               t_state := TASK_STATE_SLEEPING\<rparr>]\<rparr>"

definition busy_queues :: "qref \<Rightarrow> ptr list" where
  "busy_queues = (\<lambda>_. [])(QReady 4 := [0x20], QSleeping := [0x30])"

lemmas demo_defs = idle_system_def busy_system_def busy_queues_def zero_task_def

lemmas run_defs = block_task_def find_task_by_pid_def on_task_def enter_critical_def
  remove_task_from_queue_def add_task_to_queue_def schedule_next_task_def get_next_ready_task_def
  switch_to_task_def leave_critical_def Let_def

lemma idle_system_rep: "queue_rep idle_system (\<lambda>_. [])"
  by (simp add: queue_rep_def refs_def demo_defs)

lemma busy_system_rep: "queue_rep busy_system busy_queues"
  by (auto simp: queue_rep_def refs_def demo_defs link_def)

text \<open>
  C5. Ready tasks run by priority and, within a priority, in the order they became ready: when
  tasks that are in no queue are made ready one after another while no task is ready, the
  scheduler picks them in the order of the stable sort by descending priority level.
\<close>

theorem ready_dispatch_order:
  assumes "queue_rep s R" "ready_order R = []" "distinct ps"
    and "\<forall>p \<in> set ps. p \<noteq> NULL \<and> tcbs s p \<noteq> None \<and> (\<forall>q \<in> refs. p \<notin> set (R q))"
  shows "\<exists>s1 s2. enqueue_all ps s = Some s1 \<and>
           dequeue_n (length ps) s1 = Some (sort_key (\<lambda>p. 4 - task_index s p) ps, s2)"
proof -
  obtain s1 where s1: "enqueue_all ps s = Some s1" "queue_rep s1 (add_ready (task_index s) ps R)"
    using enqueue_all_rep [OF assms(1,3,4)] by blast
  have ord: "ready_order (add_ready (task_index s) ps R) = sort_key (\<lambda>p. 4 - task_index s p) ps"
    by (rule ready_order_add_ready [OF assms(2) task_index_le])
  obtain s2 where "dequeue_n (length ps) s1 = Some (sort_key (\<lambda>p. 4 - task_index s p) ps, s2)"
    using dequeue_n_rep [OF s1(2), of "length ps"] unfolding ord by auto
  with s1(1) show ?thesis by blast
qed

theorem ready_dispatch_order_witness:
  "\<exists>s1 s2. enqueue_all [0x10, 0x20, 0x30] idle_system = Some s1 \<and>
     dequeue_n 3 s1 = Some ([0x20, 0x10, 0x30], s2)"
proof -
  have "task_index idle_system 0x10 = 2" "task_index idle_system 0x20 = 4"
       "task_index idle_system 0x30 = 2"
    by (simp_all add: task_index_def demo_defs queue_index_def TASK_PRIORITY_REALTIME_def)
  moreover have "tcbs idle_system 0x10 \<noteq> None" "tcbs idle_system 0x20 \<noteq> None" "tcbs idle_system 0x30 \<noteq> None"
    by (simp_all add: demo_defs)
  moreover have "ready_order (\<lambda>_. []) = []"
    by (simp add: ready_order_def)
  ultimately show ?thesis
    using ready_dispatch_order [OF idle_system_rep, of "[0x10, 0x20, 0x30]"]
    by (simp add: numeral_3_eq_3 del: enqueue_all.simps dequeue_n.simps)
qed

text \<open>
  C30. Blocking and unblocking. When the running task, which is not the idle task and is found under its
  number, is blocked while another task is ready, \<open>block_task\<close> puts it at the end of the
  blocked queue and hands the CPU to the first ready task; the other ready tasks and the sleeping
  ones stay. In any state, \<open>unblock_task\<close> on a task in the blocked queue that is found under
  its number takes exactly it out of that queue, appends it to the ready queue of its priority and
  moves one from the blocked to the ready counter; the running task goes on.
\<close>

theorem block_and_unblock:
  assumes "queue_rep s R" "scheduler_running s" "current_task s = p" "detached s R p"
    and "p \<noteq> idle_task_tcb s" "find_task_by_pid pid s = Some p" "ready_order R = n # rest"
  shows "(\<exists>s' R'. block_task pid s = Some (True, s') \<and> queue_rep s' R' \<and> current_task s' = n \<and>
            ready_order R' = rest \<and> R' QBlocked = R QBlocked @ [p] \<and> R' QSleeping = R QSleeping \<and>
            state_of s' p = Some TASK_STATE_BLOCKED \<and> state_of s' n = Some TASK_STATE_RUNNING) \<and>
         (\<forall>u U q qid. queue_rep u U \<and> find_task_by_pid qid u = Some q \<and> q \<in> set (U QBlocked) \<and>
            state_of u q = Some TASK_STATE_BLOCKED \<longrightarrow>
            (\<exists>u'. unblock_task qid u = Some u' \<and>
               queue_rep u' ((U(QBlocked := remove1 q (U QBlocked)))
                 (QReady (task_index u q) := U (QReady (task_index u q)) @ [q])) \<and>
               state_of u' q = Some TASK_STATE_READY \<and> ready_count u' = ready_count u + 1 \<and>
               blocked_count u' = blocked_count u - 1 \<and> current_task u' = current_task u))"
proof (intro conjI allI impI)
  obtain s' R' where "block_task pid s = Some (True, s')" "queue_rep s' R'" "detached s' R' n"
    "current_task s' = n" "ready_order R' = rest" "R' QBlocked = R QBlocked @ [p]"
    "R' QSleeping = R QSleeping" "state_of s' n = Some TASK_STATE_RUNNING"
    "state_of s' p = Some TASK_STATE_BLOCKED"
    by (rule block_current_rep [OF assms])
  then show "\<exists>s' R'. block_task pid s = Some (True, s') \<and> queue_rep s' R' \<and> current_task s' = n \<and>
      ready_order R' = rest \<and> R' QBlocked = R QBlocked @ [p] \<and> R' QSleeping = R QSleeping \<and>
      state_of s' p = Some TASK_STATE_BLOCKED \<and> state_of s' n = Some TASK_STATE_RUNNING"
    by blast
next
  fix u U q qid
  assume "queue_rep u U \<and> find_task_by_pid qid u = Some q \<and> q \<in> set (U QBlocked) \<and>
    state_of u q = Some TASK_STATE_BLOCKED"
  then show "\<exists>u'. unblock_task qid u = Some u' \<and>
      queue_rep u' ((U(QBlocked := remove1 q (U QBlocked)))
        (QReady (task_index u q) := U (QReady (task_index u q)) @ [q])) \<and>
      state_of u' q = Some TASK_STATE_READY \<and> ready_count u' = ready_count u + 1 \<and>
      blocked_count u' = blocked_count u - 1 \<and> current_task u' = current_task u"
    using unblock_rep [of u U qid q] by metis
qed

theorem block_and_unblock_witness:
  "\<exists>s1 s2 R1. block_task 2 busy_system = Some (True, s1) \<and> current_task s1 = 0x20 \<and>
     state_of s1 0x10 = Some TASK_STATE_BLOCKED \<and> R1 QBlocked = [0x10] \<and> queue_rep s1 R1 \<and>
     unblock_task 2 s1 = Some s2 \<and> current_task s2 = 0x20 \<and> state_of s2 0x10 = Some TASK_STATE_READY"
proof -
  have "map_option (\<lambda>r. find_task_by_pid 2 (snd r)) (block_task 2 busy_system) = Some (Some 0x10)"
    by (simp add: demo_defs run_defs find_pid_from.simps)
  then have find: "find_task_by_pid 2 s' = Some 0x10" if "block_task 2 busy_system = Some (True, s')" for s'
    using that by simp
  have "find_task_by_pid 2 busy_system = Some 0x10"
    by (simp add: demo_defs find_task_by_pid_def find_pid_from.simps)
  moreover have "detached busy_system busy_queues 0x10"
    by (simp add: detached_def refs_def demo_defs link_def)
  moreover have "ready_order busy_queues = 0x20 # []" "busy_queues QBlocked = []"
    by (simp_all add: ready_order_def busy_queues_def)
  moreover have "scheduler_running busy_system" "current_task busy_system = 0x10" "0x10 \<noteq> idle_task_tcb busy_system"
    by (simp_all add: demo_defs)
  ultimately have b: "scheduler_running busy_system" "current_task busy_system = 0x10"
    "detached busy_system busy_queues 0x10" "0x10 \<noteq> idle_task_tcb busy_system"
    "find_task_by_pid 2 busy_system = Some 0x10" "ready_order busy_queues = 0x20 # []" "busy_queues QBlocked = []"
    by blast+
  note bu = block_and_unblock [OF busy_system_rep b(1-6)]
  then obtain s1 R1 where s1: "block_task 2 busy_system = Some (True, s1)" "queue_rep s1 R1" "current_task s1 = 0x20"
    "R1 QBlocked = [0x10]" "state_of s1 0x10 = Some TASK_STATE_BLOCKED"
    using b(7) by auto
  then have "0x10 \<in> set (R1 QBlocked)" by simp
  with bu s1(2,5) find [OF s1(1)] obtain s2 where
    "unblock_task 2 s1 = Some s2" "state_of s2 0x10 = Some TASK_STATE_READY" "current_task s2 = current_task s1"
    by blast
  with s1 show ?thesis by (intro exI [of _ s1] exI [of _ s2] exI [of _ R1]) simp
qed

text \<open>
  C29. One pass over the sleeping queue ends and wakes exactly the tasks whose wake-up tick has
  come: they leave the sleeping queue, each is appended to the ready queue of its priority in the
  order they slept, the others keep their order, and the two counters move by the number of woken
  tasks.
\<close>

theorem check_sleeping_tasks_wakes_due:
  assumes "queue_rep s R"
  shows "\<exists>s'. check_sleeping_tasks s = Some s' \<and>
           queue_rep s' (add_ready (task_index s) (filter (due s) (R QSleeping))
             (R(QSleeping := filter (\<lambda>p. \<not> due s p) (R QSleeping)))) \<and>
           sleeping_count s' = sleeping_count s - of_nat (length (filter (due s) (R QSleeping))) \<and>
           ready_count s' = ready_count s + of_nat (length (filter (due s) (R QSleeping))) \<and>
           current_task s' = current_task s"
proof -
  have "sleeping_queue s = head_or NULL (R QSleeping)"
    using queue_repD(2) [OF assms, of QSleeping] by (simp add: refs_def)
  with wake_loop_rep [OF assms, of "[]" "R QSleeping"] show ?thesis
    unfolding check_sleeping_tasks_def by simp
qed

theorem check_sleeping_tasks_wakes_due_witness:
  "\<exists>s'. check_sleeping_tasks busy_system = Some s' \<and>
     queue_rep s' (add_ready (task_index busy_system) [0x30] (busy_queues(QSleeping := []))) \<and>
     sleeping_count s' = 0 \<and> ready_count s' = 2"
proof -
  have "due busy_system 0x30" "busy_queues QSleeping = [0x30]" "sleeping_count busy_system = 1"
      "ready_count busy_system = 1"
    by (simp_all add: due_def demo_defs)
  then show ?thesis
    using check_sleeping_tasks_wakes_due [OF busy_system_rep] by (auto simp del: fun_upd_apply)
qed

end
