(* ===== verification/Scheduler_Faults.thy ===== *)
theory Scheduler_Faults
  imports Scheduler_Props
begin

text \<open>
  Where the scheduler of \<^verbatim>\<open>kernel/scheduler.c\<close> does not do what it is meant to: the entry point
  \<^verbatim>\<open>schedule\<close> that never schedules, the list of all tasks that shares its links with the ready
  queues, and removal from queues a task is not in.
\<close>

section \<open>No preemption\<close>

lemma schedule_idle: "schedule s = Some (False, exit_critical s)"
  by (simp add: schedule_def enter_critical_def exit_critical_def)

text \<open>
  \<open>schedule\<close> enters its critical section and then returns because a critical section is
  active, so it never switches tasks. Neither \<open>yield\<close> nor the yield interrupt nor a timer tick at
  the end of a time slice ever takes the CPU from the running task.
\<close>

theorem schedule_never_switches:
  "yield s = Some (False, exit_critical s) \<and> yield_handler s = Some (False, exit_critical s) \<and>
   map_option fst (timer_tick_handler s) \<in> {None, Some False}"
proof -
  have "fst r = False" if "timer_tick_handler s = Some r" for r
    using that
    by (auto simp: timer_tick_handler_def schedule_idle Let_def split: if_splits bind_splits)
  then show ?thesis
    by (cases "timer_tick_handler s") (simp_all add: yield_def yield_handler_def schedule_idle)
qed

section \<open>Removal from queues a task is not in\<close>

text \<open>Removing a task whose links are cleared only changes a queue that starts with it.\<close>

lemma remove_unlinked:
  assumes "tcbs s p = Some t" "t_next t = NULL" "t_prev t = NULL" "p \<noteq> NULL"
    and "ref_ok q s"
  shows "remove_task_from_queue q p s = Some (if get_q q s = p then set_q q NULL s else s)"
proof -
  have "t\<lparr>t_next := NULL, t_prev := NULL\<rparr> = t"
    using assms by (cases t) simp
  then have id: "(tcbs s)(p \<mapsto> t\<lparr>t_next := NULL, t_prev := NULL\<rparr>) = tcbs s"
    using assms(1) by (simp add: fun_upd_idem)
  have sq: "tcbs (set_q q x s) = tcbs s" "(set_q q x s)\<lparr>tcbs := tcbs s\<rparr> = set_q q x s" for x
    by (cases q; cases s; simp)+
  show ?thesis
    using assms id sq by (auto simp: remove_task_from_queue_def on_task_def Let_def get_set_q)
qed

lemma remove_all_unlinked:
  assumes "tcbs s p = Some t" "t_next t = NULL" "t_prev t = NULL" "p \<noteq> NULL"
    and "length (ready_queue s) = 5" "set qs \<subseteq> refs"
  shows "\<exists>s'. remove_from_queues qs p s = Some s' \<and> tcbs s' = tcbs s \<and>
           current_task s' = current_task s \<and>
           (\<forall>q \<in> refs. get_q q s' = (if q \<in> set qs \<and> get_q q s = p then NULL else get_q q s))"
  using assms
proof (induction qs arbitrary: s)
  case Nil
  then show ?case by simp
next
  case (Cons q qs)
  let ?s = "if get_q q s = p then set_q q NULL s else s"
  have q: "q \<in> refs" "ref_ok q s" using Cons.prems by (auto intro: ref_ok_refs)
  have keep: "tcbs ?s = tcbs s" "current_task ?s = current_task s" "length (ready_queue ?s) = 5"
    using Cons.prems(5) by (cases q; simp)+
  have heads: "get_q q' ?s = (if q' = q \<and> get_q q s = p then NULL else get_q q' s)" if "q' \<in> refs" for q'
    using get_set_q [OF q(2)] get_q_set_q_other [OF q(1) that] by auto
  have "remove_task_from_queue q p s = Some ?s"
    by (rule remove_unlinked [OF Cons.prems(1-4) q(2)])
  moreover obtain s' where s': "remove_from_queues qs p ?s = Some s'" "tcbs s' = tcbs ?s"
    "current_task s' = current_task ?s"
    "\<forall>q \<in> refs. get_q q s' = (if q \<in> set qs \<and> get_q q ?s = p then NULL else get_q q ?s)"
    using Cons.IH [of ?s] Cons.prems keep by auto
  ultimately have "remove_from_queues (q # qs) p s = Some s'" by simp
  moreover have "get_q q' s' = (if q' \<in> set (q # qs) \<and> get_q q' s = p then NULL else get_q q' s)"
    if "q' \<in> refs" for q'
    using s'(4) heads [OF that] that Cons.prems(4) by auto
  ultimately show ?case
    using s'(2,3) keep by auto
qed

text \<open>
  Removing the head of one queue from another queue that is not empty cuts its link to the rest of
  its own queue.
\<close>

lemma remove_foreign_head:
  assumes "queue_rep s R" "q \<in> refs" "q' \<in> refs" "q \<noteq> q'" "R q = x # xs" "R q' = p # rest"
  obtains s' t where "remove_task_from_queue q p s = Some s'" "tcbs s' p = Some t"
    "t_next t = NULL" "t_prev t = NULL" "p \<noteq> NULL" "length (ready_queue s') = 5"
    "\<forall>q \<in> refs. get_q q s' = get_q q s" "current_task s' = current_task s"
proof -
  have seg: "dlseg (tcbs s) NULL (p # rest) NULL" "distinct (p # rest)"
    using queue_repD(3,4) [OF assms(1,3)] assms(6) by simp_all
  then obtain t where t: "tcbs s p = Some t" "t_prev t = NULL" "t_next t = head_or NULL rest" "p \<noteq> NULL"
    by (auto simp: link_def)
  have "p \<noteq> x"
    using queue_rep_disjoint [OF assms(1-4)] assms(5,6) by auto
  moreover have "x \<noteq> NULL" "get_q q s = x"
    using dlseg_nonnull [OF queue_repD(3) [OF assms(1,2)], of x] queue_repD(2) [OF assms(1,2)] assms(5)
    by simp_all
  ultimately have hd: "get_q q s \<noteq> p" "get_q q s \<noteq> NULL" by simp_all
  let ?t = "t\<lparr>t_next := NULL, t_prev := NULL\<rparr>"
  obtain h where h: "remove_task_from_queue q p s = Some (s\<lparr>tcbs := h(p \<mapsto> ?t)\<rparr>)"
  proof (cases rest)
    case Nil
    then show ?thesis
      using that [of "tcbs s"] hd t by (simp add: remove_task_from_queue_def on_task_def)
  next
    case (Cons y ys)
    then obtain u where "tcbs s y = Some u" "y \<noteq> p" "y \<noteq> NULL"
      using seg by (auto simp: link_def)
    then show ?thesis
      using that [of "(tcbs s)(y \<mapsto> u\<lparr>t_prev := NULL\<rparr>)"] hd t Cons
      by (simp add: remove_task_from_queue_def on_task_def)
  qed
  have "get_q q'' (s\<lparr>tcbs := g\<rparr>) = get_q q'' s" for q'' g
    by (cases q'') simp_all
  then show ?thesis
    using that [OF h] t(4) assms(1) by (simp add: queue_rep_def)
qed

text \<open>
  Terminating a ready task that is first in its priority level loses the level: if the idle
  level is not empty, which holds from the start of the scheduler on, removal first unlinks the
  task as if it were a member of the idle queue, so that the ready queue it heads is then set to
  empty, and the tasks behind it are never scheduled again.
\<close>

theorem terminate_loses_ready_peers:
  assumes "queue_rep s R" "R (QReady 0) = x # xs" "R (QReady i) = p # rest" "1 \<le> i" "i \<le> 4"
    and "find_task_by_pid pid s = Some p" "PID_KERNEL < pid" "current_task s \<noteq> p"
  shows "\<exists>s'. terminate_task pid s = Some (False, s') \<and> ready_queue s' ! i = NULL"
proof -
  let ?f = "\<lambda>t. t\<lparr>t_state := TASK_STATE_TERMINATED\<rparr>" and ?s0 = "enter_critical s"
  have q: "QReady 0 \<in> refs" "QReady i \<in> refs" "QReady 0 \<noteq> QReady i"
    using assms(4,5) ready_in_refs [of i] ready_in_refs [of 0] by auto
  obtain t where t: "tcbs ?s0 p = Some t"
    using dlseg_alloc [OF queue_repD(3) [OF assms(1) q(2)], of p] assms(3) by auto
  define s1 where "s1 = ?s0\<lparr>tcbs := (tcbs ?s0)(p \<mapsto> ?f t)\<rparr>"
  have s1: "on_task p ?f ?s0 = Some s1" "queue_rep s1 R" "current_task s1 = current_task s"
    using t queue_rep_on_task [OF _ t, of R "?f t"] assms(1) by (simp_all add: s1_def on_task_Some)
  obtain s2 t2 where s2: "remove_task_from_queue (QReady 0) p s1 = Some s2" "tcbs s2 p = Some t2"
    "t_next t2 = NULL" "t_prev t2 = NULL" "p \<noteq> NULL" "length (ready_queue s2) = 5"
    "\<forall>q \<in> refs. get_q q s2 = get_q q s1" "current_task s2 = current_task s1"
    by (rule remove_foreign_head [OF s1(2) q assms(2,3)])
  let ?qs = "[QReady 1, QReady 2, QReady 3, QReady 4, QBlocked, QSleeping]"
  obtain s3 where s3: "remove_from_queues ?qs p s2 = Some s3" "current_task s3 = current_task s2"
    "\<forall>q \<in> refs. get_q q s3 = (if q \<in> set ?qs \<and> get_q q s2 = p then NULL else get_q q s2)"
    using remove_all_unlinked [OF s2(2-6), of ?qs] by (auto simp: refs_def)
  have "get_q (QReady i) s2 = p" "QReady i \<in> set ?qs"
    using s2(7) q(2) queue_repD(2) [OF s1(2) q(2)] assms(3-5) by (auto simp: le4_cases)
  then have "get_q (QReady i) s3 = NULL"
    using bspec [OF s3(3) q(2)] by simp
  moreover have "remove_from_queues (ready_refs @ [QBlocked, QSleeping]) p s1 = Some s3"
    using s2(1) s3(1) by simp
  then have "terminate_task pid s = Some (False, exit_critical s3)"
    using assms(6-8) s1 s2(5,8) s3(2)
    by (simp add: terminate_task_def Let_def leave_critical_def del: remove_from_queues.simps append.simps)
  ultimately show ?thesis
    by (simp add: exit_critical_def)
qed

text \<open>The idle task runs and is first of its ready queue; two ready tasks of normal priority.\<close>

definition peer_system :: sched where
  "peer_system = idle_system\<lparr>current_task := 0x50, task_list_head := 0x10,
     ready_queue := [0x50, 0, 0x10, 0, 0], ready_count := 3,
     tcbs := [0x50 \<mapsto> zero_task\<lparr>t_pid := 1\<rparr>,
              0x10 \<mapsto> zero_task\<lparr>t_pid := 2, t_priority := 2, t_next := 0x30\<rparr>,
              0x30 \<mapsto> zero_task\<lparr>t_pid := 4, t_priority := 2, t_prev := 0x10\<rparr>]\<rparr>"

theorem terminate_loses_ready_peers_witness:
  "\<exists>s'. terminate_task 2 peer_system = Some (False, s') \<and> ready_queue s' ! 2 = NULL"
proof -
  let ?R = "(\<lambda>_. [])(QReady 0 := [0x50], QReady 2 := [0x10, 0x30])"
  have "queue_rep peer_system ?R"
    by (auto simp: queue_rep_def refs_def peer_system_def demo_defs link_def)
  moreover have "find_task_by_pid 2 peer_system = Some 0x10"
    by (simp add: peer_system_def demo_defs find_task_by_pid_def find_pid_from.simps)
  moreover have "current_task peer_system \<noteq> 0x10"
    by (simp add: peer_system_def)
  ultimately show ?thesis
    using terminate_loses_ready_peers [of peer_system ?R "0x50" "[]" 2 "0x10" "[0x30]" 2]
    by (simp add: PID_KERNEL_def)
qed

section \<open>The list of all tasks and the ready queues share their links\<close>

lemma queue_last_closed:
  assumes "queue_last h p = Some l" "\<forall>x \<in> S. \<exists>t. h x = Some t \<and> t_next t \<in> S" "NULL \<notin> S"
  shows "p \<notin> S"
  using assms
proof (induction h p l rule: queue_last.raw_induct [rotated, consumes 1, case_names step])
  case (step queue_last h p l)
  then obtain t where "h p = Some t" by (auto split: option.splits)
  note t = this
  show ?case
  proof
    assume p: "p \<in> S"
    have "t_next t \<in> S" using step(3) p t by force
    with step(4) have "t_next t \<noteq> NULL" by metis
    with step(2) t have "queue_last h (t_next t) = Some l" by simp
    from step(1) [OF this step(3,4)] \<open>t_next t \<in> S\<close> show False by simp
  qed
qed

text \<open>The walk of \<open>queue_last\<close> as a path of tasks.\<close>

fun npath :: "(ptr \<rightharpoonup> task) \<Rightarrow> ptr \<Rightarrow> ptr list \<Rightarrow> ptr \<Rightarrow> bool" where
  "npath h p [] l = (p = l)"
| "npath h p (x # xs) l = (p = x \<and> (\<exists>t. h x = Some t \<and> t_next t \<noteq> NULL \<and> npath h (t_next t) xs l))"

lemma queue_last_npath:
  "queue_last h p = Some l \<Longrightarrow> \<exists>xs t. npath h p xs l \<and> h l = Some t \<and> t_next t = NULL"
proof (induction h p l rule: queue_last.raw_induct [rotated, consumes 1, case_names step])
  case (step queue_last h p l)
  from step(2) obtain t where t: "h p = Some t" by (auto split: option.splits)
  show ?case
  proof (cases "t_next t = NULL")
    case True
    with step(2) t have "npath h p [] l \<and> h l = Some t \<and> t_next t = NULL" by simp
    then show ?thesis by blast
  next
    case False
    with step(2) t have "queue_last h (t_next t) = Some l" by simp
    from step(1) [OF this] obtain xs u where "npath h (t_next t) xs l" "h l = Some u" "t_next u = NULL"
      by blast
    with False t have "npath h p (p # xs) l \<and> h l = Some u \<and> t_next u = NULL" by simp
    then show ?thesis by blast
  qed
qed

lemma npath_queue_last: "npath h p xs l \<Longrightarrow> h l = Some t \<Longrightarrow> t_next t = NULL \<Longrightarrow> queue_last h p = Some l"
  by (induction xs arbitrary: p) (auto simp: queue_last.simps)

lemma npath_cong: "(\<forall>x \<in> set xs. h' x = h x) \<Longrightarrow> npath h' p xs l = npath h p xs l"
  by (induction xs arbitrary: p) auto

lemma npath_dom: "npath h p xs l \<Longrightarrow> x \<in> set xs \<Longrightarrow> \<exists>t. h x = Some t \<and> t_next t \<noteq> NULL \<and> t_next t \<in> insert l (set xs)"
proof (induction xs arbitrary: p)
  case (Cons y ys)
  then obtain t where t: "h y = Some t" "t_next t \<noteq> NULL" "npath h (t_next t) ys l" by auto
  have "t_next t \<in> insert l (set ys)"
    using t(3) by (cases ys) auto
  with t Cons show ?case by (cases "x = y") auto
qed simp

lemma npath_nonnull: "npath h p xs l \<Longrightarrow> x \<in> set xs \<Longrightarrow> p \<noteq> NULL \<Longrightarrow> x \<noteq> NULL"
  by (induction xs arbitrary: p) auto

lemma npath_head: "npath h p xs l \<Longrightarrow> p \<in> insert l (set xs)"
  by (cases xs) auto

text \<open>The two insertions of \<open>create_task\<close>.\<close>

lemma create_task_links:
  assumes "create_task kpd nm e prio fl s = Some (b, s')" "b \<noteq> NULL"
  obtains s3 s4 s5 t where "b = fst (kmalloc SIZEOF_TASK (sc_heap s))" "tcbs s3 = (tcbs s)(b \<mapsto> t)"
    "t_next t = NULL" "t_prev t = NULL" "t_priority t = prio"
    "task_list_head s3 = task_list_head s" "ready_queue s3 = ready_queue s"
    "add_task_to_queue QTasks b s3 = Some s4"
    "add_task_to_ready_queue b (s4\<lparr>task_count := task_count s4 + 1\<rparr>) = Some s5" "s' = exit_critical s5"
proof -
  obtain p h1 where p: "kmalloc SIZEOF_TASK (sc_heap s) = (p, h1)" by fastforce
  obtain stack h2 where st: "kmalloc DEFAULT_KERNEL_STACK_SIZE h1 = (stack, h2)" by fastforce
  obtain ctx ws where c: "setup_initial_stack stack DEFAULT_KERNEL_STACK_SIZE e (sc_words s) = (ctx, ws)"
    by fastforce
  let ?t = "new_task kpd (next_pid s) nm prio fl stack ctx"
  let ?s3 = "(enter_critical s)\<lparr>sc_heap := h2, next_pid := next_pid s + 1, sc_words := ws,
               tcbs := (tcbs s)(p \<mapsto> ?t)\<rparr>"
  have "sc_heap (enter_critical s) = sc_heap s" "sc_words (enter_critical s) = sc_words s"
      "next_pid (enter_critical s) = next_pid s"
    by (simp_all add: enter_critical_def)
  then have "p \<noteq> NULL \<and> stack \<noteq> NULL \<and> Option.bind (add_task_to_queue QTasks p ?s3) (\<lambda>s4.
      Option.bind (add_task_to_ready_queue p (s4\<lparr>task_count := task_count s4 + 1\<rparr>)) (\<lambda>s5.
        Some (p, exit_critical s5))) = Some (b, s')"
    using assms p st c by (simp add: create_task_def Let_def split: if_splits)
  then obtain s4 s5 where "add_task_to_queue QTasks p ?s3 = Some s4"
      "add_task_to_ready_queue p (s4\<lparr>task_count := task_count s4 + 1\<rparr>) = Some s5"
      "b = p" "s' = exit_critical s5"
    by (auto simp: bind_eq_Some_conv)
  then show ?thesis
    using that [of ?s3 ?t s4 s5] p
    by (simp add: new_task_def zero_task_def enter_critical_def)
qed

lemma exit_fields [simp]:
  "task_list_head (exit_critical s) = task_list_head s" "ready_queue (exit_critical s) = ready_queue s"
  by (simp_all add: exit_critical_def)

lemma add_after_last:
  assumes "p \<noteq> NULL" "tcbs s p = Some t" "get_q q s \<noteq> NULL" "t0 = t\<lparr>t_next := NULL, t_prev := NULL\<rparr>"
    and "queue_last ((tcbs s)(p \<mapsto> t0)) (get_q q s) = Some l"
  shows "l = p \<Longrightarrow> add_task_to_queue q p s = Some (s\<lparr>tcbs := (tcbs s)(p \<mapsto> t0\<lparr>t_next := p, t_prev := p\<rparr>)\<rparr>)"
    and "l \<noteq> p \<Longrightarrow> tcbs s l = Some u \<Longrightarrow>
      add_task_to_queue q p s = Some (s\<lparr>tcbs := (tcbs s)(l \<mapsto> u\<lparr>t_next := p\<rparr>, p \<mapsto> t0\<lparr>t_prev := l\<rparr>)\<rparr>)"
proof -
  have g: "get_q q (s\<lparr>tcbs := h\<rparr>) = get_q q s" for h
    by (cases q) simp_all
  have tw: "l \<noteq> p \<Longrightarrow> (tcbs s)(p \<mapsto> x, l \<mapsto> y, p \<mapsto> z) = (tcbs s)(l \<mapsto> y, p \<mapsto> z)" for x y z
    by (auto simp: fun_eq_iff)
  show "l = p \<Longrightarrow> add_task_to_queue q p s = Some (s\<lparr>tcbs := (tcbs s)(p \<mapsto> t0\<lparr>t_next := p, t_prev := p\<rparr>)\<rparr>)"
    using assms g by (simp add: add_task_to_queue_def on_task_def del: get_q.simps)
  show "l \<noteq> p \<Longrightarrow> tcbs s l = Some u \<Longrightarrow>
      add_task_to_queue q p s = Some (s\<lparr>tcbs := (tcbs s)(l \<mapsto> u\<lparr>t_next := p\<rparr>, p \<mapsto> t0\<lparr>t_prev := l\<rparr>)\<rparr>)"
    using assms g tw by (simp add: add_task_to_queue_def on_task_def del: get_q.simps fun_upd_apply) (simp add: on_task_def tw)
qed

text \<open>The last task of the list of all tasks is the only one of its ready queue.\<close>

lemma create_task_self_loop:
  assumes "create_task kpd nm e prio fl s = Some (b, s')" "b \<noteq> NULL" "b \<notin> dom (tcbs s)"
    and "task_list_head s \<noteq> NULL" "queue_last (tcbs s) (task_list_head s) = Some a"
    and "prio \<le> 4" "ready_queue s ! unat prio = a" "NULL \<notin> dom (tcbs s)"
  obtains xs t u where "npath (tcbs s') (task_list_head s') xs a" "tcbs s' a = Some t" "t_next t = b"
    "tcbs s' b = Some u" "t_next u = b" "task_list_head s' = task_list_head s"
proof -
  obtain s3 s4 s5 t where s: "tcbs s3 = (tcbs s)(b \<mapsto> t)" "t_next t = NULL" "t_prev t = NULL"
    "t_priority t = prio" "task_list_head s3 = task_list_head s" "ready_queue s3 = ready_queue s"
    "add_task_to_queue QTasks b s3 = Some s4"
    "add_task_to_ready_queue b (s4\<lparr>task_count := task_count s4 + 1\<rparr>) = Some s5" "s' = exit_critical s5"
    by (rule create_task_links [OF assms(1,2)])
  obtain xs ta where a: "npath (tcbs s) (task_list_head s) xs a" "tcbs s a = Some ta" "t_next ta = NULL"
    using queue_last_npath [OF assms(5)] by blast
  have ne: "a \<noteq> b" "a \<noteq> NULL"
    using a assms(3,8) by (auto simp: domIff)
  have ne2: "b \<notin> set xs" "a \<notin> set xs"
    using a assms(3) npath_dom [OF a(1), of b] npath_dom [OF a(1), of a] by (auto simp: domIff)
  note ne = ne ne2
  have p3: "npath ((tcbs s)(b \<mapsto> t)) (task_list_head s) xs a"
    using a(1) ne(3) by (subst npath_cong) auto
  have l3: "queue_last ((tcbs s)(b \<mapsto> t)) (task_list_head s) = Some a"
    by (rule npath_queue_last [OF p3]) (use a ne in auto)
  have idt: "t\<lparr>t_next := NULL, t_prev := NULL\<rparr> = t"
    using s(2,3) by (cases t) simp
  let ?ta = "ta\<lparr>t_next := b\<rparr>" and ?h4 = "(tcbs s)(a \<mapsto> ta\<lparr>t_next := b\<rparr>, b \<mapsto> t\<lparr>t_prev := a\<rparr>)"
  have "add_task_to_queue QTasks b s3 = Some (s3\<lparr>tcbs := (tcbs s3)(a \<mapsto> ?ta, b \<mapsto> t\<lparr>t_prev := a\<rparr>)\<rparr>)"
    by (rule add_after_last(2) [OF _ _ _ idt [symmetric]]) (use s(1,5) assms(2,4) l3 a(2) ne in simp_all)
  moreover have "(tcbs s)(b \<mapsto> t, a \<mapsto> ?ta, b \<mapsto> t\<lparr>t_prev := a\<rparr>) = ?h4"
    using ne(1) by (auto simp: fun_eq_iff)
  ultimately have s4: "s4 = s3\<lparr>tcbs := ?h4\<rparr>"
    using s(1,7) by simp
  let ?s4 = "s4\<lparr>task_count := task_count s4 + 1\<rparr>" and ?k = "unat prio"
  have l5: "queue_last ((tcbs s)(a \<mapsto> ?ta, b \<mapsto> t)) a = Some b"
    using ne assms(2) s(2) by (simp add: queue_last.simps [of _ a] queue_last.simps [of _ b])
  let ?u = "t\<lparr>t_next := b, t_prev := b\<rparr>"
  have add5: "add_task_to_queue (QReady ?k) b ?s4 = Some (?s4\<lparr>tcbs := (tcbs ?s4)(b \<mapsto> ?u)\<rparr>)"
    by (rule add_after_last(1) [where t = "t\<lparr>t_prev := a\<rparr>" and l = b and ?t0.0 = t])
      (use s(2,6) assms(2,7) l5 ne idt in \<open>simp_all add: s4\<close>)
  have idx: "queue_index (t\<lparr>t_prev := a\<rparr>) = ?k"
    using s(4) assms(6) by (auto simp: queue_index_def TASK_PRIORITY_REALTIME_def)
  have "add_task_to_ready_queue b ?s4 = Some (?s4\<lparr>tcbs := (tcbs ?s4)(b \<mapsto> ?u\<lparr>t_state := TASK_STATE_READY\<rparr>),
      ready_count := ready_count ?s4 + 1\<rparr>)"
    using add5 idx assms(2) by (simp add: add_task_to_ready_queue_def on_task_def s4)
  then have "s5 = ?s4\<lparr>tcbs := (tcbs ?s4)(b \<mapsto> ?u\<lparr>t_state := TASK_STATE_READY\<rparr>),
      ready_count := ready_count ?s4 + 1\<rparr>"
    unfolding s(8) option.inject .
  then have "tcbs s5 = (tcbs s)(a \<mapsto> ?ta, b \<mapsto> ?u\<lparr>t_state := TASK_STATE_READY\<rparr>)"
      "task_list_head s5 = task_list_head s"
    using s(5) by (simp_all add: s4)
  note h5 = this
  have "npath (tcbs s5) (task_list_head s) xs a = npath (tcbs s) (task_list_head s) xs a"
    using ne h5(1) by (intro npath_cong) auto
  then show ?thesis
    using that [of xs] s(9) a(1) ne h5 by simp
qed

lemma add_to_cycle:
  assumes "\<forall>x \<in> S. \<exists>t. tcbs s x = Some t \<and> t_next t \<in> S" "NULL \<notin> S" "get_q q s \<in> S" "p \<notin> S" "p \<noteq> NULL"
  shows "add_task_to_queue q p s = None"
proof -
  have "queue_last ((tcbs s)(p \<mapsto> t)) (get_q q s) = None" for t
  proof (rule ccontr)
    assume "queue_last ((tcbs s)(p \<mapsto> t)) (get_q q s) \<noteq> None"
    then obtain l where "queue_last ((tcbs s)(p \<mapsto> t)) (get_q q s) = Some l" by blast
    moreover have "\<forall>x \<in> S. \<exists>u. ((tcbs s)(p \<mapsto> t)) x = Some u \<and> t_next u \<in> S"
      using assms(1,4) by (metis fun_upd_other)
    ultimately show False
      using queue_last_closed assms(2,3) by metis
  qed
  moreover have "get_q q (s\<lparr>tcbs := h\<rparr>) = get_q q s" for h
    by (cases q) simp_all
  moreover have "get_q q s \<noteq> NULL" using assms(2,3) by metis
  ultimately show ?thesis
    using assms(5) by (simp add: add_task_to_queue_def on_task_def split: option.split)
qed

text \<open>
  C39. The list of all tasks and the ready queues use the same links. Suppose that the newest task, the
  last one of the list of all tasks, is at the head of the ready queue of a priority, and a task
  of that priority is created in memory that no other task uses. Then the new task is its own successor,
  and the \<open>create_task\<close> that comes next, whatever its arguments, returns no task: it fails for lack
  of memory, or, given memory that no task uses, it does not return, because its walk to the end of the
  list of all tasks does not end.
\<close>

theorem create_task_hangs_after_peer:
  assumes "create_task kpd nm e prio fl s = Some (b, s')" "b \<noteq> NULL" "b \<notin> dom (tcbs s)"
    and "task_list_head s \<noteq> NULL" "queue_last (tcbs s) (task_list_head s) = Some a"
    and "prio \<le> 4" "ready_queue s ! unat prio = a" "NULL \<notin> dom (tcbs s)"
    and "fst (kmalloc SIZEOF_TASK (sc_heap s')) \<notin> dom (tcbs s')"
  shows "map_option t_next (tcbs s' b) = Some b \<and>
         (\<forall>r. create_task kpd' nm' e' prio' fl' s' = Some r \<longrightarrow> fst r = NULL)"
proof -
  obtain xs t u where p: "npath (tcbs s') (task_list_head s') xs a" "tcbs s' a = Some t" "t_next t = b"
    "tcbs s' b = Some u" "t_next u = b" "task_list_head s' = task_list_head s"
    by (rule create_task_self_loop [OF assms(1-8)])
  let ?S = "insert a (insert b (set xs))"
  have S: "\<forall>x \<in> ?S. \<exists>t. tcbs s' x = Some t \<and> t_next t \<in> ?S"
    using p(2-5) npath_dom [OF p(1)] by auto
  have S2: "x \<noteq> NULL" if x: "x \<in> ?S" for x
  proof -
    obtain v where "tcbs s a = Some v" using queue_last_npath [OF assms(5)] by blast
    then have "a \<noteq> NULL" using assms(8) by auto
    moreover have "x \<noteq> NULL" if "x \<in> set xs"
      using npath_nonnull [OF p(1) that] p(6) assms(4) by simp
    ultimately show ?thesis using x assms(2) by auto
  qed
  have hd: "task_list_head s' \<in> ?S" using npath_head [OF p(1)] by auto
  have "fst r = NULL" if c: "create_task kpd' nm' e' prio' fl' s' = Some r" for r
  proof (rule ccontr)
    assume n: "fst r \<noteq> NULL"
    obtain b' s'' where r: "r = (b', s'')" by (cases r)
    obtain s3 s4 s5 v where s: "b' = fst (kmalloc SIZEOF_TASK (sc_heap s'))" "tcbs s3 = (tcbs s')(b' \<mapsto> v)"
      "task_list_head s3 = task_list_head s'" "add_task_to_queue QTasks b' s3 = Some s4"
      using create_task_links c n unfolding r fst_conv by metis
    have "b' \<notin> ?S" using s(1) assms(9) S by (auto simp: domIff)
    then have "add_task_to_queue QTasks b' s3 = None"
      using S S2 hd s(2,3) n r by (intro add_to_cycle [where S = ?S]) auto
    with s(4) show False by simp
  qed
  with p(4,5) show ?thesis by simp
qed

text \<open>The state after start-up with one task of normal priority.\<close>

definition one_task_system :: sched where
  "one_task_system = idle_system\<lparr>current_task := 0x50, task_list_head := 0x50,
     ready_queue := [0x50, 0, 0x10, 0, 0], ready_count := 2,
     tcbs := [0x50 \<mapsto> zero_task\<lparr>t_pid := 1, t_next := 0x10\<rparr>, 0x10 \<mapsto> zero_task\<lparr>t_pid := 2, t_priority := 2\<rparr>]\<rparr>"

lemma one_task_create:
  "\<exists>s'. create_task 0 [] 0 2 1 one_task_system = Some (HEAP_START, s') \<and>
     fst (kmalloc SIZEOF_TASK (sc_heap s')) \<notin> dom (tcbs s')"
  by (simp add: create_task_def one_task_system_def demo_defs enter_critical_def exit_critical_def
      kmalloc_def kheap_boot_def HEAP_START_def HEAP_SIZE_def SIZEOF_TASK_def align16_def
      DEFAULT_KERNEL_STACK_SIZE_def setup_initial_stack_def new_task_def add_task_to_queue_def
      add_task_to_ready_queue_def on_task_def queue_last.simps queue_index_def
      TASK_PRIORITY_REALTIME_def Let_def)

theorem create_task_hangs_after_peer_witness:
  "\<exists>s'. create_task 0 [] 0 2 1 one_task_system = Some (HEAP_START, s') \<and>
     (\<forall>r. create_task 0 [] 0 2 1 s' = Some r \<longrightarrow> fst r = NULL)"
proof -
  obtain s' where s': "create_task 0 [] 0 2 1 one_task_system = Some (HEAP_START, s')"
    "fst (kmalloc SIZEOF_TASK (sc_heap s')) \<notin> dom (tcbs s')"
    using one_task_create by blast
  have "queue_last (tcbs one_task_system) (task_list_head one_task_system) = Some 0x10"
    by (simp add: one_task_system_def demo_defs queue_last.simps)
  moreover have "HEAP_START \<noteq> NULL" "HEAP_START \<notin> dom (tcbs one_task_system)"
      "task_list_head one_task_system \<noteq> NULL" "ready_queue one_task_system ! unat (2 :: u32) = 0x10"
      "NULL \<notin> dom (tcbs one_task_system)"
    by (simp_all add: one_task_system_def demo_defs HEAP_START_def)
  ultimately show ?thesis
    using create_task_hangs_after_peer [OF s'(1) _ _ _ _ _ _ _ s'(2), of "0x10" 0 "[]" 0 2 1] s'(1) by simp
qed

end
