(* ===== verification/Kernel_Calls.thy ===== *)
theory Kernel_Calls
  imports Scheduler_Queues
begin

text \<open>
  Kernel calls that can block, and the lists of waiting tasks they keep. A call runs until it
  returns or until \<^verbatim>\<open>block_task\<close> hands the CPU to another task; in the second case the
  result is the state at the switch together with the rest of the call, a function of the state
  in which the task runs again. \<^verbatim>\<open>kernel/ipc.c\<close> and \<^verbatim>\<open>kernel/event.c\<close> keep
  waiting tasks in singly linked lists of allocated nodes; the loops over these lists are here, with
  the owner of the list (a wait queue, an event, an event set) as a parameter.
\<close>

section \<open>Calls that can be suspended\<close>

datatype ('s, 'a) run = Stuck | Ret 'a 's | Susp 's "'s \<Rightarrow> ('s, 'a) run"

primrec run_bind :: "('s, 'a) run \<Rightarrow> ('a \<Rightarrow> 's \<Rightarrow> ('s, 'b) run) \<Rightarrow> ('s, 'b) run" where
  "run_bind Stuck f = Stuck"
| "run_bind (Ret x s) f = f x s"
| "run_bind (Susp s k) f = Susp s (\<lambda>s'. run_bind (k s') f)"

lemma run_bind_Ret [simp]: "run_bind r Ret = r"
  by (induction r) simp_all

lemma run_bind_assoc: "run_bind (run_bind r f) g = run_bind r (\<lambda>x s. run_bind (f x s) g)"
  by (induction r) simp_all

text \<open>A computation that cannot block; \<^const>\<open>None\<close> stands for one that does not return.\<close>

definition run_option :: "('a \<times> 's) option \<Rightarrow> ('s, 'a) run" where
  "run_option r = (case r of None \<Rightarrow> Stuck | Some (x, s) \<Rightarrow> Ret x s)"

lemma run_option_simps [simp]: "run_option None = Stuck" "run_option (Some (x, s)) = Ret x s"
  by (simp_all add: run_option_def)

text \<open>A part of a call that returns no value and cannot block.\<close>

definition run_step :: "'s option \<Rightarrow> ('s, unit) run" where
  "run_step r = (case r of None \<Rightarrow> Stuck | Some s \<Rightarrow> Ret () s)"

section \<open>Kernel state: the scheduler and the allocated waiters\<close>

record waiter =
  w_pid :: pid_t
  w_start :: u64
  w_timeout :: u64
  w_next :: ptr

record kstate =
  k_sched :: sched
  k_waiters :: "ptr \<rightharpoonup> waiter"

definition SIZEOF_WAITER :: u64 where "SIZEOF_WAITER = 32"

definition cli :: "'z kstate_scheme \<Rightarrow> 'z kstate_scheme" where
  "cli s = s\<lparr>k_sched := (k_sched s)\<lparr>interrupts_on := False\<rparr>\<rparr>"

definition sti :: "'z kstate_scheme \<Rightarrow> 'z kstate_scheme" where
  "sti s = s\<lparr>k_sched := (k_sched s)\<lparr>interrupts_on := True\<rparr>\<rparr>"

definition k_unblock :: "pid_t \<Rightarrow> 'z kstate_scheme \<Rightarrow> 'z kstate_scheme option" where
  "k_unblock pid s =
     (case unblock_task pid (k_sched s) of None \<Rightarrow> None | Some sc \<Rightarrow> Some (s\<lparr>k_sched := sc\<rparr>))"

text \<open>After a switch, the rest of \<^verbatim>\<open>block_task\<close> is its \<^verbatim>\<open>exit_critical\<close>.\<close>

definition k_block :: "pid_t \<Rightarrow> 'z kstate_scheme \<Rightarrow> ('z kstate_scheme, unit) run" where
  "k_block pid s =
     (case block_task pid (k_sched s) of
        None \<Rightarrow> Stuck
      | Some (False, sc) \<Rightarrow> Ret () (s\<lparr>k_sched := sc\<rparr>)
      | Some (True, sc) \<Rightarrow> Susp (s\<lparr>k_sched := sc\<rparr>) (\<lambda>s'. Ret () (s'\<lparr>k_sched := exit_critical (k_sched s')\<rparr>)))"

section \<open>Loops over a list of waiters\<close>

text \<open>
  The new node of \<^verbatim>\<open>add_waiter\<close>, \<^verbatim>\<open>add_event_waiter\<close> and
  \<^verbatim>\<open>add_event_set_waiter\<close>; \<^const>\<open>NULL\<close> when there is no memory.
\<close>

definition new_waiter :: "pid_t \<Rightarrow> u64 \<Rightarrow> ptr \<Rightarrow> 'z kstate_scheme \<Rightarrow> ptr \<times> 'z kstate_scheme" where
  "new_waiter pid timeout nxt s =
     (let (p, h) = kmalloc SIZEOF_WAITER (sc_heap (k_sched s));
          s1 = s\<lparr>k_sched := (k_sched s)\<lparr>sc_heap := h\<rparr>\<rparr>
      in if p = NULL then (NULL, s1)
         else (p, s1\<lparr>k_waiters := (k_waiters s1)(p \<mapsto> \<lparr>w_pid = pid, w_start = get_tick_count (k_sched s1),
                                                   w_timeout = timeout, w_next = nxt\<rparr>)\<rparr>))"

definition set_next :: "ptr \<Rightarrow> ptr \<Rightarrow> 'z kstate_scheme \<Rightarrow> 'z kstate_scheme option" where
  "set_next p nxt s =
     (case k_waiters s p of
        None \<Rightarrow> None
      | Some w \<Rightarrow> Some (s\<lparr>k_waiters := (k_waiters s)(p \<mapsto> w\<lparr>w_next := nxt\<rparr>)\<rparr>))"

text \<open>The search for the waiter of a task: the node before it and the node, or \<^const>\<open>NULL\<close>.\<close>

partial_function (option) find_waiter ::
    "(ptr \<rightharpoonup> waiter) \<Rightarrow> pid_t \<Rightarrow> ptr \<Rightarrow> ptr \<Rightarrow> (ptr \<times> ptr) option" where
  "find_waiter h pid prev cur =
     (if cur = NULL then Some (prev, NULL)
      else case h cur of
             None \<Rightarrow> None
           | Some w \<Rightarrow> if w_pid w = pid then Some (prev, cur) else find_waiter h pid cur (w_next w))"

text \<open>
  Removing the waiter of a task. \<open>unlink\<close> is what the code does to the owner of the list, given the
  predecessor of the node, the node, and its successor.
\<close>

definition remove_waiter_from ::
    "(ptr \<Rightarrow> ptr \<Rightarrow> ptr \<Rightarrow> 'q \<Rightarrow> 'q) \<Rightarrow> ptr \<Rightarrow> pid_t \<Rightarrow> 'q \<Rightarrow> 'z kstate_scheme \<Rightarrow>
     ('q \<times> 'z kstate_scheme) option" where
  "remove_waiter_from unlink first pid q s =
     (case find_waiter (k_waiters s) pid NULL first of
        None \<Rightarrow> None
      | Some (prev, cur) \<Rightarrow>
          if cur = NULL then Some (q, s)
          else case k_waiters s cur of
                 None \<Rightarrow> None
               | Some w \<Rightarrow>
                   Option.bind (if prev \<noteq> NULL then set_next prev (w_next w) s else Some s)
                     (\<lambda>s1. Some (unlink prev cur (w_next w) q, s1)))"

text \<open>
  The loop of \<^verbatim>\<open>wake_waiters\<close> and its copies. \<open>adv\<close> is what the body does to the owner of
  the list when it passes from a node to the next.
\<close>

partial_function (option) wake_waiters_loop ::
    "(ptr \<Rightarrow> ptr \<Rightarrow> 'q \<Rightarrow> 'q) \<Rightarrow> u32 \<Rightarrow> ptr \<Rightarrow> u32 \<Rightarrow> 'q \<Rightarrow> 'z kstate_scheme \<Rightarrow>
     (ptr \<times> u32 \<times> 'q \<times> 'z kstate_scheme) option" where
  "wake_waiters_loop adv count cur woken q s =
     (if cur \<noteq> NULL \<and> (count = 0 \<or> woken < count)
      then case k_waiters s cur of
             None \<Rightarrow> None
           | Some w \<Rightarrow>
               Option.bind (k_unblock (w_pid w) s)
                 (wake_waiters_loop adv count (w_next w) (woken + 1) (adv cur (w_next w) q))
      else Some (cur, woken, q, s))"

text \<open>
  The loop of \<^verbatim>\<open>check_timeouts\<close> and its copies. \<open>unlink\<close> is what the body does to the owner
  when it removes a node, given its predecessor and successor.
\<close>

definition timed_out :: "u64 \<Rightarrow> waiter \<Rightarrow> bool" where
  "timed_out now w \<longleftrightarrow> w_timeout w > 0 \<and> now - w_start w \<ge> w_timeout w"

partial_function (option) timeouts_loop ::
    "(ptr \<Rightarrow> ptr \<Rightarrow> ptr \<Rightarrow> 'q \<Rightarrow> 'q) \<Rightarrow> u64 \<Rightarrow> ptr \<Rightarrow> ptr \<Rightarrow> 'q \<Rightarrow> 'z kstate_scheme \<Rightarrow>
     ('q \<times> 'z kstate_scheme) option" where
  "timeouts_loop unlink now prev cur q s =
     (if cur = NULL then Some (q, s)
      else case k_waiters s cur of
             None \<Rightarrow> None
           | Some w \<Rightarrow>
               if timed_out now w
               then Option.bind (k_unblock (w_pid w) s) (\<lambda>s1.
                      Option.bind (if prev \<noteq> NULL then set_next prev (w_next w) s1 else Some s1)
                        (timeouts_loop unlink now prev (w_next w) (unlink prev cur (w_next w) q)))
               else timeouts_loop unlink now cur (w_next w) q s)"

end
