(* ===== verification/Ipc_Sync.thy ===== *)
theory Ipc_Sync
  imports Kernel_Calls
begin

text \<open>
  Mutexes and semaphores of \<^verbatim>\<open>kernel/ipc.c\<close>. A handle is the index of a pool slot,
  \<^const>\<open>None\<close> for \<^verbatim>\<open>NULL\<close>. \<^verbatim>\<open>mutex_t\<close> is declared as a pointer and
  the pools as arrays of it, while the code uses the slots as structures; the slots are modelled as
  the structures. \<^verbatim>\<open>kfree\<close> does nothing in this kernel, so a removed waiter stays readable.
  A call returns 0 or -1; calls that block are suspended.
\<close>

section \<open>Data\<close>

definition MAX_IPC_NAME_LENGTH :: nat where "MAX_IPC_NAME_LENGTH = 64"
definition MAX_WAIT_QUEUES :: nat where "MAX_WAIT_QUEUES = 256"
definition WAIT_QUEUE_MUTEX :: u32 where "WAIT_QUEUE_MUTEX = 1"
definition WAIT_QUEUE_SEMAPHORE :: u32 where "WAIT_QUEUE_SEMAPHORE = 2"
definition IPC_TYPE_MUTEX :: u32 where "IPC_TYPE_MUTEX = 1"
definition IPC_TYPE_SEMAPHORE :: u32 where "IPC_TYPE_SEMAPHORE = 2"
definition IPC_TYPE_EVENT :: u32 where "IPC_TYPE_EVENT = 3"
definition IPC_TYPE_EVENT_SET :: u32 where "IPC_TYPE_EVENT_SET = 4"
definition IPC_TYPE_MESSAGE_QUEUE :: u32 where "IPC_TYPE_MESSAGE_QUEUE = 5"
definition IPC_TYPE_SHARED_MEMORY :: u32 where "IPC_TYPE_SHARED_MEMORY = 6"

text \<open>The function pointer \<^verbatim>\<open>destroy_fn\<close> of a header; the code never calls it.\<close>

datatype destroy_fn =
    NoDestroy | destroy_mutex_fn | destroy_semaphore_fn | destroy_event_fn | destroy_event_set_fn
  | destroy_message_queue_fn | destroy_shared_memory_fn

record ipc_object_header =
  hdr_type :: u32
  hdr_name :: string
  hdr_ref_count :: u32
  hdr_destroy_fn :: destroy_fn

record wait_queue =
  wq_name :: string
  wq_flags :: u32
  wq_head :: ptr
  wq_tail :: ptr
  wq_waiter_count :: u32
  wq_owner :: "nat option"

record mutex =
  mx_header :: ipc_object_header
  mx_owner :: pid_t
  mx_lock_count :: u32
  mx_wait_queue :: wait_queue

text \<open>The values of a semaphore are \<^verbatim>\<open>int32_t\<close>: words read with \<^const>\<open>sint\<close>.\<close>

record semaphore =
  sm_header :: ipc_object_header
  sm_value :: "32 word"
  sm_max_value :: "32 word"
  sm_wait_queue :: wait_queue

record ipc = kstate +
  mutex_pool :: "mutex list"
  mutex_count :: u32
  semaphore_pool :: "semaphore list"
  semaphore_count :: u32

definition zero_header :: ipc_object_header where
  "zero_header = \<lparr>hdr_type = 0, hdr_name = [], hdr_ref_count = 0, hdr_destroy_fn = NoDestroy\<rparr>"

definition zero_wait_queue :: wait_queue where
  "zero_wait_queue = \<lparr>wq_name = [], wq_flags = 0, wq_head = NULL, wq_tail = NULL, wq_waiter_count = 0,
                      wq_owner = None\<rparr>"

definition zero_mutex :: mutex where
  "zero_mutex = \<lparr>mx_header = zero_header, mx_owner = 0, mx_lock_count = 0, mx_wait_queue = zero_wait_queue\<rparr>"

definition zero_semaphore :: semaphore where
  "zero_semaphore = \<lparr>sm_header = zero_header, sm_value = 0, sm_max_value = 0, sm_wait_queue = zero_wait_queue\<rparr>"

definition new_header :: "u32 \<Rightarrow> string \<Rightarrow> destroy_fn \<Rightarrow> ipc_object_header" where
  "new_header ty name fn =
     \<lparr>hdr_type = ty, hdr_name = c_strncpy MAX_IPC_NAME_LENGTH name, hdr_ref_count = 1, hdr_destroy_fn = fn\<rparr>"

text \<open>\<^verbatim>\<open>snprintf(buf, MAX_IPC_NAME_LENGTH, "%s_mutex", name)\<close> and the like\<close>

definition suffixed :: "string \<Rightarrow> string \<Rightarrow> string" where
  "suffixed name suffix = c_strncpy MAX_IPC_NAME_LENGTH (name @ suffix)"

section \<open>Wait queues\<close>

definition init_wait_queue :: "string \<Rightarrow> u32 \<Rightarrow> nat \<Rightarrow> wait_queue" where
  "init_wait_queue name flags owner =
     \<lparr>wq_name = c_strncpy MAX_IPC_NAME_LENGTH name, wq_flags = flags, wq_head = NULL, wq_tail = NULL,
      wq_waiter_count = 0, wq_owner = Some owner\<rparr>"

definition add_waiter ::
    "wait_queue \<Rightarrow> pid_t \<Rightarrow> u64 \<Rightarrow> 'z kstate_scheme \<Rightarrow> (wait_queue \<times> 'z kstate_scheme) option" where
  "add_waiter q pid timeout s =
     (let (p, s1) = new_waiter pid timeout NULL s in
      if p = NULL then Some (q, s1)
      else if wq_tail q \<noteq> NULL
      then Option.bind (set_next (wq_tail q) p s1) (\<lambda>s2.
             Some (q\<lparr>wq_tail := p, wq_waiter_count := wq_waiter_count q + 1\<rparr>, s2))
      else Some (q\<lparr>wq_head := p, wq_tail := p, wq_waiter_count := wq_waiter_count q + 1\<rparr>, s1))"

definition wq_unlink :: "ptr \<Rightarrow> ptr \<Rightarrow> ptr \<Rightarrow> wait_queue \<Rightarrow> wait_queue" where
  "wq_unlink prev cur nxt q =
     (let q1 = (if prev \<noteq> NULL then q else q\<lparr>wq_head := nxt\<rparr>);
          q2 = (if wq_tail q1 = cur then q1\<lparr>wq_tail := prev\<rparr> else q1)
      in q2\<lparr>wq_waiter_count := wq_waiter_count q2 - 1\<rparr>)"

definition remove_waiter ::
    "wait_queue \<Rightarrow> pid_t \<Rightarrow> 'z kstate_scheme \<Rightarrow> (wait_queue \<times> 'z kstate_scheme) option" where
  "remove_waiter q pid s = remove_waiter_from wq_unlink (wq_head q) pid q s"

definition wq_advance :: "ptr \<Rightarrow> ptr \<Rightarrow> wait_queue \<Rightarrow> wait_queue" where
  "wq_advance cur nxt q = (if wq_head q = cur then q\<lparr>wq_head := nxt\<rparr> else q)"

definition wake_waiters ::
    "wait_queue \<Rightarrow> u32 \<Rightarrow> 'z kstate_scheme \<Rightarrow> (wait_queue \<times> 'z kstate_scheme) option" where
  "wake_waiters q count s =
     Option.bind (wake_waiters_loop wq_advance count (wq_head q) 0 q s) (\<lambda>(_, woken, q1, s1).
       let q2 = (if wq_head q1 = NULL then q1\<lparr>wq_tail := NULL\<rparr> else q1)
       in Some (q2\<lparr>wq_waiter_count := wq_waiter_count q2 - woken\<rparr>, s1))"

definition check_timeouts ::
    "wait_queue \<Rightarrow> 'z kstate_scheme \<Rightarrow> (wait_queue \<times> 'z kstate_scheme) option" where
  "check_timeouts q s = timeouts_loop wq_unlink (get_tick_count (k_sched s)) NULL (wq_head q) q s"

section \<open>Mutexes\<close>

definition find_free_mutex :: "'z ipc_scheme \<Rightarrow> nat option" where
  "find_free_mutex s = scan_from (\<lambda>m. hdr_type (mx_header m) = 0) (mutex_pool s) 0"

definition find_free_semaphore :: "'z ipc_scheme \<Rightarrow> nat option" where
  "find_free_semaphore s = scan_from (\<lambda>m. hdr_type (sm_header m) = 0) (semaphore_pool s) 0"

definition set_mutex :: "nat \<Rightarrow> mutex \<Rightarrow> 'z ipc_scheme \<Rightarrow> 'z ipc_scheme" where
  "set_mutex i m s = s\<lparr>mutex_pool := (mutex_pool s)[i := m]\<rparr>"

definition set_semaphore :: "nat \<Rightarrow> semaphore \<Rightarrow> 'z ipc_scheme \<Rightarrow> 'z ipc_scheme" where
  "set_semaphore i m s = s\<lparr>semaphore_pool := (semaphore_pool s)[i := m]\<rparr>"

text \<open>The test \<^verbatim>\<open>!mutex || mutex->header.type != IPC_TYPE_MUTEX\<close>; the slot if it passes.\<close>

definition mutex_at :: "nat option \<Rightarrow> 'z ipc_scheme \<Rightarrow> nat option" where
  "mutex_at h s =
     (case h of
        None \<Rightarrow> None
      | Some i \<Rightarrow> if i < length (mutex_pool s) \<and> hdr_type (mx_header (mutex_pool s ! i)) = IPC_TYPE_MUTEX
                 then Some i else None)"

definition semaphore_at :: "nat option \<Rightarrow> 'z ipc_scheme \<Rightarrow> nat option" where
  "semaphore_at h s =
     (case h of
        None \<Rightarrow> None
      | Some i \<Rightarrow> if i < length (semaphore_pool s) \<and> hdr_type (sm_header (semaphore_pool s ! i)) = IPC_TYPE_SEMAPHORE
                 then Some i else None)"

definition create_mutex :: "string \<Rightarrow> 'z ipc_scheme \<Rightarrow> nat option \<times> 'z ipc_scheme" where
  "create_mutex name s =
     (case find_free_mutex s of
        None \<Rightarrow> (None, s)
      | Some i \<Rightarrow>
          (Some i, (set_mutex i \<lparr>mx_header = new_header IPC_TYPE_MUTEX name destroy_mutex_fn, mx_owner = 0,
                                mx_lock_count = 0, mx_wait_queue = init_wait_queue name WAIT_QUEUE_MUTEX i\<rparr> s)
                   \<lparr>mutex_count := mutex_count s + 1\<rparr>))"

definition destroy_mutex :: "nat option \<Rightarrow> 'z ipc_scheme \<Rightarrow> 'z ipc_scheme option" where
  "destroy_mutex h s =
     (case mutex_at h s of
        None \<Rightarrow> Some s
      | Some i \<Rightarrow>
          Option.bind (wake_waiters (mx_wait_queue (mutex_pool s ! i)) 0 s) (\<lambda>(_, s1).
            Some ((set_mutex i zero_mutex s1)\<lparr>mutex_count := mutex_count s1 - 1\<rparr>)))"

definition take_mutex :: "nat \<Rightarrow> pid_t \<Rightarrow> 'z ipc_scheme \<Rightarrow> 'z ipc_scheme" where
  "take_mutex i pid s = set_mutex i ((mutex_pool s ! i)\<lparr>mx_owner := pid, mx_lock_count := 1\<rparr>) s"

definition relock_mutex :: "nat \<Rightarrow> 'z ipc_scheme \<Rightarrow> 'z ipc_scheme" where
  "relock_mutex i s =
     set_mutex i ((mutex_pool s ! i)\<lparr>mx_lock_count := mx_lock_count (mutex_pool s ! i) + 1\<rparr>) s"

definition mutex_lock :: "nat option \<Rightarrow> 'z ipc_scheme \<Rightarrow> ('z ipc_scheme, int) run" where
  "mutex_lock h s =
     (case mutex_at h s of
        None \<Rightarrow> Ret (- 1) s
      | Some i \<Rightarrow>
          (case get_current_pid (k_sched s) of
             None \<Rightarrow> Stuck
           | Some pid \<Rightarrow>
               let s0 = cli s; m = mutex_pool s0 ! i in
               if mx_owner m = pid then Ret 0 (sti (relock_mutex i s0))
               else if mx_owner m = 0 then Ret 0 (sti (take_mutex i pid s0))
               else (case add_waiter (mx_wait_queue m) pid 0 s0 of
                       None \<Rightarrow> Stuck
                     | Some (q, s1) \<Rightarrow>
                         run_bind (k_block pid (sti (set_mutex i (m\<lparr>mx_wait_queue := q\<rparr>) s1)))
                           (\<lambda>_ s2. Ret 0 (take_mutex i pid s2)))))"

definition mutex_trylock :: "nat option \<Rightarrow> 'z ipc_scheme \<Rightarrow> (int \<times> 'z ipc_scheme) option" where
  "mutex_trylock h s =
     (case mutex_at h s of
        None \<Rightarrow> Some (- 1, s)
      | Some i \<Rightarrow>
          (case get_current_pid (k_sched s) of
             None \<Rightarrow> None
           | Some pid \<Rightarrow>
               let s0 = cli s; m = mutex_pool s0 ! i in
               if mx_owner m = pid then Some (0, sti (relock_mutex i s0))
               else if mx_owner m = 0 then Some (0, sti (take_mutex i pid s0))
               else Some (- 1, sti s0)))"

definition mutex_unlock :: "nat option \<Rightarrow> 'z ipc_scheme \<Rightarrow> (int \<times> 'z ipc_scheme) option" where
  "mutex_unlock h s =
     (case mutex_at h s of
        None \<Rightarrow> Some (- 1, s)
      | Some i \<Rightarrow>
          (case get_current_pid (k_sched s) of
             None \<Rightarrow> None
           | Some pid \<Rightarrow>
               let s0 = cli s; m = mutex_pool s0 ! i in
               if mx_owner m \<noteq> pid then Some (- 1, sti s0)
               else
                 let m1 = m\<lparr>mx_lock_count := mx_lock_count m - 1\<rparr> in
                 if mx_lock_count m1 = 0
                 then
                   let m2 = m1\<lparr>mx_owner := 0\<rparr> in
                   if wq_waiter_count (mx_wait_queue m2) > 0
                   then Option.bind (wake_waiters (mx_wait_queue m2) 1 s0) (\<lambda>(q, s1).
                          Some (0, sti (set_mutex i (m2\<lparr>mx_wait_queue := q\<rparr>) s1)))
                   else Some (0, sti (set_mutex i m2 s0))
                 else Some (0, sti (set_mutex i m1 s0))))"

section \<open>Semaphores\<close>

definition create_semaphore :: "string \<Rightarrow> u32 \<Rightarrow> 'z ipc_scheme \<Rightarrow> nat option \<times> 'z ipc_scheme" where
  "create_semaphore name initial_value s =
     (case find_free_semaphore s of
        None \<Rightarrow> (None, s)
      | Some i \<Rightarrow>
          (Some i, (set_semaphore i
                     \<lparr>sm_header = new_header IPC_TYPE_SEMAPHORE name destroy_semaphore_fn,
                      sm_value = initial_value, sm_max_value = 0x7FFFFFFF,
                      sm_wait_queue = init_wait_queue name WAIT_QUEUE_SEMAPHORE i\<rparr> s)
                   \<lparr>semaphore_count := semaphore_count s + 1\<rparr>))"

definition destroy_semaphore :: "nat option \<Rightarrow> 'z ipc_scheme \<Rightarrow> 'z ipc_scheme option" where
  "destroy_semaphore h s =
     (case semaphore_at h s of
        None \<Rightarrow> Some s
      | Some i \<Rightarrow>
          Option.bind (wake_waiters (sm_wait_queue (semaphore_pool s ! i)) 0 s) (\<lambda>(_, s1).
            Some ((set_semaphore i zero_semaphore s1)\<lparr>semaphore_count := semaphore_count s1 - 1\<rparr>)))"

definition add_value :: "nat \<Rightarrow> 32 word \<Rightarrow> 'z ipc_scheme \<Rightarrow> 'z ipc_scheme" where
  "add_value i d s =
     set_semaphore i ((semaphore_pool s ! i)\<lparr>sm_value := sm_value (semaphore_pool s ! i) + d\<rparr>) s"

definition semaphore_wait :: "nat option \<Rightarrow> 'z ipc_scheme \<Rightarrow> ('z ipc_scheme, int) run" where
  "semaphore_wait h s =
     (case semaphore_at h s of
        None \<Rightarrow> Ret (- 1) s
      | Some i \<Rightarrow>
          (case get_current_pid (k_sched s) of
             None \<Rightarrow> Stuck
           | Some pid \<Rightarrow>
               let s0 = cli s; m = semaphore_pool s0 ! i in
               if sint (sm_value m) > 0 then Ret 0 (sti (add_value i (- 1) s0))
               else (case add_waiter (sm_wait_queue m) pid 0 s0 of
                       None \<Rightarrow> Stuck
                     | Some (q, s1) \<Rightarrow>
                         run_bind (k_block pid (sti (set_semaphore i (m\<lparr>sm_wait_queue := q\<rparr>) s1)))
                           (\<lambda>_ s2. Ret 0 s2))))"

definition semaphore_trywait :: "nat option \<Rightarrow> 'z ipc_scheme \<Rightarrow> int \<times> 'z ipc_scheme" where
  "semaphore_trywait h s =
     (case semaphore_at h s of
        None \<Rightarrow> (- 1, s)
      | Some i \<Rightarrow>
          let s0 = cli s in
          if sint (sm_value (semaphore_pool s0 ! i)) > 0 then (0, sti (add_value i (- 1) s0))
          else (- 1, sti s0))"

definition semaphore_post :: "nat option \<Rightarrow> 'z ipc_scheme \<Rightarrow> (int \<times> 'z ipc_scheme) option" where
  "semaphore_post h s =
     (case semaphore_at h s of
        None \<Rightarrow> Some (- 1, s)
      | Some i \<Rightarrow>
          let s0 = cli s; m = semaphore_pool s0 ! i in
          if sm_value m = sm_max_value m then Some (- 1, sti s0)
          else if wq_waiter_count (sm_wait_queue m) > 0
          then Option.bind (wake_waiters (sm_wait_queue m) 1 s0) (\<lambda>(q, s1).
                 Some (0, sti (set_semaphore i (m\<lparr>sm_wait_queue := q\<rparr>) s1)))
          else Some (0, sti (add_value i 1 s0)))"

text \<open>The result and, when it is 0, the value stored through the pointer.\<close>

definition semaphore_getvalue :: "nat option \<Rightarrow> bool \<Rightarrow> 'z ipc_scheme \<Rightarrow> (int \<times> int option) \<times> 'z ipc_scheme" where
  "semaphore_getvalue h value_ptr s =
     (case semaphore_at h s of
        None \<Rightarrow> ((- 1, None), s)
      | Some i \<Rightarrow> if \<not> value_ptr then ((- 1, None), s)
                 else ((0, Some (sint (sm_value (semaphore_pool s ! i)))), sti (cli s)))"

section \<open>Timeouts and initialisation\<close>

definition mutex_timeouts :: "nat \<Rightarrow> 'z ipc_scheme \<Rightarrow> 'z ipc_scheme option" where
  "mutex_timeouts i s =
     (let m = mutex_pool s ! i in
      if hdr_type (mx_header m) = IPC_TYPE_MUTEX
      then Option.bind (check_timeouts (mx_wait_queue m) s) (\<lambda>(q, s1).
             Some (set_mutex i (m\<lparr>mx_wait_queue := q\<rparr>) s1))
      else Some s)"

definition semaphore_timeouts :: "nat \<Rightarrow> 'z ipc_scheme \<Rightarrow> 'z ipc_scheme option" where
  "semaphore_timeouts i s =
     (let m = semaphore_pool s ! i in
      if hdr_type (sm_header m) = IPC_TYPE_SEMAPHORE
      then Option.bind (check_timeouts (sm_wait_queue m) s) (\<lambda>(q, s1).
             Some (set_semaphore i (m\<lparr>sm_wait_queue := q\<rparr>) s1))
      else Some s)"

fun for_all_slots :: "(nat \<Rightarrow> 's \<Rightarrow> 's option) \<Rightarrow> nat list \<Rightarrow> 's \<Rightarrow> 's option" where
  "for_all_slots f [] s = Some s"
| "for_all_slots f (i # is) s = Option.bind (f i s) (for_all_slots f is)"

definition check_all_timeouts :: "'z ipc_scheme \<Rightarrow> 'z ipc_scheme option" where
  "check_all_timeouts s =
     Option.bind (for_all_slots mutex_timeouts [0..<MAX_WAIT_QUEUES] s)
       (for_all_slots semaphore_timeouts [0..<MAX_WAIT_QUEUES])"

text \<open>\<^const>\<open>None\<close> stands for the kernel panic when the first objects cannot be created.\<close>

definition init_ipc :: "'z ipc_scheme \<Rightarrow> 'z ipc_scheme option" where
  "init_ipc s =
     (let s1 = s\<lparr>mutex_pool := replicate MAX_WAIT_QUEUES zero_mutex, mutex_count := 0,
                semaphore_pool := replicate MAX_WAIT_QUEUES zero_semaphore, semaphore_count := 0\<rparr>;
          (m, s2) = create_mutex ''kernel_mutex'' s1
      in if m = None then None
         else let (sm, s3) = create_semaphore ''kernel_semaphore'' 1 s2
              in if sm = None then None else Some s3)"

end
