(* ===== verification/Event_Notify.thy ===== *)
theory Event_Notify
  imports Ipc_Sync
begin

text \<open>
  Events and event sets of \<^verbatim>\<open>kernel/event.c\<close>, on top of the mutexes of
  \<^verbatim>\<open>kernel/ipc.c\<close>. A handle is the index of a pool slot, \<^const>\<open>None\<close> for
  \<^verbatim>\<open>NULL\<close>. Every use of \<^verbatim>\<open>event->...\<close> reads the slot at that moment, so that
  a call which was suspended sees what happened meanwhile. The static functions
  \<^verbatim>\<open>destroy_event\<close> and \<^verbatim>\<open>destroy_event_set\<close> and the public ones have the same
  name in the source; the public ones are \<open>destroy_event_handle\<close> and \<open>destroy_event_set_handle\<close>.
\<close>

section \<open>Data\<close>

definition MAX_EVENTS :: nat where "MAX_EVENTS = 64"
definition MAX_EVENT_SETS :: nat where "MAX_EVENT_SETS = 32"
definition MAX_EVENTS_PER_SET :: nat where "MAX_EVENTS_PER_SET = 16"
definition EVENT_FLAG_MANUAL_RESET :: u32 where "EVENT_FLAG_MANUAL_RESET = 1"

datatype event_state = EVENT_STATE_NONSIGNALED | EVENT_STATE_SIGNALED

text \<open>
  The structure \<^verbatim>\<open>event_waiter_t\<close> has the same fields as the waiter of \<^verbatim>\<open>kernel/ipc.c\<close>, whose nodes are used.
\<close>

record event =
  ev_header :: ipc_object_header
  ev_flags :: u32
  ev_state :: event_state
  ev_mutex :: "nat option"
  ev_waiters :: ptr
  ev_waiter_count :: u32

record event_set =
  es_header :: ipc_object_header
  es_mutex :: "nat option"
  es_event_count :: u32
  es_events :: "nat option list"
  es_waiters :: ptr
  es_waiter_count :: u32

record events = ipc +
  event_pool :: "event list"
  event_count :: u32
  event_set_pool :: "event_set list"
  event_set_count :: u32

definition zero_event :: event where
  "zero_event = \<lparr>ev_header = zero_header, ev_flags = 0, ev_state = EVENT_STATE_NONSIGNALED, ev_mutex = None,
                 ev_waiters = NULL, ev_waiter_count = 0\<rparr>"

definition zero_event_set :: event_set where
  "zero_event_set = \<lparr>es_header = zero_header, es_mutex = None, es_event_count = 0,
                     es_events = replicate MAX_EVENTS_PER_SET None, es_waiters = NULL, es_waiter_count = 0\<rparr>"

definition set_event :: "nat \<Rightarrow> event \<Rightarrow> 'z events_scheme \<Rightarrow> 'z events_scheme" where
  "set_event i e s = s\<lparr>event_pool := (event_pool s)[i := e]\<rparr>"

definition set_event_set :: "nat \<Rightarrow> event_set \<Rightarrow> 'z events_scheme \<Rightarrow> 'z events_scheme" where
  "set_event_set i e s = s\<lparr>event_set_pool := (event_set_pool s)[i := e]\<rparr>"

text \<open>The tests on a handle at the start of every public function; the slot if they pass.\<close>

definition event_at :: "nat option \<Rightarrow> 'z events_scheme \<Rightarrow> nat option" where
  "event_at h s =
     (case h of
        None \<Rightarrow> None
      | Some i \<Rightarrow> if i < length (event_pool s) \<and> hdr_type (ev_header (event_pool s ! i)) = IPC_TYPE_EVENT
                 then Some i else None)"

definition event_set_at :: "nat option \<Rightarrow> 'z events_scheme \<Rightarrow> nat option" where
  "event_set_at h s =
     (case h of
        None \<Rightarrow> None
      | Some i \<Rightarrow> if i < length (event_set_pool s) \<and> hdr_type (es_header (event_set_pool s ! i)) = IPC_TYPE_EVENT_SET
                 then Some i else None)"

text \<open>The mutex of an event or event set, locked and unlocked.\<close>

definition lock_event :: "nat \<Rightarrow> 'z events_scheme \<Rightarrow> ('z events_scheme, int) run" where
  "lock_event i s = mutex_lock (ev_mutex (event_pool s ! i)) s"

definition unlock_event :: "nat \<Rightarrow> 'z events_scheme \<Rightarrow> ('z events_scheme, int) run" where
  "unlock_event i s = run_option (mutex_unlock (ev_mutex (event_pool s ! i)) s)"

definition lock_event_set :: "nat \<Rightarrow> 'z events_scheme \<Rightarrow> ('z events_scheme, int) run" where
  "lock_event_set i s = mutex_lock (es_mutex (event_set_pool s ! i)) s"

definition unlock_event_set :: "nat \<Rightarrow> 'z events_scheme \<Rightarrow> ('z events_scheme, int) run" where
  "unlock_event_set i s = run_option (mutex_unlock (es_mutex (event_set_pool s ! i)) s)"

section \<open>Waiters of an event\<close>

definition add_event_waiter :: "nat \<Rightarrow> pid_t \<Rightarrow> u64 \<Rightarrow> 'z events_scheme \<Rightarrow> 'z events_scheme" where
  "add_event_waiter i pid timeout s =
     (let (p, s1) = new_waiter pid timeout (ev_waiters (event_pool s ! i)) s in
      if p = NULL then s1
      else let e = event_pool s1 ! i
           in set_event i (e\<lparr>ev_waiters := p, ev_waiter_count := ev_waiter_count e + 1\<rparr>) s1)"

definition ev_unlink :: "ptr \<Rightarrow> ptr \<Rightarrow> ptr \<Rightarrow> event \<Rightarrow> event" where
  "ev_unlink prev cur nxt e =
     (let e1 = (if prev \<noteq> NULL then e else e\<lparr>ev_waiters := nxt\<rparr>)
      in e1\<lparr>ev_waiter_count := ev_waiter_count e1 - 1\<rparr>)"

definition remove_event_waiter :: "nat \<Rightarrow> pid_t \<Rightarrow> 'z events_scheme \<Rightarrow> 'z events_scheme option" where
  "remove_event_waiter i pid s =
     (let e = event_pool s ! i in
      Option.bind (remove_waiter_from ev_unlink (ev_waiters e) pid e s) (\<lambda>(e1, s1). Some (set_event i e1 s1)))"

definition wake_event_waiters :: "nat \<Rightarrow> u32 \<Rightarrow> 'z events_scheme \<Rightarrow> 'z events_scheme option" where
  "wake_event_waiters i n s =
     Option.bind (wake_waiters_loop (\<lambda>_ _ e. e) n (ev_waiters (event_pool s ! i)) 0 () s)
       (\<lambda>(cur, woken, _, s1).
          let e = event_pool s1 ! i
          in Some (set_event i (e\<lparr>ev_waiters := cur, ev_waiter_count := ev_waiter_count e - woken\<rparr>) s1))"

section \<open>Events\<close>

definition find_free_event :: "'z events_scheme \<Rightarrow> nat option" where
  "find_free_event s = scan_from (\<lambda>e. hdr_type (ev_header e) = 0) (event_pool s) 0"

definition find_free_event_set :: "'z events_scheme \<Rightarrow> nat option" where
  "find_free_event_set s = scan_from (\<lambda>e. hdr_type (es_header e) = 0) (event_set_pool s) 0"

text \<open>\<^verbatim>\<open>snprintf(mutex_name, MAX_IPC_NAME_LENGTH, "%s_mutex", name)\<close>\<close>

definition mutex_name :: "string \<Rightarrow> string" where
  "mutex_name name = c_strncpy MAX_IPC_NAME_LENGTH (name @ ''_mutex'')"

definition create_event :: "string \<Rightarrow> 'z events_scheme \<Rightarrow> nat option \<times> 'z events_scheme" where
  "create_event name s =
     (case find_free_event s of
        None \<Rightarrow> (None, s)
      | Some i \<Rightarrow>
          let s1 = set_event i ((event_pool s ! i)\<lparr>ev_header := new_header IPC_TYPE_EVENT name destroy_event_fn\<rparr>) s;
              (m, s2) = create_mutex (mutex_name name) s1
          in if m = None then (None, set_event i zero_event s2)
             else (Some i, (set_event i ((event_pool s2 ! i)\<lparr>ev_mutex := m, ev_flags := 0,
                              ev_state := EVENT_STATE_NONSIGNALED, ev_waiters := NULL, ev_waiter_count := 0\<rparr>) s2)
                           \<lparr>event_count := event_count s2 + 1\<rparr>))"

definition destroy_event :: "nat option \<Rightarrow> 'z events_scheme \<Rightarrow> ('z events_scheme, unit) run" where
  "destroy_event h s =
     (case event_at h s of
        None \<Rightarrow> Ret () s
      | Some i \<Rightarrow>
          run_bind (lock_event i s) (\<lambda>_ s1.
          run_bind (run_step (wake_event_waiters i 0 s1)) (\<lambda>_ s2.
          run_bind (unlock_event i s2) (\<lambda>_ s3.
          run_bind (run_step (destroy_mutex (ev_mutex (event_pool s3 ! i)) s3)) (\<lambda>_ s4.
          Ret () ((set_event i zero_event s4)\<lparr>event_count := event_count s4 - 1\<rparr>))))))"

definition destroy_event_handle :: "nat option \<Rightarrow> 'z events_scheme \<Rightarrow> ('z events_scheme, unit) run" where
  "destroy_event_handle h s = (if event_at h s = None then Ret () s else destroy_event h s)"

definition get_tick_interval_us :: u64 where "get_tick_interval_us = 1000"

definition timeout_ticks :: "u64 \<Rightarrow> u64" where
  "timeout_ticks timeout_ms =
     (if timeout_ms > 0
      then let t = (timeout_ms * 1000) div get_tick_interval_us in if t = 0 then 1 else t
      else 0)"

definition set_state :: "nat \<Rightarrow> event_state \<Rightarrow> 'z events_scheme \<Rightarrow> 'z events_scheme" where
  "set_state i st s = set_event i ((event_pool s ! i)\<lparr>ev_state := st\<rparr>) s"

definition auto_reset :: "nat \<Rightarrow> 'z events_scheme \<Rightarrow> bool" where
  "auto_reset i s \<longleftrightarrow> ev_flags (event_pool s ! i) AND EVENT_FLAG_MANUAL_RESET = 0"

text \<open>The end of \<^verbatim>\<open>event_timedwait\<close>, from the second \<^verbatim>\<open>mutex_lock\<close> on.\<close>

definition event_wakeup :: "nat \<Rightarrow> pid_t \<Rightarrow> 'z events_scheme \<Rightarrow> ('z events_scheme, int) run" where
  "event_wakeup i pid s =
     run_bind (lock_event i s) (\<lambda>_ s1.
       if ev_state (event_pool s1 ! i) \<noteq> EVENT_STATE_SIGNALED
       then run_bind (run_step (remove_event_waiter i pid s1)) (\<lambda>_ s2.
            run_bind (unlock_event i s2) (\<lambda>_ s3. Ret (- 1) s3))
       else let s2 = (if auto_reset i s1 then set_state i EVENT_STATE_NONSIGNALED s1 else s1)
            in run_bind (unlock_event i s2) (\<lambda>_ s3. Ret 0 s3))"

definition event_timedwait :: "nat option \<Rightarrow> u64 \<Rightarrow> 'z events_scheme \<Rightarrow> ('z events_scheme, int) run" where
  "event_timedwait h timeout_ms s =
     (case event_at h s of
        None \<Rightarrow> Ret (- 1) s
      | Some i \<Rightarrow>
          (case get_current_pid (k_sched s) of
             None \<Rightarrow> Stuck
           | Some pid \<Rightarrow>
               run_bind (lock_event i s) (\<lambda>_ s1.
                 if ev_state (event_pool s1 ! i) = EVENT_STATE_SIGNALED
                 then let s2 = (if auto_reset i s1 then set_state i EVENT_STATE_NONSIGNALED s1 else s1)
                      in run_bind (unlock_event i s2) (\<lambda>_ s3. Ret 0 s3)
                 else let s2 = add_event_waiter i pid (timeout_ticks timeout_ms) s1
                      in run_bind (unlock_event i s2) (\<lambda>_ s3.
                         run_bind (k_block pid s3) (\<lambda>_ s4. event_wakeup i pid s4)))))"

definition event_wait :: "nat option \<Rightarrow> 'z events_scheme \<Rightarrow> ('z events_scheme, int) run" where
  "event_wait h s = event_timedwait h 0 s"

definition event_signal :: "nat option \<Rightarrow> 'z events_scheme \<Rightarrow> ('z events_scheme, int) run" where
  "event_signal h s =
     (case event_at h s of
        None \<Rightarrow> Ret (- 1) s
      | Some i \<Rightarrow>
          run_bind (lock_event i s) (\<lambda>_ s1.
            let s2 = set_state i EVENT_STATE_SIGNALED s1 in
            run_bind
              (if auto_reset i s2
               then if ev_waiter_count (event_pool s2 ! i) > 0
                    then run_step (map_option (set_state i EVENT_STATE_NONSIGNALED) (wake_event_waiters i 1 s2))
                    else Ret () s2
               else run_step (wake_event_waiters i 0 s2)) (\<lambda>_ s3.
            run_bind (unlock_event i s3) (\<lambda>_ s4. Ret 0 s4))))"

definition event_broadcast :: "nat option \<Rightarrow> 'z events_scheme \<Rightarrow> ('z events_scheme, int) run" where
  "event_broadcast h s =
     (case event_at h s of
        None \<Rightarrow> Ret (- 1) s
      | Some i \<Rightarrow>
          run_bind (lock_event i s) (\<lambda>_ s1.
          run_bind (run_step (wake_event_waiters i 0 (set_state i EVENT_STATE_SIGNALED s1))) (\<lambda>_ s2.
          run_bind (unlock_event i s2) (\<lambda>_ s3. Ret 0 s3))))"

definition event_reset :: "nat option \<Rightarrow> 'z events_scheme \<Rightarrow> ('z events_scheme, int) run" where
  "event_reset h s =
     (case event_at h s of
        None \<Rightarrow> Ret (- 1) s
      | Some i \<Rightarrow>
          run_bind (lock_event i s) (\<lambda>_ s1.
          run_bind (unlock_event i (set_state i EVENT_STATE_NONSIGNALED s1)) (\<lambda>_ s2. Ret 0 s2)))"

section \<open>Event sets\<close>

definition create_event_set :: "string \<Rightarrow> u32 \<Rightarrow> 'z events_scheme \<Rightarrow> nat option \<times> 'z events_scheme" where
  "create_event_set name max_events s =
     (if max_events = 0 \<or> unat max_events > MAX_EVENTS_PER_SET then (None, s)
      else case find_free_event_set s of
             None \<Rightarrow> (None, s)
           | Some i \<Rightarrow>
               let s1 = set_event_set i ((event_set_pool s ! i)
                          \<lparr>es_header := new_header IPC_TYPE_EVENT_SET name destroy_event_set_fn\<rparr>) s;
                   (m, s2) = create_mutex (mutex_name name) s1
               in if m = None then (None, set_event_set i zero_event_set s2)
                  else (Some i, (set_event_set i ((event_set_pool s2 ! i)\<lparr>es_mutex := m, es_event_count := 0,
                                   es_events := replicate MAX_EVENTS_PER_SET None, es_waiters := NULL,
                                   es_waiter_count := 0\<rparr>) s2)
                                \<lparr>event_set_count := event_set_count s2 + 1\<rparr>))"

definition destroy_event_set :: "nat option \<Rightarrow> 'z events_scheme \<Rightarrow> ('z events_scheme, unit) run" where
  "destroy_event_set h s =
     (case event_set_at h s of
        None \<Rightarrow> Ret () s
      | Some i \<Rightarrow>
          run_bind (lock_event_set i s) (\<lambda>_ s1.
          run_bind (run_step (map_option (\<lambda>(_, _, _, s2). s2)
                     (wake_waiters_loop (\<lambda>_ _ e. e) 0 (es_waiters (event_set_pool s1 ! i)) 0 () s1))) (\<lambda>_ s2.
          let s3 = set_event_set i ((event_set_pool s2 ! i)\<lparr>es_waiters := NULL, es_waiter_count := 0\<rparr>) s2 in
          run_bind (unlock_event_set i s3) (\<lambda>_ s4.
          run_bind (run_step (destroy_mutex (es_mutex (event_set_pool s4 ! i)) s4)) (\<lambda>_ s5.
          Ret () ((set_event_set i zero_event_set s5)\<lparr>event_set_count := event_set_count s5 - 1\<rparr>))))))"

definition destroy_event_set_handle :: "nat option \<Rightarrow> 'z events_scheme \<Rightarrow> ('z events_scheme, unit) run" where
  "destroy_event_set_handle h s = (if event_set_at h s = None then Ret () s else destroy_event_set h s)"

text \<open>The events in use, and the search for one of them.\<close>

definition set_members :: "event_set \<Rightarrow> nat option list" where
  "set_members es = take (unat (es_event_count es)) (es_events es)"

definition event_set_add :: "nat option \<Rightarrow> nat option \<Rightarrow> 'z events_scheme \<Rightarrow> ('z events_scheme, int) run" where
  "event_set_add hs he s =
     (case (event_set_at hs s, event_at he s) of
        (Some i, Some j) \<Rightarrow>
          run_bind (lock_event_set i s) (\<lambda>_ s1.
            let es = event_set_pool s1 ! i in
            if scan_from (\<lambda>e. e = he) (set_members es) 0 \<noteq> None
            then run_bind (unlock_event_set i s1) (\<lambda>_ s2. Ret 0 s2)
            else if unat (es_event_count es) \<ge> MAX_EVENTS_PER_SET
            then run_bind (unlock_event_set i s1) (\<lambda>_ s2. Ret (- 1) s2)
            else
              let s2 = set_event_set i (es\<lparr>es_events := (es_events es)[unat (es_event_count es) := he],
                                          es_event_count := es_event_count es + 1\<rparr>) s1;
                  e = event_pool s2 ! j; hdr = ev_header e;
                  s3 = set_event j (e\<lparr>ev_header := hdr\<lparr>hdr_ref_count := hdr_ref_count hdr + 1\<rparr>\<rparr>) s2
              in run_bind (unlock_event_set i s3) (\<lambda>_ s4. Ret 0 s4))
      | _ \<Rightarrow> Ret (- 1) s)"

text \<open>The loop that shifts the later members down: the last slot keeps its content.\<close>

definition event_set_remove :: "nat option \<Rightarrow> nat option \<Rightarrow> 'z events_scheme \<Rightarrow> ('z events_scheme, int) run" where
  "event_set_remove hs he s =
     (case (event_set_at hs s, event_at he s) of
        (Some i, Some j) \<Rightarrow>
          run_bind (lock_event_set i s) (\<lambda>_ s1.
            let es = event_set_pool s1 ! i in
            case scan_from (\<lambda>e. e = he) (set_members es) 0 of
              None \<Rightarrow> run_bind (unlock_event_set i s1) (\<lambda>_ s2. Ret (- 1) s2)
            | Some k \<Rightarrow>
                let s2 = set_event_set i (es\<lparr>es_events := array_delete k (unat (es_event_count es)) (es_events es),
                                            es_event_count := es_event_count es - 1\<rparr>) s1;
                    e = event_pool s2 ! j; hdr = ev_header e;
                    s3 = set_event j (e\<lparr>ev_header := hdr\<lparr>hdr_ref_count := hdr_ref_count hdr - 1\<rparr>\<rparr>) s2
                in run_bind (unlock_event_set i s3) (\<lambda>_ s4. Ret 0 s4))
      | _ \<Rightarrow> Ret (- 1) s)"

section \<open>Waiting on an event set\<close>

definition add_event_set_waiter :: "nat \<Rightarrow> pid_t \<Rightarrow> u64 \<Rightarrow> 'z events_scheme \<Rightarrow> 'z events_scheme" where
  "add_event_set_waiter i pid timeout s =
     (let (p, s1) = new_waiter pid timeout (es_waiters (event_set_pool s ! i)) s in
      if p = NULL then s1
      else let e = event_set_pool s1 ! i
           in set_event_set i (e\<lparr>es_waiters := p, es_waiter_count := es_waiter_count e + 1\<rparr>) s1)"

definition es_unlink :: "ptr \<Rightarrow> ptr \<Rightarrow> ptr \<Rightarrow> event_set \<Rightarrow> event_set" where
  "es_unlink prev cur nxt e =
     (let e1 = (if prev \<noteq> NULL then e else e\<lparr>es_waiters := nxt\<rparr>)
      in e1\<lparr>es_waiter_count := es_waiter_count e1 - 1\<rparr>)"

definition remove_event_set_waiter :: "nat \<Rightarrow> pid_t \<Rightarrow> 'z events_scheme \<Rightarrow> 'z events_scheme option" where
  "remove_event_set_waiter i pid s =
     (let e = event_set_pool s ! i in
      Option.bind (remove_waiter_from es_unlink (es_waiters e) pid e s) (\<lambda>(e1, s1). Some (set_event_set i e1 s1)))"

text \<open>No function calls \<^verbatim>\<open>wake_event_set_waiters\<close>; its event argument is not used.\<close>

definition wake_event_set_waiters :: "nat \<Rightarrow> u32 \<Rightarrow> 'z events_scheme \<Rightarrow> 'z events_scheme option" where
  "wake_event_set_waiters i n s =
     Option.bind (wake_waiters_loop (\<lambda>_ _ e. e) n (es_waiters (event_set_pool s ! i)) 0 () s)
       (\<lambda>(cur, woken, _, s1).
          let e = event_set_pool s1 ! i
          in Some (set_event_set i (e\<lparr>es_waiters := cur, es_waiter_count := es_waiter_count e - woken\<rparr>) s1))"

text \<open>
  The loop over the members of a set: each is locked and tested; the first signalled one is reset
  if it resets automatically, unlocked, and returned. The list argument counts up to the
  capacity of a set; the loop stops at the number of members.
\<close>

fun scan_signaled :: "nat \<Rightarrow> nat list \<Rightarrow> 'z events_scheme \<Rightarrow> ('z events_scheme, nat option) run" where
  "scan_signaled i [] s = Ret None s"
| "scan_signaled i (k # ks) s =
     (if k < unat (es_event_count (event_set_pool s ! i))
      then case es_events (event_set_pool s ! i) ! k of
             None \<Rightarrow> Stuck
           | Some j \<Rightarrow>
               run_bind (lock_event j s) (\<lambda>_ s1.
                 if ev_state (event_pool s1 ! j) = EVENT_STATE_SIGNALED
                 then let s2 = (if auto_reset j s1 then set_state j EVENT_STATE_NONSIGNALED s1 else s1)
                      in run_bind (unlock_event j s2) (\<lambda>_ s3. Ret (Some j) s3)
                 else run_bind (unlock_event j s1) (\<lambda>_ s3. scan_signaled i ks s3))
      else Ret None s)"

text \<open>The result and the event stored through the pointer, if any.\<close>

definition event_set_timedwait ::
    "nat option \<Rightarrow> u64 \<Rightarrow> 'z events_scheme \<Rightarrow> ('z events_scheme, int \<times> nat option) run" where
  "event_set_timedwait h timeout_ms s =
     (case event_set_at h s of
        None \<Rightarrow> Ret (- 1, None) s
      | Some i \<Rightarrow>
          (case get_current_pid (k_sched s) of
             None \<Rightarrow> Stuck
           | Some pid \<Rightarrow>
               run_bind (lock_event_set i s) (\<lambda>_ s1.
               run_bind (scan_signaled i [0..<MAX_EVENTS_PER_SET] s1) (\<lambda>r s2.
                 if r \<noteq> None
                 then run_bind (unlock_event_set i s2) (\<lambda>_ s3. Ret (0, r) s3)
                 else
                   run_bind (unlock_event_set i (add_event_set_waiter i pid (timeout_ticks timeout_ms) s2)) (\<lambda>_ s3.
                   run_bind (k_block pid s3) (\<lambda>_ s4.
                   run_bind (lock_event_set i s4) (\<lambda>_ s5.
                   run_bind (scan_signaled i [0..<MAX_EVENTS_PER_SET] s5) (\<lambda>r s6.
                   run_bind (run_step (remove_event_set_waiter i pid s6)) (\<lambda>_ s7.
                   run_bind (unlock_event_set i s7) (\<lambda>_ s8.
                   Ret (if r = None then - 1 else 0, r) s8))))))))))"

definition event_set_wait :: "nat option \<Rightarrow> 'z events_scheme \<Rightarrow> ('z events_scheme, int \<times> nat option) run" where
  "event_set_wait h s = event_set_timedwait h 0 s"

section \<open>Timeouts, cleanup, initialisation\<close>

fun run_slots :: "(nat \<Rightarrow> 's \<Rightarrow> ('s, unit) run) \<Rightarrow> nat list \<Rightarrow> 's \<Rightarrow> ('s, unit) run" where
  "run_slots f [] s = Ret () s"
| "run_slots f (i # is) s = run_bind (f i s) (\<lambda>_. run_slots f is)"

definition event_timeouts :: "u64 \<Rightarrow> nat \<Rightarrow> 'z events_scheme \<Rightarrow> ('z events_scheme, unit) run" where
  "event_timeouts current_tick i s =
     (if hdr_type (ev_header (event_pool s ! i)) \<noteq> IPC_TYPE_EVENT then Ret () s
      else run_bind (lock_event i s) (\<lambda>_ s1.
           let e = event_pool s1 ! i in
           run_bind (run_step (map_option (\<lambda>(e1, s2). set_event i e1 s2)
                      (timeouts_loop ev_unlink current_tick NULL (ev_waiters e) e s1))) (\<lambda>_ s2.
           run_bind (unlock_event i s2) (\<lambda>_ s3. Ret () s3))))"

definition event_set_timeouts :: "u64 \<Rightarrow> nat \<Rightarrow> 'z events_scheme \<Rightarrow> ('z events_scheme, unit) run" where
  "event_set_timeouts current_tick i s =
     (if hdr_type (es_header (event_set_pool s ! i)) \<noteq> IPC_TYPE_EVENT_SET then Ret () s
      else run_bind (lock_event_set i s) (\<lambda>_ s1.
           let e = event_set_pool s1 ! i in
           run_bind (run_step (map_option (\<lambda>(e1, s2). set_event_set i e1 s2)
                      (timeouts_loop es_unlink current_tick NULL (es_waiters e) e s1))) (\<lambda>_ s2.
           run_bind (unlock_event_set i s2) (\<lambda>_ s3. Ret () s3))))"

definition check_event_timeouts :: "'z events_scheme \<Rightarrow> ('z events_scheme, unit) run" where
  "check_event_timeouts s =
     (let t = get_tick_count (k_sched s) in
      run_bind (run_slots (event_timeouts t) [0..<MAX_EVENTS] s) (\<lambda>_ s1.
      run_slots (event_set_timeouts t) [0..<MAX_EVENT_SETS] s1))"

definition cleanup_event :: "pid_t \<Rightarrow> nat \<Rightarrow> 'z events_scheme \<Rightarrow> ('z events_scheme, unit) run" where
  "cleanup_event pid i s =
     (if hdr_type (ev_header (event_pool s ! i)) \<noteq> IPC_TYPE_EVENT then Ret () s
      else run_bind (lock_event i s) (\<lambda>_ s1.
           run_bind (run_step (remove_event_waiter i pid s1)) (\<lambda>_ s2.
           run_bind (unlock_event i s2) (\<lambda>_ s3. Ret () s3))))"

definition cleanup_event_set :: "pid_t \<Rightarrow> nat \<Rightarrow> 'z events_scheme \<Rightarrow> ('z events_scheme, unit) run" where
  "cleanup_event_set pid i s =
     (if hdr_type (es_header (event_set_pool s ! i)) \<noteq> IPC_TYPE_EVENT_SET then Ret () s
      else run_bind (lock_event_set i s) (\<lambda>_ s1.
           run_bind (run_step (remove_event_set_waiter i pid s1)) (\<lambda>_ s2.
           run_bind (unlock_event_set i s2) (\<lambda>_ s3. Ret () s3))))"

definition cleanup_task_events :: "pid_t \<Rightarrow> 'z events_scheme \<Rightarrow> ('z events_scheme, unit) run" where
  "cleanup_task_events pid s =
     run_bind (run_slots (cleanup_event pid) [0..<MAX_EVENTS] s) (\<lambda>_ s1.
     run_slots (cleanup_event_set pid) [0..<MAX_EVENT_SETS] s1)"

text \<open>\<^const>\<open>None\<close> stands for the kernel panic when the first event cannot be created.\<close>

definition init_event_system :: "'z events_scheme \<Rightarrow> 'z events_scheme option" where
  "init_event_system s =
     (let s1 = s\<lparr>event_pool := replicate MAX_EVENTS zero_event, event_count := 0,
                event_set_pool := replicate MAX_EVENT_SETS zero_event_set, event_set_count := 0\<rparr>;
          (e, s2) = create_event ''kernel_event'' s1
      in case e of
           None \<Rightarrow> None
         | Some i \<Rightarrow> Some (set_event i ((event_pool s2 ! i)
                       \<lparr>ev_flags := ev_flags (event_pool s2 ! i) OR EVENT_FLAG_MANUAL_RESET\<rparr>) s2))"

definition init_event_subsystem :: "'z events_scheme \<Rightarrow> 'z events_scheme option" where
  "init_event_subsystem s = init_event_system s"

end
