(* ===== verification/Waiter_Lists.thy ===== *)
theory Waiter_Lists
  imports Kernel_Calls
begin

text \<open>
  The loops over waiter lists refined to lists of nodes: waking takes a prefix, removal deletes the
  first node of a task, the timeout check keeps the nodes that are not due. The locale
  \<open>waiter_owner\<close> is the contract between the loops and the object that holds the list's head.
\<close>

section \<open>Singly linked segments\<close>

fun sseg :: "(ptr \<rightharpoonup> waiter) \<Rightarrow> ptr list \<Rightarrow> bool" where
  "sseg h [] = True"
| "sseg h (p # ps) = (p \<noteq> NULL \<and> (\<exists>w. h p = Some w \<and> w_next w = head_or NULL ps) \<and> sseg h ps)"

definition wcore :: "(ptr \<rightharpoonup> waiter) \<Rightarrow> ptr \<Rightarrow> waiter option" where
  "wcore h p = map_option (\<lambda>w. w\<lparr>w_next := NULL\<rparr>) (h p)"

definition pid_at :: "(ptr \<rightharpoonup> waiter) \<Rightarrow> ptr \<Rightarrow> pid_t" where
  "pid_at h p = (case h p of None \<Rightarrow> 0 | Some w \<Rightarrow> w_pid w)"

definition due_at :: "u64 \<Rightarrow> (ptr \<rightharpoonup> waiter) \<Rightarrow> ptr \<Rightarrow> bool" where
  "due_at now h p = (case h p of None \<Rightarrow> False | Some w \<Rightarrow> timed_out now w)"

lemma pid_at_wcore: "wcore h' p = wcore h p \<Longrightarrow> pid_at h' p = pid_at h p"
proof -
  have "pid_at h p = (case wcore h p of None \<Rightarrow> 0 | Some w \<Rightarrow> w_pid w)" for h
    by (simp add: pid_at_def wcore_def split: option.split)
  then show "wcore h' p = wcore h p \<Longrightarrow> pid_at h' p = pid_at h p" by simp
qed

lemma due_at_wcore: "wcore h' p = wcore h p \<Longrightarrow> due_at now h' p = due_at now h p"
proof -
  have "due_at now h p = (case wcore h p of None \<Rightarrow> False | Some w \<Rightarrow> timed_out now w)" for h
    by (simp add: due_at_def wcore_def timed_out_def split: option.split)
  then show "wcore h' p = wcore h p \<Longrightarrow> due_at now h' p = due_at now h p" by simp
qed

lemma sseg_nonnull: "sseg h ps \<Longrightarrow> p \<in> set ps \<Longrightarrow> p \<noteq> NULL"
  by (induction ps) auto

lemma sseg_alloc: "sseg h ps \<Longrightarrow> p \<in> set ps \<Longrightarrow> \<exists>w. h p = Some w"
  by (induction ps) auto

lemma sseg_cong: "(\<forall>p \<in> set ps. h' p = h p) \<Longrightarrow> sseg h' ps = sseg h ps"
  by (induction ps) auto

lemma sseg_appendD: "sseg h (xs @ ys) \<Longrightarrow> sseg h ys"
  by (induction xs) auto

lemma head_or_append: "head_or d (xs @ ys) = head_or (head_or d ys) xs"
  by (simp add: head_or_def)

text \<open>Taking a node out of a segment.\<close>

lemma sseg_unlink:
  assumes "sseg h (xs @ p # ys)" "distinct (xs @ p # ys)"
  shows "if xs = [] then sseg h ys
         else \<exists>w. h (last xs) = Some w \<and> sseg (h(last xs \<mapsto> w\<lparr>w_next := head_or NULL ys\<rparr>)) (xs @ ys)"
  using assms
proof (induction xs)
  case (Cons x xs)
  show ?case
  proof (cases "xs = []")
    case True
    with Cons.prems have "sseg (h(x \<mapsto> v)) ys = sseg h ys" for v
      by (intro sseg_cong) auto
    with True Cons.prems show ?thesis by auto
  next
    case False
    with Cons obtain w where w: "h (last xs) = Some w"
      "sseg (h(last xs \<mapsto> w\<lparr>w_next := head_or NULL ys\<rparr>)) (xs @ ys)" by auto
    have "x \<noteq> last xs" using Cons.prems(2) False by auto
    moreover have "head_or NULL (xs @ p # ys) = head_or NULL (xs @ ys)"
      using False by (simp add: head_or_def)
    ultimately show ?thesis
      using Cons.prems(1) False w by auto
  qed
qed simp

lemma wcore_upd: "h p = Some w \<Longrightarrow> wcore (h(p \<mapsto> w\<lparr>w_next := n\<rparr>)) x = wcore h x"
  by (simp add: wcore_def)

lemma set_next_transfer:
  assumes "(if p \<noteq> NULL then set_next p n s else Some s) = Some (s\<lparr>k_waiters := h\<rparr>)"
    and "k_waiters t = k_waiters s"
  shows "(if p \<noteq> NULL then set_next p n t else Some t) = Some (t\<lparr>k_waiters := h\<rparr>)"
proof (cases "p = NULL")
  case True
  with assms(1) have "k_waiters s = h" by simp (metis kstate.select_convs(2) kstate.surjective kstate.update_convs(2))
  with True assms(2) show ?thesis by auto
next
  case False
  with assms(1) obtain w where w: "k_waiters s p = Some w"
    "s\<lparr>k_waiters := (k_waiters s)(p \<mapsto> w\<lparr>w_next := n\<rparr>)\<rparr> = s\<lparr>k_waiters := h\<rparr>"
    by (auto simp: set_next_def split: option.splits)
  from arg_cong [OF w(2), of k_waiters] have "(k_waiters s)(p \<mapsto> w\<lparr>w_next := n\<rparr>) = h" by simp
  with False w(1) assms(2) show ?thesis by (simp add: set_next_def)
qed

section \<open>Unblocking a list of tasks\<close>

fun unblock_all :: "pid_t list \<Rightarrow> 'z kstate_scheme \<Rightarrow> 'z kstate_scheme option" where
  "unblock_all [] s = Some s"
| "unblock_all (p # ps) s = Option.bind (k_unblock p s) (unblock_all ps)"

lemma k_unblock_waiters: "k_unblock p s = Some s' \<Longrightarrow> k_waiters s' = k_waiters s"
  by (auto simp: k_unblock_def split: option.splits)

lemma k_unblock_upd:
  "k_unblock p (s\<lparr>k_waiters := h\<rparr>) = map_option (\<lambda>s'. s'\<lparr>k_waiters := h\<rparr>) (k_unblock p s)"
  by (auto simp: k_unblock_def split: option.splits)

lemma unblock_all_upd:
  "unblock_all ps (s\<lparr>k_waiters := h\<rparr>) = map_option (\<lambda>s'. s'\<lparr>k_waiters := h\<rparr>) (unblock_all ps s)"
proof (induction ps arbitrary: s)
  case (Cons p ps)
  then show ?case by (cases "k_unblock p s") (simp_all add: k_unblock_upd)
qed simp

text \<open>Only the scheduler part of the state changes.\<close>

lemma unblock_all_sched: "unblock_all ps s = Some s' \<Longrightarrow> \<exists>sc. s' = s\<lparr>k_sched := sc\<rparr>"
proof (induction ps arbitrary: s)
  case Nil
  then show ?case by (intro exI [of _ "k_sched s"]) simp
next
  case (Cons p ps)
  then obtain sc where "unblock_all ps (s\<lparr>k_sched := sc\<rparr>) = Some s'"
    by (auto simp: k_unblock_def split: option.splits)
  from Cons.IH [OF this] show ?case by auto
qed

section \<open>Waking\<close>

definition wake_number :: "u32 \<Rightarrow> nat \<Rightarrow> nat" where
  "wake_number count n = (if count = 0 then n else min (unat count) n)"

fun adv_all :: "(ptr \<Rightarrow> ptr \<Rightarrow> 'q \<Rightarrow> 'q) \<Rightarrow> nat \<Rightarrow> ptr list \<Rightarrow> 'q \<Rightarrow> 'q" where
  "adv_all adv (Suc n) (p # ps) q = adv_all adv n ps (adv p (head_or NULL ps) q)"
| "adv_all adv _ _ q = q"

text \<open>\<open>k\<close> nodes can still be woken.\<close>

lemma wake_waiters_loop_list:
  assumes "sseg (k_waiters s) ps" "length ps < 2 ^ 32 - unat woken"
    and "k = (if count = 0 then length ps else min (unat count - unat woken) (length ps))"
  shows "wake_waiters_loop adv count (head_or NULL ps) woken q s =
         map_option (\<lambda>s'. (head_or NULL (drop k ps), woken + of_nat k, adv_all adv k ps q, s'))
           (unblock_all (map (pid_at (k_waiters s)) (take k ps)) s)"
  using assms
proof (induction ps arbitrary: s woken q k)
  case Nil
  then show ?case by (simp add: wake_waiters_loop.simps)
next
  case (Cons p ps)
  then obtain w where w: "k_waiters s p = Some w" "w_next w = head_or NULL ps" "p \<noteq> NULL"
    by auto
  show ?case
  proof (cases "count = 0 \<or> woken < count")
    case False
    then have "k = 0" using Cons.prems(3) by (simp add: word_less_nat_alt)
    with False show ?thesis by (simp add: wake_waiters_loop.simps)
  next
    case True
    have u: "unat (woken + 1) = unat woken + 1"
      using Cons.prems(2) by (simp add: unat_word_ariths)
    define j where j2: "j = (if count = 0 then length ps else min (unat count - unat (woken + 1)) (length ps))"
    have "k = Suc j"
      using Cons.prems(3) True u unfolding j2
      by (cases "count = 0") (simp_all add: min_def word_less_nat_alt, arith)
    note j = this j2
    have step: "wake_waiters_loop adv count (head_or NULL (p # ps)) woken q s =
        Option.bind (k_unblock (w_pid w) s)
          (wake_waiters_loop adv count (head_or NULL ps) (woken + 1) (adv p (head_or NULL ps) q))"
      using True w by (subst wake_waiters_loop.simps) simp
    show ?thesis
    proof (cases "k_unblock (w_pid w) s")
      case None
      with step j w show ?thesis by (simp add: pid_at_def)
    next
      case (Some s1)
      have kw: "k_waiters s1 = k_waiters s" by (rule k_unblock_waiters [OF Some])
      have "length ps < 2 ^ 32 - unat (woken + 1)" "sseg (k_waiters s1) ps"
        using Cons.prems(1,2) u kw by simp_all
      from Cons.IH [OF this(2,1) j(2)] step Some show ?thesis
        using w j(1) kw by (simp add: pid_at_def algebra_simps)
    qed
  qed
qed

section \<open>The owner of a list\<close>

fun del_first :: "('a \<Rightarrow> bool) \<Rightarrow> 'a list \<Rightarrow> 'a list" where
  "del_first P [] = []"
| "del_first P (x # xs) = (if P x then xs else x # del_first P xs)"

lemma find_waiter_list:
  "sseg h zs \<Longrightarrow>
   (\<forall>p \<in> set zs. pid_at h p \<noteq> pid) \<and> del_first (\<lambda>p. pid_at h p = pid) zs = zs \<and>
     find_waiter h pid prev (head_or NULL zs) = Some (last_or prev zs, NULL) \<or>
   (\<exists>as p bs. zs = as @ p # bs \<and> del_first (\<lambda>p. pid_at h p = pid) zs = as @ bs \<and>
     find_waiter h pid prev (head_or NULL zs) = Some (last_or prev as, p))"
proof (induction zs arbitrary: prev)
  case Nil
  then show ?case by (simp add: find_waiter.simps)
next
  case (Cons z zs)
  then obtain w where w: "h z = Some w" "w_next w = head_or NULL zs" "z \<noteq> NULL" by auto
  show ?case
  proof (cases "w_pid w = pid")
    case True
    have "find_waiter h pid prev (head_or NULL (z # zs)) = Some (last_or prev [], z)"
      using True w by (subst find_waiter.simps) simp
    moreover have "del_first (\<lambda>p. pid_at h p = pid) (z # zs) = [] @ zs"
      using True w by (simp add: pid_at_def)
    ultimately show ?thesis by blast
  next
    case False
    have f: "find_waiter h pid prev (head_or NULL (z # zs)) = find_waiter h pid z (head_or NULL zs)"
      using False w by (subst find_waiter.simps) simp
    have d: "pid_at h z \<noteq> pid" "del_first (\<lambda>p. pid_at h p = pid) (z # zs) = z # del_first (\<lambda>p. pid_at h p = pid) zs"
      using False w by (simp_all add: pid_at_def)
    have "sseg h zs" using Cons.prems by simp
    from Cons.IH [OF this, of z] show ?thesis
    proof (elim disjE exE conjE)
      fix as p bs assume "zs = as @ p # bs" "del_first (\<lambda>p. pid_at h p = pid) zs = as @ bs"
        "find_waiter h pid z (head_or NULL zs) = Some (last_or z as, p)"
      then show ?thesis
        unfolding f d by (intro disjI2 exI [of _ "z # as"] exI [of _ p] exI [of _ bs]) simp
    qed (use f d in simp)
  qed
qed

locale waiter_owner =
  fixes first :: "'q \<Rightarrow> ptr"
    and unlink :: "ptr \<Rightarrow> ptr \<Rightarrow> ptr \<Rightarrow> 'q \<Rightarrow> 'q"
    and rep :: "'q \<Rightarrow> ptr list \<Rightarrow> bool"
  assumes rep_first: "rep q ps \<Longrightarrow> first q = head_or NULL ps"
    and rep_unlink: "rep q (xs @ p # ys) \<Longrightarrow> distinct (xs @ p # ys) \<Longrightarrow> NULL \<notin> set (xs @ p # ys) \<Longrightarrow>
      rep (unlink (last_or NULL xs) p (head_or NULL ys) q) (xs @ ys)"
begin

lemma unlink_list:
  assumes "sseg (k_waiters s) (xs @ p # ys)" "distinct (xs @ p # ys)" "rep q (xs @ p # ys)"
    and "k_waiters s p = Some w"
  obtains h where
    "(if last_or NULL xs \<noteq> NULL then set_next (last_or NULL xs) (w_next w) s else Some s) = Some (s\<lparr>k_waiters := h\<rparr>)"
    "sseg h (xs @ ys)" "\<forall>x. wcore h x = wcore (k_waiters s) x" "\<forall>x. x \<notin> set xs \<longrightarrow> h x = k_waiters s x"
    "rep (unlink (last_or NULL xs) p (w_next w) q) (xs @ ys)"
proof -
  have n: "NULL \<notin> set (xs @ p # ys)" using sseg_nonnull [OF assms(1)] by blast
  have w: "w_next w = head_or NULL ys" using sseg_appendD [OF assms(1)] assms(4) by auto
  note rep = rep_unlink [OF assms(3,2) n]
  show ?thesis
  proof (cases "xs = []")
    case True
    with that [of "k_waiters s"] rep w sseg_unlink [OF assms(1,2)] show ?thesis by simp
  next
    case False
    obtain v where v: "k_waiters s (last xs) = Some v"
      "sseg ((k_waiters s)(last xs \<mapsto> v\<lparr>w_next := head_or NULL ys\<rparr>)) (xs @ ys)"
      using sseg_unlink [OF assms(1,2)] False by auto
    have l: "last_or NULL xs = last xs" "last xs \<in> set xs" using False by (simp_all add: last_or_def)
    then have "last xs \<noteq> NULL" using n by auto
    with that [OF _ v(2)] v(1) rep w l show ?thesis
      by (auto simp: set_next_def wcore_upd)
  qed
qed

lemma remove_list:
  assumes "sseg (k_waiters s) ps" "distinct ps" "rep q ps"
  obtains q' h where
    "remove_waiter_from unlink (first q) pid q s = Some (q', s\<lparr>k_waiters := h\<rparr>)"
    "rep q' (del_first (\<lambda>p. pid_at (k_waiters s) p = pid) ps)"
    "sseg h (del_first (\<lambda>p. pid_at (k_waiters s) p = pid) ps)"
    "\<forall>x. wcore h x = wcore (k_waiters s) x" "\<forall>x. x \<notin> set ps \<longrightarrow> h x = k_waiters s x"
proof -
  note f = rep_first [OF assms(3)]
  from find_waiter_list [OF assms(1), of pid NULL] show ?thesis
  proof (elim disjE exE conjE)
    assume "find_waiter (k_waiters s) pid NULL (head_or NULL ps) = Some (last_or NULL ps, NULL)"
      "del_first (\<lambda>p. pid_at (k_waiters s) p = pid) ps = ps"
    with that [of q "k_waiters s"] f assms show ?thesis by (simp add: remove_waiter_from_def)
  next
    fix as p bs assume ps: "ps = as @ p # bs" "del_first (\<lambda>p. pid_at (k_waiters s) p = pid) ps = as @ bs"
      "find_waiter (k_waiters s) pid NULL (head_or NULL ps) = Some (last_or NULL as, p)"
    obtain w where w: "k_waiters s p = Some w" "p \<noteq> NULL"
      using sseg_alloc [OF assms(1)] sseg_nonnull [OF assms(1)] ps(1) by (metis in_set_conv_decomp)
    obtain h where h: "(if last_or NULL as \<noteq> NULL then set_next (last_or NULL as) (w_next w) s else Some s)
        = Some (s\<lparr>k_waiters := h\<rparr>)"
      "sseg h (as @ bs)" "\<forall>x. wcore h x = wcore (k_waiters s) x" "\<forall>x. x \<notin> set as \<longrightarrow> h x = k_waiters s x"
      "rep (unlink (last_or NULL as) p (w_next w) q) (as @ bs)"
      by (rule unlink_list [OF assms(1-3) [unfolded ps(1)] w(1)])
    have "remove_waiter_from unlink (first q) pid q s
        = Some (unlink (last_or NULL as) p (w_next w) q, s\<lparr>k_waiters := h\<rparr>)"
      using f ps(3) w h(1) by (simp add: remove_waiter_from_def)
    from that [OF this] h ps show ?thesis by simp
  qed
qed

lemma timeouts_list:
  assumes "sseg (k_waiters s) (xs @ zs)" "distinct (xs @ zs)" "rep q (xs @ zs)"
  shows "\<exists>q' h. timeouts_loop unlink now (last_or NULL xs) (head_or NULL zs) q s =
             map_option (\<lambda>s'. (q', s'\<lparr>k_waiters := h\<rparr>))
               (unblock_all (map (pid_at (k_waiters s)) (filter (due_at now (k_waiters s)) zs)) s) \<and>
           rep q' (xs @ filter (\<lambda>p. \<not> due_at now (k_waiters s) p) zs) \<and>
           sseg h (xs @ filter (\<lambda>p. \<not> due_at now (k_waiters s) p) zs) \<and>
           (\<forall>x. wcore h x = wcore (k_waiters s) x) \<and>
           (\<forall>x. x \<notin> set (xs @ zs) \<longrightarrow> h x = k_waiters s x)"
  using assms
proof (induction zs arbitrary: s q xs)
  case Nil
  then show ?case
    by (intro exI [of _ q] exI [of _ "k_waiters s"]) (simp add: timeouts_loop.simps)
next
  case (Cons p zs)
  obtain w where w: "k_waiters s p = Some w" "w_next w = head_or NULL zs" "p \<noteq> NULL"
    using sseg_appendD [OF Cons.prems(1)] by auto
  have due: "due_at now (k_waiters s) p = timed_out now w" using w by (simp add: due_at_def)
  show ?case
  proof (cases "timed_out now w")
    case False
    have "timeouts_loop unlink now (last_or NULL xs) (head_or NULL (p # zs)) q s =
        timeouts_loop unlink now (last_or NULL (xs @ [p])) (head_or NULL zs) q s"
      using False w by (subst timeouts_loop.simps) simp
    with Cons.IH [of s "xs @ [p]" q] Cons.prems False due show ?thesis by simp
  next
    case True
    obtain h1 where h1: "(if last_or NULL xs \<noteq> NULL then set_next (last_or NULL xs) (w_next w) s else Some s)
        = Some (s\<lparr>k_waiters := h1\<rparr>)"
      "sseg h1 (xs @ zs)" "\<forall>x. wcore h1 x = wcore (k_waiters s) x" "\<forall>x. x \<notin> set xs \<longrightarrow> h1 x = k_waiters s x"
      "rep (unlink (last_or NULL xs) p (w_next w) q) (xs @ zs)"
      by (rule unlink_list [OF Cons.prems w(1)])
    let ?q = "unlink (last_or NULL xs) p (w_next w) q"
    have same: "pid_at h1 = pid_at (k_waiters s)" "due_at now h1 = due_at now (k_waiters s)"
      using pid_at_wcore [of h1 _ "k_waiters s"] due_at_wcore [of h1 _ "k_waiters s"] h1(3)
      by (simp_all add: fun_eq_iff)
    define t where "t = (case k_unblock (w_pid w) s of None \<Rightarrow> s | Some s1 \<Rightarrow> s1)"
    let ?t = "t\<lparr>k_waiters := h1\<rparr>"
    have pid: "pid_at (k_waiters s) p = w_pid w" using w by (simp add: pid_at_def)
    have run: "timeouts_loop unlink now (last_or NULL xs) (head_or NULL (p # zs)) q s =
        Option.bind (k_unblock (w_pid w) s)
          (\<lambda>_. timeouts_loop unlink now (last_or NULL xs) (head_or NULL zs) ?q ?t)"
    proof (cases "k_unblock (w_pid w) s")
      case (Some s1)
      from set_next_transfer [OF h1(1) k_unblock_waiters [OF Some]] show ?thesis
        using True w Some by (subst timeouts_loop.simps) (simp add: t_def)
    qed (use True w in \<open>subst timeouts_loop.simps, simp\<close>)
    have d: "distinct (xs @ zs)" and kt: "k_waiters ?t = h1" using Cons.prems(2) by simp_all
    obtain q' h where q':
      "timeouts_loop unlink now (last_or NULL xs) (head_or NULL zs) ?q ?t =
         map_option (\<lambda>s'. (q', s'\<lparr>k_waiters := h\<rparr>))
           (unblock_all (map (pid_at h1) (filter (due_at now h1) zs)) ?t)"
      "rep q' (xs @ filter (\<lambda>p. \<not> due_at now h1 p) zs)" "sseg h (xs @ filter (\<lambda>p. \<not> due_at now h1 p) zs)"
      "\<forall>x. wcore h x = wcore h1 x" "\<forall>x. x \<notin> set (xs @ zs) \<longrightarrow> h x = h1 x"
      using Cons.IH [of ?t xs ?q, unfolded kt, OF h1(2) d h1(5)] by blast
    have "timeouts_loop unlink now (last_or NULL xs) (head_or NULL (p # zs)) q s =
        map_option (\<lambda>s'. (q', s'\<lparr>k_waiters := h\<rparr>))
          (unblock_all (map (pid_at (k_waiters s)) (filter (due_at now (k_waiters s)) (p # zs))) s)"
      unfolding run q'(1) using True due pid
      by (cases "k_unblock (w_pid w) s") (simp_all add: t_def same unblock_all_upd option.map_comp comp_def)
    then show ?thesis
      using q'(2-5) h1(3,4) True due unfolding same by (intro exI [of _ q'] exI [of _ h]) simp
  qed
qed

end

end
