(* ===== verification/Scheduler_Frame.thy ===== *)
theory Scheduler_Frame
  imports Scheduler_Queues
begin

text \<open>
  What the scheduler's queue operations do not touch: blocking and unblocking a task leave the
  kernel heap alone, whatever the queues look like.
\<close>

lemma set_q_heap [simp]: "sc_heap (set_q q p s) = sc_heap s"
  by (cases q) simp_all

lemma on_task_heap: "on_task p f s = Some s' \<Longrightarrow> sc_heap s' = sc_heap s"
  by (auto simp: on_task_def split: option.splits)

lemma add_task_to_queue_heap: "add_task_to_queue q p s = Some s' \<Longrightarrow> sc_heap s' = sc_heap s"
  by (auto simp: add_task_to_queue_def bind_eq_Some_conv dest!: on_task_heap split: if_splits)

lemma remove_task_from_queue_heap: "remove_task_from_queue q p s = Some s' \<Longrightarrow> sc_heap s' = sc_heap s"
  by (auto simp: remove_task_from_queue_def Let_def bind_eq_Some_conv dest!: on_task_heap split: if_splits)

lemma add_task_to_ready_queue_heap: "add_task_to_ready_queue p s = Some s' \<Longrightarrow> sc_heap s' = sc_heap s"
  by (auto simp: add_task_to_ready_queue_def bind_eq_Some_conv dest!: on_task_heap add_task_to_queue_heap
      split: if_splits)

lemma remove_from_queues_heap: "remove_from_queues qs p s = Some s' \<Longrightarrow> sc_heap s' = sc_heap s"
  by (induction qs arbitrary: s) (auto simp: bind_eq_Some_conv dest!: remove_task_from_queue_heap)

lemma next_ready_from_heap: "next_ready_from is s = Some (p, s') \<Longrightarrow> sc_heap s' = sc_heap s"
  by (induction "is") (auto simp: bind_eq_Some_conv dest!: remove_task_from_queue_heap split: if_splits)

lemma switch_to_task_heap: "switch_to_task p s = Some (b, s') \<Longrightarrow> sc_heap s' = sc_heap s"
proof -
  assume a: "switch_to_task p s = Some (b, s')"
  show ?thesis
  proof (cases "p = NULL \<or> current_task s = p")
    case False
    with a obtain s1 t where s1: "on_task p (\<lambda>t. t\<lparr>t_state := TASK_STATE_RUNNING, t_remaining_ticks := t_time_slice t\<rparr>) s
        = Some s1" "tcbs s1 p = Some t"
      by (auto simp: switch_to_task_def bind_eq_Some_conv)
    let ?s2 = "s1\<lparr>current_task := p\<rparr>" and ?old = "current_task s1"
    have h1: "sc_heap ?s2 = sc_heap s" using on_task_heap [OF s1(1)] by simp
    show ?thesis
    proof (cases "?old = NULL")
      case True
      with a False s1 have "s' = ?s2 \<or> s' = ?s2\<lparr>sc_page_dir := t_page_dir t\<rparr>"
        by (auto simp: switch_to_task_def Let_def)
      with h1 show ?thesis by auto
    next
      case old: False
      let ?r = "\<lambda>s3. Option.bind (on_task ?old (\<lambda>u. u\<lparr>t_state := TASK_STATE_READY\<rparr>) ?s2)
                  (add_task_to_ready_queue ?old) = Some s3"
      from a False s1 old obtain s3 where s3: "s3 = ?s2 \<or> ?r s3"
        "s' = s3 \<or> (\<exists>d. s' = s3\<lparr>sc_page_dir := d\<rparr>)"
        by (auto simp: switch_to_task_def Let_def bind_eq_Some_conv split: if_splits)
      have "sc_heap s3 = sc_heap s"
        using s3(1) h1 by (auto simp: bind_eq_Some_conv dest!: on_task_heap add_task_to_ready_queue_heap)
      with s3(2) show ?thesis by auto
    qed
  qed (use a in \<open>simp add: switch_to_task_def\<close>)
qed

lemma schedule_next_task_heap: "schedule_next_task s = Some (b, s') \<Longrightarrow> sc_heap s' = sc_heap s"
  by (auto simp: schedule_next_task_def get_next_ready_task_def bind_eq_Some_conv
      dest!: remove_task_from_queue_heap switch_to_task_heap split: if_splits)

lemma critical_heap [simp]: "sc_heap (enter_critical s) = sc_heap s" "sc_heap (exit_critical s) = sc_heap s"
  by (simp_all add: enter_critical_def exit_critical_def)

lemma block_task_heap: "block_task pid s = Some (b, s') \<Longrightarrow> sc_heap s' = sc_heap s"
  by (auto simp: block_task_def Let_def bind_eq_Some_conv leave_critical_def
      dest!: on_task_heap remove_from_queues_heap add_task_to_queue_heap schedule_next_task_heap
      split: if_splits simp del: remove_from_queues.simps)

lemma unblock_task_heap: "unblock_task pid s = Some s' \<Longrightarrow> sc_heap s' = sc_heap s"
  by (auto simp: unblock_task_def Let_def bind_eq_Some_conv
      dest!: remove_task_from_queue_heap add_task_to_ready_queue_heap split: if_splits)

end
