(* ===== verification/Ipc_Sync_Props.thy ===== *)
theory Ipc_Sync_Props
  imports Ipc_Sync Waiter_Lists Sync_Ops Scheduler_Props Scheduler_Frame
begin

text \<open>
  Properties of the mutexes and semaphores of \<^verbatim>\<open>kernel/ipc.c\<close>: wait queues are first-in
  first-out, semaphores never grant more than was posted, recursive locking is undone by as many
  unlocks, and a woken waiter overwrites the owner of a mutex.
\<close>

section \<open>Wait queues as lists\<close>

definition wq_rep :: "wait_queue \<Rightarrow> ptr list \<Rightarrow> bool" where
  "wq_rep q ps \<longleftrightarrow> wq_head q = head_or NULL ps \<and> wq_tail q = last_or NULL ps \<and>
                  wq_waiter_count q = of_nat (length ps)"

lemma last_or_append: "last_or d (xs @ ys) = last_or (last_or d xs) ys"
  by (simp add: last_or_def)

interpretation wq: waiter_owner wq_head wq_unlink wq_rep
proof
  show "wq_rep q ps \<Longrightarrow> wq_head q = head_or NULL ps" for q ps
    by (simp add: wq_rep_def)
  fix q :: wait_queue and xs p ys
  assume r: "wq_rep q (xs @ p # ys)" and d: "distinct (xs @ p # ys)" and n: "NULL \<notin> set (xs @ p # ys)"
  have tail: "(wq_tail q = p) = (ys = [])"
    using r d by (auto simp: wq_rep_def last_or_append last_or_def)
  have prev: "(last_or NULL xs \<noteq> NULL) = (xs \<noteq> [])"
    using n last_in_set [of xs] by (metis Un_iff last_or_def set_append)
  show "wq_rep (wq_unlink (last_or NULL xs) p (head_or NULL ys) q) (xs @ ys)"
    using r tail prev
    by (auto simp: wq_unlink_def wq_rep_def Let_def head_or_append last_or_append head_or_def last_or_def)
qed

lemma adv_all_head:
  "wq_head q = head_or NULL ps \<Longrightarrow> distinct ps \<Longrightarrow> NULL \<notin> set ps \<Longrightarrow> k \<le> length ps \<Longrightarrow>
   adv_all wq_advance k ps q = q\<lparr>wq_head := head_or NULL (drop k ps)\<rparr>"
proof (induction ps arbitrary: k q)
  case (Cons p ps)
  then show ?case by (cases k) (simp_all add: wq_advance_def)
qed simp

lemma wake_number_le: "wake_number c n \<le> n"
  by (simp add: wake_number_def)

lemma wake_waiters_list:
  assumes "wq_rep q ps" "sseg (k_waiters s) ps" "distinct ps" "length ps < 2 ^ 32"
    and "k = wake_number c (length ps)"
  shows "\<exists>q'. wake_waiters q c s =
           map_option (\<lambda>s'. (q', s')) (unblock_all (map (pid_at (k_waiters s)) (take k ps)) s) \<and>
           wq_rep q' (drop k ps)"
proof -
  let ?q1 = "q\<lparr>wq_head := head_or NULL (drop k ps)\<rparr>"
  have k: "k \<le> length ps" using assms(5) wake_number_le by simp
  have n: "NULL \<notin> set ps" using sseg_nonnull [OF assms(2)] by blast
  have empty: "(head_or NULL (drop k ps) = NULL) = (drop k ps = [])"
    using n by (metis head_or_def hd_in_set set_drop_subset subsetD)
  have hd: "wq_head q = head_or NULL ps" using assms(1) by (simp add: wq_rep_def)
  have len: "length ps < 2 ^ 32 - unat (0 :: u32)" using assms(4) by simp
  have kk: "k = (if c = 0 then length ps else min (unat c - unat (0 :: u32)) (length ps))"
    using assms(5) by (simp add: wake_number_def)
  have "wake_waiters_loop wq_advance c (wq_head q) 0 q s =
      map_option (\<lambda>s'. (head_or NULL (drop k ps), of_nat k, ?q1, s'))
        (unblock_all (map (pid_at (k_waiters s)) (take k ps)) s)"
    unfolding hd wake_waiters_loop_list [OF assms(2) len kk] adv_all_head [OF hd assms(3) n k] by simp
  moreover have "wq_rep ((if wq_head ?q1 = NULL then ?q1\<lparr>wq_tail := NULL\<rparr> else ?q1)
      \<lparr>wq_waiter_count := wq_waiter_count q - of_nat k\<rparr>) (drop k ps)"
    using assms(1) k empty by (auto simp: wq_rep_def last_or_def of_nat_diff)
  ultimately show ?thesis
    by (cases "unblock_all (map (pid_at (k_waiters s)) (take k ps)) s") (auto simp: wake_waiters_def Let_def)
qed

section \<open>Adding a waiter\<close>

definition waiters_fresh :: "'z kstate_scheme \<Rightarrow> bool" where
  "waiters_fresh s \<longleftrightarrow> kheap_inv (sc_heap (k_sched s)) \<and>
     (\<forall>p \<in> dom (k_waiters s). p < next_addr (sc_heap (k_sched s)))"

abbreviation memory_left :: "'z kstate_scheme \<Rightarrow> nat" where
  "memory_left s \<equiv> unat (remaining (sc_heap (k_sched s)))"

lemma new_waiter_NULL: "waiters_fresh s \<Longrightarrow> new_waiter pid t nxt s = (NULL, s') \<Longrightarrow> s' = s"
  by (cases s; cases "k_sched s")
    (auto simp: new_waiter_def waiters_fresh_def kheap_inv_def kmalloc_def Let_def HEAP_START_def
       split: if_splits prod.splits)

lemma new_waiter_ok:
  assumes "waiters_fresh s" "new_waiter pid t nxt s = (p, s')" "p \<noteq> NULL"
  obtains w h where "s' = s\<lparr>k_sched := (k_sched s)\<lparr>sc_heap := h\<rparr>, k_waiters := (k_waiters s)(p \<mapsto> w)\<rparr>"
    "w_pid w = pid" "w_timeout w = t" "w_next w = nxt" "w_start w = tick_count (k_sched s)"
    "p \<notin> dom (k_waiters s)" "waiters_fresh s'" "memory_left s = memory_left s' + 32"
proof -
  obtain h where k: "kmalloc SIZEOF_WAITER (sc_heap (k_sched s)) = (p, h)"
    using assms(2) by (auto simp: new_waiter_def Let_def split: prod.splits if_splits)
  have "align16 SIZEOF_WAITER = 32" by (simp add: align16_def SIZEOF_WAITER_def)
  with kmalloc_Some [OF _ k assms(3)] assms(1)
  have m: "p = next_addr (sc_heap (k_sched s))" "kheap_inv h" "unat (next_addr h) = unat p + 32"
      "unat (remaining (sc_heap (k_sched s))) = unat (remaining h) + 32"
    by (auto simp: waiters_fresh_def)
  let ?w = "\<lparr>w_pid = pid, w_start = tick_count (k_sched s), w_timeout = t, w_next = nxt\<rparr>"
  have s': "s' = s\<lparr>k_sched := (k_sched s)\<lparr>sc_heap := h\<rparr>, k_waiters := (k_waiters s)(p \<mapsto> ?w)\<rparr>"
    using assms(2,3) k by (auto simp: new_waiter_def Let_def get_tick_count_def)
  have lt: "p < next_addr h" using m(3) by (simp add: word_less_nat_alt)
  have "x < next_addr h" if "x \<in> dom (k_waiters s)" for x
    using that assms(1) m(1) lt by (meson less_trans waiters_fresh_def)
  then have "waiters_fresh s'" using s' m(2) lt by (auto simp: waiters_fresh_def)
  moreover have "p \<notin> dom (k_waiters s)" using assms(1) m(1) by (auto simp: waiters_fresh_def)
  ultimately show ?thesis using that [OF s'] m(4) s' by simp
qed

lemma sseg_snoc:
  assumes "sseg h ps" "distinct (ps @ [p])" "p \<noteq> NULL" "h p = Some w" "w_next w = NULL"
    and "ps \<noteq> []" "h (last ps) = Some v"
  shows "sseg (h(last ps \<mapsto> v\<lparr>w_next := p\<rparr>)) (ps @ [p])"
  using assms
proof (induction ps)
  case (Cons x ps)
  show ?case
  proof (cases "ps = []")
    case False
    with Cons have "x \<noteq> last ps" by auto
    with False Cons show ?thesis by (auto simp: head_or_def)
  qed (use Cons in auto)
qed simp

lemma add_waiter_list:
  assumes "wq_rep q ps" "sseg (k_waiters s) ps" "distinct ps" "waiters_fresh s"
    and "new_waiter pid t NULL s = (p, s1)" "p \<noteq> NULL"
  obtains q' s' h where "add_waiter q pid t s = Some (q', s')" "wq_rep q' (ps @ [p])"
    "sseg (k_waiters s') (ps @ [p])" "distinct (ps @ [p])" "waiters_fresh s'" "pid_at (k_waiters s') p = pid"
    "\<forall>x \<in> dom (k_waiters s). wcore (k_waiters s') x = wcore (k_waiters s) x"
    "memory_left s = memory_left s' + 32" "s' = s\<lparr>k_sched := (k_sched s)\<lparr>sc_heap := h\<rparr>, k_waiters := k_waiters s'\<rparr>"
proof -
  obtain w h where n: "s1 = s\<lparr>k_sched := (k_sched s)\<lparr>sc_heap := h\<rparr>, k_waiters := (k_waiters s)(p \<mapsto> w)\<rparr>"
    "w_pid w = pid" "w_timeout w = t" "w_next w = NULL" "w_start w = tick_count (k_sched s)"
    "p \<notin> dom (k_waiters s)" "waiters_fresh s1" "memory_left s = memory_left s1 + 32"
    by (rule new_waiter_ok [OF assms(4-6)])
  have fresh: "p \<notin> set ps" using sseg_alloc [OF assms(2)] n(6) by auto
  then have d: "distinct (ps @ [p])" using assms(3) by simp
  show ?thesis
  proof (cases "ps = []")
    case True
    let ?q = "q\<lparr>wq_head := p, wq_tail := p, wq_waiter_count := wq_waiter_count q + 1\<rparr>"
    have "add_waiter q pid t s = Some (?q, s1)"
      using assms(1,5,6) True by (simp add: add_waiter_def wq_rep_def)
    from that [OF this, of h] show ?thesis
      using n True assms(1,6) by (auto simp: wq_rep_def pid_at_def wcore_def)
  next
    case False
    then obtain v where v: "k_waiters s (last ps) = Some v" "last ps \<noteq> NULL" "last ps \<noteq> p"
      using sseg_alloc [OF assms(2), of "last ps"] sseg_nonnull [OF assms(2), of "last ps"] fresh
      by (metis last_in_set)
    let ?q = "q\<lparr>wq_tail := p, wq_waiter_count := wq_waiter_count q + 1\<rparr>"
    let ?h = "(k_waiters s)(p \<mapsto> w, last ps \<mapsto> v\<lparr>w_next := p\<rparr>)"
    have tail: "wq_tail q = last ps" using assms(1) False by (simp add: wq_rep_def last_or_def)
    have "sseg ((k_waiters s)(p \<mapsto> w)) ps"
      using assms(2) fresh by (subst sseg_cong [of _ _ "k_waiters s"]) auto
    from sseg_snoc [OF this d assms(6) _ n(4) False, of v] v
    have seg: "sseg ?h (ps @ [p])" by simp
    have "add_waiter q pid t s = Some (?q, s1\<lparr>k_waiters := ?h\<rparr>)"
      using assms(5,6) tail v n(1) by (simp add: add_waiter_def set_next_def)
    moreover have "waiters_fresh (s1\<lparr>k_waiters := ?h\<rparr>)"
      using n(1,7) v by (auto simp: waiters_fresh_def)
    moreover have "\<forall>x \<in> dom (k_waiters s). wcore ?h x = wcore (k_waiters s) x"
      using n(6) v by (auto simp: wcore_def)
    moreover have "wq_rep ?q (ps @ [p])"
      using assms(1) False by (simp add: wq_rep_def head_or_def)
    ultimately show ?thesis
      using that [of ?q "s1\<lparr>k_waiters := ?h\<rparr>" h] seg d n(1,2,8) v(3) by (simp add: pid_at_def)
  qed
qed

lemma new_waiter_mem:
  assumes "waiters_fresh s" "32 \<le> memory_left s"
  shows "fst (new_waiter pid t nxt s) \<noteq> NULL"
proof -
  have "align16 SIZEOF_WAITER = 32" by (simp add: align16_def SIZEOF_WAITER_def)
  moreover have "next_addr (sc_heap (k_sched s)) \<noteq> NULL"
    using assms(1) by (auto simp: waiters_fresh_def kheap_inv_def HEAP_START_def)
  ultimately show ?thesis
    using assms(2) by (simp add: new_waiter_def kmalloc_def Let_def word_less_nat_alt)
qed

lemma memory_left_max: "waiters_fresh s \<Longrightarrow> memory_left s \<le> 2 ^ 24"
  by (auto simp: waiters_fresh_def kheap_inv_def HEAP_START_def HEAP_SIZE_def)

fun add_waiters :: "pid_t list \<Rightarrow> wait_queue \<Rightarrow> 'z kstate_scheme \<Rightarrow> (wait_queue \<times> 'z kstate_scheme) option" where
  "add_waiters [] q s = Some (q, s)"
| "add_waiters (pid # pids) q s = Option.bind (add_waiter q pid 0 s) (\<lambda>(q1, s1). add_waiters pids q1 s1)"

lemma add_waiters_list:
  assumes "wq_rep q ps" "sseg (k_waiters s) ps" "distinct ps" "waiters_fresh s"
    and "32 * length pids \<le> memory_left s"
  shows "\<exists>q' s' ns. add_waiters pids q s = Some (q', s') \<and> wq_rep q' (ps @ ns) \<and>
           sseg (k_waiters s') (ps @ ns) \<and> distinct (ps @ ns) \<and> length ns = length pids \<and>
           map (pid_at (k_waiters s')) (ps @ ns) = map (pid_at (k_waiters s)) ps @ pids"
  using assms
proof (induction pids arbitrary: q s ps)
  case Nil
  then show ?case by (intro exI [of _ q] exI [of _ s] exI [of _ "[]"]) simp
next
  case (Cons pid pids)
  obtain p s0 where p: "new_waiter pid 0 NULL s = (p, s0)" by fastforce
  then have "p \<noteq> NULL" using new_waiter_mem [OF Cons.prems(4), of pid 0 NULL] Cons.prems(5) by simp
  obtain q1 s1 h where s1: "add_waiter q pid 0 s = Some (q1, s1)" "wq_rep q1 (ps @ [p])"
    "sseg (k_waiters s1) (ps @ [p])" "distinct (ps @ [p])" "waiters_fresh s1" "pid_at (k_waiters s1) p = pid"
    "\<forall>x \<in> dom (k_waiters s). wcore (k_waiters s1) x = wcore (k_waiters s) x"
    "memory_left s = memory_left s1 + 32"
    by (rule add_waiter_list [OF Cons.prems(1-4) p \<open>p \<noteq> NULL\<close>])
  have old: "map (pid_at (k_waiters s1)) ps = map (pid_at (k_waiters s)) ps"
    using s1(7) sseg_alloc [OF Cons.prems(2)] by (auto intro!: pid_at_wcore)
  have "32 * length pids \<le> memory_left s1" using Cons.prems(5) s1(8) by simp
  from Cons.IH [OF s1(2-5) this] obtain q' s' ns where n: "add_waiters pids q1 s1 = Some (q', s')"
    "wq_rep q' ((ps @ [p]) @ ns)" "sseg (k_waiters s') ((ps @ [p]) @ ns)" "distinct ((ps @ [p]) @ ns)"
    "length ns = length pids"
    "map (pid_at (k_waiters s')) ((ps @ [p]) @ ns) = map (pid_at (k_waiters s1)) (ps @ [p]) @ pids"
    by blast
  then show ?case
    using s1(1,6) old by (intro exI [of _ q'] exI [of _ s'] exI [of _ "p # ns"]) simp
qed

text \<open>
  C16. Wait queues are first-in first-out: after tasks have been added to an empty queue while there is
  memory for their entries, \<open>wake_waiters\<close> with a count unblocks that many of them (all, if the count
  is 0) in the order they came, and the queue then holds the others in order, with the right
  head, tail and counter.
\<close>

theorem wait_queue_fifo:
  assumes "waiters_fresh s" "wq_rep q []" "32 * length pids \<le> memory_left s"
    and "k = wake_number n (length pids)"
  shows "\<exists>q1 s1 q2 ns. add_waiters pids q s = Some (q1, s1) \<and>
           wake_waiters q1 n s1 = map_option (\<lambda>s2. (q2, s2)) (unblock_all (take k pids) s1) \<and>
           wq_rep q2 ns \<and> sseg (k_waiters s1) ns \<and> map (pid_at (k_waiters s1)) ns = drop k pids"
proof -
  obtain q1 s1 ns where a: "add_waiters pids q s = Some (q1, s1)" "wq_rep q1 ns" "sseg (k_waiters s1) ns"
    "distinct ns" "length ns = length pids" "map (pid_at (k_waiters s1)) ns = pids"
    using add_waiters_list [OF assms(2) _ _ assms(1,3)] by auto
  have len: "length ns < 2 ^ 32" using a(5) assms(3) memory_left_max [OF assms(1)] by simp
  have k: "k = wake_number n (length ns)" using assms(4) a(5) by simp
  obtain q2 where "wake_waiters q1 n s1 =
      map_option (\<lambda>s'. (q2, s')) (unblock_all (map (pid_at (k_waiters s1)) (take k ns)) s1)"
    "wq_rep q2 (drop k ns)"
    using wake_waiters_list [OF a(2-4) len k] by blast
  moreover have "sseg (k_waiters s1) (drop k ns)"
    using sseg_appendD [of _ "take k ns" "drop k ns"] a(3) by simp
  moreover have "map (pid_at (k_waiters s1)) (take k ns) = take k pids"
      "map (pid_at (k_waiters s1)) (drop k ns) = drop k pids"
    using a(6) by (simp_all flip: take_map drop_map)
  ultimately show ?thesis
    using a(1) by auto
qed

text \<open>
  C20. The timeout check of a wait queue ends, unblocks exactly the tasks whose timeout has passed, in
  the order they wait, and leaves the others queued in order with the right head, tail and counter.
\<close>

theorem check_timeouts_exact:
  assumes "wq_rep q ps" "sseg (k_waiters s) ps" "distinct ps"
  shows "\<exists>q' h. check_timeouts q s =
             map_option (\<lambda>s'. (q', s'\<lparr>k_waiters := h\<rparr>))
               (unblock_all (map (pid_at (k_waiters s))
                  (filter (due_at (tick_count (k_sched s)) (k_waiters s)) ps)) s) \<and>
           wq_rep q' (filter (\<lambda>p. \<not> due_at (tick_count (k_sched s)) (k_waiters s) p) ps) \<and>
           sseg h (filter (\<lambda>p. \<not> due_at (tick_count (k_sched s)) (k_waiters s) p) ps)"
  using wq.timeouts_list [of s "[]" ps q "tick_count (k_sched s)"] assms wq.rep_first [OF assms(1)]
  by (auto simp: check_timeouts_def get_tick_count_def)

section \<open>Mutexes\<close>

text \<open>
  A task that waited in \<open>mutex_lock\<close> becomes the owner when it runs again, whatever the mutex looks
  like by then: if another task took the mutex after the unlock that woke the waiter, the
  waiter overwrites its ownership and both are in the critical section.
\<close>

theorem mutex_resume_overwrites_owner:
  assumes "mutex_at h s = Some i" "get_current_pid (k_sched s) = Some pid" "mutex_lock h s = Susp s1 k"
    and "i < length (mutex_pool s2)"
  shows "\<exists>s3. k s2 = Ret 0 s3 \<and> mx_owner (mutex_pool s3 ! i) = pid \<and> mx_lock_count (mutex_pool s3 ! i) = 1"
proof -
  have "\<exists>s0. run_bind (k_block pid s0) (\<lambda>_ s2. Ret 0 (take_mutex i pid s2)) = Susp s1 k"
    using assms(1-3) by (auto simp: mutex_lock_def Let_def split: if_splits option.splits)
  then have "k = (\<lambda>s'. Ret 0 (take_mutex i pid (s'\<lparr>k_sched := exit_critical (k_sched s')\<rparr>)))"
    by (auto simp: k_block_def split: option.splits bool.splits prod.splits)
  then show ?thesis
    using assms(4) by (simp add: take_mutex_def set_mutex_def)
qed

fun lock_times :: "nat \<Rightarrow> nat option \<Rightarrow> 'z ipc_scheme \<Rightarrow> ('z ipc_scheme, int) run" where
  "lock_times 0 h s = Ret 0 s"
| "lock_times (Suc n) h s = run_bind (mutex_lock h s) (\<lambda>r s1. if r = 0 then lock_times n h s1 else Ret r s1)"

fun unlock_times :: "nat \<Rightarrow> nat option \<Rightarrow> 'z ipc_scheme \<Rightarrow> (int \<times> 'z ipc_scheme) option" where
  "unlock_times 0 h s = Some (0, s)"
| "unlock_times (Suc n) h s =
     Option.bind (mutex_unlock h s) (\<lambda>(r, s1). if r = 0 then unlock_times n h s1 else Some (r, s1))"

text \<open>The state with the mutex in slot \<open>i\<close> held \<open>n\<close> times.\<close>

definition held :: "nat \<Rightarrow> pid_t \<Rightarrow> nat \<Rightarrow> 'z ipc_scheme \<Rightarrow> 'z ipc_scheme" where
  "held i pid n s =
     set_mutex i ((mutex_pool s ! i)\<lparr>mx_owner := (if n = 0 then 0 else pid), mx_lock_count := of_nat n\<rparr>) s"

lemma sti_cli: "interrupts_on (k_sched s) \<Longrightarrow> sti (cli s) = s"
  by (cases s; cases "k_sched s") (simp add: sti_def cli_def)

lemma sti_set_mutex: "sti (set_mutex i m (cli s)) = set_mutex i m (sti (cli s))"
  by (simp add: sti_def cli_def set_mutex_def)

lemma cli_pool [simp]: "mutex_pool (cli s) = mutex_pool s" "semaphore_pool (cli s) = semaphore_pool s"
  by (simp_all add: cli_def)

lemma held_simps [simp]:
  assumes "mutex_at (Some i) s = Some i"
  shows "mutex_at (Some i) (held i pid n s) = Some i" "k_sched (held i pid n s) = k_sched s"
    "mx_owner (mutex_pool (held i pid n s) ! i) = (if n = 0 then 0 else pid)"
    "mx_lock_count (mutex_pool (held i pid n s) ! i) = of_nat n"
    "mx_wait_queue (mutex_pool (held i pid n s) ! i) = mx_wait_queue (mutex_pool s ! i)"
    "set_mutex i ((mutex_pool (held i pid n s) ! i)\<lparr>mx_owner := v, mx_lock_count := w\<rparr>) (held i pid n s)
     = set_mutex i ((mutex_pool s ! i)\<lparr>mx_owner := v, mx_lock_count := w\<rparr>) s"
  using assms by (auto simp: held_def set_mutex_def mutex_at_def split: if_splits)

lemma lock_held:
  assumes "mutex_at (Some i) s = Some i" "get_current_pid (k_sched s) = Some pid" "pid \<noteq> 0"
    and "interrupts_on (k_sched s)" "Suc n < 2 ^ 32"
  shows "mutex_lock (Some i) (held i pid n s) = Ret 0 (held i pid (Suc n) s)"
proof -
  note h = held_simps [OF assms(1)]
  let ?h = "held i pid n s"
  have m: "(mutex_pool ?h ! i)\<lparr>mx_lock_count := c\<rparr> = (mutex_pool ?h ! i)\<lparr>mx_owner := pid, mx_lock_count := c\<rparr>"
    if "n \<noteq> 0" for c
    using h(3) [of pid n] that by (cases "mutex_pool ?h ! i") simp
  have "mutex_lock (Some i) ?h = Ret 0 (sti (set_mutex i ((mutex_pool ?h ! i)
      \<lparr>mx_owner := pid, mx_lock_count := of_nat (Suc n)\<rparr>) (cli ?h)))"
  proof (cases "n = 0")
    case False
    show ?thesis
      using assms(2) False h(1-4) [of pid n]
      by (simp add: mutex_lock_def relock_mutex_def Let_def add.commute m [OF False])
  qed (use assms(2,3) h(1-4) [of pid n] in \<open>simp add: mutex_lock_def take_mutex_def Let_def\<close>)
  also have "\<dots> = Ret 0 (held i pid (Suc n) s)"
    using assms(4) h(2) [of pid n] h(6) [where pid = pid and n = n]
    by (simp add: sti_set_mutex sti_cli) (simp add: held_def)
  finally show ?thesis .
qed

lemma mutex_upd_comm: "m\<lparr>mx_lock_count := c, mx_owner := v\<rparr> = m\<lparr>mx_owner := v, mx_lock_count := c\<rparr>" for m :: mutex
  by (cases m) simp

lemma unlock_held:
  assumes "mutex_at (Some i) s = Some i" "get_current_pid (k_sched s) = Some pid" "pid \<noteq> 0"
    and "interrupts_on (k_sched s)" "Suc n < 2 ^ 32" "wq_waiter_count (mx_wait_queue (mutex_pool s ! i)) = 0"
  shows "mutex_unlock (Some i) (held i pid (Suc n) s) = Some (0, held i pid n s)"
proof -
  note h = held_simps [OF assms(1)]
  let ?h = "held i pid (Suc n) s"
  have c: "of_nat (Suc n) - 1 = (of_nat n :: u32)" by simp
  have z: "(of_nat n :: u32) = 0 \<longleftrightarrow> n = 0"
    using assms(5) by (auto simp: word_of_nat_eq_0_iff dest: dvd_imp_le)
  have m: "(mutex_pool ?h ! i)\<lparr>mx_lock_count := c\<rparr> = (mutex_pool ?h ! i)\<lparr>mx_owner := pid, mx_lock_count := c\<rparr>" for c
    using h(3) [of pid "Suc n"] by (cases "mutex_pool ?h ! i") simp
  have "mutex_unlock (Some i) ?h = Some (0, sti (set_mutex i ((mutex_pool ?h ! i)
      \<lparr>mx_owner := (if n = 0 then 0 else pid), mx_lock_count := of_nat n\<rparr>) (cli ?h)))"
    using assms(2,6) h(1-5) [of pid "Suc n"] z
    by (cases "n = 0") (simp_all add: mutex_unlock_def Let_def m mutex_upd_comm)
  also have "\<dots> = Some (0, held i pid n s)"
    using assms(4) h(2) [of pid "Suc n"] h(6) [where pid = pid and n = "Suc n"]
    by (simp add: sti_set_mutex sti_cli) (simp add: held_def)
  finally show ?thesis .
qed

lemma lock_times_held:
  assumes "mutex_at (Some i) s = Some i" "get_current_pid (k_sched s) = Some pid" "pid \<noteq> 0"
    and "interrupts_on (k_sched s)" "m + n < 2 ^ 32"
  shows "lock_times n (Some i) (held i pid m s) = Ret 0 (held i pid (m + n) s)"
  using assms(5)
proof (induction n arbitrary: m)
  case (Suc n)
  then show ?case using lock_held [OF assms(1-4), of m] Suc.IH [of "Suc m"] by simp
qed simp

lemma unlock_times_held:
  assumes "mutex_at (Some i) s = Some i" "get_current_pid (k_sched s) = Some pid" "pid \<noteq> 0"
    and "interrupts_on (k_sched s)" "wq_waiter_count (mx_wait_queue (mutex_pool s ! i)) = 0" "n < 2 ^ 32"
  shows "unlock_times n (Some i) (held i pid n s) = Some (0, held i pid 0 s)"
  using assms(6)
proof (induction n)
  case (Suc n)
  then show ?case using unlock_held [OF assms(1-4) _ assms(5), of n] by simp
qed simp

text \<open>
  Locks nest: when a task locks a free mutex any number of times, it owns the mutex, and as many
  unlocks give back exactly the state before.
\<close>

theorem mutex_recursive_roundtrip:
  assumes "mutex_at (Some i) s = Some i" "get_current_pid (k_sched s) = Some pid" "pid \<noteq> 0"
    and "interrupts_on (k_sched s)" "wq_waiter_count (mx_wait_queue (mutex_pool s ! i)) = 0"
    and "mx_owner (mutex_pool s ! i) = 0" "mx_lock_count (mutex_pool s ! i) = 0" "n < 2 ^ 32"
  shows "\<exists>s1. lock_times n (Some i) s = Ret 0 s1 \<and> unlock_times n (Some i) s1 = Some (0, s) \<and>
           (0 < n \<longrightarrow> mx_owner (mutex_pool s1 ! i) = pid)"
proof -
  have "(mutex_pool s ! i)\<lparr>mx_owner := 0, mx_lock_count := 0\<rparr> = mutex_pool s ! i"
    using assms(6,7) by (cases "mutex_pool s ! i") simp
  then have "held i pid 0 s = s"
    by (simp add: held_def set_mutex_def)
  moreover have "0 < n \<longrightarrow> mx_owner (mutex_pool (held i pid n s) ! i) = pid"
    using held_simps(3) [OF assms(1), of pid n] by simp
  ultimately show ?thesis
    using lock_times_held [OF assms(1-4), of 0 n] unlock_times_held [OF assms(1-5,8)] assms(8) by auto
qed

section \<open>Sections under a free mutex\<close>

text \<open>The mutex is free, nobody waits for it, and the current task \<open>pid\<close> may lock it.\<close>

definition mutex_idle :: "nat option \<Rightarrow> pid_t \<Rightarrow> 'z ipc_scheme \<Rightarrow> bool" where
  "mutex_idle h pid s \<longleftrightarrow>
     (\<exists>m. h = Some m \<and> mutex_at (Some m) s = Some m \<and> get_current_pid (k_sched s) = Some pid \<and> pid \<noteq> 0 \<and>
          interrupts_on (k_sched s) \<and> wq_waiter_count (mx_wait_queue (mutex_pool s ! m)) = 0 \<and>
          mx_owner (mutex_pool s ! m) = 0 \<and> mx_lock_count (mutex_pool s ! m) = 0)"

lemma held_0: "mutex_idle (Some m) pid s \<Longrightarrow> held m pid 0 s = s"
proof -
  assume "mutex_idle (Some m) pid s"
  then have "(mutex_pool s ! m)\<lparr>mx_owner := 0, mx_lock_count := 0\<rparr> = mutex_pool s ! m"
    by (cases "mutex_pool s ! m") (simp add: mutex_idle_def)
  then show ?thesis by (simp add: held_def set_mutex_def)
qed

lemma lock_idle: "mutex_idle (Some m) pid s \<Longrightarrow> mutex_lock (Some m) s = Ret 0 (held m pid (Suc 0) s)"
  using lock_held [of m s pid 0] held_0 [of m pid s] by (simp add: mutex_idle_def)

lemma unlock_idle: "mutex_idle (Some m) pid s \<Longrightarrow> mutex_unlock (Some m) (held m pid (Suc 0) s) = Some (0, s)"
  using unlock_held [of m s pid 0] held_0 [of m pid s] by (simp add: mutex_idle_def)

lemma mutex_idle_cong:
  assumes "mutex_pool s = mutex_pool t" "get_current_pid (k_sched s) = get_current_pid (k_sched t)"
    and "interrupts_on (k_sched s) = interrupts_on (k_sched t)"
  shows "mutex_idle h pid s = mutex_idle h pid t"
  unfolding mutex_idle_def mutex_at_def using assms by simp

text \<open>A lock call on a mutex of another task leaves the mutex to it up to the switch.\<close>

lemma add_waiter_mutexes: "add_waiter q pid t s = Some (q', s') \<Longrightarrow> mutex_pool s' = mutex_pool s"
  by (auto simp: add_waiter_def new_waiter_def set_next_def Let_def bind_eq_Some_conv
      split: if_splits option.splits prod.splits)

lemma k_block_mutexes: "k_block pid s = Susp s' k \<Longrightarrow> mutex_pool s' = mutex_pool s"
  by (auto simp: k_block_def split: option.splits bool.splits prod.splits)

lemma lock_contended:
  assumes "mutex_at (Some i) s = Some i" "get_current_pid (k_sched s) = Some pid"
    and "mx_owner (mutex_pool s ! i) \<noteq> 0" "mx_owner (mutex_pool s ! i) \<noteq> pid" "mutex_lock (Some i) s = Susp s' k"
  shows "mx_owner (mutex_pool s' ! i) = mx_owner (mutex_pool s ! i) \<and>
         mx_lock_count (mutex_pool s' ! i) = mx_lock_count (mutex_pool s ! i)"
proof -
  let ?m = "mutex_pool s ! i"
  have i: "i < length (mutex_pool s)" using assms(1) by (auto simp: mutex_at_def split: if_splits)
  obtain q s1 where q: "add_waiter (mx_wait_queue ?m) pid 0 (cli s) = Some (q, s1)"
    and run: "run_bind (k_block pid (sti (set_mutex i (?m\<lparr>mx_wait_queue := q\<rparr>) s1))) (\<lambda>_ s2. Ret 0 (take_mutex i pid s2)) = Susp s' k"
    using assms by (auto simp: mutex_lock_def Let_def split: option.splits)
  have "mutex_pool s' = mutex_pool (sti (set_mutex i (?m\<lparr>mx_wait_queue := q\<rparr>) s1))"
    using run k_block_mutexes by (cases "k_block pid (sti (set_mutex i (?m\<lparr>mx_wait_queue := q\<rparr>) s1))") auto
  then show ?thesis
    using add_waiter_mutexes [OF q] i by (simp add: sti_def set_mutex_def)
qed


section \<open>Semaphores\<close>

text \<open>What the scheduler part may change without affecting the waiters.\<close>

lemma waiters_fresh_sched:
  "sc_heap sc = sc_heap (k_sched s) \<Longrightarrow> waiters_fresh (s\<lparr>k_sched := sc\<rparr>) = waiters_fresh s"
  by (simp add: waiters_fresh_def)

lemma unblock_all_heap:
  "unblock_all pids s = Some s' \<Longrightarrow> \<exists>sc. s' = s\<lparr>k_sched := sc\<rparr> \<and> sc_heap sc = sc_heap (k_sched s)"
proof (induction pids arbitrary: s)
  case Nil
  then show ?case by (intro exI [of _ "k_sched s"]) simp
next
  case (Cons p ps)
  then obtain sc where sc: "unblock_task p (k_sched s) = Some sc" "unblock_all ps (s\<lparr>k_sched := sc\<rparr>) = Some s'"
    by (auto simp: k_unblock_def bind_eq_Some_conv split: option.splits)
  from Cons.IH [OF sc(2)] unblock_task_heap [OF sc(1)] show ?case by auto
qed

text \<open>
  A run on the semaphore in slot \<open>i\<close> from the state \<open>s0\<close>, with the number of successful posts and
  of units granted: to a wait that finds the value positive, to a \<open>trywait\<close> that succeeds, and to a
  waiter that a post wakes. A wait that finds no unit queues the caller and suspends it, or, where
  \<^verbatim>\<open>block_task\<close> does not switch to another task, returns at once; no unit is granted then. In
  between, any other activity may take place that leaves the semaphore and the allocated waiters alone.
\<close>

definition other_step :: "nat \<Rightarrow> 'z ipc_scheme \<Rightarrow> 'z ipc_scheme \<Rightarrow> bool" where
  "other_step i s s' \<longleftrightarrow> length (semaphore_pool s') = length (semaphore_pool s) \<and>
     semaphore_pool s' ! i = semaphore_pool s ! i \<and>
     (\<forall>p \<in> dom (k_waiters s). k_waiters s' p = k_waiters s p) \<and> waiters_fresh s' \<and>
     memory_left s' \<le> memory_left s"

abbreviation sem_of :: "nat \<Rightarrow> 'z ipc_scheme \<Rightarrow> semaphore" where
  "sem_of i s \<equiv> semaphore_pool s ! i"

inductive sem_run :: "nat \<Rightarrow> 'z ipc_scheme \<Rightarrow> nat \<Rightarrow> nat \<Rightarrow> 'z ipc_scheme \<Rightarrow> bool" for i s0 where
  run_start: "sem_run i s0 0 0 s0"
| run_wait: "sem_run i s0 p g s \<Longrightarrow> 0 < sint (sm_value (sem_of i s)) \<Longrightarrow>
     semaphore_wait (Some i) s = Ret r s' \<Longrightarrow> sem_run i s0 p (Suc g) s'"
| run_suspend: "sem_run i s0 p g s \<Longrightarrow> semaphore_wait (Some i) s = Susp s' k \<Longrightarrow> sem_run i s0 p g s'"
| run_pass: "sem_run i s0 p g s \<Longrightarrow> \<not> 0 < sint (sm_value (sem_of i s)) \<Longrightarrow>
     semaphore_wait (Some i) s = Ret r s' \<Longrightarrow> sem_run i s0 p g s'"
| run_trywait: "sem_run i s0 p g s \<Longrightarrow> semaphore_trywait (Some i) s = (r, s') \<Longrightarrow>
     sem_run i s0 p (if r = 0 then Suc g else g) s'"
| run_post: "sem_run i s0 p g s \<Longrightarrow> semaphore_post (Some i) s = Some (r, s') \<Longrightarrow>
     sem_run i s0 (if r = 0 then Suc p else p)
       (if r = 0 \<and> 0 < wq_waiter_count (sm_wait_queue (sem_of i s)) then Suc g else g) s'"
| run_other: "sem_run i s0 p g s \<Longrightarrow> other_step i s s' \<Longrightarrow> sem_run i s0 p g s'"

definition sem_inv :: "nat \<Rightarrow> int \<Rightarrow> 'z ipc_scheme \<Rightarrow> bool" where
  "sem_inv i v s \<longleftrightarrow> (\<exists>ps. semaphore_at (Some i) s = Some i \<and> waiters_fresh s \<and>
     wq_rep (sm_wait_queue (sem_of i s)) ps \<and> sseg (k_waiters s) ps \<and> distinct ps \<and>
     32 * length ps + memory_left s \<le> 2 ^ 24 \<and> sm_max_value (sem_of i s) = 0x7FFFFFFF \<and>
     sm_value (sem_of i s) \<le> 0x7FFFFFFF \<and> uint (sm_value (sem_of i s)) = v \<and> (ps \<noteq> [] \<longrightarrow> v = 0))"

lemma sint_nonneg: "v \<le> 0x7FFFFFFF \<Longrightarrow> sint (v :: 32 word) = uint v"
  unfolding sint_uint
  by (rule signed_take_bit_int_eq_self) (auto simp: word_le_def intro: order_trans [OF _ uint_ge_0])

lemma sem_at_set [simp]:
  "semaphore_at (Some i) s = Some i \<Longrightarrow> sm_header m = sm_header (sem_of i s) \<Longrightarrow>
   semaphore_at (Some i) (set_semaphore i m s) = Some i"
  by (auto simp: semaphore_at_def set_semaphore_def split: if_splits)

lemma sem_of_set [simp]: "semaphore_at (Some i) s = Some i \<Longrightarrow> sem_of i (set_semaphore i m s) = m"
  by (auto simp: semaphore_at_def set_semaphore_def split: if_splits)

lemma set_semaphore_simps [simp]:
  "k_waiters (set_semaphore i m s) = k_waiters s" "k_sched (set_semaphore i m s) = k_sched s"
  by (simp_all add: set_semaphore_def)

lemma sti_simps [simp]:
  "k_waiters (sti s) = k_waiters s" "semaphore_pool (sti t) = semaphore_pool t"
  "k_waiters (cli s) = k_waiters s" "sc_heap (k_sched (sti s)) = sc_heap (k_sched s)"
  "sc_heap (k_sched (cli s)) = sc_heap (k_sched s)"
  by (simp_all add: sti_def cli_def)

lemma semaphore_at_pool: "semaphore_pool s = semaphore_pool t \<Longrightarrow> semaphore_at h s = semaphore_at h t"
  by (cases h) (simp_all add: semaphore_at_def)

lemma waiters_fresh_cong:
  "k_waiters s = k_waiters t \<Longrightarrow> sc_heap (k_sched s) = sc_heap (k_sched t) \<Longrightarrow> waiters_fresh s = waiters_fresh t"
  by (simp add: waiters_fresh_def)

text \<open>The invariant depends on the pool, the waiters and the heap only.\<close>

lemma sem_inv_cong:
  assumes "semaphore_pool s = semaphore_pool t" "k_waiters s = k_waiters t"
    and "sc_heap (k_sched s) = sc_heap (k_sched t)"
  shows "sem_inv i v s = sem_inv i v t"
  unfolding sem_inv_def using assms waiters_fresh_cong [OF assms(2,3)] semaphore_at_pool [OF assms(1)] by simp

lemma sem_invE:
  assumes "sem_inv i v s"
  obtains ps where "semaphore_at (Some i) s = Some i" "waiters_fresh s"
    "wq_rep (sm_wait_queue (sem_of i s)) ps" "sseg (k_waiters s) ps" "distinct ps"
    "32 * length ps + memory_left s \<le> 2 ^ 24" "sm_max_value (sem_of i s) = 0x7FFFFFFF"
    "sm_value (sem_of i s) \<le> 0x7FFFFFFF" "uint (sm_value (sem_of i s)) = v" "ps \<noteq> [] \<longrightarrow> v = 0"
    "0 < wq_waiter_count (sm_wait_queue (sem_of i s)) \<longleftrightarrow> ps \<noteq> []" "sint (sm_value (sem_of i s)) = v"
proof -
  obtain ps where ps: "semaphore_at (Some i) s = Some i" "waiters_fresh s"
    "wq_rep (sm_wait_queue (sem_of i s)) ps" "sseg (k_waiters s) ps" "distinct ps"
    "32 * length ps + memory_left s \<le> 2 ^ 24" "sm_max_value (sem_of i s) = 0x7FFFFFFF"
    "sm_value (sem_of i s) \<le> 0x7FFFFFFF" "uint (sm_value (sem_of i s)) = v" "ps \<noteq> [] \<longrightarrow> v = 0"
    using assms unfolding sem_inv_def by blast
  have "length ps < 2 ^ 32" using ps(6) by simp
  then have "(of_nat (length ps) :: u32) = 0 \<longleftrightarrow> ps = []"
    by (auto simp: word_of_nat_eq_0_iff dest: dvd_imp_le)
  then have "0 < wq_waiter_count (sm_wait_queue (sem_of i s)) \<longleftrightarrow> ps \<noteq> []"
    using ps(3) by (simp add: wq_rep_def word_gt_0)
  from that [OF ps this] sint_nonneg [OF ps(8)] ps(9) show ?thesis by simp
qed

lemma sem_inv_value:
  assumes "sem_inv i v s" "w \<le> 0x7FFFFFFF" "0 < wq_waiter_count (sm_wait_queue (sem_of i s)) \<Longrightarrow> w = 0"
  shows "sem_inv i (uint w) (set_semaphore i ((sem_of i s)\<lparr>sm_value := w\<rparr>) s)"
  using assms
proof (elim sem_invE)
  fix ps assume ps: "semaphore_at (Some i) s = Some i" "waiters_fresh s"
    "wq_rep (sm_wait_queue (sem_of i s)) ps" "sseg (k_waiters s) ps" "distinct ps"
    "32 * length ps + memory_left s \<le> 2 ^ 24" "sm_max_value (sem_of i s) = 0x7FFFFFFF"
    "0 < wq_waiter_count (sm_wait_queue (sem_of i s)) \<longleftrightarrow> ps \<noteq> []"
  have "ps \<noteq> [] \<Longrightarrow> w = 0" using assms(3) ps(8) by simp
  moreover have "waiters_fresh (set_semaphore i m s)" for m
    using ps(2) waiters_fresh_cong [of "set_semaphore i m s" s] by simp
  ultimately show ?thesis
    unfolding sem_inv_def using ps assms(2) by (intro exI [of _ ps]) simp
qed

lemma sem_inv_take:
  assumes "sem_inv i v s" "0 < v"
  shows "sem_inv i (v - 1) (add_value i (- 1) s)"
  using assms
proof (elim sem_invE)
  fix ps assume ps: "sm_value (sem_of i s) \<le> 0x7FFFFFFF" "uint (sm_value (sem_of i s)) = v" "ps \<noteq> [] \<longrightarrow> v = 0"
    "0 < wq_waiter_count (sm_wait_queue (sem_of i s)) \<longleftrightarrow> ps \<noteq> []"
  let ?w = "sm_value (sem_of i s)"
  have "1 \<le> ?w" using ps(2) assms(2) by (simp add: word_le_def)
  then have u: "uint (?w - 1) = v - 1" using ps(2) by (simp add: uint_sub_if_size word_le_def)
  moreover have "?w - 1 \<le> 0x7FFFFFFF" using ps(1,2) u by (simp add: word_le_def)
  moreover have "\<not> 0 < wq_waiter_count (sm_wait_queue (sem_of i s))" using ps(3,4) assms(2) by auto
  ultimately show ?thesis
    using sem_inv_value [OF assms(1), of "?w - 1"] by (simp add: add_value_def)
qed

lemma sem_inv_give:
  assumes "sem_inv i v s" "sm_value (sem_of i s) \<noteq> 0x7FFFFFFF"
    and "\<not> 0 < wq_waiter_count (sm_wait_queue (sem_of i s))"
  shows "sem_inv i (v + 1) (add_value i 1 s)"
  using assms(1)
proof (elim sem_invE)
  assume v: "sm_value (sem_of i s) \<le> 0x7FFFFFFF" "uint (sm_value (sem_of i s)) = v"
  let ?w = "sm_value (sem_of i s)"
  have "?w < 0x7FFFFFFF" using v(1) assms(2) by simp
  then have "uint ?w < 0x7FFFFFFF" by (simp add: word_less_def)
  then have "uint (?w + 1) = v + 1" using v(2) by (simp add: uint_plus_if_size word_size)
  moreover from this have "?w + 1 \<le> 0x7FFFFFFF" using \<open>uint ?w < 0x7FFFFFFF\<close> v(2) by (simp add: word_le_def)
  ultimately show ?thesis
    using sem_inv_value [OF assms(1), of "?w + 1"] assms(3) by (simp add: add_value_def)
qed

lemma add_waiter_inv:
  assumes "wq_rep q ps" "sseg (k_waiters s) ps" "distinct ps" "waiters_fresh s"
    and "32 * length ps + memory_left s \<le> 2 ^ 24" "add_waiter q pid t s = Some (q', s')"
  obtains ps' h where "wq_rep q' ps'" "sseg (k_waiters s') ps'" "distinct ps'" "waiters_fresh s'"
    "32 * length ps' + memory_left s' \<le> 2 ^ 24"
    "s' = s\<lparr>k_sched := (k_sched s)\<lparr>sc_heap := h\<rparr>, k_waiters := k_waiters s'\<rparr>"
proof -
  obtain p s1 where p: "new_waiter pid t NULL s = (p, s1)" by fastforce
  show ?thesis
  proof (cases "p = NULL")
    case True
    with new_waiter_NULL [OF assms(4)] p have "s1 = s" by simp
    with p True assms(6) have "q' = q" "s' = s" by (simp_all add: add_waiter_def)
    with that [of ps "sc_heap (k_sched s)"] assms(1-5) show ?thesis by simp
  next
    case False
    obtain q2 s2 h where *: "add_waiter q pid t s = Some (q2, s2)" "wq_rep q2 (ps @ [p])"
      "sseg (k_waiters s2) (ps @ [p])" "distinct (ps @ [p])" "waiters_fresh s2" "pid_at (k_waiters s2) p = pid"
      "\<forall>x \<in> dom (k_waiters s). wcore (k_waiters s2) x = wcore (k_waiters s) x"
      "memory_left s = memory_left s2 + 32"
      "s2 = s\<lparr>k_sched := (k_sched s)\<lparr>sc_heap := h\<rparr>, k_waiters := k_waiters s2\<rparr>"
      by (rule add_waiter_list [OF assms(1-4) p False])
    have "q' = q2" "s' = s2" using *(1) assms(6) by simp_all
    moreover have "32 * length (ps @ [p]) + memory_left s2 \<le> 2 ^ 24" using *(8) assms(5) by simp
    ultimately show ?thesis
      using that [of "ps @ [p]" h] *(2-5,9) by simp
  qed
qed

lemma k_block_frame:
  "k_block pid s = Susp s' k \<or> k_block pid s = Ret r s' \<Longrightarrow> \<exists>sc. s' = s\<lparr>k_sched := sc\<rparr> \<and> sc_heap sc = sc_heap (k_sched s)"
  by (auto simp: k_block_def split: option.splits bool.splits prod.splits dest: block_task_heap)

lemma sem_inv_suspend:
  assumes "sem_inv i v s"
    and "semaphore_wait (Some i) s = Susp s' k \<or>
         \<not> 0 < sint (sm_value (sem_of i s)) \<and> semaphore_wait (Some i) s = Ret r s'"
  shows "sem_inv i v s'"
  using assms(1)
proof (elim sem_invE)
  fix ps assume ps: "semaphore_at (Some i) s = Some i" "waiters_fresh s"
    "wq_rep (sm_wait_queue (sem_of i s)) ps" "sseg (k_waiters s) ps" "distinct ps"
    "32 * length ps + memory_left s \<le> 2 ^ 24" "sm_max_value (sem_of i s) = 0x7FFFFFFF"
    "sm_value (sem_of i s) \<le> 0x7FFFFFFF" "uint (sm_value (sem_of i s)) = v"
    "sint (sm_value (sem_of i s)) = v"
  let ?m = "sem_of i s"
  have n: "\<not> 0 < v"
    using assms(2) ps(1,10) by (auto simp: semaphore_wait_def Let_def split: option.splits)
  then obtain pid q s1 where s1: "add_waiter (sm_wait_queue ?m) pid 0 (cli s) = Some (q, s1)"
    "run_bind (k_block pid (sti (set_semaphore i (?m\<lparr>sm_wait_queue := q\<rparr>) s1))) (\<lambda>_ s2. Ret 0 s2)
       \<in> {Susp s' k, Ret r s'}"
    using assms(2) ps(1,10) by (auto simp: semaphore_wait_def Let_def split: option.splits)
  let ?s2 = "sti (set_semaphore i (?m\<lparr>sm_wait_queue := q\<rparr>) s1)"
  obtain ps' h where q: "wq_rep q ps'" "sseg (k_waiters s1) ps'" "distinct ps'" "waiters_fresh s1"
    "32 * length ps' + memory_left s1 \<le> 2 ^ 24"
    "s1 = (cli s)\<lparr>k_sched := (k_sched (cli s))\<lparr>sc_heap := h\<rparr>, k_waiters := k_waiters s1\<rparr>"
    by (rule add_waiter_inv [OF ps(3) _ ps(5) _ _ s1(1)])
      (use ps(2,4,6) waiters_fresh_cong [of "cli s" s] in simp_all)
  have at: "semaphore_at (Some i) s1 = Some i" "sem_of i s1 = ?m"
    using ps(1) by (subst q(6); simp add: cli_def semaphore_at_def)+
  have fr: "waiters_fresh ?s2"
    using q(4) waiters_fresh_cong [of ?s2 s1] by simp
  have "sem_inv i v ?s2"
    unfolding sem_inv_def
    using at q(1-3,5) fr ps(7-9) n semaphore_at_pool [of ?s2 "set_semaphore i (?m\<lparr>sm_wait_queue := q\<rparr>) s1"]
      uint_ge_0 [of "sm_value ?m"]
    by (intro exI [of _ ps']) simp
  moreover obtain sc where "s' = ?s2\<lparr>k_sched := sc\<rparr>" "sc_heap sc = sc_heap (k_sched ?s2)"
    using s1(2) k_block_frame [of pid ?s2 s'] by (cases "k_block pid ?s2") auto
  ultimately show ?thesis
    using sem_inv_cong [of s' ?s2] by simp
qed

lemma sem_inv_sti_cli: "sem_inv i v (sti (cli s)) = sem_inv i v s" "sem_inv i v (cli s) = sem_inv i v s"
    "sem_inv i v (sti s) = sem_inv i v s"
  by (rule sem_inv_cong; simp)+

lemma sem_inv_handoff:
  assumes "sem_inv i v s" "0 < wq_waiter_count (sm_wait_queue (sem_of i s))"
    and "wake_waiters (sm_wait_queue (sem_of i s)) 1 s = Some (q, s1)"
  shows "sem_inv i v (set_semaphore i ((sem_of i s)\<lparr>sm_wait_queue := q\<rparr>) s1)"
  using assms(1)
proof (elim sem_invE)
  fix ps assume ps: "semaphore_at (Some i) s = Some i" "waiters_fresh s"
    "wq_rep (sm_wait_queue (sem_of i s)) ps" "sseg (k_waiters s) ps" "distinct ps"
    "32 * length ps + memory_left s \<le> 2 ^ 24" "sm_max_value (sem_of i s) = 0x7FFFFFFF"
    "sm_value (sem_of i s) \<le> 0x7FFFFFFF" "uint (sm_value (sem_of i s)) = v" "ps \<noteq> [] \<longrightarrow> v = 0"
    "0 < wq_waiter_count (sm_wait_queue (sem_of i s)) \<longleftrightarrow> ps \<noteq> []"
  let ?m = "sem_of i s"
  have len: "length ps < 2 ^ 32" using ps(6) by simp
  obtain q' where q': "wake_waiters (sm_wait_queue ?m) 1 s = map_option (\<lambda>s'. (q', s'))
      (unblock_all (map (pid_at (k_waiters s)) (take (wake_number 1 (length ps)) ps)) s)"
    "wq_rep q' (drop (wake_number 1 (length ps)) ps)"
    using wake_waiters_list [OF ps(3-5) len refl] by blast
  with assms(3) obtain sc where s1: "q = q'" "s1 = s\<lparr>k_sched := sc\<rparr>" "sc_heap sc = sc_heap (k_sched s)"
    by (auto dest!: unblock_all_heap)
  let ?s2 = "set_semaphore i (?m\<lparr>sm_wait_queue := q\<rparr>) s1" and ?d = "drop (wake_number 1 (length ps)) ps"
  have at: "semaphore_at (Some i) s1 = Some i" "sem_of i s1 = ?m"
    using ps(1) s1(2) semaphore_at_pool [of s1 s] by simp_all
  have "waiters_fresh ?s2"
    using ps(2) s1(2,3) waiters_fresh_cong [of ?s2 s] by simp
  moreover have "sseg (k_waiters s) ?d"
    using sseg_appendD [of _ "take (wake_number 1 (length ps)) ps"] ps(4) by simp
  moreover have "32 * length ?d + memory_left ?s2 \<le> 2 ^ 24"
    using ps(6) s1(2,3) by simp
  ultimately show ?thesis
    unfolding sem_inv_def using at q'(2) s1 ps(5,7-11) assms(2)
    by (intro exI [of _ ?d]) simp
qed

lemma sem_inv_post:
  assumes "sem_inv i v s" "semaphore_post (Some i) s = Some (r, s')"
  shows "sem_inv i (if r = 0 \<and> \<not> 0 < wq_waiter_count (sm_wait_queue (sem_of i s)) then v + 1 else v) s'"
proof -
  have at: "semaphore_at (Some i) s = Some i" "sm_max_value (sem_of i s) = 0x7FFFFFFF"
    using assms(1) by (auto elim: sem_invE)
  let ?m = "sem_of i s"
  have inv: "sem_inv i v (cli s)" using assms(1) by (simp add: sem_inv_sti_cli)
  consider "sm_value ?m = sm_max_value ?m" "r = - 1" "s' = sti (cli s)"
    | q s1 where "0 < wq_waiter_count (sm_wait_queue ?m)" "wake_waiters (sm_wait_queue ?m) 1 (cli s) = Some (q, s1)"
        "r = 0" "s' = sti (set_semaphore i (?m\<lparr>sm_wait_queue := q\<rparr>) s1)"
    | "sm_value ?m \<noteq> sm_max_value ?m" "\<not> 0 < wq_waiter_count (sm_wait_queue ?m)" "r = 0" "s' = sti (add_value i 1 (cli s))"
    using assms(2) at(1) by (auto simp: semaphore_post_def Let_def bind_eq_Some_conv split: if_splits)
  then show ?thesis
  proof cases
    case 1
    with assms(1) show ?thesis by (simp add: sem_inv_sti_cli)
  next
    case 2
    with sem_inv_handoff [OF inv] show ?thesis by (simp add: sem_inv_sti_cli)
  next
    case 3
    with sem_inv_give [OF inv] at(2) show ?thesis by (simp add: sem_inv_sti_cli)
  qed
qed

lemma sem_inv_other:
  assumes "sem_inv i v s" "other_step i s s'"
  shows "sem_inv i v s'"
  using assms(1)
proof (elim sem_invE)
  fix ps assume ps: "semaphore_at (Some i) s = Some i"
    "wq_rep (sm_wait_queue (sem_of i s)) ps" "sseg (k_waiters s) ps" "distinct ps"
    "32 * length ps + memory_left s \<le> 2 ^ 24" "sm_max_value (sem_of i s) = 0x7FFFFFFF"
    "sm_value (sem_of i s) \<le> 0x7FFFFFFF" "uint (sm_value (sem_of i s)) = v" "ps \<noteq> [] \<longrightarrow> v = 0"
  note o = assms(2) [unfolded other_step_def]
  have "sseg (k_waiters s') ps = sseg (k_waiters s) ps"
    using o sseg_alloc [OF ps(3)] by (intro sseg_cong) auto
  moreover have "semaphore_at (Some i) s' = Some i"
    using ps(1) o by (simp add: semaphore_at_def split: if_splits)
  ultimately show ?thesis
    unfolding sem_inv_def using ps o by (intro exI [of _ ps]) simp
qed

lemma sem_run_inv:
  "sem_run i s0 p g s \<Longrightarrow> sem_inv i v s0 \<Longrightarrow> sem_inv i (v + int p - int g) s"
proof (induction rule: sem_run.induct)
  case (run_wait p g s r s')
  then have inv: "sem_inv i (v + int p - int g) s" by simp
  then have "semaphore_at (Some i) s = Some i" "sint (sm_value (sem_of i s)) = v + int p - int g"
    by (auto elim: sem_invE)
  with run_wait have "s' = sti (add_value i (- 1) (cli s))" "0 < v + int p - int g"
    by (auto simp: semaphore_wait_def Let_def split: option.splits)
  with sem_inv_take [of i "v + int p - int g" "cli s"] inv show ?case
    by (simp add: sem_inv_sti_cli algebra_simps)
next
  case (run_trywait p g s r s')
  then have inv: "sem_inv i (v + int p - int g) s" by simp
  then have "semaphore_at (Some i) s = Some i" "sint (sm_value (sem_of i s)) = v + int p - int g"
    by (auto elim: sem_invE)
  with run_trywait sem_inv_take [of i "v + int p - int g" "cli s"] inv show ?case
    by (auto simp: semaphore_trywait_def Let_def sem_inv_sti_cli algebra_simps split: if_splits)
next
  case (run_post p g s r s')
  then have inv: "sem_inv i (v + int p - int g) s" by simp
  from sem_inv_post [OF this run_post(2)] show ?case
    by (auto simp: algebra_simps split: if_splits)
next
  case (run_pass p g s r s')
  then show ?case using sem_inv_suspend by blast
qed (auto intro: sem_inv_suspend sem_inv_other)

lemma create_semaphore_inv:
  assumes "waiters_fresh s" "create_semaphore name v s = (Some i, s0)" "v \<le> 0x7FFFFFFF"
  shows "sem_inv i (uint v) s0"
proof -
  have "find_free_semaphore s = Some i"
    using assms(2) by (auto simp: create_semaphore_def split: option.splits)
  then have "i < length (semaphore_pool s)"
    by (auto simp: find_free_semaphore_def scan_from_Some)
  moreover have "waiters_fresh s0" "memory_left s0 \<le> 2 ^ 24"
    using assms(1,2) memory_left_max [OF assms(1)] waiters_fresh_cong [of s0 s]
    by (auto simp: create_semaphore_def split: option.splits)
  ultimately show ?thesis
    unfolding sem_inv_def using assms(2,3)
    by (intro exI [of _ "[]"])
      (auto simp: create_semaphore_def semaphore_at_def set_semaphore_def new_header_def init_wait_queue_def
         wq_rep_def split: option.splits)
qed

text \<open>
  C7. Semaphores conserve units: in every run on a semaphore created with the value \<open>v\<close>, the current
  value is \<open>v\<close> plus the posts minus the units granted, so never more is granted than was put in, and
  tasks wait only while the value is 0. A wait that finds no unit and returns because
  \<^verbatim>\<open>block_task\<close> did not switch counts as granted nothing.
\<close>

theorem semaphore_conserves_units:
  assumes "waiters_fresh s" "create_semaphore name v s = (Some i, s0)" "v \<le> 0x7FFFFFFF"
    and "sem_run i s0 p g s'"
  shows "sint (sm_value (sem_of i s')) = uint v + int p - int g \<and> g \<le> unat v + p \<and>
         (0 < wq_waiter_count (sm_wait_queue (sem_of i s')) \<longrightarrow> sm_value (sem_of i s') = 0)"
  using sem_run_inv [OF assms(4) create_semaphore_inv [OF assms(1-3)]]
proof (rule sem_invE)
  fix ps assume ps: "uint (sm_value (sem_of i s')) = uint v + int p - int g"
    "ps \<noteq> [] \<longrightarrow> uint v + int p - int g = 0"
    "0 < wq_waiter_count (sm_wait_queue (sem_of i s')) \<longleftrightarrow> ps \<noteq> []"
    "sint (sm_value (sem_of i s')) = uint v + int p - int g"
  have "0 \<le> uint v + int p - int g" using ps(1) uint_ge_0 by metis
  moreover have "uint v = int (unat v)" by simp
  ultimately have "g \<le> unat v + p" by linarith
  moreover have "0 < wq_waiter_count (sm_wait_queue (sem_of i s')) \<longrightarrow> sm_value (sem_of i s') = 0"
    using ps(1-3) by (metis uint_0_iff)
  ultimately show ?thesis using ps(4) by simp
qed

section \<open>The semaphores as counting semaphores\<close>

text \<open>
  The structure in a pool slot with the operations of \<^verbatim>\<open>kernel/ipc.c\<close> on that slot, seen as the
  embedded semaphore that the message queues use. \<open>create_semaphore\<close> takes no maximum, so
  only the maximum it sets is supported.
\<close>

definition one_slot :: "ipc \<Rightarrow> semaphore \<Rightarrow> ipc" where
  "one_slot s0 m = s0\<lparr>semaphore_pool := [m]\<rparr>"

definition slot_sem_ops :: "ipc \<Rightarrow> semaphore sem_ops" where
  "slot_sem_ops s0 =
     \<lparr>sem_init = (\<lambda>v m. (m = 0x7FFFFFFF, sem_of 0 (snd (create_semaphore [] v (one_slot s0 zero_semaphore))))),
      sem_wait = (\<lambda>_ m. case semaphore_wait (Some 0) (one_slot s0 m) of
                          Ret r s \<Rightarrow> (r = 0, sem_of 0 s) | Susp s k \<Rightarrow> (True, sem_of 0 s) | Stuck \<Rightarrow> (False, m)),
      sem_trywait = (\<lambda>m. case semaphore_trywait (Some 0) (one_slot s0 m) of (r, s) \<Rightarrow> (r = 0, sem_of 0 s)),
      sem_post = (\<lambda>m. case semaphore_post (Some 0) (one_slot s0 m) of None \<Rightarrow> m | Some (r, s) \<Rightarrow> sem_of 0 s),
      sem_destroy = (\<lambda>m. case destroy_semaphore (Some 0) (one_slot s0 m) of None \<Rightarrow> m | Some s \<Rightarrow> sem_of 0 s)\<rparr>"

definition slot_ok :: "semaphore \<Rightarrow> bool" where
  "slot_ok m \<longleftrightarrow> hdr_type (sm_header m) = IPC_TYPE_SEMAPHORE \<and> sm_value m \<le> 0x7FFFFFFF"

definition slot_value :: "semaphore \<Rightarrow> nat" where
  "slot_value m = (if slot_ok m then unat (sm_value m) else 0)"

definition slot_max :: "semaphore \<Rightarrow> nat" where
  "slot_max m = (if slot_ok m \<and> sm_max_value m = 0x7FFFFFFF \<and> wq_waiter_count (sm_wait_queue m) = 0
                 then unat (0x7FFFFFFF :: u32) else 0)"

lemma sint_neg: "\<not> v \<le> 0x7FFFFFFF \<Longrightarrow> sint (v :: 32 word) < 0"
proof -
  assume "\<not> v \<le> 0x7FFFFFFF"
  then have "2 ^ 31 \<le> uint v" by (simp add: word_le_def)
  moreover have "uint v < 2 ^ 32" using uint_lt2p [of v] by simp
  ultimately have "(uint v + 2 ^ 31 - 2 ^ 32) mod 2 ^ 32 = uint v + 2 ^ 31 - 2 ^ 32"
    by (intro mod_pos_pos_trivial) simp_all
  then have "(uint v + 2 ^ 31) mod 2 ^ 32 = uint v + 2 ^ 31 - 2 ^ 32"
    by (simp only: minus_mod_self2)
  then show ?thesis
    using \<open>uint v < 2 ^ 32\<close> by (simp add: sint_uint signed_take_bit_eq_take_bit_shift take_bit_eq_mod)
qed

interpretation isem: counting_semaphore "slot_sem_ops s0" slot_value slot_max for s0
proof
  fix v m :: u32 and s :: semaphore
  assume "v \<le> m" "sem_init (slot_sem_ops s0) v m = (True, s)"
  then show "slot_value s = unat v \<and> slot_max s = unat m"
    by (auto simp: slot_sem_ops_def create_semaphore_def find_free_semaphore_def one_slot_def
        zero_semaphore_def zero_header_def set_semaphore_def slot_value_def slot_max_def slot_ok_def
        new_header_def init_wait_queue_def)
next
  fix s :: semaphore
  assume p: "0 < slot_value s"
  then have ok: "slot_ok s" "0 < sm_value s"
    by (auto simp: slot_value_def word_gt_0 unat_gt_0 split: if_splits)
  have u: "unat (sm_value s - 1) = unat (sm_value s) - 1" "sm_value s - 1 \<le> 0x7FFFFFFF"
    using ok by (auto simp: unat_sub_if_size word_le_nat_alt slot_ok_def word_less_nat_alt)
  have "0 < sint (sm_value s)"
    using ok sint_nonneg [of "sm_value s"] by (simp add: slot_ok_def word_less_def)
  then have "sem_trywait (slot_sem_ops s0) s = (True, s\<lparr>sm_value := sm_value s - 1\<rparr>)"
    using ok(1) by (simp add: slot_sem_ops_def semaphore_trywait_def semaphore_at_def one_slot_def
        slot_ok_def add_value_def set_semaphore_def)
  then show "\<exists>s'. sem_trywait (slot_sem_ops s0) s = (True, s') \<and> slot_value s' = slot_value s - 1 \<and>
      slot_max s' = slot_max s"
    using ok u by (auto simp: slot_value_def slot_max_def slot_ok_def)
next
  fix s :: semaphore
  assume z: "slot_value s = 0"
  have "\<not> 0 < sint (sm_value s)" if "hdr_type (sm_header s) = IPC_TYPE_SEMAPHORE"
  proof (cases "sm_value s \<le> 0x7FFFFFFF")
    case True
    with z that have "sm_value s = 0" by (simp add: slot_value_def slot_ok_def unat_eq_0)
    then show ?thesis by simp
  qed (use sint_neg [of "sm_value s"] in simp)
  then show "sem_trywait (slot_sem_ops s0) s = (False, s)"
    by (auto simp: slot_sem_ops_def semaphore_trywait_def semaphore_at_def one_slot_def)
next
  fix s :: semaphore
  assume "slot_value s < slot_max s"
  then have ok: "slot_ok s" "sm_max_value s = 0x7FFFFFFF" "wq_waiter_count (sm_wait_queue s) = 0"
      "unat (sm_value s) < 0x7FFFFFFF"
    by (auto simp: slot_value_def slot_max_def split: if_splits)
  have u: "unat (sm_value s + 1) = unat (sm_value s) + 1" "sm_value s + 1 \<le> 0x7FFFFFFF" "sm_value s \<noteq> 0x7FFFFFFF"
    using ok(4) by (auto simp: unat_plus_if_size word_size word_le_nat_alt)
  have "sem_post (slot_sem_ops s0) s = s\<lparr>sm_value := sm_value s + 1\<rparr>"
    using ok u(3) by (simp add: slot_sem_ops_def semaphore_post_def semaphore_at_def one_slot_def
        slot_ok_def add_value_def set_semaphore_def)
  then show "slot_value (sem_post (slot_sem_ops s0) s) = slot_value s + 1 \<and>
      slot_max (sem_post (slot_sem_ops s0) s) = slot_max s"
    using ok u by (simp add: slot_value_def slot_max_def slot_ok_def)
qed

section \<open>Instances\<close>

text \<open>
  The task 2 runs, the task 3 is ready and holds the mutex in slot 0; the mutex in slot 1 is free.
\<close>

definition demo_ipc :: ipc where
  "demo_ipc =
     \<lparr>k_sched = busy_system, k_waiters = Map.empty,
      mutex_pool = [\<lparr>mx_header = new_header IPC_TYPE_MUTEX ''a'' destroy_mutex_fn, mx_owner = 3, mx_lock_count = 1,
                     mx_wait_queue = init_wait_queue ''a'' WAIT_QUEUE_MUTEX 0\<rparr>,
                    \<lparr>mx_header = new_header IPC_TYPE_MUTEX ''b'' destroy_mutex_fn, mx_owner = 0, mx_lock_count = 0,
                     mx_wait_queue = init_wait_queue ''b'' WAIT_QUEUE_MUTEX 1\<rparr>],
      mutex_count = 2, semaphore_pool = [zero_semaphore], semaphore_count = 0\<rparr>"

lemmas ipc_demo_defs = demo_ipc_def demo_defs new_header_def init_wait_queue_def IPC_TYPE_MUTEX_def

lemma demo_ipc_fresh: "waiters_fresh demo_ipc" "memory_left demo_ipc = 2 ^ 24"
proof -
  show "waiters_fresh demo_ipc"
    by (simp add: waiters_fresh_def demo_ipc_def demo_defs kheap_boot_inv)
  show "memory_left demo_ipc = 2 ^ 24"
    by (simp add: demo_ipc_def demo_defs kheap_boot_def HEAP_SIZE_def)
qed

theorem wait_queue_fifo_witness:
  "\<exists>q1 s1 q2 ns. add_waiters [7, 8, 9] (init_wait_queue ''q'' 1 0) demo_ipc = Some (q1, s1) \<and>
     wake_waiters q1 2 s1 = map_option (\<lambda>s2. (q2, s2)) (unblock_all [7, 8] s1) \<and>
     wq_rep q2 ns \<and> sseg (k_waiters s1) ns \<and> map (pid_at (k_waiters s1)) ns = [9]"
proof -
  have "wq_rep (init_wait_queue ''q'' 1 0) []" by (simp add: wq_rep_def init_wait_queue_def)
  moreover have "32 * length [7, 8, 9 :: pid_t] \<le> memory_left demo_ipc" by (simp add: demo_ipc_fresh(2))
  moreover have "2 = wake_number 2 (length [7, 8, 9 :: pid_t])" by (simp add: wake_number_def)
  ultimately show ?thesis
    using wait_queue_fifo [OF demo_ipc_fresh(1)] by (metis drop0 drop_Suc_Cons numeral_2_eq_2 take0 take_Suc_Cons)
qed

text \<open>Two waiters, the first of them due.\<close>

definition waiting_ipc :: ipc where
  "waiting_ipc = demo_ipc\<lparr>k_waiters := [0x100 \<mapsto> \<lparr>w_pid = 7, w_start = 1, w_timeout = 5, w_next = 0x200\<rparr>,
                                        0x200 \<mapsto> \<lparr>w_pid = 8, w_start = 1, w_timeout = 0, w_next = 0\<rparr>]\<rparr>"

theorem check_timeouts_exact_witness:
  "\<exists>q' h. check_timeouts ((init_wait_queue ''q'' 1 0)\<lparr>wq_head := 0x100, wq_tail := 0x200, wq_waiter_count := 2\<rparr>)
       waiting_ipc = map_option (\<lambda>s'. (q', s'\<lparr>k_waiters := h\<rparr>)) (unblock_all [7] waiting_ipc) \<and>
     wq_rep q' [0x200] \<and> sseg h [0x200]"
proof -
  let ?q = "(init_wait_queue ''q'' 1 0)\<lparr>wq_head := 0x100, wq_tail := 0x200, wq_waiter_count := 2\<rparr>"
  have "wq_rep ?q [0x100, 0x200]" by (simp add: wq_rep_def)
  moreover have "sseg (k_waiters waiting_ipc) [0x100, 0x200]" by (simp add: waiting_ipc_def)
  moreover have "due_at 7 (k_waiters waiting_ipc) 0x100" "\<not> due_at 7 (k_waiters waiting_ipc) 0x200"
      "pid_at (k_waiters waiting_ipc) 0x100 = 7" "tick_count (k_sched waiting_ipc) = 7"
    by (simp_all add: due_at_def timed_out_def pid_at_def waiting_ipc_def demo_ipc_def demo_defs)
  ultimately show ?thesis
    using check_timeouts_exact [of ?q "[0x100, 0x200]" waiting_ipc] by (simp del: unblock_all.simps)
qed

lemma demo_ipc_pid: "get_current_pid (k_sched demo_ipc) = Some 2"
  by (simp add: get_current_pid_def demo_ipc_def demo_defs)

lemma demo_ipc_lock: "\<exists>s1 k. mutex_lock (Some 0) demo_ipc = Susp s1 k"
  using demo_ipc_pid
  by (simp add: mutex_lock_def mutex_at_def demo_ipc_def new_header_def IPC_TYPE_MUTEX_def
      add_waiter_def new_waiter_def init_wait_queue_def k_block_def sti_def cli_def set_mutex_def
      kmalloc_def demo_defs kheap_boot_def HEAP_START_def HEAP_SIZE_def SIZEOF_WAITER_def align16_def
      run_defs find_pid_from.simps get_tick_count_def Let_def)

theorem mutex_resume_overwrites_owner_witness:
  "\<exists>s1 k s3. mutex_lock (Some 0) demo_ipc = Susp s1 k \<and>
     k (demo_ipc\<lparr>mutex_pool := [(mutex_pool demo_ipc ! 0)\<lparr>mx_owner := 4\<rparr>]\<rparr>) = Ret 0 s3 \<and>
     mx_owner (mutex_pool s3 ! 0) = 2"
proof -
  obtain s1 k where k: "mutex_lock (Some 0) demo_ipc = Susp s1 k" using demo_ipc_lock by blast
  have "mutex_at (Some 0) demo_ipc = Some 0" by (simp add: mutex_at_def ipc_demo_defs)
  from mutex_resume_overwrites_owner [OF this demo_ipc_pid k,
      of "demo_ipc\<lparr>mutex_pool := [(mutex_pool demo_ipc ! 0)\<lparr>mx_owner := 4\<rparr>]\<rparr>"] k
  show ?thesis by auto
qed

lemma demo_mutexes:
  "mutex_at (Some 0) demo_ipc = Some 0" "mutex_at (Some 1) demo_ipc = Some 1" "interrupts_on (k_sched demo_ipc)"
  "mx_owner (mutex_pool demo_ipc ! 0) = 3" "mutex_idle (Some 1) 2 demo_ipc"
  using demo_ipc_pid by (simp_all add: mutex_idle_def) (simp_all add: mutex_at_def ipc_demo_defs)


theorem semaphore_conserves_units_witness:
  "\<exists>s0 s1. create_semaphore ''s'' 1 demo_ipc = (Some 0, s0) \<and> semaphore_trywait (Some 0) s0 = (0, s1) \<and>
     sint (sm_value (sem_of 0 s1)) = 0"
proof -
  obtain s0 where c: "create_semaphore ''s'' 1 demo_ipc = (Some 0, s0)"
    by (simp add: create_semaphore_def find_free_semaphore_def demo_ipc_def zero_semaphore_def zero_header_def)
  then have at: "semaphore_at (Some 0) s0 = Some 0" "sm_value (sem_of 0 s0) = 1"
    by (auto simp: create_semaphore_def find_free_semaphore_def demo_ipc_def zero_semaphore_def zero_header_def
        set_semaphore_def semaphore_at_def new_header_def)
  obtain s1 where t: "semaphore_trywait (Some 0) s0 = (0, s1)"
    using at by (simp add: semaphore_trywait_def)
  have "sem_run 0 s0 0 1 s1"
    using run_trywait [OF run_start t] by simp
  with semaphore_conserves_units [OF demo_ipc_fresh(1) c] c t show ?thesis by fastforce
qed

end
