(* ===== verification/Event_Props.thy ===== *)
theory Event_Props
  imports Event_Notify Ipc_Sync_Props
begin

text \<open>
  Properties of events and event sets: adding an event to a set and removing it are inverse, an
  automatic-reset signal is reported to the woken waiter as a timeout, and signalling an event never
  wakes the tasks that wait on a set.
\<close>

section \<open>Sections under an event's mutex\<close>

text \<open>Holding the mutex does not interfere with the rest of the state.\<close>

lemma held_frame [simp]:
  "event_pool (held m pid n s) = event_pool s" "event_set_pool (held m pid n s) = event_set_pool s"
  "k_waiters (held m pid n s) = k_waiters s" "k_sched (held m pid n t) = k_sched t"
  by (simp_all add: held_def set_mutex_def)

lemma held_set_event [simp]:
  "set_event i e (held m pid n s) = held m pid n (set_event i e s)"
  "set_event_set i es (held m pid n s) = held m pid n (set_event_set i es s)"
  by (simp_all add: held_def set_mutex_def set_event_def set_event_set_def)

lemma idle_set_event [simp]:
  "mutex_idle h pid (set_event i e s) = mutex_idle h pid s"
  "mutex_idle h pid (set_event_set i es s) = mutex_idle h pid s"
  by (rule mutex_idle_cong; simp add: set_event_def set_event_set_def)+

lemma set_event_simps [simp]:
  "event_set_pool (set_event i e s) = event_set_pool s" "k_waiters (set_event i e s) = k_waiters s"
  "k_sched (set_event i e s) = k_sched s" "event_pool (set_event_set i es s) = event_pool s"
  "length (event_pool (set_event i e s)) = length (event_pool s)"
  "length (event_set_pool (set_event_set i es s)) = length (event_set_pool s)"
  "i < length (event_pool s) \<Longrightarrow> event_pool (set_event i e s) ! i = e"
  "i < length (event_set_pool s) \<Longrightarrow> event_set_pool (set_event_set i es s) ! i = es"
  by (simp_all add: set_event_def set_event_set_def)

lemma event_at_SomeD: "event_at h s = Some i \<Longrightarrow> h = Some i \<and> i < length (event_pool s)"
  by (auto simp: event_at_def split: option.splits if_splits)

lemma event_set_at_SomeD: "event_set_at h s = Some i \<Longrightarrow> h = Some i \<and> i < length (event_set_pool s)"
  by (auto simp: event_set_at_def split: option.splits if_splits)

lemma locked_event:
  fixes s :: "'z events_scheme"
  assumes "mutex_idle (ev_mutex (event_pool s ! i)) pid s"
  obtains m where "ev_mutex (event_pool s ! i) = Some m" "lock_event i s = Ret 0 (held m pid (Suc 0) s)"
    "\<forall>t :: 'z events_scheme. ev_mutex (event_pool t ! i) = Some m \<longrightarrow> mutex_idle (Some m) pid t \<longrightarrow>
       unlock_event i (held m pid (Suc 0) t) = Ret 0 t"
proof -
  obtain m where m: "ev_mutex (event_pool s ! i) = Some m" using assms by (auto simp: mutex_idle_def)
  show ?thesis
    by (rule that [OF m]) (use assms m in \<open>simp_all add: lock_event_def unlock_event_def lock_idle unlock_idle\<close>)
qed

lemma locked_event_set:
  fixes s :: "'z events_scheme"
  assumes "mutex_idle (es_mutex (event_set_pool s ! i)) pid s"
  obtains m where "es_mutex (event_set_pool s ! i) = Some m" "lock_event_set i s = Ret 0 (held m pid (Suc 0) s)"
    "\<forall>t :: 'z events_scheme. es_mutex (event_set_pool t ! i) = Some m \<longrightarrow> mutex_idle (Some m) pid t \<longrightarrow>
       unlock_event_set i (held m pid (Suc 0) t) = Ret 0 t"
proof -
  obtain m where m: "es_mutex (event_set_pool s ! i) = Some m" using assms by (auto simp: mutex_idle_def)
  show ?thesis
    by (rule that [OF m])
      (use assms m in \<open>simp_all add: lock_event_set_def unlock_event_set_def lock_idle unlock_idle\<close>)
qed

section \<open>Waiter lists of events and event sets\<close>

definition ev_rep :: "event \<Rightarrow> ptr list \<Rightarrow> bool" where
  "ev_rep e ps \<longleftrightarrow> ev_waiters e = head_or NULL ps \<and> ev_waiter_count e = of_nat (length ps)"

definition es_rep :: "event_set \<Rightarrow> ptr list \<Rightarrow> bool" where
  "es_rep e ps \<longleftrightarrow> es_waiters e = head_or NULL ps \<and> es_waiter_count e = of_nat (length ps)"

lemma last_or_NULL: "NULL \<notin> set xs \<Longrightarrow> (last_or NULL xs \<noteq> NULL) = (xs \<noteq> [])"
  using last_in_set [of xs] by (metis last_or_def)

interpretation evw: waiter_owner ev_waiters ev_unlink ev_rep
proof
  fix q :: event and xs p ys
  assume "ev_rep q (xs @ p # ys)" "NULL \<notin> set (xs @ p # ys)"
  then show "ev_rep (ev_unlink (last_or NULL xs) p (head_or NULL ys) q) (xs @ ys)"
    using last_or_NULL [of xs]
    by (auto simp: ev_unlink_def ev_rep_def Let_def head_or_append head_or_def)
qed (simp add: ev_rep_def)

interpretation esw: waiter_owner es_waiters es_unlink es_rep
proof
  fix q :: event_set and xs p ys
  assume "es_rep q (xs @ p # ys)" "NULL \<notin> set (xs @ p # ys)"
  then show "es_rep (es_unlink (last_or NULL xs) p (head_or NULL ys) q) (xs @ ys)"
    using last_or_NULL [of xs]
    by (auto simp: es_unlink_def es_rep_def Let_def head_or_append head_or_def)
qed (simp add: es_rep_def)

section \<open>Membership of event sets\<close>

lemma scan_from_eq_None: "scan_from (\<lambda>x. x = y) xs n = None \<longleftrightarrow> y \<notin> set xs"
  by (induction xs arbitrary: n) auto

text \<open>Shifting the later members down removes the first occurrence.\<close>

lemma array_delete_remove1:
  assumes "n \<le> length xs" "scan_from (\<lambda>x. x = y) (take n xs) 0 = Some k"
  shows "take (n - 1) (array_delete k n xs) = remove1 y (take n xs)" "k < n"
proof -
  show k: "k < n"
    using assms by (auto simp: scan_from_Some)
  have "remove1 y (take n xs) = take k xs @ take (n - k - 1) (drop (Suc k) xs)"
    using remove1_index [OF assms(2)] k by (simp add: drop_take min_def)
  then show "take (n - 1) (array_delete k n xs) = remove1 y (take n xs)"
    using k assms(1) by (simp add: array_delete_def)
qed

definition add_ref :: "32 word \<Rightarrow> event \<Rightarrow> event" where
  "add_ref d e = e\<lparr>ev_header := (ev_header e)\<lparr>hdr_ref_count := hdr_ref_count (ev_header e) + d\<rparr>\<rparr>"

lemma event_set_add_new:
  fixes s :: "'z events_scheme"
  assumes "event_set_at hs s = Some i" "event_at he s = Some j"
    and "mutex_idle (es_mutex (event_set_pool s ! i)) pid s"
    and "es = event_set_pool s ! i" "he \<notin> set (set_members es)"
    and "unat (es_event_count es) < MAX_EVENTS_PER_SET"
  shows "event_set_add hs he s = Ret 0 (set_event j (add_ref 1 (event_pool s ! j))
     (set_event_set i (es\<lparr>es_events := (es_events es)[unat (es_event_count es) := he],
                         es_event_count := es_event_count es + 1\<rparr>) s))"
proof -
  obtain m where m: "es_mutex (event_set_pool s ! i) = Some m" "lock_event_set i s = Ret 0 (held m pid (Suc 0) s)"
    "\<forall>t :: 'z events_scheme. es_mutex (event_set_pool t ! i) = Some m \<longrightarrow> mutex_idle (Some m) pid t \<longrightarrow>
       unlock_event_set i (held m pid (Suc 0) t) = Ret 0 t"
    by (rule locked_event_set [OF assms(3)])
  have "scan_from (\<lambda>e. e = he) (set_members es) 0 = None"
    using assms(5) by (simp add: scan_from_eq_None)
  moreover have "unlock_event_set i (held m pid (Suc 0) (set_event j e (set_event_set i (es\<lparr>es_events := evs, es_event_count := n\<rparr>) s)))
      = Ret 0 (set_event j e (set_event_set i (es\<lparr>es_events := evs, es_event_count := n\<rparr>) s))" for e evs n
    using assms(3,4) m(1) event_set_at_SomeD [OF assms(1)] by (intro m(3) [rule_format]) simp_all
  ultimately show ?thesis
    using assms(1,2,6) m(2) by (simp add: event_set_add_def assms(4) Let_def add_ref_def)
qed

text \<open>
  C34. Removing an event from an event set. If the event is a member, at whatever place, the call returns 0, exactly
  it leaves the members, the others keep their order, and its reference count drops by one; no other event
  changes. If it is not a member, the call returns a negative result and nothing changes.
\<close>

theorem event_set_remove_exact:
  fixes s :: "'z events_scheme"
  assumes "event_set_at hs s = Some i" "event_at he s = Some j"
    and "mutex_idle (es_mutex (event_set_pool s ! i)) pid s"
    and "es = event_set_pool s ! i" "unat (es_event_count es) \<le> length (es_events es)"
  shows "(he \<in> set (set_members es) \<longrightarrow>
           (\<exists>s'. event_set_remove hs he s = Ret 0 s' \<and>
              set_members (event_set_pool s' ! i) = remove1 he (set_members es) \<and>
              event_pool s' = (event_pool s)[j := add_ref (- 1) (event_pool s ! j)])) \<and>
         (he \<notin> set (set_members es) \<longrightarrow> (\<exists>r < 0. event_set_remove hs he s = Ret r s))"
proof -
  obtain m where m: "es_mutex (event_set_pool s ! i) = Some m" "lock_event_set i s = Ret 0 (held m pid (Suc 0) s)"
    "\<forall>t :: 'z events_scheme. es_mutex (event_set_pool t ! i) = Some m \<longrightarrow> mutex_idle (Some m) pid t \<longrightarrow>
       unlock_event_set i (held m pid (Suc 0) t) = Ret 0 t"
    by (rule locked_event_set [OF assms(3)])
  note at = event_set_at_SomeD [OF assms(1)] event_at_SomeD [OF assms(2)]
  show ?thesis
  proof (cases "scan_from (\<lambda>e. e = he) (set_members es) 0")
    case None
    then have "event_set_remove hs he s = Ret (- 1) s"
      using assms(1-3) m by (simp add: event_set_remove_def assms(4) Let_def)
    with None show ?thesis by (auto simp: scan_from_eq_None intro: exI [of _ "- 1"])
  next
    case (Some k)
    then have mem: "he \<in> set (set_members es)"
      using scan_from_eq_None [of he "set_members es" 0] by simp
    note del = array_delete_remove1 [OF assms(5) Some [unfolded set_members_def]]
    let ?es = "es\<lparr>es_events := array_delete k (unat (es_event_count es)) (es_events es), es_event_count := es_event_count es - 1\<rparr>"
    let ?s = "set_event j (add_ref (- 1) (event_pool s ! j)) (set_event_set i ?es s)"
    have "unlock_event_set i (held m pid (Suc 0) ?s) = Ret 0 ?s"
      using assms(3,4) m(1) at by (intro m(3) [rule_format]) simp_all
    then have run: "event_set_remove hs he s = Ret 0 ?s"
      using assms(1,2) Some m(2) by (simp add: event_set_remove_def assms(4) Let_def add_ref_def)
    have "es_event_count es \<noteq> 0"
      using del(2) by auto
    then have "unat (es_event_count es - 1) = unat (es_event_count es) - 1"
      by (rule unat_minus_one)
    then have "set_members (event_set_pool ?s ! i) = remove1 he (set_members es)"
      using at del(1) by (simp add: set_event_def set_event_set_def set_members_def)
    moreover have "event_pool ?s = (event_pool s)[j := add_ref (- 1) (event_pool s ! j)]"
      by (simp add: set_event_def set_event_set_def)
    ultimately show ?thesis using run mem by blast
  qed
qed

section \<open>Waiting for an event and signalling it\<close>

lemma run_step_simps [simp]: "run_step None = Stuck" "run_step (Some s) = Ret () s"
  by (simp_all add: run_step_def)

lemma new_waiter_held:
  "new_waiter pid t n (held m q c s) = map_prod id (held m q c) (new_waiter pid t n s)"
  by (simp add: new_waiter_def held_def set_mutex_def Let_def get_tick_count_def split: prod.split)

lemma new_waiter_frame:
  assumes "new_waiter pid t n s = (p, s1)"
  shows "event_pool s1 = event_pool s" "mutex_idle h q s1 = mutex_idle h q s"
proof -
  show "event_pool s1 = event_pool s"
    using assms by (auto simp: new_waiter_def Let_def split: prod.splits if_splits)
  show "mutex_idle h q s1 = mutex_idle h q s"
    by (rule mutex_idle_cong)
      (use assms in \<open>auto simp: new_waiter_def Let_def get_current_pid_def split: prod.splits if_splits\<close>)
qed

lemma add_event_waiter_held:
  "add_event_waiter i pid t (held m q c s) = held m q c (add_event_waiter i pid t s)"
  by (cases "new_waiter pid t (ev_waiters (event_pool s ! i)) s")
    (simp add: add_event_waiter_def new_waiter_held Let_def)

lemma add_event_waiter_frame:
  assumes "i < length (event_pool s)"
  shows "ev_mutex (event_pool (add_event_waiter i pid t s) ! i) = ev_mutex (event_pool s ! i)"
    "mutex_idle h q (add_event_waiter i pid t s) = mutex_idle h q s"
  using assms new_waiter_frame [of pid t "ev_waiters (event_pool s ! i)" s]
  by (cases "new_waiter pid t (ev_waiters (event_pool s ! i)) s"; simp add: add_event_waiter_def Let_def)+

text \<open>What remains of \<^verbatim>\<open>event_timedwait\<close> when the task runs again.\<close>

lemma timedwait_rest:
  fixes s :: "'z events_scheme"
  assumes "event_at h s = Some i" "mutex_idle (ev_mutex (event_pool s ! i)) q s"
    and "ev_state (event_pool s ! i) = EVENT_STATE_NONSIGNALED"
    and "block_task q (k_sched (add_event_waiter i q (timeout_ticks ms) s)) = Some (True, sc)"
  shows "event_timedwait h ms s = Susp ((add_event_waiter i q (timeout_ticks ms) s)\<lparr>k_sched := sc\<rparr>)
           (\<lambda>t. event_wakeup i q (t\<lparr>k_sched := exit_critical (k_sched t)\<rparr>))"
proof -
  obtain m where m: "ev_mutex (event_pool s ! i) = Some m" "lock_event i s = Ret 0 (held m q (Suc 0) s)"
    "\<forall>t :: 'z events_scheme. ev_mutex (event_pool t ! i) = Some m \<longrightarrow> mutex_idle (Some m) q t \<longrightarrow>
       unlock_event i (held m q (Suc 0) t) = Ret 0 t"
    by (rule locked_event [OF assms(2)])
  have pid: "get_current_pid (k_sched s) = Some q" using assms(2) by (auto simp: mutex_idle_def)
  note i = event_at_SomeD [OF assms(1)]
  have "unlock_event i (held m q (Suc 0) (add_event_waiter i q t s)) = Ret 0 (add_event_waiter i q t s)" for t
    using i m(1) assms(2) by (intro m(3) [rule_format]) (simp_all add: add_event_waiter_frame)
  then show ?thesis
    using assms(1,3,4) m(2) pid by (simp add: event_timedwait_def Let_def add_event_waiter_held k_block_def)
qed

lemma wake_event_list:
  assumes "i < length (event_pool s)" "ev_rep (event_pool s ! i) ps" "sseg (k_waiters s) ps"
    and "length ps < 2 ^ 32" "k = wake_number c (length ps)"
  shows "wake_event_waiters i c s =
    map_option (set_event i ((event_pool s ! i)\<lparr>ev_waiters := head_or NULL (drop k ps),
                               ev_waiter_count := of_nat (length ps - k)\<rparr>))
      (unblock_all (map (pid_at (k_waiters s)) (take k ps)) s)"
proof -
  have kk: "k = (if c = 0 then length ps else min (unat c - unat (0 :: u32)) (length ps))"
    using assms(5) by (simp add: wake_number_def)
  have "k \<le> length ps" using assms(5) wake_number_le by simp
  moreover have "event_pool s' = event_pool s" if "unblock_all xs s = Some s'" for s' xs
    using unblock_all_sched [OF that] by auto
  ultimately show ?thesis
    using assms(2,4) wake_waiters_loop_list [OF assms(3) _ kk, of "\<lambda>_ _ e. e" "()"]
    by (cases "unblock_all (map (pid_at (k_waiters s)) (take k ps)) s")
      (auto simp: wake_event_waiters_def ev_rep_def Let_def of_nat_diff)
qed

text \<open>A wait that finds the event not signalled after the wake-up reports a timeout.\<close>

lemma wakeup_nonsignaled:
  fixes t :: "'z events_scheme"
  assumes "i < length (event_pool t)" "mutex_idle (ev_mutex (event_pool t ! i)) q t"
    and "ev_state (event_pool t ! i) = EVENT_STATE_NONSIGNALED"
    and "ev_rep (event_pool t ! i) ps" "sseg (k_waiters t) ps" "distinct ps"
  shows "\<exists>t'. event_wakeup i q t = Ret (- 1) t'"
proof -
  obtain m where m: "ev_mutex (event_pool t ! i) = Some m" "lock_event i t = Ret 0 (held m q (Suc 0) t)"
    "\<forall>t :: 'z events_scheme. ev_mutex (event_pool t ! i) = Some m \<longrightarrow> mutex_idle (Some m) q t \<longrightarrow>
       unlock_event i (held m q (Suc 0) t) = Ret 0 t"
    by (rule locked_event [OF assms(2)])
  obtain e h where "remove_waiter_from ev_unlink (ev_waiters (event_pool t ! i)) q (event_pool t ! i)
      (held m q (Suc 0) t) = Some (e, (held m q (Suc 0) t)\<lparr>k_waiters := h\<rparr>)"
    by (rule evw.remove_list [where s = "held m q (Suc 0) t", unfolded held_frame, OF assms(5,6,4), of q])
  moreover from this have "ev_mutex e = Some m"
    using m(1) by (auto simp: remove_waiter_from_def ev_unlink_def Let_def bind_eq_Some_conv split: option.splits if_splits)
  moreover have "(held m q (Suc 0) t)\<lparr>k_waiters := h\<rparr> = held m q (Suc 0) (t\<lparr>k_waiters := h\<rparr>)" for h
    by (simp add: held_def set_mutex_def)
  moreover have "mutex_idle (Some m) q (t\<lparr>k_waiters := h\<rparr>)" for h
    using assms(2) m(1) by (simp add: mutex_idle_def mutex_at_def)
  ultimately have "unlock_event i (held m q (Suc 0) (set_event i e (t\<lparr>k_waiters := h\<rparr>)))
      = Ret 0 (set_event i e (t\<lparr>k_waiters := h\<rparr>))"
    "remove_event_waiter i q (held m q (Suc 0) t) = Some (held m q (Suc 0) (set_event i e (t\<lparr>k_waiters := h\<rparr>)))"
    using assms(1) by (auto intro!: m(3) [rule_format] simp: remove_event_waiter_def Let_def)
  then show ?thesis
    using assms(3) m(2) by (simp add: event_wakeup_def)
qed

lemma k_unblock_frame:
  "k_unblock p (held m pid n s) = map_option (held m pid n) (k_unblock p s)"
  "k_unblock p (set_event i e t) = map_option (set_event i e) (k_unblock p t)"
  by (auto simp: k_unblock_def held_def set_mutex_def set_event_def split: option.splits)

lemma set_event_twice [simp]: "set_event i e (set_event i e' s) = set_event i e s"
  by (simp add: set_event_def)

text \<open>Signalling an automatic-reset event: the newest waiter is woken, the state is not signalled again.\<close>

lemma event_signal_auto:
  fixes s :: "'z events_scheme"
  assumes "event_at h s = Some i" "mutex_idle (ev_mutex (event_pool s ! i)) pid s" "auto_reset i s"
    and "ev_rep (event_pool s ! i) (p # ps)" "sseg (k_waiters s) (p # ps)" "length (p # ps) < 2 ^ 32"
    and "k_unblock (pid_at (k_waiters s) p) s = Some su" "mutex_idle (ev_mutex (event_pool s ! i)) pid su"
  shows "event_signal h s = Ret 0 (set_event i ((event_pool s ! i)\<lparr>ev_waiters := head_or NULL ps,
           ev_waiter_count := of_nat (length ps), ev_state := EVENT_STATE_NONSIGNALED\<rparr>) su)"
proof -
  obtain m where m: "ev_mutex (event_pool s ! i) = Some m" "lock_event i s = Ret 0 (held m pid (Suc 0) s)"
    "\<forall>t :: 'z events_scheme. ev_mutex (event_pool t ! i) = Some m \<longrightarrow> mutex_idle (Some m) pid t \<longrightarrow>
       unlock_event i (held m pid (Suc 0) t) = Ret 0 t"
    by (rule locked_event [OF assms(2)])
  note i = event_at_SomeD [OF assms(1)]
  let ?e = "(event_pool s ! i)\<lparr>ev_state := EVENT_STATE_SIGNALED\<rparr>"
  let ?s2 = "held m pid (Suc 0) (set_event i ?e s)"
  let ?e3 = "(event_pool s ! i)\<lparr>ev_waiters := head_or NULL ps,
           ev_waiter_count := of_nat (length ps), ev_state := EVENT_STATE_NONSIGNALED\<rparr>"
  have su: "event_pool su = event_pool s" using assms(7) by (auto simp: k_unblock_def split: option.splits)
  have w: "wake_event_waiters i 1 ?s2 = Some (held m pid (Suc 0)
      (set_event i (?e\<lparr>ev_waiters := head_or NULL ps, ev_waiter_count := of_nat (length ps)\<rparr>) su))"
    using wake_event_list [of i ?s2 "p # ps" 1 1] i assms(4-7)
    by (simp add: ev_rep_def wake_number_def k_unblock_frame)
  have "unat (of_nat (length (p # ps)) :: u32) = length (p # ps)"
    using assms(6) by (simp only: unat_of_nat) simp
  then have "of_nat (length (p # ps)) \<noteq> (0 :: u32)" by (metis length_0_conv list.distinct(1) unat_0)
  moreover have "unlock_event i (held m pid (Suc 0) (set_event i ?e3 su)) = Ret 0 (set_event i ?e3 su)"
    using i m(1) su assms(8) by (intro m(3) [rule_format]) simp_all
  ultimately show ?thesis
    using assms(1,3,4) i m(2) w su
    by (simp add: event_signal_def set_state_def auto_reset_def ev_rep_def Let_def word_neq_0_conv [symmetric])
qed

text \<open>
  A task waits for an event that is not signalled. When somebody signals the event and it resets
  automatically, the signal takes the newest waiter off the list and wakes it but stores the state
  \<open>EVENT_STATE_NONSIGNALED\<close>; so the wait of a woken task, which looks at the state again, returns
  \<open>-1\<close> as if the time had run out, whatever the timeout.
\<close>

theorem auto_reset_signal_lost:
  assumes "event_at h s0 = Some i" "mutex_idle (ev_mutex (event_pool s0 ! i)) q s0"
    and "ev_state (event_pool s0 ! i) = EVENT_STATE_NONSIGNALED"
    and "block_task q (k_sched (add_event_waiter i q (timeout_ticks ms) s0)) = Some (True, sc)"
    and "event_at h s = Some i" "mutex_idle (ev_mutex (event_pool s ! i)) pid s" "auto_reset i s"
    and "ev_rep (event_pool s ! i) (p # ps)" "sseg (k_waiters s) (p # ps)" "distinct (p # ps)"
    and "length (p # ps) < 2 ^ 32"
    and "k_unblock (pid_at (k_waiters s) p) s = Some su" "mutex_idle (ev_mutex (event_pool s ! i)) pid su"
  shows "\<exists>s1 rest s'. event_timedwait h ms s0 = Susp s1 rest \<and> event_signal h s = Ret 0 s' \<and>
           ev_rep (event_pool s' ! i) ps \<and>
           (\<forall>t. event_pool t = event_pool s' \<and> k_waiters t = k_waiters s' \<and>
                mutex_idle (ev_mutex (event_pool t ! i)) q (t\<lparr>k_sched := exit_critical (k_sched t)\<rparr>) \<longrightarrow>
                (\<exists>t'. rest t = Ret (- 1) t'))"
proof -
  let ?s' = "set_event i ((event_pool s ! i)\<lparr>ev_waiters := head_or NULL ps,
           ev_waiter_count := of_nat (length ps), ev_state := EVENT_STATE_NONSIGNALED\<rparr>) su"
  have su: "event_pool su = event_pool s" "k_waiters su = k_waiters s"
    using assms(12) by (auto simp: k_unblock_def split: option.splits)
  have ok: "i < length (event_pool ?s')" "ev_state (event_pool ?s' ! i) = EVENT_STATE_NONSIGNALED"
    "ev_rep (event_pool ?s' ! i) ps" "sseg (k_waiters ?s') ps"
    using event_at_SomeD [OF assms(5)] su assms(9) by (simp_all add: ev_rep_def)
  have "\<exists>t'. event_wakeup i q (t\<lparr>k_sched := exit_critical (k_sched t)\<rparr>) = Ret (- 1) t'"
    if "event_pool t = event_pool ?s'" "k_waiters t = k_waiters ?s'"
      "mutex_idle (ev_mutex (event_pool t ! i)) q (t\<lparr>k_sched := exit_critical (k_sched t)\<rparr>)" for t
    using that ok assms(10) by (intro wakeup_nonsignaled [where ps = ps]) simp_all
  with timedwait_rest [OF assms(1-4)] event_signal_auto [OF assms(5-9,11-13)] ok(3) show ?thesis
    by blast
qed

section \<open>Event sets\<close>

text \<open>
  Signalling or broadcasting an event that nobody waits for directly only stores the signalled
  state: the scheduler and all event sets are as before, so a task blocked on an event set that
  contains the event stays blocked. (\<^verbatim>\<open>wake_event_set_waiters\<close> has no caller but the
  destruction of the set.)
\<close>

theorem event_signal_wakes_no_set:
  fixes s :: "'z events_scheme"
  assumes "event_at h s = Some i" "mutex_idle (ev_mutex (event_pool s ! i)) pid s"
    and "ev_rep (event_pool s ! i) []"
  shows "event_signal h s = Ret 0 (set_state i EVENT_STATE_SIGNALED s) \<and>
         event_broadcast h s = Ret 0 (set_state i EVENT_STATE_SIGNALED s) \<and>
         k_sched (set_state i EVENT_STATE_SIGNALED s) = k_sched s \<and>
         event_set_pool (set_state i EVENT_STATE_SIGNALED s) = event_set_pool s"
proof -
  obtain m where m: "ev_mutex (event_pool s ! i) = Some m" "lock_event i s = Ret 0 (held m pid (Suc 0) s)"
    "\<forall>t :: 'z events_scheme. ev_mutex (event_pool t ! i) = Some m \<longrightarrow> mutex_idle (Some m) pid t \<longrightarrow>
       unlock_event i (held m pid (Suc 0) t) = Ret 0 t"
    by (rule locked_event [OF assms(2)])
  note i = event_at_SomeD [OF assms(1)]
  let ?e = "(event_pool s ! i)\<lparr>ev_state := EVENT_STATE_SIGNALED\<rparr>"
  have "unlock_event i (held m pid (Suc 0) (set_event i ?e s)) = Ret 0 (set_event i ?e s)"
    using i m(1) assms(2) by (intro m(3) [rule_format]) simp_all
  moreover have "(event_pool s ! i)\<lparr>ev_state := st, ev_waiters := NULL, ev_waiter_count := 0\<rparr>
      = (event_pool s ! i)\<lparr>ev_state := st\<rparr>" for st
    using assms(3) by (cases "event_pool s ! i") (simp add: ev_rep_def)
  with wake_event_list [of i "held m pid (Suc 0) (set_event i ?e s)" "[]" 0 0] i assms(3)
  have "wake_event_waiters i 0 (held m pid (Suc 0) (set_event i ?e s)) = Some (held m pid (Suc 0) (set_event i ?e s))"
    by (simp add: ev_rep_def wake_number_def)
  ultimately show ?thesis
    using assms(1,3) i m(2) by (simp add: event_signal_def event_broadcast_def set_state_def auto_reset_def ev_rep_def Let_def)
qed

section \<open>Instances\<close>

text \<open>
  One event and one empty set with the mutex of slot 1. In \<open>demo_events\<close> the task 2 runs; in
  \<open>signal_events\<close> the task 3 runs and the task 2 is blocked on the event.
\<close>

definition demo_event :: event where
  "demo_event = \<lparr>ev_header = new_header IPC_TYPE_EVENT ''e'' destroy_event_fn, ev_flags = 0,
                 ev_state = EVENT_STATE_NONSIGNALED, ev_mutex = Some 1, ev_waiters = 0, ev_waiter_count = 0\<rparr>"

definition demo_events :: events where
  "demo_events =
     ipc.extend demo_ipc
       (events.fields [demo_event] 1
          [zero_event_set\<lparr>es_header := new_header IPC_TYPE_EVENT_SET ''s'' destroy_event_set_fn, es_mutex := Some 1\<rparr>] 1)"

definition signal_events :: events where
  "signal_events =
     demo_events\<lparr>k_sched := idle_system\<lparr>current_task := 0x20, blocked_queue := 0x10, blocked_count := 1,
                    tcbs := [0x10 \<mapsto> zero_task\<lparr>t_pid := 2, t_priority := 2, t_state := TASK_STATE_BLOCKED, t_next := 0\<rparr>,
                             0x20 \<mapsto> zero_task\<lparr>t_pid := 3, t_priority := 4, t_state := TASK_STATE_RUNNING\<rparr>]\<rparr>,
                  k_waiters := [0x100 \<mapsto> \<lparr>w_pid = 2, w_start = 1, w_timeout = 0, w_next = 0\<rparr>],
                  event_pool := [demo_event\<lparr>ev_waiters := 0x100, ev_waiter_count := 1\<rparr>]\<rparr>"

lemmas events_demo_defs = demo_events_def demo_event_def signal_events_def ipc_demo_defs ipc.defs events.defs
  zero_event_set_def IPC_TYPE_EVENT_def IPC_TYPE_EVENT_SET_def

lemma demo_events_at:
  "event_at (Some 0) demo_events = Some 0" "event_set_at (Some 0) demo_events = Some 0"
  "mutex_idle (Some 1) 2 demo_events"
  "event_at (Some 0) signal_events = Some 0" "mutex_idle (Some 1) 3 signal_events"
  by (simp_all add: event_at_def event_set_at_def mutex_idle_def mutex_at_def get_current_pid_def events_demo_defs)

text \<open>The set with the event as its second of three members; the others are handles of other events.\<close>

definition member_events :: events where
  "member_events = demo_events\<lparr>event_set_pool := [(event_set_pool demo_events ! 0)
     \<lparr>es_events := [Some 4, Some 0, Some 5] @ replicate 13 None, es_event_count := 3\<rparr>]\<rparr>"

theorem event_set_remove_exact_witness:
  "\<exists>s1 s2 r. event_set_remove (Some 0) (Some 0) member_events = Ret 0 s1 \<and>
     set_members (event_set_pool s1 ! 0) = [Some 4, Some 5] \<and>
     event_set_remove (Some 0) (Some 0) demo_events = Ret r s2 \<and> r < 0 \<and> s2 = demo_events"
proof -
  have at: "event_set_at (Some 0) member_events = Some 0" "event_at (Some 0) member_events = Some 0"
      "mutex_idle (es_mutex (event_set_pool member_events ! 0)) 2 member_events"
      "unat (es_event_count (event_set_pool member_events ! 0)) \<le> length (es_events (event_set_pool member_events ! 0))"
    by (simp_all add: member_events_def event_at_def event_set_at_def mutex_idle_def mutex_at_def get_current_pid_def
        events_demo_defs)
  have m: "set_members (event_set_pool member_events ! 0) = [Some 4, Some 0, Some 5]"
    by (simp add: member_events_def set_members_def)
  have d: "mutex_idle (es_mutex (event_set_pool demo_events ! 0)) 2 demo_events"
      "unat (es_event_count (event_set_pool demo_events ! 0)) \<le> length (es_events (event_set_pool demo_events ! 0))"
      "set_members (event_set_pool demo_events ! 0) = []"
    using demo_events_at(3) by (simp_all add: events_demo_defs set_members_def)
  show ?thesis
    using event_set_remove_exact [OF at(1-3) refl at(4), unfolded m]
      event_set_remove_exact [OF demo_events_at(2,1) d(1) refl d(2), unfolded d(3)] by auto
qed

theorem event_signal_wakes_no_set_witness:
  "event_signal (Some 0) demo_events = Ret 0 (set_state 0 EVENT_STATE_SIGNALED demo_events) \<and>
   k_sched (set_state 0 EVENT_STATE_SIGNALED demo_events) = busy_system"
proof -
  have "ev_mutex (event_pool demo_events ! 0) = Some 1" "ev_rep (event_pool demo_events ! 0) []"
      "k_sched demo_events = busy_system"
    by (simp_all add: ev_rep_def demo_events_def demo_event_def demo_ipc_def ipc.defs events.defs)
  with event_signal_wakes_no_set [OF demo_events_at(1)] demo_events_at(3) show ?thesis by auto
qed

lemma demo_wait_blocks:
  "\<exists>sc. block_task 2 (k_sched (add_event_waiter 0 2 (timeout_ticks 0) demo_events)) = Some (True, sc)"
  by (simp add: add_event_waiter_def new_waiter_def set_event_def events_demo_defs
      kmalloc_def kheap_boot_def HEAP_START_def HEAP_SIZE_def SIZEOF_WAITER_def align16_def
      run_defs find_pid_from.simps get_tick_count_def Let_def)

lemma signal_unblocks:
  "\<exists>sc. unblock_task 2 (k_sched signal_events) = Some sc \<and> interrupts_on sc \<and> get_current_pid sc = Some 3"
  by (simp add: unblock_task_def run_defs find_pid_from.simps events_demo_defs exit_critical_def
      add_task_to_ready_queue_def get_current_pid_def queue_index_def TASK_PRIORITY_REALTIME_def)

theorem auto_reset_signal_lost_witness:
  "\<exists>s1 rest s' t t'. event_timedwait (Some 0) 0 demo_events = Susp s1 rest \<and>
     event_signal (Some 0) signal_events = Ret 0 s' \<and> event_pool t = event_pool s' \<and> k_waiters t = k_waiters s' \<and>
     rest t = Ret (- 1) t'"
proof -
  obtain sc where b: "block_task 2 (k_sched (add_event_waiter 0 2 (timeout_ticks 0) demo_events)) = Some (True, sc)"
    using demo_wait_blocks by blast
  obtain sc' where u: "unblock_task 2 (k_sched signal_events) = Some sc'" "interrupts_on sc'" "get_current_pid sc' = Some 3"
    using signal_unblocks by blast
  let ?su = "signal_events\<lparr>k_sched := sc'\<rparr>"
  have su: "k_unblock 2 signal_events = Some ?su" "mutex_idle (Some 1) 3 ?su"
    using u demo_events_at(5) by (simp_all add: k_unblock_def mutex_idle_def mutex_at_def)
  have d: "ev_mutex (event_pool demo_events ! 0) = Some 1" "ev_state (event_pool demo_events ! 0) = EVENT_STATE_NONSIGNALED"
    "ev_mutex (event_pool signal_events ! 0) = Some 1" "auto_reset 0 signal_events"
    "ev_rep (event_pool signal_events ! 0) [0x100]" "sseg (k_waiters signal_events) [0x100]" "distinct [0x100 :: ptr]"
    "length [0x100 :: ptr] < 2 ^ 32" "pid_at (k_waiters signal_events) 0x100 = 2"
    by (simp_all add: auto_reset_def EVENT_FLAG_MANUAL_RESET_def ev_rep_def pid_at_def events_demo_defs)
  note idle = demo_events_at(3) [folded d(1)] demo_events_at(5) [folded d(3)]
  obtain s1 rest s' where r: "event_timedwait (Some 0) 0 demo_events = Susp s1 rest"
    "event_signal (Some 0) signal_events = Ret 0 s'"
    "\<forall>t. event_pool t = event_pool s' \<and> k_waiters t = k_waiters s' \<and>
       mutex_idle (ev_mutex (event_pool t ! 0)) 2 (t\<lparr>k_sched := exit_critical (k_sched t)\<rparr>) \<longrightarrow> (\<exists>t'. rest t = Ret (- 1) t')"
    using auto_reset_signal_lost [OF demo_events_at(1) idle(1) d(2) b demo_events_at(4) idle(2) d(4-8), unfolded d(3,9)]
      su by blast
  have s': "s' = set_event 0 demo_event ?su"
    using r(2) event_signal_auto [OF demo_events_at(4) idle(2) d(4-6,8), unfolded d(3,9), OF su]
    by (simp add: signal_events_def demo_event_def)
  let ?t = "s'\<lparr>k_sched := busy_system\<rparr>"
  have "mutex_idle (ev_mutex (event_pool ?t ! 0)) 2 (?t\<lparr>k_sched := exit_critical (k_sched ?t)\<rparr>)"
    unfolding s' by (simp add: set_event_def exit_critical_def mutex_idle_def mutex_at_def get_current_pid_def events_demo_defs)
  then have "\<exists>t'. rest ?t = Ret (- 1) t'" by (intro r(3) [rule_format]) simp
  moreover have "event_pool ?t = event_pool s'" "k_waiters ?t = k_waiters s'" by simp_all
  ultimately show ?thesis using r(1,2) by blast
qed

end
