(* ===== verification/Page_Directory.thy ===== *)
theory Page_Directory
  imports Kernel_Heap Sync_Ops
begin

text \<open>
  Page directories of \<^verbatim>\<open>kernel/memory/page_directory.c\<close>: four levels of translation tables
  in physical memory, the operations that map, unmap, copy and check them, copy-on-write faults, and
  the list of all directories. Physical memory is a function from the address of an aligned 64-bit
  word to its content. \<^verbatim>\<open>alloc_pages\<close>, \<^verbatim>\<open>free_pages\<close> and
  \<^verbatim>\<open>get_system_time\<close> are declared in \<^verbatim>\<open>include/edgex/memory.h\<close> but defined in no
  source file, and the lock calls are those of the theory \<open>Sync_Ops\<close>; both are parameters. The
  translation cache of the processor and log output are not modelled.
\<close>

section \<open>Constants and data\<close>

definition PAGE_PRESENT :: u64 where "PAGE_PRESENT = 1"
definition PAGE_WRITABLE :: u64 where "PAGE_WRITABLE = 2"
definition PAGE_USER :: u64 where "PAGE_USER = 4"
definition PAGE_SIZE :: u64 where "PAGE_SIZE = 0x80"
definition PAGE_COW :: u64 where "PAGE_COW = 0x200"
definition PAGE_EXEC_DISABLE :: u64 where "PAGE_EXEC_DISABLE = push_bit 63 1"

definition PAGE_SIZE_4K :: u64 where "PAGE_SIZE_4K = 4096"
definition PAGE_SIZE_2M :: u64 where "PAGE_SIZE_2M = 2 * 1024 * 1024"
definition PAGE_SIZE_1G :: u64 where "PAGE_SIZE_1G = 1 * 1024 * 1024 * 1024"
definition PTE_COUNT_PER_TABLE :: nat where "PTE_COUNT_PER_TABLE = 512"

definition MEM_ACCESS_WRITE :: u64 where "MEM_ACCESS_WRITE = 1"
definition MEM_ACCESS_RESERVED :: u64 where "MEM_ACCESS_RESERVED = 8"

definition ALLOC_ZERO :: u32 where "ALLOC_ZERO = 1"
definition ALLOC_KERNEL :: u32 where "ALLOC_KERNEL = 4"

text \<open>The page allocator: \<open>'a\<close> is its own state; \<^verbatim>\<open>ALLOC_ZERO\<close> makes it write the memory.\<close>

record 'a page_ops =
  po_alloc_pages :: "u64 \<Rightarrow> u32 \<Rightarrow> (ptr \<Rightarrow> u64) \<Rightarrow> 'a \<Rightarrow> ptr \<times> (ptr \<Rightarrow> u64) \<times> 'a"
  po_free_pages :: "ptr \<Rightarrow> u64 \<Rightarrow> 'a \<Rightarrow> 'a"
  po_system_time :: "'a \<Rightarrow> u64"

record 'a pmem =
  pm_words :: "ptr \<Rightarrow> u64"
  pm_alloc :: 'a

record fault_record =
  fault_vaddr :: u64
  fault_access_type :: u64
  fault_timestamp :: u64
  fault_task_id :: u32

record 'm page_directory =
  pml4_table :: ptr
  cr3_value :: u64
  pd_lock :: 'm
  pd_ref_count :: u32
  pd_owner_pid :: u32
  page_fault_count :: u64
  cow_breaks_count :: u64
  total_mapped_pages :: u64
  total_user_pages :: u64
  last_page_faults :: "fault_record list"
  last_fault_index :: u32
  pd_next :: ptr

text \<open>
  The static variables, the directories by address, and \<open>pd_junk\<close>, what the memory of a new
  directory happens to hold in the fault buffer, which \<^verbatim>\<open>create_page_directory\<close> does not
  initialise.
\<close>

record ('a, 'm) pd_sys = "'a pmem" +
  pd_dirs :: "ptr \<rightharpoonup> 'm page_directory"
  pd_heap :: kheap
  pd_junk :: "fault_record list"
  global_pd_lock :: 'm
  all_page_directories :: ptr
  total_page_directories :: u32
  pd_system_initialized :: bool

text \<open>The 400 bytes of \<^verbatim>\<open>struct page_directory\<close>.\<close>

definition SIZEOF_PAGE_DIRECTORY :: u64 where "SIZEOF_PAGE_DIRECTORY = 400"

section \<open>Reading and writing tables\<close>

definition pml4_index :: "u64 \<Rightarrow> u64" where "pml4_index v = drop_bit 39 v AND 0x1FF"
definition pdpt_index :: "u64 \<Rightarrow> u64" where "pdpt_index v = drop_bit 30 v AND 0x1FF"
definition pd_index :: "u64 \<Rightarrow> u64" where "pd_index v = drop_bit 21 v AND 0x1FF"
definition pt_index :: "u64 \<Rightarrow> u64" where "pt_index v = drop_bit 12 v AND 0x1FF"

text \<open>\<^verbatim>\<open>&table[idx]\<close>\<close>

definition pte :: "ptr \<Rightarrow> u64 \<Rightarrow> ptr" where
  "pte table idx = table + 8 * idx"

definition has :: "u64 \<Rightarrow> u64 \<Rightarrow> bool" where
  "has e f \<longleftrightarrow> e AND f \<noteq> 0"

text \<open>\<^verbatim>\<open>entry & ~0xFFF\<close> and the rounding to 4K pages\<close>

definition page_base :: "u64 \<Rightarrow> u64" where
  "page_base e = e AND NOT (PAGE_SIZE_4K - 1)"

definition page_up :: "u64 \<Rightarrow> u64" where
  "page_up a = page_base (a + PAGE_SIZE_4K - 1)"

definition set_word :: "ptr \<Rightarrow> u64 \<Rightarrow> ('a, 'z) pmem_scheme \<Rightarrow> ('a, 'z) pmem_scheme" where
  "set_word a v s = s\<lparr>pm_words := (pm_words s)(a := v)\<rparr>"

text \<open>\<^verbatim>\<open>alloc_pages(1, ALLOC_ZERO | ALLOC_KERNEL)\<close> and \<^verbatim>\<open>free_pages(p, n)\<close>\<close>

definition alloc_table :: "'a page_ops \<Rightarrow> ('a, 'z) pmem_scheme \<Rightarrow> ptr \<times> ('a, 'z) pmem_scheme" where
  "alloc_table po s =
     (let (p, w, a) = po_alloc_pages po 1 (ALLOC_ZERO OR ALLOC_KERNEL) (pm_words s) (pm_alloc s)
      in (p, s\<lparr>pm_words := w, pm_alloc := a\<rparr>))"

definition free_range :: "'a page_ops \<Rightarrow> ptr \<Rightarrow> u64 \<Rightarrow> ('a, 'z) pmem_scheme \<Rightarrow> ('a, 'z) pmem_scheme" where
  "free_range po p n s = s\<lparr>pm_alloc := po_free_pages po p n (pm_alloc s)\<rparr>"

section \<open>Translation\<close>

definition get_physical_address :: "'m page_directory \<Rightarrow> u64 \<Rightarrow> ('a, 'z) pmem_scheme \<Rightarrow> ptr" where
  "get_physical_address d virtual_addr s =
     (let w = pm_words s;
          page_aligned_addr = page_base virtual_addr;
          page_offset = virtual_addr AND (PAGE_SIZE_4K - 1);
          pml4_entry = w (pte (pml4_table d) (pml4_index page_aligned_addr))
      in if \<not> has pml4_entry PAGE_PRESENT then NULL
         else let pdpt_entry = w (pte (page_base pml4_entry) (pdpt_index page_aligned_addr))
         in if \<not> has pdpt_entry PAGE_PRESENT then NULL
         else if has pdpt_entry PAGE_SIZE
         then page_base pdpt_entry + (page_aligned_addr AND (PAGE_SIZE_1G - 1)) + page_offset
         else let pd_entry = w (pte (page_base pdpt_entry) (pd_index page_aligned_addr))
         in if \<not> has pd_entry PAGE_PRESENT then NULL
         else if has pd_entry PAGE_SIZE
         then page_base pd_entry + (page_aligned_addr AND (PAGE_SIZE_2M - 1)) + page_offset
         else let pt_entry = w (pte (page_base pd_entry) (pt_index page_aligned_addr))
         in if \<not> has pt_entry PAGE_PRESENT then NULL
         else page_base pt_entry + page_offset)"

definition set_page_flags ::
    "'m page_directory \<Rightarrow> u64 \<Rightarrow> u64 \<Rightarrow> u64 \<Rightarrow> ('a, 'z) pmem_scheme \<Rightarrow> (errno + unit) \<times> ('a, 'z) pmem_scheme" where
  "set_page_flags d virtual_addr flags msk s =
     (let w = pm_words s;
          page_aligned_addr = page_base virtual_addr;
          pml4_entry = w (pte (pml4_table d) (pml4_index page_aligned_addr))
      in if \<not> has pml4_entry PAGE_PRESENT then (Inl EFAULT, s)
         else let pdpt_a = pte (page_base pml4_entry) (pdpt_index page_aligned_addr)
         in if \<not> has (w pdpt_a) PAGE_PRESENT then (Inl EFAULT, s)
         else if has (w pdpt_a) PAGE_SIZE
         then (Inr (), set_word pdpt_a ((w pdpt_a AND NOT msk) OR flags) s)
         else let pd_a = pte (page_base (w pdpt_a)) (pd_index page_aligned_addr)
         in if \<not> has (w pd_a) PAGE_PRESENT then (Inl EFAULT, s)
         else if has (w pd_a) PAGE_SIZE
         then (Inr (), set_word pd_a ((w pd_a AND NOT msk) OR flags) s)
         else let pt_a = pte (page_base (w pd_a)) (pt_index page_aligned_addr)
         in if \<not> has (w pt_a) PAGE_PRESENT then (Inl EFAULT, s)
         else (Inr (), set_word pt_a ((w pt_a AND NOT msk) OR flags) s))"

text \<open>
  \<^verbatim>\<open>for (addr = start_page; addr < end_page; addr += PAGE_SIZE_4K)\<close>: both bounds are
  multiples of the page size, so the loop runs over the pages between them.
\<close>

definition mark_pages_cow :: "'m page_directory \<Rightarrow> u64 \<Rightarrow> u64 \<Rightarrow> ('a, 'z) pmem_scheme \<Rightarrow> ('a, 'z) pmem_scheme" where
  "mark_pages_cow d start_addr end_addr s =
     (let start_page = page_base start_addr; end_page = page_up end_addr
      in fold (\<lambda>k s. snd (set_page_flags d (start_page + of_nat k * PAGE_SIZE_4K) PAGE_COW PAGE_WRITABLE s))
           [0 ..< (unat end_page - unat start_page) div 4096] s)"

section \<open>Mapping\<close>

text \<open>
  The table that the entry at address \<open>ea\<close> points to, allocated if the entry is not present. A
  present entry of the two middle levels may be a large page.
\<close>

definition table_for ::
    "'a page_ops \<Rightarrow> bool \<Rightarrow> u64 \<Rightarrow> ptr \<Rightarrow> ('a, 'z) pmem_scheme \<Rightarrow> (errno + ptr) \<times> ('a, 'z) pmem_scheme" where
  "table_for po may_be_large flags ea s =
     (let e = pm_words s ea in
      if \<not> has e PAGE_PRESENT
      then let (t, s1) = alloc_table po s in
           if t = NULL then (Inl ENOMEM, s1)
           else let v = t OR PAGE_PRESENT OR PAGE_WRITABLE
                in (Inr t, set_word ea (if has flags PAGE_USER then v OR PAGE_USER else v) s1)
      else if may_be_large \<and> has e PAGE_SIZE then (Inl EEXIST, s)
      else (Inr (page_base e), s))"

text \<open>The test for a large page of \<open>sz\<close> bytes in iteration \<open>i\<close>.\<close>

definition large_ok :: "u64 \<Rightarrow> u64 \<Rightarrow> u64 \<Rightarrow> u64 \<Rightarrow> nat \<Rightarrow> nat \<Rightarrow> bool" where
  "large_ok sz flags vaddr paddr i num_pages \<longleftrightarrow>
     has flags PAGE_SIZE \<and> vaddr AND (sz - 1) = 0 \<and> paddr AND (sz - 1) = 0 \<and>
     i + unat (sz div PAGE_SIZE_4K) \<le> num_pages"

definition large_entry :: "u64 \<Rightarrow> u64 \<Rightarrow> u64" where
  "large_entry paddr flags = paddr OR PAGE_PRESENT OR PAGE_SIZE OR (flags AND NOT PAGE_COW)"

definition page_entry :: "u64 \<Rightarrow> u64 \<Rightarrow> u64" where
  "page_entry paddr flags = paddr OR PAGE_PRESENT OR (flags AND NOT PAGE_COW)"

text \<open>
  The body of the loop of \<^verbatim>\<open>map_memory_range\<close>: an error, or how far \<open>i\<close> advances beyond the
  usual step.
\<close>

definition map_page ::
    "'a page_ops \<Rightarrow> u64 \<Rightarrow> nat \<Rightarrow> nat \<Rightarrow> u64 \<Rightarrow> u64 \<Rightarrow> 'm page_directory \<Rightarrow> ('a, 'z) pmem_scheme \<Rightarrow>
     (errno + nat) \<times> 'm page_directory \<times> ('a, 'z) pmem_scheme" where
  "map_page po flags num_pages i vaddr paddr d s =
     (case table_for po False flags (pte (pml4_table d) (pml4_index vaddr)) s of
        (Inl e, s1) \<Rightarrow> (Inl e, d, s1)
      | (Inr pdpt_table, s1) \<Rightarrow>
          let pdpt_a = pte pdpt_table (pdpt_index vaddr) in
          if large_ok PAGE_SIZE_1G flags vaddr paddr i num_pages
          then (Inr (unat (PAGE_SIZE_1G div PAGE_SIZE_4K) - 1), d, set_word pdpt_a (large_entry paddr flags) s1)
          else case table_for po True flags pdpt_a s1 of
                 (Inl e, s2) \<Rightarrow> (Inl e, d, s2)
               | (Inr pd_table, s2) \<Rightarrow>
                   let pd_a = pte pd_table (pd_index vaddr) in
                   if large_ok PAGE_SIZE_2M flags vaddr paddr i num_pages
                   then (Inr (unat (PAGE_SIZE_2M div PAGE_SIZE_4K) - 1), d, set_word pd_a (large_entry paddr flags) s2)
                   else case table_for po True flags pd_a s2 of
                          (Inl e, s3) \<Rightarrow> (Inl e, d, s3)
                        | (Inr pt_table, s3) \<Rightarrow>
                            let pt_a = pte pt_table (pt_index vaddr) in
                            if has (pm_words s3 pt_a) PAGE_PRESENT then (Inl EEXIST, d, s3)
                            else let d1 = d\<lparr>total_mapped_pages := total_mapped_pages d + 1\<rparr>
                                 in (Inr 0,
                                     if has flags PAGE_USER then d1\<lparr>total_user_pages := total_user_pages d1 + 1\<rparr> else d1,
                                     set_word pt_a (page_entry paddr flags) s3))"

function map_loop ::
    "'a page_ops \<Rightarrow> u64 \<Rightarrow> nat \<Rightarrow> u64 \<Rightarrow> u64 \<Rightarrow> nat \<Rightarrow> 'm page_directory \<Rightarrow> ('a, 'z) pmem_scheme \<Rightarrow>
     (errno + unit) \<times> 'm page_directory \<times> ('a, 'z) pmem_scheme" where
  "map_loop po flags num_pages start_vaddr start_paddr i d s =
     (if i < num_pages
      then case map_page po flags num_pages i (start_vaddr + of_nat i * PAGE_SIZE_4K)
                  (start_paddr + of_nat i * PAGE_SIZE_4K) d s of
             (Inl e, d1, s1) \<Rightarrow> (Inl e, d1, s1)
           | (Inr skip, d1, s1) \<Rightarrow> map_loop po flags num_pages start_vaddr start_paddr (i + skip + 1) d1 s1
      else (Inr (), d, s))"
  by pat_completeness auto
termination by (relation "measure (\<lambda>(po, flags, n, v, p, i, d, s). n - i)") auto

text \<open>The body of a public function on the directory at address \<open>pd\<close>, under its lock.\<close>

definition with_pd ::
    "'m mutex_ops \<Rightarrow> ptr \<Rightarrow>
     ('m page_directory \<Rightarrow> ('a, 'm) pd_sys \<Rightarrow> 'r \<times> 'm page_directory \<times> ('a, 'm) pd_sys) \<Rightarrow>
     ('a, 'm) pd_sys \<Rightarrow> ('r \<times> ('a, 'm) pd_sys) option" where
  "with_pd mo pd body s =
     (case pd_dirs s pd of
        None \<Rightarrow> None
      | Some d \<Rightarrow>
          let (r, d1, s1) = body (d\<lparr>pd_lock := mtx_lock mo (pd_lock d)\<rparr>) s
          in Some (r, s1\<lparr>pd_dirs := (pd_dirs s1)(pd \<mapsto> d1\<lparr>pd_lock := mtx_unlock mo (pd_lock d1)\<rparr>)\<rparr>))"

definition map_memory_range ::
    "'a page_ops \<Rightarrow> 'm mutex_ops \<Rightarrow> ptr \<Rightarrow> u64 \<Rightarrow> u64 \<Rightarrow> u64 \<Rightarrow> u64 \<Rightarrow> ('a, 'm) pd_sys \<Rightarrow>
     ((errno + unit) \<times> ('a, 'm) pd_sys) option" where
  "map_memory_range po mo pd vaddr paddr sz flags s =
     (if \<not> pd_system_initialized s \<or> pd = NULL then Some (Inl EINVAL, s)
      else let start_vaddr = page_base vaddr; start_paddr = page_base paddr;
               end_vaddr = page_up (vaddr + sz);
               num_pages = (end_vaddr - start_vaddr) div PAGE_SIZE_4K
           in if sz = 0 \<or> start_vaddr \<ge> end_vaddr then Some (Inl EINVAL, s)
              else with_pd mo pd (map_loop po flags (unat num_pages) start_vaddr start_paddr 0) s)"

section \<open>Unmapping\<close>

definition table_empty :: "ptr \<Rightarrow> ('a, 'z) pmem_scheme \<Rightarrow> bool" where
  "table_empty t s \<longleftrightarrow> (\<forall>j < PTE_COUNT_PER_TABLE. \<not> has (pm_words s (pte t (of_nat j))) PAGE_PRESENT)"

text \<open>
  Freeing a table that has become empty and clearing the entry at address \<open>a\<close> that points to it, then
  going on with the table above.
\<close>

definition reclaim_pdpt :: "'a page_ops \<Rightarrow> ptr \<Rightarrow> ptr \<Rightarrow> ('a, 'z) pmem_scheme \<Rightarrow> ('a, 'z) pmem_scheme" where
  "reclaim_pdpt po pml4_a pdpt_table s =
     (if table_empty pdpt_table s then set_word pml4_a 0 (free_range po pdpt_table 1 s) else s)"

definition reclaim_pd ::
    "'a page_ops \<Rightarrow> ptr \<Rightarrow> ptr \<Rightarrow> ptr \<Rightarrow> ptr \<Rightarrow> ('a, 'z) pmem_scheme \<Rightarrow> ('a, 'z) pmem_scheme" where
  "reclaim_pd po pml4_a pdpt_table pdpt_a pd_table s =
     (if table_empty pd_table s
      then reclaim_pdpt po pml4_a pdpt_table (set_word pdpt_a 0 (free_range po pd_table 1 s)) else s)"

definition reclaim_pt ::
    "'a page_ops \<Rightarrow> ptr \<Rightarrow> ptr \<Rightarrow> ptr \<Rightarrow> ptr \<Rightarrow> ptr \<Rightarrow> ptr \<Rightarrow> ('a, 'z) pmem_scheme \<Rightarrow> ('a, 'z) pmem_scheme" where
  "reclaim_pt po pml4_a pdpt_table pdpt_a pd_table pd_a pt_table s =
     (if table_empty pt_table s
      then reclaim_pd po pml4_a pdpt_table pdpt_a pd_table (set_word pd_a 0 (free_range po pt_table 1 s)) else s)"

text \<open>
  Clearing the entry at address \<open>a\<close>, which maps \<open>n\<close> pages: the physical memory is freed on request
  unless it is copy-on-write, the entry is cleared, the counters are updated. The test of
  \<^verbatim>\<open>PAGE_USER\<close> reads the entry again.
\<close>

definition clear_entry ::
    "'a page_ops \<Rightarrow> bool \<Rightarrow> u64 \<Rightarrow> ptr \<Rightarrow> 'm page_directory \<Rightarrow> ('a, 'z) pmem_scheme \<Rightarrow>
     'm page_directory \<times> ('a, 'z) pmem_scheme" where
  "clear_entry po free_phys n a d s =
     (let e = pm_words s a;
          s1 = (if free_phys \<and> \<not> has e PAGE_COW then free_range po (page_base e) n s else s);
          s2 = set_word a 0 s1;
          d1 = d\<lparr>total_mapped_pages := total_mapped_pages d - n\<rparr>
      in (if has (pm_words s2 a) PAGE_USER then d1\<lparr>total_user_pages := total_user_pages d1 - n\<rparr> else d1, s2))"

text \<open>\<open>vaddr\<close> is the first 4K page of a page of \<open>sz\<close> bytes.\<close>

definition first_of :: "u64 \<Rightarrow> u64 \<Rightarrow> bool" where
  "first_of sz vaddr \<longleftrightarrow> vaddr AND NOT (sz - 1) = page_base vaddr"

definition unmap_page ::
    "'a page_ops \<Rightarrow> bool \<Rightarrow> u64 \<Rightarrow> 'm page_directory \<Rightarrow> ('a, 'z) pmem_scheme \<Rightarrow>
     nat \<times> 'm page_directory \<times> ('a, 'z) pmem_scheme" where
  "unmap_page po free_phys vaddr d s =
     (let w = pm_words s; pml4_a = pte (pml4_table d) (pml4_index vaddr) in
      if \<not> has (w pml4_a) PAGE_PRESENT then (0, d, s)
      else let pdpt_table = page_base (w pml4_a); pdpt_a = pte pdpt_table (pdpt_index vaddr) in
      if \<not> has (w pdpt_a) PAGE_PRESENT then (0, d, s)
      else if has (w pdpt_a) PAGE_SIZE \<and> first_of PAGE_SIZE_1G vaddr
      then let n = PAGE_SIZE_1G div PAGE_SIZE_4K; (d1, s1) = clear_entry po free_phys n pdpt_a d s
           in (unat n - 1, d1, reclaim_pdpt po pml4_a pdpt_table s1)
      else let pd_table = page_base (w pdpt_a); pd_a = pte pd_table (pd_index vaddr) in
      if \<not> has (w pd_a) PAGE_PRESENT then (0, d, s)
      else if has (w pd_a) PAGE_SIZE \<and> first_of PAGE_SIZE_2M vaddr
      then let n = PAGE_SIZE_2M div PAGE_SIZE_4K; (d1, s1) = clear_entry po free_phys n pd_a d s
           in (unat n - 1, d1, reclaim_pd po pml4_a pdpt_table pdpt_a pd_table s1)
      else let pt_table = page_base (w pd_a); pt_a = pte pt_table (pt_index vaddr) in
      if \<not> has (w pt_a) PAGE_PRESENT then (0, d, s)
      else let (d1, s1) = clear_entry po free_phys 1 pt_a d s
           in (0, d1, reclaim_pt po pml4_a pdpt_table pdpt_a pd_table pd_a pt_table s1))"

function unmap_loop ::
    "'a page_ops \<Rightarrow> bool \<Rightarrow> nat \<Rightarrow> u64 \<Rightarrow> nat \<Rightarrow> 'm page_directory \<Rightarrow> ('a, 'z) pmem_scheme \<Rightarrow>
     'm page_directory \<times> ('a, 'z) pmem_scheme" where
  "unmap_loop po free_phys num_pages start_vaddr i d s =
     (if i < num_pages
      then case unmap_page po free_phys (start_vaddr + of_nat i * PAGE_SIZE_4K) d s of
             (skip, d1, s1) \<Rightarrow> unmap_loop po free_phys num_pages start_vaddr (i + skip + 1) d1 s1
      else (d, s))"
  by pat_completeness auto
termination by (relation "measure (\<lambda>(po, f, n, v, i, d, s). n - i)") auto

definition unmap_memory_range ::
    "'a page_ops \<Rightarrow> 'm mutex_ops \<Rightarrow> ptr \<Rightarrow> u64 \<Rightarrow> u64 \<Rightarrow> bool \<Rightarrow> ('a, 'm) pd_sys \<Rightarrow>
     ((errno + unit) \<times> ('a, 'm) pd_sys) option" where
  "unmap_memory_range po mo pd vaddr sz free_phys s =
     (if \<not> pd_system_initialized s \<or> pd = NULL then Some (Inl EINVAL, s)
      else let start_vaddr = page_base vaddr; end_vaddr = page_up (vaddr + sz);
               num_pages = (end_vaddr - start_vaddr) div PAGE_SIZE_4K
           in if sz = 0 \<or> start_vaddr \<ge> end_vaddr then Some (Inl EINVAL, s)
              else with_pd mo pd (\<lambda>d s. (Inr (), unmap_loop po free_phys (unat num_pages) start_vaddr 0 d s)) s)"

section \<open>Page faults\<close>

text \<open>\<^verbatim>\<open>memcpy(new_page, (void*)phys_addr, PAGE_SIZE_4K)\<close>, in words; the pages are aligned.\<close>

definition copy_page :: "ptr \<Rightarrow> ptr \<Rightarrow> ('a, 'z) pmem_scheme \<Rightarrow> ('a, 'z) pmem_scheme" where
  "copy_page dst src s = fold (\<lambda>j s. set_word (pte dst (of_nat j)) (pm_words s (pte src (of_nat j))) s) [0 ..< 512] s"

definition handle_cow_page_fault ::
    "'a page_ops \<Rightarrow> 'm page_directory \<Rightarrow> u64 \<Rightarrow> ('a, 'z) pmem_scheme \<Rightarrow>
     (errno + unit) \<times> 'm page_directory \<times> ('a, 'z) pmem_scheme" where
  "handle_cow_page_fault po d fault_addr s =
     (let w = pm_words s;
          page_aligned_addr = page_base fault_addr;
          pml4_entry = w (pte (pml4_table d) (pml4_index page_aligned_addr))
      in if \<not> has pml4_entry PAGE_PRESENT then (Inl EFAULT, d, s)
         else let pdpt_entry = w (pte (page_base pml4_entry) (pdpt_index page_aligned_addr))
         in if \<not> has pdpt_entry PAGE_PRESENT then (Inl EFAULT, d, s)
         else if has pdpt_entry PAGE_SIZE then (Inl ENOTSUP, d, s)
         else let pd_entry = w (pte (page_base pdpt_entry) (pd_index page_aligned_addr))
         in if \<not> has pd_entry PAGE_PRESENT then (Inl EFAULT, d, s)
         else if has pd_entry PAGE_SIZE then (Inl ENOTSUP, d, s)
         else let pt_a = pte (page_base pd_entry) (pt_index page_aligned_addr)
         in if \<not> has (w pt_a) PAGE_PRESENT \<or> \<not> has (w pt_a) PAGE_COW then (Inl EFAULT, d, s)
         else let pte_value = w pt_a; (new_page, s1) = alloc_table po s
         in if new_page = NULL then (Inl ENOMEM, d, s1)
         else let s2 = copy_page new_page (page_base pte_value) s1;
                  v = new_page OR (pte_value AND 0xFFF) OR PAGE_WRITABLE
         in (Inr (), d\<lparr>cow_breaks_count := cow_breaks_count d + 1\<rparr>, set_word pt_a (v AND NOT PAGE_COW) s2))"

definition track_page_fault ::
    "'a page_ops \<Rightarrow> 'm page_directory \<Rightarrow> u64 \<Rightarrow> u64 \<Rightarrow> ('a, 'z) pmem_scheme \<Rightarrow> 'm page_directory" where
  "track_page_fault po d fault_addr error_code s =
     (let index = last_fault_index d;
          r = \<lparr>fault_vaddr = fault_addr, fault_access_type = error_code,
               fault_timestamp = po_system_time po (pm_alloc s), fault_task_id = pd_owner_pid d\<rparr>
      in d\<lparr>page_fault_count := page_fault_count d + 1,
           last_page_faults := (last_page_faults d)[unat index := r],
           last_fault_index := (index + 1) mod 10\<rparr>)"

definition handle_page_fault ::
    "'a page_ops \<Rightarrow> 'm mutex_ops \<Rightarrow> ptr \<Rightarrow> u64 \<Rightarrow> u64 \<Rightarrow> ('a, 'm) pd_sys \<Rightarrow>
     ((errno + unit) \<times> ('a, 'm) pd_sys) option" where
  "handle_page_fault po mo pd fault_addr error_code s =
     (if \<not> pd_system_initialized s \<or> pd = NULL then Some (Inl EINVAL, s)
      else with_pd mo pd (\<lambda>d s.
             let d1 = track_page_fault po d fault_addr error_code s in
             if has error_code MEM_ACCESS_WRITE \<and> \<not> has error_code MEM_ACCESS_RESERVED
             then case handle_cow_page_fault po d1 fault_addr s of
                    (Inr _, d2, s2) \<Rightarrow> (Inr (), d2, s2)
                  | (Inl _, d2, s2) \<Rightarrow> (Inl EFAULT, d2, s2)
             else (Inl EFAULT, d1, s)) s)"

section \<open>Creating and destroying directories\<close>

definition init_page_directory_system :: "'m mutex_ops \<Rightarrow> ('a, 'm) pd_sys \<Rightarrow> ('a, 'm) pd_sys" where
  "init_page_directory_system mo s =
     (if pd_system_initialized s then s
      else s\<lparr>global_pd_lock := snd (mtx_init mo), all_page_directories := NULL, total_page_directories := 0,
             pd_system_initialized := True\<rparr>)"

definition create_page_directory ::
    "'a page_ops \<Rightarrow> 'm mutex_ops \<Rightarrow> pid_t \<Rightarrow> ('a, 'm) pd_sys \<Rightarrow> ptr \<times> ('a, 'm) pd_sys" where
  "create_page_directory po mo owner_pid s =
     (let s0 = init_page_directory_system mo s;
          (pd, h) = kmalloc SIZEOF_PAGE_DIRECTORY (pd_heap s0);
          s1 = s0\<lparr>pd_heap := h\<rparr>
      in if pd = NULL then (NULL, s1)
         else let (table, s2) = alloc_table po s1
         in if table = NULL then (NULL, s2\<lparr>pd_heap := kfree pd (pd_heap s2)\<rparr>)
         else let l = mtx_lock mo (global_pd_lock s2);
                  d = \<lparr>pml4_table = table, cr3_value = table, pd_lock = snd (mtx_init mo), pd_ref_count = 1,
                       pd_owner_pid = owner_pid, page_fault_count = 0, cow_breaks_count = 0,
                       total_mapped_pages = 0, total_user_pages = 0, last_page_faults = pd_junk s2,
                       last_fault_index = 0, pd_next = all_page_directories s2\<rparr>
         in (pd, s2\<lparr>pd_dirs := (pd_dirs s2)(pd \<mapsto> d), all_page_directories := pd,
                    total_page_directories := total_page_directories s2 + 1,
                    global_pd_lock := mtx_unlock mo l\<rparr>))"

text \<open>
  The search in the list of all directories: \<open>Some (Some prev)\<close> if the directory is found after
  \<open>prev\<close>, \<open>Some None\<close> if it is not in the list.
\<close>

partial_function (option) find_pd ::
    "(ptr \<rightharpoonup> 'm page_directory) \<Rightarrow> ptr \<Rightarrow> ptr \<Rightarrow> ptr \<Rightarrow> ptr option option" where
  "find_pd dirs directory prev cur =
     (if cur = NULL then Some None
      else if cur = directory then Some (Some prev)
      else case dirs cur of
             None \<Rightarrow> None
           | Some d \<Rightarrow> find_pd dirs directory cur (pd_next d))"

definition unlink_pd :: "ptr \<Rightarrow> ptr \<Rightarrow> ('a, 'm) pd_sys \<Rightarrow> ('a, 'm) pd_sys option" where
  "unlink_pd directory prev s =
     (case pd_dirs s directory of
        None \<Rightarrow> None
      | Some d \<Rightarrow>
          if prev = NULL
          then Some (s\<lparr>all_page_directories := pd_next d, total_page_directories := total_page_directories s - 1\<rparr>)
          else case pd_dirs s prev of
                 None \<Rightarrow> None
               | Some p \<Rightarrow> Some (s\<lparr>pd_dirs := (pd_dirs s)(prev \<mapsto> p\<lparr>pd_next := pd_next d\<rparr>),
                                    total_page_directories := total_page_directories s - 1\<rparr>))"

definition destroy_page_directory_internal ::
    "'a page_ops \<Rightarrow> 'm mutex_ops \<Rightarrow> ptr \<Rightarrow> ('a, 'm) pd_sys \<Rightarrow> ('a, 'm) pd_sys option" where
  "destroy_page_directory_internal po mo pd s =
     Option.bind
       (with_pd mo pd (\<lambda>d s.
          let d1 = d\<lparr>pd_ref_count := pd_ref_count d - 1\<rparr>
          in if pd_ref_count d1 = 0 then (True, d1, free_range po (pml4_table d1) 1 s) else (False, d1, s)) s)
       (\<lambda>(freed, s1). Some (if freed then s1\<lparr>pd_heap := kfree pd (pd_heap s1)\<rparr> else s1))"

definition destroy_page_directory ::
    "'a page_ops \<Rightarrow> 'm mutex_ops \<Rightarrow> ptr \<Rightarrow> ('a, 'm) pd_sys \<Rightarrow> ('a, 'm) pd_sys option" where
  "destroy_page_directory po mo directory s =
     (if \<not> pd_system_initialized s \<or> directory = NULL then Some s
      else let s1 = s\<lparr>global_pd_lock := mtx_lock mo (global_pd_lock s)\<rparr> in
        Option.bind (find_pd (pd_dirs s1) directory NULL (all_page_directories s1)) (\<lambda>found.
          case found of
            None \<Rightarrow> Some (s1\<lparr>global_pd_lock := mtx_unlock mo (global_pd_lock s1)\<rparr>)
          | Some prev \<Rightarrow>
              Option.bind (unlink_pd directory prev s1) (\<lambda>s2.
                destroy_page_directory_internal po mo directory
                  (s2\<lparr>global_pd_lock := mtx_unlock mo (global_pd_lock s2)\<rparr>))))"

section \<open>Copying a directory\<close>

text \<open>The table of the destination below the entry at address \<open>dest_a\<close>, made like the source's.\<close>

definition copy_table_for ::
    "'a page_ops \<Rightarrow> ptr \<Rightarrow> ptr \<Rightarrow> ('a, 'z) pmem_scheme \<Rightarrow> ptr option \<times> ('a, 'z) pmem_scheme" where
  "copy_table_for po src_a dest_a s =
     (if \<not> has (pm_words s dest_a) PAGE_PRESENT
      then let (t, s1) = alloc_table po s in
           if t = NULL then (None, s1)
           else (Some t, set_word dest_a (t OR (pm_words s1 src_a AND 0xFFF)) s1)
      else (Some (page_base (pm_words s dest_a)), s))"

text \<open>\<^verbatim>\<open>phys_addr | flags\<close> of the source entry\<close>

definition copied_entry :: "u64 \<Rightarrow> u64" where
  "copied_entry e = page_base e OR (e AND 0xFFF)"

text \<open>
  The body of the loop of \<^verbatim>\<open>copy_page_tables\<close>: \<^const>\<open>None\<close> when there is no memory, otherwise
  how far \<^verbatim>\<open>curr_addr\<close> advances beyond the usual step. For a large page this is a number of
  pages, added to an address.
\<close>

definition copy_step ::
    "'a page_ops \<Rightarrow> ptr \<Rightarrow> ptr \<Rightarrow> u64 \<Rightarrow> ('a, 'z) pmem_scheme \<Rightarrow> u64 option \<times> ('a, 'z) pmem_scheme" where
  "copy_step po src dest addr s =
     (let w = pm_words s;
          src_pml4_a = pte src (pml4_index addr); dest_pml4_a = pte dest (pml4_index addr) in
      if \<not> has (w src_pml4_a) PAGE_PRESENT then (Some 0, s)
      else let src_pdpt_a = pte (page_base (w src_pml4_a)) (pdpt_index addr) in
      if \<not> has (w src_pdpt_a) PAGE_PRESENT then (Some 0, s)
      else if has (w src_pdpt_a) PAGE_SIZE \<and> first_of PAGE_SIZE_1G addr
      then case copy_table_for po src_pml4_a dest_pml4_a s of
             (None, s1) \<Rightarrow> (None, s1)
           | (Some dest_pdpt, s1) \<Rightarrow>
               (Some (PAGE_SIZE_1G div PAGE_SIZE_4K - 1),
                set_word (pte dest_pdpt (pdpt_index addr)) (copied_entry (w src_pdpt_a)) s1)
      else let src_pd_a = pte (page_base (w src_pdpt_a)) (pd_index addr) in
      if \<not> has (w src_pd_a) PAGE_PRESENT then (Some 0, s)
      else if has (w src_pd_a) PAGE_SIZE \<and> first_of PAGE_SIZE_2M addr
      then case copy_table_for po src_pml4_a dest_pml4_a s of
             (None, s1) \<Rightarrow> (None, s1)
           | (Some dest_pdpt, s1) \<Rightarrow>
               (case copy_table_for po src_pdpt_a (pte dest_pdpt (pdpt_index addr)) s1 of
                  (None, s2) \<Rightarrow> (None, s2)
                | (Some dest_pd, s2) \<Rightarrow>
                    (Some (PAGE_SIZE_2M div PAGE_SIZE_4K - 1),
                     set_word (pte dest_pd (pd_index addr)) (copied_entry (w src_pd_a)) s2))
      else let src_pt_a = pte (page_base (w src_pd_a)) (pt_index addr) in
      if \<not> has (w src_pt_a) PAGE_PRESENT then (Some 0, s)
      else case copy_table_for po src_pml4_a dest_pml4_a s of
             (None, s1) \<Rightarrow> (None, s1)
           | (Some dest_pdpt, s1) \<Rightarrow>
               (case copy_table_for po src_pdpt_a (pte dest_pdpt (pdpt_index addr)) s1 of
                  (None, s2) \<Rightarrow> (None, s2)
                | (Some dest_pd, s2) \<Rightarrow>
                    (case copy_table_for po src_pd_a (pte dest_pd (pd_index addr)) s2 of
                       (None, s3) \<Rightarrow> (None, s3)
                     | (Some dest_pt, s3) \<Rightarrow>
                         (Some 0, set_word (pte dest_pt (pt_index addr)) (copied_entry (w src_pt_a)) s3))))"

partial_function (option) copy_loop ::
    "'a page_ops \<Rightarrow> ptr \<Rightarrow> ptr \<Rightarrow> u64 \<Rightarrow> u64 \<Rightarrow> ('a, 'z) pmem_scheme \<Rightarrow>
     ((errno + unit) \<times> ('a, 'z) pmem_scheme) option" where
  "copy_loop po src dest end_page addr s =
     (if addr < end_page
      then case copy_step po src dest addr s of
             (None, s1) \<Rightarrow> Some (Inl ENOMEM, s1)
           | (Some skip, s1) \<Rightarrow> copy_loop po src dest end_page (addr + skip + PAGE_SIZE_4K) s1
      else Some (Inr (), s))"

definition copy_page_tables ::
    "'a page_ops \<Rightarrow> 'm page_directory \<Rightarrow> 'm page_directory \<Rightarrow> u64 \<Rightarrow> u64 \<Rightarrow> ('a, 'z) pmem_scheme \<Rightarrow>
     ((errno + unit) \<times> ('a, 'z) pmem_scheme) option" where
  "copy_page_tables po src dest start_addr end_addr s =
     copy_loop po (pml4_table src) (pml4_table dest) (page_up end_addr) (page_base start_addr) s"

definition USER_SPACE_END :: u64 where "USER_SPACE_END = 0x00007FFFFFFFFFFF"

definition lock_pd :: "('m \<Rightarrow> 'm) \<Rightarrow> ptr \<Rightarrow> ('a, 'm) pd_sys \<Rightarrow> ('a, 'm) pd_sys option" where
  "lock_pd f pd s =
     (case pd_dirs s pd of
        None \<Rightarrow> None
      | Some d \<Rightarrow> Some (s\<lparr>pd_dirs := (pd_dirs s)(pd \<mapsto> d\<lparr>pd_lock := f (pd_lock d)\<rparr>)\<rparr>))"

definition copy_page_directory ::
    "'a page_ops \<Rightarrow> 'm mutex_ops \<Rightarrow> ptr \<Rightarrow> pid_t \<Rightarrow> bool \<Rightarrow> ('a, 'm) pd_sys \<Rightarrow> (ptr \<times> ('a, 'm) pd_sys) option" where
  "copy_page_directory po mo source dest_pid cow s =
     (if \<not> pd_system_initialized s \<or> source = NULL then Some (NULL, s)
      else let (dest, s1) = create_page_directory po mo dest_pid s in
        if dest = NULL then Some (NULL, s1)
        else
          Option.bind (lock_pd (mtx_lock mo) source s1) (\<lambda>s2.
          Option.bind (lock_pd (mtx_lock mo) dest s2) (\<lambda>s3.
          Option.bind (pd_dirs s3 source) (\<lambda>src_d.
          Option.bind (pd_dirs s3 dest) (\<lambda>dest_d.
          Option.bind (copy_page_tables po src_d dest_d 0 USER_SPACE_END s3) (\<lambda>(r, s4).
            let unlock = (\<lambda>s. Option.bind (lock_pd (mtx_unlock mo) dest s) (lock_pd (mtx_unlock mo) source)) in
            case r of
              Inl _ \<Rightarrow>
                Option.bind (unlock s4) (\<lambda>s5.
                Option.bind (destroy_page_directory po mo dest s5) (\<lambda>s6. Some (NULL, s6)))
            | Inr _ \<Rightarrow>
                let s5 = (if cow then mark_pages_cow dest_d 0 USER_SPACE_END (mark_pages_cow src_d 0 USER_SPACE_END s4)
                          else s4);
                    s6 = s5\<lparr>pd_dirs := (pd_dirs s5)(dest \<mapsto> dest_d
                           \<lparr>total_mapped_pages := total_mapped_pages src_d,
                            total_user_pages := total_user_pages src_d\<rparr>)\<rparr>
                in Option.bind (unlock s6) (\<lambda>s7. Some (dest, s7))))))))"

section \<open>Statistics\<close>

record page_directory_stats =
  st_owner_pid :: u32
  st_ref_count :: u32
  st_total_mapped_pages :: u64
  st_total_user_pages :: u64
  st_page_fault_count :: u64
  st_cow_breaks_count :: u64

definition get_page_stats ::
    "'m mutex_ops \<Rightarrow> ptr \<Rightarrow> ('a, 'm) pd_sys \<Rightarrow> (page_directory_stats option \<times> ('a, 'm) pd_sys) option" where
  "get_page_stats mo pd s =
     (if \<not> pd_system_initialized s \<or> pd = NULL then Some (None, s)
      else with_pd mo pd (\<lambda>d s.
             (Some \<lparr>st_owner_pid = pd_owner_pid d, st_ref_count = pd_ref_count d,
                    st_total_mapped_pages = total_mapped_pages d, st_total_user_pages = total_user_pages d,
                    st_page_fault_count = page_fault_count d, st_cow_breaks_count = cow_breaks_count d\<rparr>, d, s)) s)"

section \<open>Validation\<close>

text \<open>The counters of \<^verbatim>\<open>validate_page_tables\<close>; \<open>chk_ok\<close> says that \<^verbatim>\<open>result\<close> is 0.\<close>

record pd_check =
  total_pml4_entries :: u64
  total_pdpt_entries :: u64
  total_pd_entries :: u64
  total_pt_entries :: u64
  total_1gb_pages :: u64
  total_2mb_pages :: u64
  total_4k_pages :: u64
  misaligned_entries :: u64
  invalid_flags :: u64
  chk_ok :: bool

definition check_start :: pd_check where
  "check_start = \<lparr>total_pml4_entries = 0, total_pdpt_entries = 0, total_pd_entries = 0, total_pt_entries = 0,
     total_1gb_pages = 0, total_2mb_pages = 0, total_4k_pages = 0, misaligned_entries = 0, invalid_flags = 0,
     chk_ok = True\<rparr>"

definition misaligned :: "bool \<Rightarrow> pd_check \<Rightarrow> pd_check" where
  "misaligned b c = (if b then c\<lparr>misaligned_entries := misaligned_entries c + 1, chk_ok := False\<rparr> else c)"

definition bad_flags :: "bool \<Rightarrow> pd_check \<Rightarrow> pd_check" where
  "bad_flags b c = (if b then c\<lparr>invalid_flags := invalid_flags c + 1, chk_ok := False\<rparr> else c)"

definition cow_writable :: "u64 \<Rightarrow> bool" where
  "cow_writable e \<longleftrightarrow> has e PAGE_COW \<and> has e PAGE_WRITABLE"

text \<open>The loop over the entries of a table.\<close>

definition each_entry :: "('a, 'z) pmem_scheme \<Rightarrow> (u64 \<Rightarrow> pd_check \<Rightarrow> pd_check) \<Rightarrow> ptr \<Rightarrow> pd_check \<Rightarrow> pd_check" where
  "each_entry s f t c = fold (\<lambda>j. f (pm_words s (pte t (of_nat j)))) [0 ..< PTE_COUNT_PER_TABLE] c"

definition check_pt_entry :: "u64 \<Rightarrow> pd_check \<Rightarrow> pd_check" where
  "check_pt_entry e c =
     (if \<not> has e PAGE_PRESENT then c
      else bad_flags (cow_writable e) (bad_flags (has e PAGE_SIZE)
             (misaligned (has (page_base e) (PAGE_SIZE_4K - 1))
               (c\<lparr>total_pt_entries := total_pt_entries c + 1, total_4k_pages := total_4k_pages c + 1\<rparr>))))"

definition check_pd_entry :: "('a, 'z) pmem_scheme \<Rightarrow> u64 \<Rightarrow> pd_check \<Rightarrow> pd_check" where
  "check_pd_entry s e c =
     (if \<not> has e PAGE_PRESENT then c
      else let c1 = c\<lparr>total_pd_entries := total_pd_entries c + 1\<rparr> in
        if has e PAGE_SIZE
        then bad_flags (cow_writable e) (misaligned (has (page_base e) (PAGE_SIZE_2M - 1))
               (c1\<lparr>total_2mb_pages := total_2mb_pages c1 + 1\<rparr>))
        else if has (page_base e) (PAGE_SIZE_4K - 1) then misaligned True c1
        else each_entry s check_pt_entry (page_base e) c1)"

definition check_pdpt_entry :: "('a, 'z) pmem_scheme \<Rightarrow> u64 \<Rightarrow> pd_check \<Rightarrow> pd_check" where
  "check_pdpt_entry s e c =
     (if \<not> has e PAGE_PRESENT then c
      else let c1 = c\<lparr>total_pdpt_entries := total_pdpt_entries c + 1\<rparr> in
        if has e PAGE_SIZE
        then bad_flags (cow_writable e) (misaligned (has (page_base e) (PAGE_SIZE_1G - 1))
               (c1\<lparr>total_1gb_pages := total_1gb_pages c1 + 1\<rparr>))
        else if has (page_base e) (PAGE_SIZE_4K - 1) then misaligned True c1
        else each_entry s (check_pd_entry s) (page_base e) c1)"

definition check_pml4_entry :: "('a, 'z) pmem_scheme \<Rightarrow> u64 \<Rightarrow> pd_check \<Rightarrow> pd_check" where
  "check_pml4_entry s e c =
     (if \<not> has e PAGE_PRESENT then c
      else let c1 = c\<lparr>total_pml4_entries := total_pml4_entries c + 1\<rparr> in
        if has (page_base e) (PAGE_SIZE_4K - 1) then misaligned True c1
        else if has e PAGE_SIZE then bad_flags True c1
        else each_entry s (check_pdpt_entry s) (page_base e) c1)"

definition pages_found :: "pd_check \<Rightarrow> u64" where
  "pages_found c = total_1gb_pages c * (PAGE_SIZE_1G div PAGE_SIZE_4K) +
     total_2mb_pages c * (PAGE_SIZE_2M div PAGE_SIZE_4K) + total_4k_pages c"

definition validate_page_tables ::
    "'m mutex_ops \<Rightarrow> ptr \<Rightarrow> ('a, 'm) pd_sys \<Rightarrow> ((errno + unit) \<times> ('a, 'm) pd_sys) option" where
  "validate_page_tables mo pd s =
     (if \<not> pd_system_initialized s \<or> pd = NULL then Some (Inl EINVAL, s)
      else with_pd mo pd (\<lambda>d s.
             if pml4_table d = NULL \<or> has (pml4_table d) (PAGE_SIZE_4K - 1) then (Inl EFAULT, d, s)
             else let c = each_entry s (check_pml4_entry s) (pml4_table d) check_start
                  in (if chk_ok c \<and> pages_found c = total_mapped_pages d then Inr () else Inl EFAULT, d, s)) s)"

end
