(* ===== verification/Page_Tables.thy ===== *)
theory Page_Tables
  imports Page_Directory
begin

text \<open>
  The translation tables as a tree: which tables a directory reaches, and the effect of the four ways
  in which the code writes an entry (attaching a new table, writing a leaf, detaching an empty table,
  leaving the rest of memory alone) on what every address translates to.
\<close>

section \<open>Words\<close>

definition aligned :: "u64 \<Rightarrow> bool" where
  "aligned p \<longleftrightarrow> page_base p = p"

lemma has_or [simp]: "has (a OR b) f \<longleftrightarrow> has a f \<or> has b f"
  by (simp add: has_def word_ao_dist or_eq_0_iff)

lemma page_base_or: "page_base (a OR b) = page_base a OR page_base b"
  by (simp add: page_base_def word_ao_dist)

lemma page_base_idem [simp]: "page_base (page_base e) = page_base e"
  by (simp add: page_base_def and.assoc)

lemma aligned_page_base [simp]: "aligned (page_base e)"
  by (simp add: aligned_def)

lemma unat_page_base: "unat (page_base e) = unat e div 4096 * 4096"
proof -
  have "(PAGE_SIZE_4K - 1 :: u64) = mask 12" by (simp add: PAGE_SIZE_4K_def mask_eq_exp_minus_1)
  then have "page_base e = e - take_bit 12 e" by (simp only: page_base_def word_and_not_mask)
  moreover have "take_bit 12 e \<le> e"
    unfolding word_le_nat_alt unsigned_take_bit_eq by (simp add: take_bit_eq_mod)
  ultimately have "unat (page_base e) = unat e - unat e mod 4096"
    by (simp only: unat_sub unsigned_take_bit_eq) (simp add: take_bit_eq_mod)
  then show ?thesis by (simp add: minus_mod_eq_div_mult)
qed

lemma aligned_unat: "aligned t \<longleftrightarrow> 4096 dvd unat t"
  by (simp add: aligned_def word_unat_eq_iff unat_page_base) (metis dvd_div_mult_self dvd_triv_right)

lemma unat_aligned_add:
  assumes "aligned t" "unat x < 4096"
  shows "unat (t + x) = unat t + unat x"
proof -
  obtain q where q: "unat t = 4096 * q" using assms(1) by (auto simp: aligned_unat)
  have "4096 * q < 2 ^ 64" using unsigned_less [of t, where 'a = nat] q by simp
  then have "4096 * q + 4095 < 2 ^ 64" by simp
  then have "unat t + unat x < 2 ^ 64" using q assms(2) by linarith
  then show ?thesis by (simp add: unat_word_ariths)
qed

lemma page_base_add: "aligned t \<Longrightarrow> unat x < 4096 \<Longrightarrow> page_base (t + x) = t"
  by (auto simp: word_unat_eq_iff unat_page_base unat_aligned_add aligned_unat)

lemma page_base_pte: "aligned t \<Longrightarrow> i < 512 \<Longrightarrow> page_base (pte t i) = t"
  unfolding pte_def by (rule page_base_add) (auto simp: word_less_nat_alt unat_word_ariths)

lemma pte_inj: "aligned t \<Longrightarrow> aligned t' \<Longrightarrow> i < 512 \<Longrightarrow> j < 512 \<Longrightarrow> pte t i = pte t' j \<longleftrightarrow> t = t' \<and> i = j"
proof -
  assume a: "aligned t" "aligned t'" "i < 512" "j < 512"
  have "i = j" if "8 * i = 8 * j"
    using that a(3,4) by (auto simp: word_less_nat_alt word_unat_eq_iff unat_word_ariths)
  then show ?thesis using page_base_pte a by (metis add_left_cancel pte_def)
qed

lemma index_less [simp]: "pml4_index v < 512" "pdpt_index v < 512" "pd_index v < 512" "pt_index v < 512"
  unfolding pml4_index_def pdpt_index_def pd_index_def pt_index_def
  by (rule le_less_trans [OF word_and_le1], simp)+

text \<open>An entry for a table, and flags that fit below the page number.\<close>

definition flag_bits :: "u64 \<Rightarrow> bool" where
  "flag_bits f \<longleftrightarrow> page_base f = 0"

lemma not_has_aligned: "aligned t \<Longrightarrow> flag_bits f \<Longrightarrow> \<not> has t f"
proof -
  assume "aligned t" "flag_bits f"
  then have "t AND f = (t AND NOT (PAGE_SIZE_4K - 1)) AND f" by (simp add: aligned_def page_base_def)
  also have "\<dots> = t AND (f AND NOT (PAGE_SIZE_4K - 1))" by (simp add: ac_simps)
  also have "\<dots> = 0" using \<open>flag_bits f\<close> by (simp add: flag_bits_def page_base_def)
  finally show ?thesis by (simp add: has_def)
qed

lemmas pte_flag_defs = PAGE_PRESENT_def PAGE_WRITABLE_def PAGE_USER_def PAGE_SIZE_def PAGE_COW_def

lemma flag_bits_simps [simp]:
  "flag_bits PAGE_PRESENT" "flag_bits PAGE_WRITABLE" "flag_bits PAGE_USER" "flag_bits PAGE_SIZE" "flag_bits PAGE_COW"
  "flag_bits (a OR b) \<longleftrightarrow> flag_bits a \<and> flag_bits b"
  by (simp_all add: flag_bits_def page_base_or or_eq_0_iff, simp_all add: page_base_def pte_flag_defs PAGE_SIZE_4K_def)

lemma has_flag_simps [simp]:
  "has PAGE_PRESENT PAGE_PRESENT" "\<not> has PAGE_PRESENT PAGE_SIZE" "\<not> has PAGE_WRITABLE PAGE_SIZE"
  "\<not> has PAGE_USER PAGE_SIZE" "\<not> has 0 f"
  by (simp_all add: has_def pte_flag_defs)

lemma page_base_flags: "flag_bits f \<Longrightarrow> page_base (t OR f) = page_base t"
  by (simp add: page_base_or flag_bits_def)

section \<open>Walking the tables\<close>

type_synonym words = "ptr \<Rightarrow> u64"

definition is_table :: "u64 \<Rightarrow> bool" where
  "is_table e \<longleftrightarrow> has e PAGE_PRESENT \<and> \<not> has e PAGE_SIZE"

text \<open>The table at the end of a path of indices, and the entry that decides a translation.\<close>

fun descend :: "words \<Rightarrow> ptr \<Rightarrow> u64 list \<Rightarrow> ptr option" where
  "descend m t [] = Some t"
| "descend m t (i # is) = (if is_table (m (pte t i)) then descend m (page_base (m (pte t i))) is else None)"

fun find_entry :: "words \<Rightarrow> ptr \<Rightarrow> u64 list \<Rightarrow> (u64 \<times> u64 list) option" where
  "find_entry m t [] = None"
| "find_entry m t (i # is) =
     (let e = m (pte t i) in
      if \<not> has e PAGE_PRESENT then None
      else if is = [] \<or> has e PAGE_SIZE then Some (e, is)
      else find_entry m (page_base e) is)"

text \<open>The addresses that a walk reads.\<close>

fun reads :: "words \<Rightarrow> ptr \<Rightarrow> u64 list \<Rightarrow> ptr set" where
  "reads m t [] = {}"
| "reads m t (i # is) = insert (pte t i) (if is_table (m (pte t i)) then reads m (page_base (m (pte t i))) is else {})"

definition valid :: "u64 list \<Rightarrow> bool" where
  "valid is \<longleftrightarrow> (\<forall>i \<in> set is. i < 512)"

lemma valid_simps [simp]:
  "valid []" "valid (i # is) \<longleftrightarrow> i < 512 \<and> valid is" "valid (xs @ ys) \<longleftrightarrow> valid xs \<and> valid ys"
  by (auto simp: valid_def)

lemma descend_append: "descend m t (p @ q) = Option.bind (descend m t p) (\<lambda>u. descend m u q)"
  by (induction p arbitrary: t) auto

lemma find_entry_append: "descend m t p = Some u \<Longrightarrow> q \<noteq> [] \<Longrightarrow> find_entry m t (p @ q) = find_entry m u q"
  by (induction p arbitrary: t) (auto simp: is_table_def Let_def split: if_splits)

lemma descend_aligned: "aligned t \<Longrightarrow> descend m t p = Some u \<Longrightarrow> aligned u"
  by (induction p arbitrary: t) (simp, metis aligned_page_base descend.simps(2) option.distinct(1))

lemma walk_cong:
  assumes "\<forall>a \<in> reads m t is. m' a = m a"
  shows "descend m' t is = descend m t is" "find_entry m' t is = find_entry m t is" "reads m' t is = reads m t is"
proof -
  have "descend m' t is = descend m t is \<and> find_entry m' t is = find_entry m t is \<and> reads m' t is = reads m t is"
    using assms
  proof (induction "is" arbitrary: t)
    case (Cons i "is")
    show ?case
    proof (cases "is_table (m (pte t i))")
      case True
      with Cons.IH [of "page_base (m (pte t i))"] Cons.prems show ?thesis by (simp add: Let_def)
    next
      case False
      with Cons.prems show ?thesis by (auto simp: is_table_def Let_def)
    qed
  qed simp
  then show "descend m' t is = descend m t is" "find_entry m' t is = find_entry m t is" "reads m' t is = reads m t is"
    by simp_all
qed

lemma reads_table:
  "a \<in> reads m t is \<Longrightarrow> \<exists>p i q u. is = p @ i # q \<and> descend m t p = Some u \<and> a = pte u i"
proof (induction "is" arbitrary: t)
  case (Cons i "is")
  show ?case
  proof (cases "a = pte t i")
    case True
    then have "i # is = [] @ i # is" "descend m t [] = Some t" "a = pte t i" by simp_all
    then show ?thesis by blast
  next
    case False
    with Cons.prems have t: "is_table (m (pte t i))" "a \<in> reads m (page_base (m (pte t i))) is"
      by (auto split: if_splits)
    from Cons.IH [OF t(2)] obtain p j q u where "is = p @ j # q"
      "descend m (page_base (m (pte t i))) p = Some u" "a = pte u j" by blast
    with t(1) have "i # is = (i # p) @ j # q" "descend m t (i # p) = Some u" "a = pte u j" by simp_all
    then show ?thesis by blast
  qed
qed simp

section \<open>Directories as trees\<close>

text \<open>
  The tables of a directory are reached by one path each, and no entry of the top table has the large
  page bit.
\<close>

definition tree :: "words \<Rightarrow> ptr \<Rightarrow> bool" where
  "tree m r \<longleftrightarrow> aligned r \<and>
     (\<forall>p q t. length p \<le> 3 \<and> length q \<le> 3 \<and> valid p \<and> valid q \<and>
        descend m r p = Some t \<and> descend m r q = Some t \<longrightarrow> p = q) \<and>
     (\<forall>i < 512. \<not> has (m (pte r i)) PAGE_PRESENT \<or> \<not> has (m (pte r i)) PAGE_SIZE)"

definition tables :: "words \<Rightarrow> ptr \<Rightarrow> ptr set" where
  "tables m r = {t. \<exists>p. length p \<le> 3 \<and> valid p \<and> descend m r p = Some t}"

lemma treeD:
  assumes "tree m r"
  shows "aligned r"
    "length p \<le> 3 \<Longrightarrow> length q \<le> 3 \<Longrightarrow> valid p \<Longrightarrow> valid q \<Longrightarrow>
     descend m r p = Some t \<Longrightarrow> descend m r q = Some t \<Longrightarrow> p = q"
    "i < 512 \<Longrightarrow> has (m (pte r i)) PAGE_PRESENT \<Longrightarrow> \<not> has (m (pte r i)) PAGE_SIZE"
  using assms unfolding tree_def by blast+

lemma tables_aligned: "tree m r \<Longrightarrow> t \<in> tables m r \<Longrightarrow> aligned t"
  by (auto simp: tables_def intro: descend_aligned treeD(1))

lemma tablesI: "descend m r p = Some t \<Longrightarrow> length p \<le> 3 \<Longrightarrow> valid p \<Longrightarrow> t \<in> tables m r"
  by (auto simp: tables_def)

lemma reads_in_tables:
  assumes "tree m r" "valid is" "length is \<le> 4" "a \<in> reads m r is"
  shows "page_base a \<in> tables m r"
proof -
  from reads_table [OF assms(4)] obtain p i q u where p: "is = p @ i # q" "descend m r p = Some u" "a = pte u i"
    by blast
  have "u \<in> tables m r" using p assms(2,3) by (intro tablesI) auto
  then show ?thesis using p assms(2) page_base_pte tables_aligned [OF assms(1)] by simp
qed

text \<open>Memory outside the tables does not matter.\<close>

lemma tree_cong:
  assumes "tree m r" "\<forall>a. page_base a \<in> tables m r \<longrightarrow> m' a = m a"
  shows "tree m' r" "tables m' r = tables m r"
    "valid is \<Longrightarrow> length is \<le> 4 \<Longrightarrow> find_entry m' r is = find_entry m r is"
    "valid is \<Longrightarrow> length is \<le> 4 \<Longrightarrow> descend m' r is = descend m r is"
proof -
  have same: "descend m' r is = descend m r is \<and> find_entry m' r is = find_entry m r is"
    if "valid is" "length is \<le> 4" for "is"
    using walk_cong [of m r "is" m'] reads_in_tables [OF assms(1) that] assms(2) by blast
  then show "valid is \<Longrightarrow> length is \<le> 4 \<Longrightarrow> find_entry m' r is = find_entry m r is"
    "valid is \<Longrightarrow> length is \<le> 4 \<Longrightarrow> descend m' r is = descend m r is" by auto
  have d: "descend m' r p = descend m r p" if "valid p" "length p \<le> 3" for p
    using same [of p] that by simp
  then show "tables m' r = tables m r" unfolding tables_def by (intro Collect_cong) metis
  have "r \<in> tables m r" by (rule tablesI [where p = "[]"]) simp_all
  then have "m' (pte r i) = m (pte r i)" if "i < 512" for i
    using assms(2) page_base_pte [OF treeD(1) [OF assms(1)] that] by simp
  then show "tree m' r"
    using assms(1) d unfolding tree_def by (metis (no_types, lifting))
qed

section \<open>Writing one entry\<close>

lemma write_elsewhere:
  assumes "tree m r" "descend m r p = Some t" "length p \<le> 3" "valid p" "i < 512"
    and "valid is" "length is \<le> 4" "\<forall>q. is \<noteq> p @ i # q"
  shows "descend (m(pte t i := e)) r is = descend m r is"
    "find_entry (m(pte t i := e)) r is = find_entry m r is"
proof -
  have "pte t i \<notin> reads m r is"
  proof
    assume "pte t i \<in> reads m r is"
    from reads_table [OF this] obtain p' j q u
      where p': "is = p' @ j # q" "descend m r p' = Some u" "pte t i = pte u j" by blast
    have "aligned t" "aligned u"
      using descend_aligned [OF treeD(1) [OF assms(1)]] assms(2) p'(2) by simp_all
    moreover have j: "j < 512" "valid p'" "length p' \<le> 3" using assms(6,7) p'(1) by simp_all
    ultimately have eq: "t = u" "i = j" using pte_inj [of t u i j] assms(5) p'(3) by simp_all
    have "p = p'" by (rule treeD(2) [OF assms(1,3) j(3) assms(4) j(2) assms(2)]) (simp add: eq p'(2))
    with p'(1) eq(2) assms(8) show False by simp
  qed
  then have same: "\<forall>a \<in> reads m r is. (m(pte t i := e)) a = m a" by auto
  show "descend (m(pte t i := e)) r is = descend m r is" by (rule walk_cong(1) [OF same])
  show "find_entry (m(pte t i := e)) r is = find_entry m r is" by (rule walk_cong(2) [OF same])
qed

lemma write_below:
  assumes "tree m r" "descend m r p = Some t" "length p \<le> 3" "valid p" "i < 512" "m' = m(pte t i := e)"
  shows "descend m' r (p @ i # q) = (if is_table e then descend m' (page_base e) q else None)"
    "find_entry m' r (p @ i # q) =
       (if \<not> has e PAGE_PRESENT then None
        else if q = [] \<or> has e PAGE_SIZE then Some (e, q) else find_entry m' (page_base e) q)"
proof -
  have "descend m' r p = Some t"
    using write_elsewhere(1) [OF assms(1-5), of p e] assms by simp
  then show "descend m' r (p @ i # q) = (if is_table e then descend m' (page_base e) q else None)"
    "find_entry m' r (p @ i # q) =
       (if \<not> has e PAGE_PRESENT then None
        else if q = [] \<or> has e PAGE_SIZE then Some (e, q) else find_entry m' (page_base e) q)"
    using assms(6) by (simp_all add: descend_append find_entry_append Let_def)
qed

text \<open>Writing an entry that is no table and does not become one.\<close>

lemma write_leaf:
  assumes tr: "tree m r" and p: "descend m r p = Some t" "length p \<le> 3" "valid p" "i < 512"
    and e: "length p = 3 \<or> \<not> is_table (m (pte t i)) \<and> \<not> is_table e" "p = [] \<longrightarrow> \<not> has e PAGE_PRESENT"
    and m': "m' = m(pte t i := e)"
  shows "tree m' r" "tables m' r = tables m r"
    "valid is \<Longrightarrow> length is \<le> 3 \<Longrightarrow> descend m' r is = descend m r is"
    "valid is \<Longrightarrow> length is = 4 \<Longrightarrow> find_entry m' r is =
       (if take (length p + 1) is = p @ [i]
        then if has e PAGE_PRESENT then Some (e, drop (length p + 1) is) else None
        else find_entry m r is)"
proof -
  have d: "descend m' r is = descend m r is" if v: "valid is" "length is \<le> 3" for "is"
  proof (cases "\<exists>q. is = p @ i # q")
    case True
    then obtain q where q: "is = p @ i # q" by blast
    with v e have "\<not> is_table (m (pte t i))" "\<not> is_table e" by auto
    with q p show ?thesis by (simp only: write_below(1) [OF tr p m']) (simp add: descend_append)
  next
    case False
    then show ?thesis using write_elsewhere(1) [OF tr p v(1)] v m' by simp
  qed
  then show "valid is \<Longrightarrow> length is \<le> 3 \<Longrightarrow> descend m' r is = descend m r is" .
  show "tables m' r = tables m r" using d unfolding tables_def by (intro Collect_cong) metis
  have "aligned t" "aligned r" using descend_aligned [OF treeD(1) [OF tr] p(1)] treeD(1) [OF tr] by simp_all
  then have pt: "pte r j = pte t i \<longleftrightarrow> r = t \<and> j = i" if "j < 512" for j
    using that pte_inj [of r t j i] p(4) by simp
  have nil: "p = []" if "r = t"
    by (rule treeD(2) [OF tr p(2) _ p(3) _ p(1)]) (simp_all add: that)
  have "\<not> has (m' (pte r j)) PAGE_PRESENT \<or> \<not> has (m' (pte r j)) PAGE_SIZE" if j: "j < 512" for j
    using treeD(3) [OF tr j] e(2) nil by (auto simp: m' pt [OF j])
  moreover have "p = q" if "length p \<le> 3" "length q \<le> 3" "valid p" "valid q" "descend m' r p = Some u" "descend m' r q = Some u" for p q u
    using treeD(2) [OF tr that(1-4)] that d by simp
  ultimately show "tree m' r"
    using treeD(1) [OF tr] unfolding tree_def by blast
  assume v: "valid is" "length is = 4"
  show "find_entry m' r is =
       (if take (length p + 1) is = p @ [i]
        then if has e PAGE_PRESENT then Some (e, drop (length p + 1) is) else None
        else find_entry m r is)"
  proof (cases "\<exists>q. is = p @ i # q")
    case True
    then obtain q where q: "is = p @ i # q" by blast
    with v have l: "length p = 3 \<longleftrightarrow> q = []" by auto
    with e(1) have "q = [] \<or> \<not> is_table e" by blast
    then have "find_entry m' r is = (if has e PAGE_PRESENT then Some (e, q) else None)"
      unfolding q write_below(2) [OF tr p m'] by (auto simp: is_table_def)
    then show ?thesis using q by simp
  next
    case False
    then have "take (length p + 1) is \<noteq> p @ [i]"
      by (metis append.assoc append_Cons append_Nil append_take_drop_id)
    with False show ?thesis using write_elsewhere(2) [OF tr p v(1)] v m' by simp
  qed
qed

text \<open>Attaching a new table, whose entries are all zero.\<close>

lemma treeI:
  assumes "aligned r"
    and "\<And>p q u. length p \<le> 3 \<Longrightarrow> length q \<le> 3 \<Longrightarrow> valid p \<Longrightarrow> valid q \<Longrightarrow>
           descend m r p = Some u \<Longrightarrow> descend m r q = Some u \<Longrightarrow> p = q"
    and "\<And>i. i < 512 \<Longrightarrow> has (m (pte r i)) PAGE_PRESENT \<Longrightarrow> \<not> has (m (pte r i)) PAGE_SIZE"
  shows "tree m r"
  using assms unfolding tree_def by blast

lemma not_present_below:
  "descend m r p = Some t \<Longrightarrow> \<not> has (m (pte t i)) PAGE_PRESENT \<Longrightarrow>
   descend m r (p @ i # q) = None \<and> find_entry m r (p @ i # q) = None"
  by (simp add: descend_append find_entry_append is_table_def)

lemma attach_table:
  assumes tr: "tree m r" and p: "descend m r p = Some t" "length p \<le> 2" "valid p" "i < 512"
    and np: "\<not> has (m (pte t i)) PAGE_PRESENT" and n: "aligned n" "n \<notin> tables m r"
    and m1: "\<forall>a. page_base a \<noteq> n \<longrightarrow> m1 a = m a" "\<forall>j < 512. m1 (pte n j) = 0"
    and e: "is_table e" "page_base e = n" and m': "m' = m1(pte t i := e)"
  shows "tree m' r" "tables m' r = insert n (tables m r)"
    "valid is \<Longrightarrow> length is \<le> 3 \<Longrightarrow> descend m' r is = (if is = p @ [i] then Some n else descend m r is)"
    "valid is \<Longrightarrow> length is = 4 \<Longrightarrow> find_entry m' r is = find_entry m r is"
proof -
  have eq: "\<forall>a. page_base a \<in> tables m r \<longrightarrow> m1 a = m a" using m1(1) n(2) by auto
  note tr1 = tree_cong [OF tr eq]
  have p1: "descend m1 r p = Some t" "length p \<le> 3" "valid p" "i < 512" using tr1(4) [of p] p by simp_all
  have t: "t \<in> tables m r" "aligned t" using tablesI [OF p(1)] p descend_aligned [OF treeD(1) [OF tr] p(1)] by simp_all
  then have tn: "t \<noteq> n" using n(2) by auto
  have zero: "m' (pte n j) = 0" if "j < 512" for j
    using that m1(2) pte_inj [of n t j i] n(1) t(2) tn p(4) by (simp add: m')
  have walk: "descend m' r is = (if is = p @ [i] then Some n else descend m r is) \<and>
      (length is = 4 \<longrightarrow> find_entry m' r is = find_entry m r is)" if v: "valid is" "length is \<le> 4" for "is"
  proof (cases "\<exists>q. is = p @ i # q")
    case True
    then obtain q where q: "is = p @ i # q" by blast
    note below = write_below [OF tr1(1) p1 m', of q] not_present_below [OF p(1) np, of q]
    show ?thesis
    proof (cases q)
      case Nil
      with q below e p(2) show ?thesis by simp
    next
      case (Cons j q')
      with q v(1) have "m' (pte n j) = 0" using zero by simp
      with Cons q below e show ?thesis by (simp add: is_table_def)
    qed
  next
    case False
    then have "\<forall>q. is \<noteq> p @ i # q" by blast
    with write_elsewhere [OF tr1(1) p1 v this, of e] tr1(3,4) [OF v] show ?thesis by (auto simp: m')
  qed
  have d: "descend m' r is = (if is = p @ [i] then Some n else descend m r is)" if "valid is" "length is \<le> 3" for "is"
    using walk [of "is"] that by simp
  then show "valid is \<Longrightarrow> length is \<le> 3 \<Longrightarrow> descend m' r is = (if is = p @ [i] then Some n else descend m r is)" .
  show "valid is \<Longrightarrow> length is = 4 \<Longrightarrow> find_entry m' r is = find_entry m r is" using walk [of "is"] by simp
  have pi: "valid (p @ [i])" "length (p @ [i]) \<le> 3" using p by simp_all
  have np': "descend m r (p @ [i]) = None" using not_present_below [OF p(1) np, of "[]"] by simp
  show "tables m' r = insert n (tables m r)"
  proof (intro set_eqI iffI)
    fix x assume "x \<in> tables m' r"
    then obtain q where "length q \<le> 3" "valid q" "descend m' r q = Some x" by (auto simp: tables_def)
    with d [of q] show "x \<in> insert n (tables m r)" by (auto simp: tables_def split: if_splits)
  next
    fix x assume "x \<in> insert n (tables m r)"
    then show "x \<in> tables m' r"
    proof
      assume "x = n"
      then show ?thesis using d [of "p @ [i]"] pi by (intro tablesI [of _ _ "p @ [i]"]) simp_all
    next
      assume "x \<in> tables m r"
      then obtain q where "length q \<le> 3" "valid q" "descend m r q = Some x" by (auto simp: tables_def)
      with d [of q] np' show ?thesis by (intro tablesI [of _ _ q]) auto
    qed
  qed
  show "tree m' r"
  proof (rule treeI)
    fix x y u assume x: "length x \<le> 3" "length y \<le> 3" "valid x" "valid y" "descend m' r x = Some u" "descend m' r y = Some u"
    have "n \<noteq> v" if "descend m r z = Some v" "valid z" "length z \<le> 3" for z v using n(2) tablesI [OF that(1)] that by auto
    with x d [OF x(3,1)] d [OF x(4,2)] treeD(2) [OF tr x(1-4)] show "x = y" by (auto split: if_splits)
  next
    fix j :: u64 assume j: "j < 512" "has (m' (pte r j)) PAGE_PRESENT"
    have "m1 (pte r j) = m (pte r j)"
      using eq page_base_pte [OF treeD(1) [OF tr] j(1)] tablesI [of m r "[]"] by simp
    then show "\<not> has (m' (pte r j)) PAGE_SIZE"
      using j treeD(3) [OF tr j(1)] e(1) by (auto simp: m' is_table_def split: if_splits)
  qed (rule treeD(1) [OF tr])
qed

text \<open>Detaching a table without present entries.\<close>

lemma detach_table:
  assumes tr: "tree m r" and p: "descend m r p = Some t" "length p \<le> 2" "valid p" "i < 512"
    and n: "is_table (m (pte t i))" "page_base (m (pte t i)) = n" "\<forall>j < 512. \<not> has (m (pte n j)) PAGE_PRESENT"
    and m': "m' = m(pte t i := 0)"
  shows "tree m' r" "tables m' r = tables m r - {n}"
    "valid is \<Longrightarrow> length is \<le> 3 \<Longrightarrow> descend m' r is = (if is = p @ [i] then None else descend m r is)"
    "valid is \<Longrightarrow> length is = 4 \<Longrightarrow> find_entry m' r is = find_entry m r is"
proof -
  have p3: "descend m r p = Some t" "length p \<le> 3" "valid p" "i < 512" using p by simp_all
  have pi: "descend m r (p @ [i]) = Some n" "valid (p @ [i])" "length (p @ [i]) \<le> 3"
    using p n(1,2) by (simp_all add: descend_append)
  have walk: "descend m' r is = (if is = p @ [i] then None else descend m r is) \<and>
      (length is = 4 \<longrightarrow> find_entry m' r is = find_entry m r is)" if v: "valid is" "length is \<le> 4" for "is"
  proof (cases "\<exists>q. is = p @ i # q")
    case True
    then obtain q where q: "is = p @ i # q" by blast
    note below = write_below [OF tr p3 m', of q]
    show ?thesis
    proof (cases q)
      case Nil
      with q below p(2) show ?thesis by (simp add: is_table_def)
    next
      case (Cons j q')
      then have "is = (p @ [i]) @ j # q'" using q by simp
      with not_present_below [OF pi(1), of j q'] n(3) v(1) have "descend m r is = None \<and> find_entry m r is = None"
        by simp
      with Cons q below show ?thesis by (simp add: is_table_def)
    qed
  next
    case False
    then have "\<forall>q. is \<noteq> p @ i # q" by blast
    with write_elsewhere [OF tr p3 v this, of 0] show ?thesis by (auto simp: m')
  qed
  have d: "descend m' r is = (if is = p @ [i] then None else descend m r is)" if "valid is" "length is \<le> 3" for "is"
    using walk [of "is"] that by simp
  then show "valid is \<Longrightarrow> length is \<le> 3 \<Longrightarrow> descend m' r is = (if is = p @ [i] then None else descend m r is)" .
  show "valid is \<Longrightarrow> length is = 4 \<Longrightarrow> find_entry m' r is = find_entry m r is" using walk [of "is"] by simp
  have only: "x = p @ [i]" if "descend m r x = Some n" "valid x" "length x \<le> 3" for x
    by (rule treeD(2) [OF tr that(3) pi(3) that(2) pi(2) that(1) pi(1)])
  show "tables m' r = tables m r - {n}"
  proof (intro set_eqI iffI)
    fix x assume "x \<in> tables m' r"
    then obtain q where q: "length q \<le> 3" "valid q" "descend m' r q = Some x" by (auto simp: tables_def)
    with d [of q] have "descend m r q = Some x" "q \<noteq> p @ [i]" by (auto split: if_splits)
    with q only [of q] show "x \<in> tables m r - {n}" by (auto simp: tables_def)
  next
    fix x assume "x \<in> tables m r - {n}"
    then obtain q where "length q \<le> 3" "valid q" "descend m r q = Some x" "x \<noteq> n" by (auto simp: tables_def)
    with d [of q] pi(1) show "x \<in> tables m' r" by (intro tablesI [where p = q]) auto
  qed
  show "tree m' r"
  proof (rule treeI)
    fix x y u assume x: "length x \<le> 3" "length y \<le> 3" "valid x" "valid y" "descend m' r x = Some u" "descend m' r y = Some u"
    with d [OF x(3,1)] d [OF x(4,2)] have "descend m r x = Some u" "descend m r y = Some u" by (auto split: if_splits)
    then show "x = y" by (rule treeD(2) [OF tr x(1-4)])
  next
    fix j :: u64 assume j: "j < 512" "has (m' (pte r j)) PAGE_PRESENT"
    then show "\<not> has (m' (pte r j)) PAGE_SIZE"
      using treeD(3) [OF tr j(1)] by (auto simp: m' split: if_splits)
  qed (rule treeD(1) [OF tr])
qed

section \<open>Entries of 4K pages\<close>

lemma find_entry_page:
  "find_entry m t (p @ [i]) = Some (e, []) \<Longrightarrow> \<exists>u. descend m t p = Some u \<and> m (pte u i) = e \<and> has e PAGE_PRESENT"
proof (induction p arbitrary: t)
  case (Cons j p)
  then have "is_table (m (pte t j))" "find_entry m (page_base (m (pte t j))) (p @ [i]) = Some (e, [])"
    by (auto simp: Let_def is_table_def split: if_splits)
  with Cons.IH show ?case by simp
qed (auto simp: Let_def split: if_splits)

lemma descend_snocD:
  "descend m r (p @ [i]) = Some n \<Longrightarrow>
   \<exists>t. descend m r p = Some t \<and> is_table (m (pte t i)) \<and> page_base (m (pte t i)) = n"
  by (cases "descend m r p") (auto simp: descend_append split: if_splits)

lemma table_emptyD: "table_empty t s \<Longrightarrow> j < 512 \<Longrightarrow> \<not> has (pm_words s (pte t j)) PAGE_PRESENT"
proof -
  assume t: "table_empty t s" and "j < 512"
  then have "unat j < PTE_COUNT_PER_TABLE" by (simp add: word_less_nat_alt PTE_COUNT_PER_TABLE_def)
  moreover have "of_nat (unat j) = j" by simp
  ultimately show ?thesis using t unfolding table_empty_def by metis
qed

end
