(* ===== verification/Page_Mapping.thy ===== *)
theory Page_Mapping
  imports Page_Tables
begin

text \<open>
  What the operations on page directories do to the translations. The locale \<open>page_provider\<close> is the
  contract of the page allocator: a page it hands out is aligned, was not in use, and is zeroed. Under
  it, mapping and unmapping pages of 4K keep the tables a tree of pages in use and change exactly the
  translations of the range; the rest of the memory in use is left alone.
\<close>

section \<open>The allocator and the state of a directory\<close>

text \<open>\<open>owned\<close> are the pages that the allocator will not hand out.\<close>

locale page_provider =
  fixes po :: "'a page_ops"
    and owned :: "'a \<Rightarrow> ptr set"
    and ok :: "'a \<Rightarrow> bool"
  assumes alloc_ok: "ok a \<Longrightarrow> po_alloc_pages po 1 (ALLOC_ZERO OR ALLOC_KERNEL) w a = (p, w', a') \<Longrightarrow>
      ok a' \<and> owned a \<subseteq> owned a'"
    and alloc_fails: "ok a \<Longrightarrow> po_alloc_pages po 1 (ALLOC_ZERO OR ALLOC_KERNEL) w a = (NULL, w', a') \<Longrightarrow> w' = w"
    and alloc_page: "ok a \<Longrightarrow> po_alloc_pages po 1 (ALLOC_ZERO OR ALLOC_KERNEL) w a = (p, w', a') \<Longrightarrow> p \<noteq> NULL \<Longrightarrow>
      aligned p \<and> p \<notin> owned a \<and> p \<in> owned a' \<and>
      (\<forall>x. page_base x \<noteq> p \<longrightarrow> w' x = w x) \<and> (\<forall>j < 512. w' (pte p j) = 0)"
    and free_ok: "ok a \<Longrightarrow> aligned p \<Longrightarrow>
      ok (po_free_pages po p 1 a) \<and> owned a - {p} \<subseteq> owned (po_free_pages po p 1 a)"

definition pd_wf :: "('a \<Rightarrow> ptr set) \<Rightarrow> ('a \<Rightarrow> bool) \<Rightarrow> ptr \<Rightarrow> ('a, 'z) pmem_scheme \<Rightarrow> bool" where
  "pd_wf owned ok r s \<longleftrightarrow>
     ok (pm_alloc s) \<and> tree (pm_words s) r \<and> tables (pm_words s) r \<subseteq> owned (pm_alloc s)"

text \<open>
  A step that may add tables to the directory with top table \<open>r\<close> and otherwise leaves the memory in
  use alone.
\<close>

definition pd_grows :: "('a \<Rightarrow> ptr set) \<Rightarrow> ptr \<Rightarrow> ('a, 'z) pmem_scheme \<Rightarrow> ('a, 'z) pmem_scheme \<Rightarrow> bool" where
  "pd_grows owned r s s' \<longleftrightarrow>
     owned (pm_alloc s) \<subseteq> owned (pm_alloc s') \<and> tables (pm_words s) r \<subseteq> tables (pm_words s') r \<and>
     tables (pm_words s') r \<inter> owned (pm_alloc s) \<subseteq> tables (pm_words s) r \<and>
     (\<forall>a. page_base a \<in> owned (pm_alloc s) - tables (pm_words s) r \<longrightarrow> pm_words s' a = pm_words s a)"

lemma pd_grows_refl [simp]: "pd_grows owned r s s"
  by (auto simp: pd_grows_def)

lemma pd_grows_trans: "pd_grows owned r s1 s2 \<Longrightarrow> pd_grows owned r s2 s3 \<Longrightarrow> pd_grows owned r s1 s3"
  unfolding pd_grows_def by (intro conjI allI impI) (blast, blast, blast, metis (no_types, lifting) DiffD1 DiffD2 DiffI IntI subsetD)

definition page_path :: "u64 \<Rightarrow> u64 list" where
  "page_path v = [pml4_index v, pdpt_index v, pd_index v, pt_index v]"

lemma page_path_simps [simp]: "valid (page_path v)" "length (page_path v) = 4"
  by (simp_all add: page_path_def)

lemma pm_words_set_word [simp]: "pm_words (set_word a v s) = (pm_words s)(a := v)" "pm_alloc (set_word a v s) = pm_alloc s"
  by (simp_all add: set_word_def)

lemma pm_free_range [simp]:
  "pm_words (free_range po p n s) = pm_words s" "pm_alloc (free_range po p n s) = po_free_pages po p n (pm_alloc s)"
  by (simp_all add: free_range_def)

text \<open>The translation of an address in terms of the entry that decides it.\<close>

definition translation :: "u64 \<Rightarrow> (u64 \<times> u64 list) option \<Rightarrow> ptr" where
  "translation v r =
     (case r of
        None \<Rightarrow> NULL
      | Some (e, rest) \<Rightarrow>
          page_base e + (if length rest = 2 then page_base v AND (PAGE_SIZE_1G - 1)
                         else if length rest = 1 then page_base v AND (PAGE_SIZE_2M - 1) else 0) +
          (v AND (PAGE_SIZE_4K - 1)))"

lemma get_physical_address_entry:
  assumes "tree (pm_words s) (pml4_table d)"
  shows "get_physical_address d v s =
           translation v (find_entry (pm_words s) (pml4_table d) (page_path (page_base v)))"
  using treeD(3) [OF assms index_less(1), of "page_base v"]
  by (simp add: get_physical_address_def translation_def page_path_def Let_def)

text \<open>Copying a page changes that page only.\<close>

lemma copy_page_fold:
  assumes "aligned dst" "aligned src" "dst \<noteq> src" "n \<le> 512"
    and "s' = fold (\<lambda>j s. set_word (pte dst (of_nat j)) (pm_words s (pte src (of_nat j))) s) [0 ..< n] s"
  shows "pm_alloc s' = pm_alloc s \<and> (\<forall>a. page_base a \<noteq> dst \<longrightarrow> pm_words s' a = pm_words s a) \<and>
         (\<forall>j < n. pm_words s' (pte dst (of_nat j)) = pm_words s (pte src (of_nat j)))"
  using assms(4,5)
proof (induction n arbitrary: s')
  case (Suc n)
  let ?s = "fold (\<lambda>j s. set_word (pte dst (of_nat j)) (pm_words s (pte src (of_nat j))) s) [0 ..< n] s"
  have IH: "pm_alloc ?s = pm_alloc s" "\<And>a. page_base a \<noteq> dst \<Longrightarrow> pm_words ?s a = pm_words s a"
    "\<And>j. j < n \<Longrightarrow> pm_words ?s (pte dst (of_nat j)) = pm_words s (pte src (of_nat j))"
    using Suc.IH [OF _ refl] Suc.prems(1) by auto
  have less: "(of_nat j :: u64) < 512" if "j < 512" for j
    using that by (simp add: word_less_nat_alt unat_of_nat)
  have s': "s' = set_word (pte dst (of_nat n)) (pm_words ?s (pte src (of_nat n))) ?s" using Suc.prems(2) by simp
  have src: "pm_words ?s (pte src (of_nat n)) = pm_words s (pte src (of_nat n))"
    using IH(2) page_base_pte [OF assms(2) less] assms(3) Suc.prems(1) by simp
  have dst: "page_base (pte dst (of_nat n)) = dst"
    using page_base_pte [OF assms(1) less] Suc.prems(1) by simp
  have "pte dst (of_nat j) \<noteq> pte dst (of_nat n)" if "j < n" for j
  proof -
    have "(of_nat j :: u64) \<noteq> of_nat n"
      using that Suc.prems(1) by (simp add: word_unat_eq_iff unat_of_nat)
    then show ?thesis using pte_inj [OF assms(1,1) less less] that Suc.prems(1) by simp
  qed
  then show ?case
    using IH src dst unfolding s' by (auto simp: less_Suc_eq)
qed simp

lemma copy_page_words:
  assumes "aligned dst" "aligned src" "dst \<noteq> src"
  shows "pm_alloc (copy_page dst src s) = pm_alloc s"
    "page_base a \<noteq> dst \<Longrightarrow> pm_words (copy_page dst src s) a = pm_words s a"
    "j < 512 \<Longrightarrow> pm_words (copy_page dst src s) (pte dst j) = pm_words s (pte src j)"
proof -
  note c = copy_page_fold [OF assms order_refl copy_page_def]
  then show "pm_alloc (copy_page dst src s) = pm_alloc s"
    "page_base a \<noteq> dst \<Longrightarrow> pm_words (copy_page dst src s) a = pm_words s a" by blast+
  assume "j < 512"
  then have "unat j < 512" by (simp add: word_less_nat_alt)
  with c have "pm_words (copy_page dst src s) (pte dst (of_nat (unat j))) = pm_words s (pte src (of_nat (unat j)))"
    by blast
  then show "pm_words (copy_page dst src s) (pte dst j) = pm_words s (pte src j)" by simp
qed

section \<open>Mapping a page\<close>

context page_provider
begin

abbreviation wf :: "ptr \<Rightarrow> ('a, 'z) pmem_scheme \<Rightarrow> bool" where
  "wf \<equiv> pd_wf owned ok"

abbreviation grows :: "ptr \<Rightarrow> ('a, 'z) pmem_scheme \<Rightarrow> ('a, 'z) pmem_scheme \<Rightarrow> bool" where
  "grows \<equiv> pd_grows owned"

lemma table_for_ok:
  assumes wf: "wf r s" and p: "descend (pm_words s) r p = Some t" "length p \<le> 2" "valid p" "i < 512"
    and b: "b \<or> p = []" and run: "table_for po b flags (pte t i) s = (res, s')"
  shows "wf r s'" "grows r s s'"
    "valid is \<Longrightarrow> length is = 4 \<Longrightarrow> find_entry (pm_words s') r is = find_entry (pm_words s) r is"
    "res = Inr n \<Longrightarrow> descend (pm_words s') r (p @ [i]) = Some n"
proof -
  let ?w = "pm_words s" and ?e = "pm_words s (pte t i)"
  have tr: "tree ?w r" and ok: "ok (pm_alloc s)" and sub: "tables ?w r \<subseteq> owned (pm_alloc s)"
    using wf by (simp_all add: pd_wf_def)
  have all: "wf r s' \<and> grows r s s' \<and>
    (\<forall>is. valid is \<longrightarrow> length is = 4 \<longrightarrow> find_entry (pm_words s') r is = find_entry ?w r is) \<and>
    (\<forall>n. res = Inr n \<longrightarrow> descend (pm_words s') r (p @ [i]) = Some n)"
  proof (cases "has ?e PAGE_PRESENT")
    case True
    then have s': "s' = s" "res = Inr n \<Longrightarrow> n = page_base ?e \<and> \<not> (b \<and> has ?e PAGE_SIZE)" for n
      using run by (auto simp: table_for_def Let_def split: if_splits)
    have "p = [] \<Longrightarrow> \<not> has ?e PAGE_SIZE"
      using treeD(3) [OF tr p(4)] p(1) True by simp
    with s' b True p(1) have "res = Inr n \<Longrightarrow> descend ?w r (p @ [i]) = Some n" for n
      by (auto simp: descend_append is_table_def)
    with s'(1) wf show ?thesis by simp
  next
    case False
    obtain n w' a' where al: "po_alloc_pages po 1 (ALLOC_ZERO OR ALLOC_KERNEL) ?w (pm_alloc s) = (n, w', a')"
      by (cases "po_alloc_pages po 1 (ALLOC_ZERO OR ALLOC_KERNEL) ?w (pm_alloc s)") auto
    note a' = alloc_ok [OF ok al]
    show ?thesis
    proof (cases "n = NULL")
      case True
      with alloc_fails [OF ok] al have "w' = ?w" by simp
      with True False run al have "pm_words s' = ?w" "pm_alloc s' = a'" "res = Inl ENOMEM"
        by (auto simp: table_for_def alloc_table_def Let_def)
      with a' tr sub show ?thesis by (auto simp: pd_wf_def pd_grows_def)
    next
      case n0: False
      define e where "e = (if has flags PAGE_USER then n OR PAGE_PRESENT OR PAGE_WRITABLE OR PAGE_USER
                           else n OR PAGE_PRESENT OR PAGE_WRITABLE)"
      note n = alloc_page [OF ok al n0]
      have s': "pm_words s' = w'(pte t i := e)" "pm_alloc s' = a'" "res = Inr n"
        using run False n0 al by (auto simp: table_for_def alloc_table_def Let_def e_def or.assoc)
      have e: "is_table e" "page_base e = n"
        using n not_has_aligned [of n] by (auto simp: e_def is_table_def aligned_def page_base_flags)
      have out: "n \<notin> tables ?w r" using n sub by auto
      have m1: "\<forall>a. page_base a \<noteq> n \<longrightarrow> w' a = ?w a" "\<forall>j < 512. w' (pte n j) = 0" using n by simp_all
      note at = attach_table [OF tr p False _ out m1 e s'(1)]
      have al_n: "aligned n" using n by simp
      have "t \<in> tables ?w r" using p by (intro tablesI [of _ _ p]) simp_all
      then have "page_base (pte t i) \<in> tables ?w r"
        using page_base_pte [OF tables_aligned [OF tr] p(4)] by simp
      then have "pm_words s' a = ?w a" if "page_base a \<in> owned (pm_alloc s) - tables ?w r" for a
        using that m1(1) n by (auto simp: s'(1))
      moreover have "descend (pm_words s') r (p @ [i]) = Some n"
        using at(3) [OF al_n, of "p @ [i]"] p by simp
      ultimately show ?thesis
        using a' n sub at(1) [OF al_n] at(2) [OF al_n] at(4) [OF al_n] s'(2,3)
        by (auto simp: pd_wf_def pd_grows_def)
    qed
  qed
  then show "wf r s'" "grows r s s'"
    "valid is \<Longrightarrow> length is = 4 \<Longrightarrow> find_entry (pm_words s') r is = find_entry (pm_words s) r is"
    "res = Inr n \<Longrightarrow> descend (pm_words s') r (p @ [i]) = Some n" by auto
qed

text \<open>Writing or clearing the entry of a 4K page.\<close>

lemma write_page_ok:
  assumes wf: "wf r s" and p: "descend (pm_words s) r p = Some t" "length p = 3" "valid p" "i < 512"
  shows "wf r (set_word (pte t i) e s)" "grows r s (set_word (pte t i) e s)"
    "valid is \<Longrightarrow> length is = 4 \<Longrightarrow> find_entry (pm_words (set_word (pte t i) e s)) r is =
       (if is = p @ [i] then if has e PAGE_PRESENT then Some (e, []) else None
        else find_entry (pm_words s) r is)"
    "valid is \<Longrightarrow> length is \<le> 3 \<Longrightarrow>
       descend (pm_words (set_word (pte t i) e s)) r is = descend (pm_words s) r is"
    "tables (pm_words (set_word (pte t i) e s)) r = tables (pm_words s) r"
proof -
  have tr: "tree (pm_words s) r" using wf by (simp add: pd_wf_def)
  have p3: "length p \<le> 3" using p(2) by simp
  have "p \<noteq> []" using p(2) by auto
  then have "length p = 3 \<or> \<not> is_table (pm_words s (pte t i)) \<and> \<not> is_table e" "p = [] \<longrightarrow> \<not> has e PAGE_PRESENT"
    using p(2) by simp_all
  note wl = write_leaf [OF tr p(1) p3 p(3,4) this refl]
  have "t \<in> tables (pm_words s) r" using p by (intro tablesI [of _ _ p]) simp_all
  then have "page_base (pte t i) \<in> tables (pm_words s) r"
    using page_base_pte [OF tables_aligned [OF tr] p(4)] by simp
  then show "wf r (set_word (pte t i) e s)" "grows r s (set_word (pte t i) e s)"
    using wf p(2) wl(1,2) by (auto simp: pd_wf_def pd_grows_def)
  show "valid is \<Longrightarrow> length is = 4 \<Longrightarrow> find_entry (pm_words (set_word (pte t i) e s)) r is =
       (if is = p @ [i] then if has e PAGE_PRESENT then Some (e, []) else None
        else find_entry (pm_words s) r is)"
    using wl(4) [of "is"] p(2) by auto
  show "valid is \<Longrightarrow> length is \<le> 3 \<Longrightarrow>
       descend (pm_words (set_word (pte t i) e s)) r is = descend (pm_words s) r is"
    "tables (pm_words (set_word (pte t i) e s)) r = tables (pm_words s) r"
    using wl(2,3) p(2) by auto
qed

definition map_done :: "u64 \<Rightarrow> 'm page_directory \<Rightarrow> 'm page_directory" where
  "map_done flags d =
     d\<lparr>total_mapped_pages := total_mapped_pages d + 1,
       total_user_pages := total_user_pages d + (if has flags PAGE_USER then 1 else 0)\<rparr>"

lemma map_page_ok:
  assumes wf: "wf (pml4_table d) s" and flags: "\<not> has flags PAGE_SIZE"
    and run: "map_page po flags n k v paddr d s = (res, d', s')"
  shows "wf (pml4_table d) s'" "grows (pml4_table d) s s'"
    "res = Inl e \<Longrightarrow> d' = d \<and> (\<forall>is. valid is \<longrightarrow> length is = 4 \<longrightarrow>
       find_entry (pm_words s') (pml4_table d) is = find_entry (pm_words s) (pml4_table d) is)"
    "res = Inr j \<Longrightarrow> j = 0 \<and> d' = map_done flags d \<and>
       find_entry (pm_words s) (pml4_table d) (page_path v) = None \<and>
       (\<forall>is. valid is \<longrightarrow> length is = 4 \<longrightarrow> find_entry (pm_words s') (pml4_table d) is =
          (if is = page_path v then Some (page_entry paddr flags, []) else find_entry (pm_words s) (pml4_table d) is))"
proof -
  let ?r = "pml4_table d" and ?i1 = "pml4_index v" and ?i2 = "pdpt_index v" and ?i3 = "pd_index v" and ?i4 = "pt_index v"
  let ?same = "\<lambda>s'. \<forall>is. valid is \<longrightarrow> length is = 4 \<longrightarrow> find_entry (pm_words s') ?r is = find_entry (pm_words s) ?r is"
  have nl: "\<not> large_ok sz flags v paddr k n" for sz using flags by (simp add: large_ok_def)
  have v: "valid []" "valid [?i1]" "valid [?i1, ?i2]" "valid [?i1, ?i2, ?i3]" by simp_all
  have l: "length ([] :: u64 list) \<le> 2" "length [?i1] \<le> 2" "length [?i1, ?i2] \<le> 2" "length [?i1, ?i2, ?i3] = 3"
    by simp_all
  have b: "False \<or> ([] :: u64 list) = []" "True \<or> q = []" for q :: "u64 list" by simp_all
  have ap: "[] @ [?i1] = [?i1]" "[?i1] @ [?i2] = [?i1, ?i2]" "[?i1, ?i2] @ [?i3] = [?i1, ?i2, ?i3]" by simp_all
  obtain r1 s1 where t1: "table_for po False flags (pte ?r ?i1) s = (r1, s1)" by fastforce
  note o1 = table_for_ok [OF wf descend.simps(1) l(1) v(1) index_less(1) b(1) t1, unfolded ap]
  have all: "wf ?r s' \<and> grows ?r s s' \<and> (\<forall>e. res = Inl e \<longrightarrow> d' = d \<and> ?same s') \<and>
    (\<forall>j. res = Inr j \<longrightarrow> j = 0 \<and> d' = map_done flags d \<and> find_entry (pm_words s) ?r (page_path v) = None \<and>
       (\<forall>is. valid is \<longrightarrow> length is = 4 \<longrightarrow> find_entry (pm_words s') ?r is =
          (if is = page_path v then Some (page_entry paddr flags, []) else find_entry (pm_words s) ?r is)))"
  proof (cases r1)
    case (Inl e)
    with run t1 have "res = Inl e" "d' = d" "s' = s1" by (simp_all add: map_page_def)
    with o1(1,2,3) show ?thesis by simp
  next
    case (Inr n1)
    obtain r2 s2 where t2: "table_for po True flags (pte n1 ?i2) s1 = (r2, s2)" by fastforce
    note o2 = table_for_ok [OF o1(1) o1(4) [OF Inr] l(2) v(2) index_less(2) b(2) t2, unfolded ap]
    note g2 = pd_grows_trans [OF o1(2) o2(2)]
    show ?thesis
    proof (cases r2)
      case Inl2: (Inl e)
      with Inr run t1 t2 nl have "res = Inl e" "d' = d" "s' = s2" by (simp_all add: map_page_def)
      with o2(1,3) o1(3) g2 show ?thesis by simp
    next
      case Inr2: (Inr n2)
      obtain r3 s3 where t3: "table_for po True flags (pte n2 ?i3) s2 = (r3, s3)" by fastforce
      note o3 = table_for_ok [OF o2(1) o2(4) [OF Inr2] l(3) v(3) index_less(3) b(2) t3, unfolded ap]
      note g3 = pd_grows_trans [OF g2 o3(2)]
      show ?thesis
      proof (cases r3)
        case Inl3: (Inl e)
        with Inr Inr2 run t1 t2 t3 nl have "res = Inl e" "d' = d" "s' = s3" by (simp_all add: map_page_def)
        with o3(1,3) o2(3) o1(3) g3 show ?thesis by simp
      next
        case Inr3: (Inr n3)
        note d3 = o3(4) [OF Inr3]
        have same3: "?same s3" using o3(3) o2(3) o1(3) by simp
        have path: "page_path v = [?i1, ?i2, ?i3] @ [?i4]" by (simp add: page_path_def)
        have now: "find_entry (pm_words s3) ?r (page_path v) = find_entry (pm_words s3) n3 [?i4]"
          unfolding path by (rule find_entry_append [OF d3]) simp
        show ?thesis
        proof (cases "has (pm_words s3 (pte n3 ?i4)) PAGE_PRESENT")
          case True
          with Inr Inr2 Inr3 run t1 t2 t3 nl have "res = Inl EEXIST" "d' = d" "s' = s3"
            by (simp_all add: map_page_def)
          with o3(1) g3 same3 show ?thesis by simp
        next
          case False
          note w = write_page_ok [OF o3(1) d3 l(4) v(4) index_less(4) [of v], where e = "page_entry paddr flags"]
          have "has (page_entry paddr flags) PAGE_PRESENT" by (simp add: page_entry_def)
          moreover from False Inr Inr2 Inr3 run t1 t2 t3 nl have "res = Inr 0" "d' = map_done flags d"
            "s' = set_word (pte n3 ?i4) (page_entry paddr flags) s3"
            by (auto simp: map_page_def map_done_def Let_def split: if_splits)
          moreover have "find_entry (pm_words s) ?r (page_path v) = None"
            using same3 now False by simp
          ultimately show ?thesis
            using w(1) w(3) [folded path] pd_grows_trans [OF g3 w(2)] same3 by simp
        qed
      qed
    qed
  qed
  then show "wf ?r s'" "grows ?r s s'" by simp_all
  show "res = Inl e \<Longrightarrow> d' = d \<and> ?same s'" using all by blast
  show "res = Inr j \<Longrightarrow> j = 0 \<and> d' = map_done flags d \<and> find_entry (pm_words s) ?r (page_path v) = None \<and>
       (\<forall>is. valid is \<longrightarrow> length is = 4 \<longrightarrow> find_entry (pm_words s') ?r is =
          (if is = page_path v then Some (page_entry paddr flags, []) else find_entry (pm_words s) ?r is))"
    using all by blast
qed

lemma map_loop_ok:
  assumes "wf (pml4_table d) s" "\<not> has flags PAGE_SIZE"
    and "map_loop po flags n sv sp i d s = (res, d', s')"
    and "pg = (\<lambda>k :: nat. page_path (sv + of_nat k * PAGE_SIZE_4K))"
  shows "wf (pml4_table d) s' \<and> grows (pml4_table d) s s' \<and> pml4_table d' = pml4_table d \<and>
    (res = Inr () \<longrightarrow>
      total_mapped_pages d' = total_mapped_pages d + of_nat (n - i) \<and>
      total_user_pages d' = total_user_pages d + (if has flags PAGE_USER then of_nat (n - i) else 0) \<and>
      inj_on pg {i ..< n} \<and>
      (\<forall>k \<in> {i ..< n}. find_entry (pm_words s) (pml4_table d) (pg k) = None) \<and>
      (\<forall>k \<in> {i ..< n}. find_entry (pm_words s') (pml4_table d) (pg k) =
                        Some (page_entry (sp + of_nat k * PAGE_SIZE_4K) flags, [])) \<and>
      (\<forall>is. valid is \<longrightarrow> length is = 4 \<longrightarrow> (\<forall>k \<in> {i ..< n}. is \<noteq> pg k) \<longrightarrow>
         find_entry (pm_words s') (pml4_table d) is = find_entry (pm_words s) (pml4_table d) is))"
  using assms
proof (induction "n - i" arbitrary: i d s d' s')
  case 0
  then show ?case by (simp add: map_loop.simps)
next
  case (Suc x)
  let ?r = "pml4_table d" and ?v = "sv + of_nat i * PAGE_SIZE_4K" and ?p = "sp + of_nat i * PAGE_SIZE_4K"
  have i: "i < n" "x = n - (i + 1)" using Suc.hyps(2) by simp_all
  obtain r1 d1 s1 where m: "map_page po flags n i ?v ?p d s = (r1, d1, s1)" by (metis prod_cases3)
  note mp = map_page_ok [OF Suc.prems(1,2) m]
  have path: "page_path ?v = pg i" using Suc.prems(4) by simp
  show ?case
  proof (cases r1)
    case (Inl e)
    then have "res = Inl e" "d' = d" "s' = s1"
      using Suc.prems(3) i(1) m mp(3) by (simp_all add: map_loop.simps)
    with mp(1,2) show ?thesis by simp
  next
    case (Inr j)
    note one = mp(4) [OF Inr, unfolded path]
    have r1: "pml4_table d1 = ?r" using one by (simp add: map_done_def)
    have "map_loop po flags n sv sp (i + 1) d1 s1 = (res, d', s')"
      using Suc.prems(3) i(1) m Inr one by (subst (asm) map_loop.simps) simp
    from Suc.hyps(1) [OF i(2) _ Suc.prems(2) this Suc.prems(4)] mp(1) r1
    have IH: "wf ?r s'" "grows ?r s1 s'" "pml4_table d' = ?r"
      "res = Inr () \<Longrightarrow> total_mapped_pages d' = total_mapped_pages d1 + of_nat (n - (i + 1)) \<and>
        total_user_pages d' = total_user_pages d1 + (if has flags PAGE_USER then of_nat (n - (i + 1)) else 0) \<and>
        inj_on pg {i + 1 ..< n} \<and>
        (\<forall>k \<in> {i + 1 ..< n}. find_entry (pm_words s1) ?r (pg k) = None) \<and>
        (\<forall>k \<in> {i + 1 ..< n}. find_entry (pm_words s') ?r (pg k) =
                        Some (page_entry (sp + of_nat k * PAGE_SIZE_4K) flags, [])) \<and>
        (\<forall>is. valid is \<longrightarrow> length is = 4 \<longrightarrow> (\<forall>k \<in> {i + 1 ..< n}. is \<noteq> pg k) \<longrightarrow>
           find_entry (pm_words s') ?r is = find_entry (pm_words s1) ?r is)"
      by simp_all
    have rng: "{i ..< n} = insert i {i + 1 ..< n}" using i(1) by auto
    have vp: "valid (pg k)" "length (pg k) = 4" for k using Suc.prems(4) by simp_all
    have "total_mapped_pages d' = total_mapped_pages d + of_nat (n - i) \<and>
      total_user_pages d' = total_user_pages d + (if has flags PAGE_USER then of_nat (n - i) else 0) \<and>
      inj_on pg {i ..< n} \<and>
      (\<forall>k \<in> {i ..< n}. find_entry (pm_words s) ?r (pg k) = None) \<and>
      (\<forall>k \<in> {i ..< n}. find_entry (pm_words s') ?r (pg k) =
                        Some (page_entry (sp + of_nat k * PAGE_SIZE_4K) flags, [])) \<and>
      (\<forall>is. valid is \<longrightarrow> length is = 4 \<longrightarrow> (\<forall>k \<in> {i ..< n}. is \<noteq> pg k) \<longrightarrow>
         find_entry (pm_words s') ?r is = find_entry (pm_words s) ?r is)" if "res = Inr ()"
    proof -
      note h = IH(4) [OF that]
      have s1i: "find_entry (pm_words s1) ?r (pg i) = Some (page_entry ?p flags, [])" using one vp [of i] by simp
      have s1: "find_entry (pm_words s1) ?r is = find_entry (pm_words s) ?r is"
          if "valid is" "length is = 4" "is \<noteq> pg i" for "is"
        using one that by simp
      have h2: "find_entry (pm_words s1) ?r (pg k) = None" if "k \<in> {i + 1 ..< n}" for k using h that by blast
      have ne: "pg k \<noteq> pg i" if "k \<in> {i + 1 ..< n}" for k using h2 [OF that] s1i by auto
      have h4: "find_entry (pm_words s') ?r is = find_entry (pm_words s1) ?r is"
        if "valid is" "length is = 4" "\<forall>k \<in> {i + 1 ..< n}. is \<noteq> pg k" for "is" using h that by blast
      have si: "find_entry (pm_words s') ?r (pg i) = Some (page_entry ?p flags, [])"
        using h4 [OF vp] ne s1i by metis
      have "n - i = Suc (n - (i + 1))" using i(1) by simp
      then have "total_mapped_pages d' = total_mapped_pages d + of_nat (n - i)"
        "total_user_pages d' = total_user_pages d + (if has flags PAGE_USER then of_nat (n - i) else 0)"
        using h one by (simp_all add: map_done_def)
      moreover have "inj_on pg {i ..< n}"
      proof -
        have "inj_on pg {i + 1 ..< n}" using h by simp
        then show ?thesis unfolding rng inj_on_insert using ne by (metis DiffD1 imageE)
      qed
      moreover have "\<forall>k \<in> {i ..< n}. find_entry (pm_words s) ?r (pg k) = None"
        unfolding rng using one h2 s1 [OF vp] ne by auto
      moreover have "\<forall>k \<in> {i ..< n}. find_entry (pm_words s') ?r (pg k) =
                        Some (page_entry (sp + of_nat k * PAGE_SIZE_4K) flags, [])"
        unfolding rng using h si by blast
      moreover have "find_entry (pm_words s') ?r is = find_entry (pm_words s) ?r is"
        if "valid is" "length is = 4" "\<forall>k \<in> {i ..< n}. is \<noteq> pg k" for "is"
        using h4 [of "is"] s1 [of "is"] that unfolding rng by simp
      ultimately show ?thesis by blast
    qed
    with IH(1-3) pd_grows_trans [OF mp(2) IH(2)] show ?thesis by simp
  qed
qed

text \<open>Unmapping: clearing the entry of a page, then freeing the tables that have become empty.\<close>

lemma reclaim_step:
  assumes wf: "wf r s" and p: "descend (pm_words s) r p = Some t" "length p \<le> 2" "valid p" "i < 512"
    and n: "is_table (pm_words s (pte t i))" "page_base (pm_words s (pte t i)) = n" "table_empty n s"
    and s': "s' = set_word (pte t i) 0 (free_range po n 1 s)"
  shows "wf r s'"
    "valid is \<Longrightarrow> length is = 4 \<Longrightarrow> find_entry (pm_words s') r is = find_entry (pm_words s) r is"
    "valid is \<Longrightarrow> length is \<le> length p \<Longrightarrow> descend (pm_words s') r is = descend (pm_words s) r is"
    "tables (pm_words s') r \<subseteq> tables (pm_words s) r"
    "page_base a \<notin> tables (pm_words s) r \<Longrightarrow> pm_words s' a = pm_words s a"
proof -
  let ?w = "pm_words s"
  have tr: "tree ?w r" and ok: "ok (pm_alloc s)" and sub: "tables ?w r \<subseteq> owned (pm_alloc s)"
    using wf by (simp_all add: pd_wf_def)
  have em: "\<forall>j < 512. \<not> has (?w (pte n j)) PAGE_PRESENT" using table_emptyD [OF n(3)] by blast
  have w': "pm_words s' = ?w(pte t i := 0)" "pm_alloc s' = po_free_pages po n 1 (pm_alloc s)" using s' by simp_all
  note dt = detach_table [OF tr p n(1,2) em w'(1)]
  have "aligned n" using n(2) by auto
  from free_ok [OF ok this] dt(1,2) sub w'(2) show "wf r s'" by (auto simp: pd_wf_def)
  show "valid is \<Longrightarrow> length is = 4 \<Longrightarrow> find_entry (pm_words s') r is = find_entry ?w r is" by (rule dt(4))
  show "valid is \<Longrightarrow> length is \<le> length p \<Longrightarrow> descend (pm_words s') r is = descend ?w r is"
    using dt(3) [of "is"] p(2) by auto
  show "tables (pm_words s') r \<subseteq> tables ?w r" using dt(2) by auto
  have "t \<in> tables ?w r" using p by (intro tablesI [of _ _ p]) simp_all
  then have "page_base (pte t i) \<in> tables ?w r" using page_base_pte [OF tables_aligned [OF tr] p(4)] by simp
  then show "page_base a \<notin> tables ?w r \<Longrightarrow> pm_words s' a = ?w a" by (auto simp: w'(1))
qed

text \<open>A step that removes tables at most, and changes no translation.\<close>

definition prunes :: "ptr \<Rightarrow> ('a, 'z) pmem_scheme \<Rightarrow> ('a, 'z) pmem_scheme \<Rightarrow> bool" where
  "prunes r s s' \<longleftrightarrow> wf r s' \<and> tables (pm_words s') r \<subseteq> tables (pm_words s) r \<and>
     (\<forall>is. valid is \<longrightarrow> length is = 4 \<longrightarrow> find_entry (pm_words s') r is = find_entry (pm_words s) r is) \<and>
     (\<forall>a. page_base a \<notin> tables (pm_words s) r \<longrightarrow> pm_words s' a = pm_words s a)"

lemma prunes_trans: "prunes r s1 s2 \<Longrightarrow> prunes r s2 s3 \<Longrightarrow> prunes r s1 s3"
  unfolding prunes_def by auto

lemma prunes_refl: "wf r s \<Longrightarrow> prunes r s s"
  by (simp add: prunes_def)

lemma prune_step:
  assumes "wf r s" "descend (pm_words s) r (p @ [i]) = Some n" "descend (pm_words s) r p = Some t"
    and "length p \<le> 2" "valid p" "i < 512" "table_empty n s"
  shows "prunes r s (set_word (pte t i) 0 (free_range po n 1 s))"
    "valid is \<Longrightarrow> length is \<le> length p \<Longrightarrow>
     descend (pm_words (set_word (pte t i) 0 (free_range po n 1 s))) r is = descend (pm_words s) r is"
proof -
  from descend_snocD [OF assms(2)] assms(3)
  have "is_table (pm_words s (pte t i))" "page_base (pm_words s (pte t i)) = n" by auto
  note st = reclaim_step [OF assms(1,3-6) this assms(7) refl]
  show "prunes r s (set_word (pte t i) 0 (free_range po n 1 s))"
    unfolding prunes_def using st(1,2,4,5) by blast
  show "valid is \<Longrightarrow> length is \<le> length p \<Longrightarrow>
     descend (pm_words (set_word (pte t i) 0 (free_range po n 1 s))) r is = descend (pm_words s) r is"
    by (rule st(3))
qed

lemma reclaim_pdpt_ok:
  assumes "wf r s" "descend (pm_words s) r [i1] = Some t1" "i1 < 512"
  shows "prunes r s (reclaim_pdpt po (pte r i1) t1 s)"
  using prune_step(1) [of r s "[]" i1 t1 r] prunes_refl [OF assms(1)] assms
  unfolding reclaim_pdpt_def by (simp del: descend.simps(2))

lemma reclaim_pd_ok:
  assumes "wf r s" "descend (pm_words s) r [i1] = Some t1" "descend (pm_words s) r [i1, i2] = Some t2"
    and "i1 < 512" "i2 < 512"
  shows "prunes r s (reclaim_pd po (pte r i1) t1 (pte t1 i2) t2 s)"
proof (cases "table_empty t2 s")
  case True
  let ?s = "set_word (pte t1 i2) 0 (free_range po t2 1 s)"
  have st: "prunes r s ?s" "descend (pm_words ?s) r [i1] = Some t1"
    using prune_step [of r s "[i1]" i2 t2 t1] True assms by (simp_all del: descend.simps(2))
  from reclaim_pdpt_ok [OF _ st(2) assms(4)] st(1) have "prunes r ?s (reclaim_pdpt po (pte r i1) t1 ?s)"
    by (simp add: prunes_def)
  with prunes_trans [OF st(1)] True show ?thesis by (simp add: reclaim_pd_def)
qed (use prunes_refl [OF assms(1)] in \<open>simp add: reclaim_pd_def\<close>)

lemma reclaim_pt_ok:
  assumes "wf r s" "descend (pm_words s) r [i1] = Some t1" "descend (pm_words s) r [i1, i2] = Some t2"
    and "descend (pm_words s) r [i1, i2, i3] = Some t3" "i1 < 512" "i2 < 512" "i3 < 512"
  shows "prunes r s (reclaim_pt po (pte r i1) t1 (pte t1 i2) t2 (pte t2 i3) t3 s)"
proof (cases "table_empty t3 s")
  case True
  let ?s = "set_word (pte t2 i3) 0 (free_range po t3 1 s)"
  have st: "prunes r s ?s" "descend (pm_words ?s) r [i1] = Some t1" "descend (pm_words ?s) r [i1, i2] = Some t2"
    using prune_step [of r s "[i1, i2]" i3 t3 t2] True assms by (simp_all del: descend.simps(2))
  from reclaim_pd_ok [OF _ st(2,3) assms(5,6)] st(1)
  have "prunes r ?s (reclaim_pd po (pte r i1) t1 (pte t1 i2) t2 ?s)" by (simp add: prunes_def)
  with prunes_trans [OF st(1)] True show ?thesis by (simp add: reclaim_pt_def)
qed (use prunes_refl [OF assms(1)] in \<open>simp add: reclaim_pt_def\<close>)

lemma unmap_page_ok:
  assumes wf: "wf (pml4_table d) s"
    and e: "find_entry (pm_words s) (pml4_table d) (page_path v) = Some (e, [])"
    and run: "unmap_page po False v d s = (k, d', s')"
  shows "k = 0" "d' = d\<lparr>total_mapped_pages := total_mapped_pages d - 1\<rparr>" "wf (pml4_table d) s'"
    "valid is \<Longrightarrow> length is = 4 \<Longrightarrow> find_entry (pm_words s') (pml4_table d) is =
       (if is = page_path v then None else find_entry (pm_words s) (pml4_table d) is)"
    "tables (pm_words s') (pml4_table d) \<subseteq> tables (pm_words s) (pml4_table d)"
    "page_base a \<notin> tables (pm_words s) (pml4_table d) \<Longrightarrow> pm_words s' a = pm_words s a"
proof -
  let ?r = "pml4_table d" and ?i1 = "pml4_index v" and ?i2 = "pdpt_index v" and ?i3 = "pd_index v" and ?i4 = "pt_index v"
  have path: "page_path v = [?i1, ?i2, ?i3] @ [?i4]" by (simp add: page_path_def)
  obtain t3 where t3: "descend (pm_words s) ?r [?i1, ?i2, ?i3] = Some t3"
    "pm_words s (pte t3 ?i4) = e" "has e PAGE_PRESENT"
    using find_entry_page [OF e [unfolded path]] by blast
  from descend_snocD [of "pm_words s" ?r "[?i1, ?i2]" ?i3 t3] t3(1) obtain t2 where
    t2: "descend (pm_words s) ?r [?i1, ?i2] = Some t2" "is_table (pm_words s (pte t2 ?i3))"
      "page_base (pm_words s (pte t2 ?i3)) = t3" by (auto simp del: descend.simps(2))
  from descend_snocD [of "pm_words s" ?r "[?i1]" ?i2 t2] t2(1) obtain t1 where
    t1: "descend (pm_words s) ?r [?i1] = Some t1" "is_table (pm_words s (pte t1 ?i2))"
      "page_base (pm_words s (pte t1 ?i2)) = t2" by (auto simp del: descend.simps(2))
  from descend_snocD [of "pm_words s" ?r "[]" ?i1 t1] t1(1)
  have t0: "is_table (pm_words s (pte ?r ?i1))" "page_base (pm_words s (pte ?r ?i1)) = t1"
    by (auto simp del: descend.simps(2))
  let ?s1 = "set_word (pte t3 ?i4) 0 s"
  let ?s2 = "reclaim_pt po (pte ?r ?i1) t1 (pte t1 ?i2) t2 (pte t2 ?i3) t3 ?s1"
  have v: "length [?i1, ?i2, ?i3] = 3" "valid [?i1, ?i2, ?i3]" by simp_all
  note w = write_page_ok [OF wf t3(1) v index_less(4) [of v], where e = 0]
  have run': "(k, d', s') = (0, d\<lparr>total_mapped_pages := total_mapped_pages d - 1\<rparr>, ?s2)"
    using run t0 t1(2,3) t2(2,3) t3(2,3)
    by (simp add: unmap_page_def clear_entry_def is_table_def Let_def)
  then show "k = 0" "d' = d\<lparr>total_mapped_pages := total_mapped_pages d - 1\<rparr>" by simp_all
  have "prunes ?r ?s1 ?s2"
    by (rule reclaim_pt_ok [OF w(1)]) (use w(4) t1(1) t2(1) t3(1) in \<open>simp_all del: descend.simps(2)\<close>)
  moreover have "s' = ?s2" using run' by simp
  moreover have "page_base (pte t3 ?i4) \<in> tables (pm_words s) ?r"
  proof -
    have tr: "tree (pm_words s) ?r" using wf by (simp add: pd_wf_def)
    have "t3 \<in> tables (pm_words s) ?r" using t3(1) v by (intro tablesI [OF t3(1)]) simp_all
    then show ?thesis using page_base_pte [OF tables_aligned [OF tr]] by simp
  qed
  ultimately show "wf ?r s'" "tables (pm_words s') ?r \<subseteq> tables (pm_words s) ?r"
    "valid is \<Longrightarrow> length is = 4 \<Longrightarrow> find_entry (pm_words s') ?r is =
       (if is = page_path v then None else find_entry (pm_words s) ?r is)"
    "page_base a \<notin> tables (pm_words s) ?r \<Longrightarrow> pm_words s' a = pm_words s a"
    using w(3) [of "is"] w(5) unfolding prunes_def path by auto
qed

lemma unmap_page_none:
  assumes "tree (pm_words s) (pml4_table d)" "find_entry (pm_words s) (pml4_table d) (page_path v) = None"
  shows "unmap_page po f v d s = (0, d, s)"
  using assms(2) treeD(3) [OF assms(1) index_less(1), of v]
  by (auto simp: unmap_page_def page_path_def Let_def split: if_splits)

lemma unmap_loop_ok:
  assumes "wf (pml4_table d) s" "unmap_loop po False n sv i d s = (d', s')"
    and "pg = (\<lambda>k :: nat. page_path (sv + of_nat k * PAGE_SIZE_4K))"
    and "\<forall>k \<in> {i ..< n}. \<forall>e rest. find_entry (pm_words s) (pml4_table d) (pg k) = Some (e, rest) \<longrightarrow> rest = []"
  shows "wf (pml4_table d) s' \<and> pml4_table d' = pml4_table d \<and> total_user_pages d' = total_user_pages d \<and>
    (inj_on pg {i ..< n} \<and> (\<forall>k \<in> {i ..< n}. find_entry (pm_words s) (pml4_table d) (pg k) \<noteq> None) \<longrightarrow>
       total_mapped_pages d' = total_mapped_pages d - of_nat (n - i)) \<and>
    (\<forall>is. valid is \<longrightarrow> length is = 4 \<longrightarrow> find_entry (pm_words s') (pml4_table d) is =
       (if is \<in> pg ` {i ..< n} then None else find_entry (pm_words s) (pml4_table d) is)) \<and>
    tables (pm_words s') (pml4_table d) \<subseteq> tables (pm_words s) (pml4_table d) \<and>
    (\<forall>a. page_base a \<notin> tables (pm_words s) (pml4_table d) \<longrightarrow> pm_words s' a = pm_words s a)"
  using assms
proof (induction "n - i" arbitrary: i d s)
  case 0
  then show ?case by (simp add: unmap_loop.simps)
next
  case (Suc x)
  let ?r = "pml4_table d" and ?v = "sv + of_nat i * PAGE_SIZE_4K"
  have i: "i < n" "x = n - (i + 1)" using Suc.hyps(2) by simp_all
  have rng: "{i ..< n} = insert i {i + 1 ..< n}" using i(1) by auto
  obtain k d1 s1 where u: "unmap_page po False ?v d s = (k, d1, s1)" by (metis prod_cases3)
  have path: "page_path ?v = pg i" using Suc.prems(3) by simp
  have vp: "valid (pg k)" "length (pg k) = 4" for k using Suc.prems(3) by simp_all
  define c :: u64 where "c = (if find_entry (pm_words s) ?r (pg i) = None then 0 else 1)"
  have one: "k = 0" "d1 = d\<lparr>total_mapped_pages := total_mapped_pages d - c\<rparr>" "wf ?r s1"
    "\<forall>is. valid is \<longrightarrow> length is = 4 \<longrightarrow> find_entry (pm_words s1) ?r is =
       (if is = pg i then None else find_entry (pm_words s) ?r is)"
    "tables (pm_words s1) ?r \<subseteq> tables (pm_words s) ?r"
    "\<forall>a. page_base a \<notin> tables (pm_words s) ?r \<longrightarrow> pm_words s1 a = pm_words s a"
  proof -
    have "k = 0 \<and> d1 = d\<lparr>total_mapped_pages := total_mapped_pages d - c\<rparr> \<and> wf ?r s1 \<and>
      (\<forall>is. valid is \<longrightarrow> length is = 4 \<longrightarrow> find_entry (pm_words s1) ?r is =
         (if is = pg i then None else find_entry (pm_words s) ?r is)) \<and>
      tables (pm_words s1) ?r \<subseteq> tables (pm_words s) ?r \<and>
      (\<forall>a. page_base a \<notin> tables (pm_words s) ?r \<longrightarrow> pm_words s1 a = pm_words s a)"
    proof (cases "find_entry (pm_words s) ?r (pg i)")
      case None
      have "unmap_page po False ?v d s = (0, d, s)"
        by (rule unmap_page_none) (use Suc.prems(1) None path in \<open>simp_all add: pd_wf_def\<close>)
      with None u Suc.prems(1) c_def show ?thesis by simp
    next
      case (Some q)
      with Suc.prems(4) i(1) have "find_entry (pm_words s) ?r (page_path ?v) = Some (fst q, [])"
        unfolding path by (cases q) (metis atLeastLessThan_iff fst_conv order_refl)
      from unmap_page_ok [OF Suc.prems(1) this u] Some show ?thesis unfolding path c_def by simp
    qed
    then show "k = 0" "d1 = d\<lparr>total_mapped_pages := total_mapped_pages d - c\<rparr>" "wf ?r s1"
      "\<forall>is. valid is \<longrightarrow> length is = 4 \<longrightarrow> find_entry (pm_words s1) ?r is =
         (if is = pg i then None else find_entry (pm_words s) ?r is)"
      "tables (pm_words s1) ?r \<subseteq> tables (pm_words s) ?r"
      "\<forall>a. page_base a \<notin> tables (pm_words s) ?r \<longrightarrow> pm_words s1 a = pm_words s a" by blast+
  qed
  have r1: "pml4_table d1 = ?r" using one(2) by simp
  have s1: "find_entry (pm_words s1) ?r (pg k) = (if pg k = pg i then None else find_entry (pm_words s) ?r (pg k))" for k
    using one(4) vp by simp
  have "unmap_loop po False n sv (i + 1) d1 s1 = (d', s')"
    using Suc.prems(2) i(1) u one(1) by (subst (asm) unmap_loop.simps) simp
  moreover have "\<forall>k \<in> {i + 1 ..< n}. \<forall>e rest. find_entry (pm_words s1) (pml4_table d1) (pg k) = Some (e, rest) \<longrightarrow> rest = []"
    using Suc.prems(4) unfolding r1 s1 rng by simp
  ultimately have IH: "wf ?r s'" "pml4_table d' = ?r" "total_user_pages d' = total_user_pages d"
    "inj_on pg {i + 1 ..< n} \<and> (\<forall>k \<in> {i + 1 ..< n}. find_entry (pm_words s1) ?r (pg k) \<noteq> None) \<Longrightarrow>
       total_mapped_pages d' = total_mapped_pages d1 - of_nat (n - (i + 1))"
    "\<forall>is. valid is \<longrightarrow> length is = 4 \<longrightarrow> find_entry (pm_words s') ?r is =
       (if is \<in> pg ` {i + 1 ..< n} then None else find_entry (pm_words s1) ?r is)"
    "tables (pm_words s') ?r \<subseteq> tables (pm_words s1) ?r"
    "\<forall>a. page_base a \<notin> tables (pm_words s1) ?r \<longrightarrow> pm_words s' a = pm_words s1 a"
    using Suc.hyps(1) [OF i(2) _ _ Suc.prems(3), of d1 s1] one(2,3) unfolding r1 by simp_all
  have "total_mapped_pages d' = total_mapped_pages d - of_nat (n - i)"
    if inj: "inj_on pg {i ..< n}" and all: "\<forall>k \<in> {i ..< n}. find_entry (pm_words s) ?r (pg k) \<noteq> None"
  proof -
    have "pg k \<noteq> pg i" if "k \<in> {i + 1 ..< n}" for k using inj_onD [OF inj, of k i] that i(1) by auto
    with all have "\<forall>k \<in> {i + 1 ..< n}. find_entry (pm_words s1) ?r (pg k) \<noteq> None" by (simp add: s1)
    moreover have "inj_on pg {i + 1 ..< n}" using inj by (rule inj_on_subset) auto
    moreover have "n - i = Suc (n - (i + 1))" using i(1) by simp
    moreover have "c = 1" using all i(1) by (simp add: c_def)
    ultimately show ?thesis using IH(4) one(2) by simp
  qed
  moreover have "\<forall>is. valid is \<longrightarrow> length is = 4 \<longrightarrow> find_entry (pm_words s') ?r is =
       (if is \<in> pg ` {i ..< n} then None else find_entry (pm_words s) ?r is)"
    using IH(5) one(4) unfolding rng by simp
  moreover have "tables (pm_words s') ?r \<subseteq> tables (pm_words s) ?r" using IH(6) one(5) by (rule subset_trans)
  moreover have "pm_words s' a = pm_words s a" if "page_base a \<notin> tables (pm_words s) ?r" for a
  proof -
    have "page_base a \<notin> tables (pm_words s1) ?r" using that one(5) by blast
    with IH(7) one(6) that show ?thesis by simp
  qed
  ultimately show ?case using IH(1-3) by blast
qed

end

section \<open>Copy-on-write faults\<close>

definition cow_entry :: "ptr \<Rightarrow> u64 \<Rightarrow> u64" where
  "cow_entry n e = (n OR (e AND 0xFFF) OR PAGE_WRITABLE) AND NOT PAGE_COW"

lemma has_and_not: "has (x AND NOT PAGE_COW) f \<longleftrightarrow> has x (f AND NOT PAGE_COW)"
  by (simp add: has_def ac_simps)

lemma cow_entry_simps:
  assumes "aligned n" "has e PAGE_PRESENT"
  shows "page_base (cow_entry n e) = n" "has (cow_entry n e) PAGE_PRESENT" "has (cow_entry n e) PAGE_WRITABLE"
    "\<not> has (cow_entry n e) PAGE_COW"
proof -
  have f: "(PAGE_PRESENT AND NOT PAGE_COW) = PAGE_PRESENT" "(PAGE_WRITABLE AND NOT PAGE_COW) = PAGE_WRITABLE"
    "(PAGE_COW AND NOT PAGE_COW) = 0" "has PAGE_WRITABLE PAGE_WRITABLE" "0xFFF AND PAGE_PRESENT = PAGE_PRESENT"
    by (simp_all add: pte_flag_defs has_def)
  have "has (e AND 0xFFF) PAGE_PRESENT" using assms(2) f(5) by (simp add: has_def and.assoc)
  then show "has (cow_entry n e) PAGE_PRESENT" "has (cow_entry n e) PAGE_WRITABLE" "\<not> has (cow_entry n e) PAGE_COW"
    unfolding cow_entry_def has_and_not f by (simp_all add: f(4), simp add: has_def)
  have "page_base (e AND 0xFFF) = 0" "flag_bits PAGE_WRITABLE" by (simp_all add: page_base_def PAGE_SIZE_4K_def and.assoc)
  then have "page_base (n OR (e AND 0xFFF) OR PAGE_WRITABLE) = n"
    using assms(1) by (simp add: page_base_or aligned_def flag_bits_def)
  moreover have "page_base (x AND NOT PAGE_COW) = page_base x" for x
    by (simp add: page_base_def PAGE_SIZE_4K_def PAGE_COW_def and.assoc)
  ultimately show "page_base (cow_entry n e) = n" by (simp add: cow_entry_def)
qed

context page_provider
begin

lemma handle_cow_ok:
  assumes wf: "wf (pml4_table d) s"
    and e: "find_entry (pm_words s) (pml4_table d) (page_path (page_base fa)) = Some (e, [])" "has e PAGE_COW"
    and f: "page_base e \<in> owned (pm_alloc s)"
    and run: "handle_cow_page_fault po d fa s = (res, d', s')"
  shows "res = Inl ENOMEM \<and> fst (alloc_table po s) = NULL \<and> d' = d \<and> pm_words s' = pm_words s \<and> wf (pml4_table d) s' \<or>
    res = Inr () \<and> d' = d\<lparr>cow_breaks_count := cow_breaks_count d + 1\<rparr> \<and>
    (\<exists>n. aligned n \<and> n \<notin> owned (pm_alloc s) \<and> wf (pml4_table d) s' \<and>
       (\<forall>is. valid is \<longrightarrow> length is = 4 \<longrightarrow> find_entry (pm_words s') (pml4_table d) is =
          (if is = page_path (page_base fa) then Some (cow_entry n e, []) else find_entry (pm_words s) (pml4_table d) is)) \<and>
       (\<forall>j < 512. pm_words s' (pte n j) = pm_words s (pte (page_base e) j)) \<and>
       (\<forall>a. page_base a \<in> owned (pm_alloc s) - tables (pm_words s) (pml4_table d) \<longrightarrow> pm_words s' a = pm_words s a))"
proof -
  let ?r = "pml4_table d" and ?v = "page_base fa" and ?w = "pm_words s"
  let ?i1 = "pml4_index ?v" and ?i2 = "pdpt_index ?v" and ?i3 = "pd_index ?v" and ?i4 = "pt_index ?v"
  have tr: "tree ?w ?r" and ok: "ok (pm_alloc s)" and sub: "tables ?w ?r \<subseteq> owned (pm_alloc s)"
    using wf by (simp_all add: pd_wf_def)
  have path: "page_path ?v = [?i1, ?i2, ?i3] @ [?i4]" by (simp add: page_path_def)
  obtain t3 where t3: "descend ?w ?r [?i1, ?i2, ?i3] = Some t3" "?w (pte t3 ?i4) = e" "has e PAGE_PRESENT"
    using find_entry_page [OF e(1) [unfolded path]] by blast
  obtain n w' a' where al: "po_alloc_pages po 1 (ALLOC_ZERO OR ALLOC_KERNEL) ?w (pm_alloc s) = (n, w', a')"
    by (cases "po_alloc_pages po 1 (ALLOC_ZERO OR ALLOC_KERNEL) ?w (pm_alloc s)") auto
  define s1 where "s1 = s\<lparr>pm_words := w', pm_alloc := a'\<rparr>"
  define s2 where "s2 = copy_page n (page_base e) s1"
  have run': "(res, d', s') = (if n = NULL then (Inl ENOMEM, d, s1)
      else (Inr (), d\<lparr>cow_breaks_count := cow_breaks_count d + 1\<rparr>, set_word (pte t3 ?i4) (cow_entry n e) s2))"
    using run t3 e(2) al
    by (auto simp: handle_cow_page_fault_def alloc_table_def Let_def s1_def s2_def cow_entry_def is_table_def
        split: if_splits)
  show ?thesis
  proof (cases "n = NULL")
    case True
    with alloc_fails [OF ok] al have "w' = ?w" by simp
    with True run' alloc_ok [OF ok al] tr sub al show ?thesis by (auto simp: s1_def pd_wf_def alloc_table_def)
  next
    case False
    note n = alloc_page [OF ok al False]
    have ne: "n \<noteq> page_base e" "n \<notin> tables ?w ?r" using n f sub by auto
    note cp = copy_page_words [OF _ aligned_page_base ne(1), where s = s1]
    have w2: "pm_words s2 a = ?w a" if "page_base a \<noteq> n" for a
      using that n cp(2) by (simp add: s2_def s1_def)
    have a2: "pm_alloc s2 = a'" using n cp(1) by (simp add: s2_def s1_def)
    have eq: "\<forall>a. page_base a \<in> tables ?w ?r \<longrightarrow> pm_words s2 a = ?w a" using w2 ne(2) by metis
    note tc = tree_cong [OF tr eq]
    have wf2: "wf ?r s2" using tc(1,2) a2 alloc_ok [OF ok al] sub by (auto simp: pd_wf_def)
    have v: "length [?i1, ?i2, ?i3] = 3" "valid [?i1, ?i2, ?i3]" by simp_all
    have d2: "descend (pm_words s2) ?r [?i1, ?i2, ?i3] = Some t3" using tc(4) [of "[?i1, ?i2, ?i3]"] t3(1) by simp
    note w = write_page_ok [OF wf2 d2 v index_less(4) [of ?v], where e = "cow_entry n e", folded path]
    have t3n: "t3 \<in> tables ?w ?r" "aligned t3"
      using tablesI [OF t3(1)] tables_aligned [OF tr] v by simp_all
    have at: "page_base (pte t3 ?i4) = t3" using page_base_pte [OF t3n(2)] by simp
    have s': "s' = set_word (pte t3 ?i4) (cow_entry n e) s2" using run' False by simp
    have "pm_words s' (pte n j) = ?w (pte (page_base e) j)" if "j < 512" for j
    proof -
      have "page_base (pte n j) = n" "page_base (pte (page_base e) j) = page_base e"
        using page_base_pte n that by simp_all
      with t3n(1) ne at cp(3) [OF _ that] n show ?thesis by (auto simp: s' s2_def s1_def)
    qed
    moreover have "pm_words s' a = ?w a" if "page_base a \<in> owned (pm_alloc s) - tables ?w ?r" for a
    proof -
      have "page_base a \<noteq> n" "a \<noteq> pte t3 ?i4" using that n t3n(1) at by auto
      then show ?thesis using w2 by (simp add: s')
    qed
    moreover have "find_entry (pm_words s') ?r is =
        (if is = page_path ?v then Some (cow_entry n e, []) else find_entry ?w ?r is)"
      if "valid is" "length is = 4" for "is"
      using w(3) [OF that] tc(3) [of "is"] that cow_entry_simps(2) n t3(3) by (simp add: s')
    moreover have "res = Inr ()" "d' = d\<lparr>cow_breaks_count := cow_breaks_count d + 1\<rparr>" "wf ?r s'"
      using run' False w(1) by (simp_all add: s')
    ultimately show ?thesis using n by blast
  qed
qed

end

end
