(* ===== verification/Phys_Memory.thy ===== *)
theory Phys_Memory
  imports Kernel_Prelude
begin

text \<open>
  The physical page allocator of \<^verbatim>\<open>kernel/memory.c\<close> (lines 1--294) with the zone and
  frame structures of \<^verbatim>\<open>include/edgex/kernel.h\<close>. The state \<open>phys_mem\<close> holds the
  static variables of the file; every function of the file that reads or writes them is one
  definition. A \<^verbatim>\<open>for\<close> loop over frame numbers \<open>a \<le> i < b\<close> is a fold over the
  list \<open>[a..<b]\<close>. Log output is not modelled.
\<close>

section \<open>Data\<close>

definition PAGE_SIZE :: u64 where
  "PAGE_SIZE = 4096"

definition PAGE_FLAG_FREE :: u64 where "PAGE_FLAG_FREE = 0x0000"
definition PAGE_FLAG_USED :: u64 where "PAGE_FLAG_USED = 0x0001"
definition PAGE_FLAG_RESERVED :: u64 where "PAGE_FLAG_RESERVED = 0x0002"
definition PAGE_FLAG_KERNEL :: u64 where "PAGE_FLAG_KERNEL = 0x0004"
definition PAGE_FLAG_DMA :: u64 where "PAGE_FLAG_DMA = 0x0008"

definition MAX_PHYSICAL_PAGES :: u64 where
  "MAX_PHYSICAL_PAGES = 1048576"

lemmas page_flag_defs =
  PAGE_FLAG_FREE_def PAGE_FLAG_USED_def PAGE_FLAG_RESERVED_def PAGE_FLAG_KERNEL_def
  PAGE_FLAG_DMA_def

record page_frame =
  pf_flags :: u64
  pf_ref_count :: u32
  pf_order :: u32

datatype memory_zone_type = ZONE_NORMAL | ZONE_DMA | ZONE_RESERVED

record memory_zone =
  start_address :: u64
  end_address :: u64
  zone_size :: u64
  zone_free :: u64
  zone_pages :: u64
  zone_free_pages :: u64
  zone_type :: memory_zone_type

type_synonym memory_zones = "memory_zone_type \<Rightarrow> memory_zone"

text \<open>\<open>early_next\<close> is the static \<^verbatim>\<open>next_address\<close> of \<^verbatim>\<open>early_alloc\<close>.\<close>

record phys_mem =
  page_frames :: "page_frame list"
  total_pages :: u64
  free_pages :: u64
  early_next :: u64

definition phys_mem_boot :: phys_mem where
  "phys_mem_boot =
     \<lparr>page_frames = [], total_pages = 0, free_pages = 0, early_next = 0x100000\<rparr>"

section \<open>Boot-time initialisation\<close>

definition early_alloc :: "u64 \<Rightarrow> phys_mem \<Rightarrow> ptr \<times> phys_mem" where
  "early_alloc sz m =
     (early_next m, m\<lparr>early_next := early_next m + align16 sz\<rparr>)"

definition set_frame :: "nat \<Rightarrow> page_frame \<Rightarrow> phys_mem \<Rightarrow> phys_mem" where
  "set_frame i f m = m\<lparr>page_frames := (page_frames m)[i := f]\<rparr>"

definition frame_at :: "phys_mem \<Rightarrow> nat \<Rightarrow> page_frame" where
  "frame_at m i = page_frames m ! i"

definition highest_address :: "memory_zones \<Rightarrow> u64" where
  "highest_address zones =
     fold (\<lambda>t h. if end_address (zones t) > h then end_address (zones t) else h)
       [ZONE_NORMAL, ZONE_DMA, ZONE_RESERVED] 0"

definition page_count_of :: "u64 \<Rightarrow> u64" where
  "page_count_of highest =
     (let t = (highest + PAGE_SIZE - 1) div PAGE_SIZE
      in if t > MAX_PHYSICAL_PAGES then MAX_PHYSICAL_PAGES else t)"

text \<open>The page range of a zone clipped to the tracked pages: the two loop bounds.\<close>

definition zone_range :: "u64 \<Rightarrow> u64 \<Rightarrow> phys_mem \<Rightarrow> nat list" where
  "zone_range lo hi m =
     [unat (lo div PAGE_SIZE) ..<
        min (unat ((hi + PAGE_SIZE - 1) div PAGE_SIZE)) (unat (total_pages m))]"

definition mark_dma :: "nat \<Rightarrow> phys_mem \<Rightarrow> phys_mem" where
  "mark_dma i m =
     (set_frame i ((frame_at m i)\<lparr>pf_flags := PAGE_FLAG_FREE OR PAGE_FLAG_DMA\<rparr>) m)
       \<lparr>free_pages := free_pages m + 1\<rparr>"

definition mark_normal :: "nat \<Rightarrow> phys_mem \<Rightarrow> phys_mem" where
  "mark_normal i m =
     (if pf_flags (frame_at m i) AND PAGE_FLAG_FREE = 0
      then (set_frame i ((frame_at m i)\<lparr>pf_flags := PAGE_FLAG_FREE\<rparr>) m)
             \<lparr>free_pages := free_pages m + 1\<rparr>
      else m)"

definition mark_kernel :: "nat \<Rightarrow> phys_mem \<Rightarrow> phys_mem" where
  "mark_kernel i m =
     (if pf_flags (frame_at m i) AND PAGE_FLAG_FREE \<noteq> 0
      then (set_frame i ((frame_at m i)\<lparr>pf_flags := PAGE_FLAG_USED OR PAGE_FLAG_KERNEL,
                                        pf_ref_count := 1\<rparr>) m)
             \<lparr>free_pages := free_pages m - 1\<rparr>
      else m)"

definition mark_reserved :: "nat \<Rightarrow> phys_mem \<Rightarrow> phys_mem" where
  "mark_reserved i m =
     (if pf_flags (frame_at m i) AND PAGE_FLAG_FREE \<noteq> 0
      then (set_frame i ((frame_at m i)\<lparr>pf_flags := PAGE_FLAG_RESERVED\<rparr>) m)
             \<lparr>free_pages := free_pages m - 1\<rparr>
      else m)"

text \<open>
  \<open>kstart\<close> and \<open>kend\<close> are the addresses of the linker symbols
  \<^verbatim>\<open>_kernel_physical_start\<close> and \<^verbatim>\<open>_kernel_physical_end\<close>; 16 is
  \<^verbatim>\<open>sizeof(page_frame_t)\<close>.
\<close>

definition init_frames :: "memory_zones \<Rightarrow> phys_mem \<Rightarrow> phys_mem" where
  "init_frames zones m =
     (let t = page_count_of (highest_address zones);
          m1 = snd (early_alloc (t * 16) (m\<lparr>total_pages := t\<rparr>))
      in m1\<lparr>page_frames :=
               replicate (unat t) \<lparr>pf_flags = PAGE_FLAG_RESERVED, pf_ref_count = 0, pf_order = 0\<rparr>\<rparr>)"

definition init_physical_memory :: "memory_zones \<Rightarrow> u64 \<Rightarrow> u64 \<Rightarrow> phys_mem \<Rightarrow> phys_mem" where
  "init_physical_memory zones kstart kend m =
     (let m1 = init_frames zones m;
          dma = zones ZONE_DMA; nrm = zones ZONE_NORMAL;
          m2 = (if zone_size dma > 0
                then fold mark_dma (zone_range (start_address dma) (end_address dma) m1) m1
                else m1);
          m3 = (if zone_size nrm > 0
                then fold mark_normal (zone_range (start_address nrm) (end_address nrm) m2) m2
                else m2);
          m4 = fold mark_kernel (zone_range kstart kend m3) m3
      in fold mark_reserved [0 ..< min 256 (unat (total_pages m4))] m4)"

section \<open>Page allocation\<close>

definition tracked :: "phys_mem \<Rightarrow> page_frame list" where
  "tracked m = take (unat (total_pages m)) (page_frames m)"

definition alloc_page :: "phys_mem \<Rightarrow> ptr \<times> phys_mem" where
  "alloc_page m =
     (case scan_from (\<lambda>f. pf_flags f = PAGE_FLAG_FREE) (tracked m) 0 of
        None \<Rightarrow> (NULL, m)
      | Some i \<Rightarrow>
          (of_nat i * PAGE_SIZE,
           (set_frame i ((frame_at m i)\<lparr>pf_flags := PAGE_FLAG_USED, pf_ref_count := 1\<rparr>) m)
             \<lparr>free_pages := free_pages m - 1\<rparr>))"

definition is_dma_frame :: "page_frame \<Rightarrow> bool" where
  "is_dma_frame f \<longleftrightarrow>
     pf_flags f AND (PAGE_FLAG_FREE OR PAGE_FLAG_DMA) = PAGE_FLAG_FREE OR PAGE_FLAG_DMA"

definition alloc_dma_page :: "phys_mem \<Rightarrow> ptr \<times> phys_mem" where
  "alloc_dma_page m =
     (case scan_from is_dma_frame (tracked m) 0 of
        None \<Rightarrow> (NULL, m)
      | Some i \<Rightarrow>
          (of_nat i * PAGE_SIZE,
           (set_frame i ((frame_at m i)
              \<lparr>pf_flags := (pf_flags (frame_at m i) AND NOT PAGE_FLAG_FREE) OR PAGE_FLAG_USED,
               pf_ref_count := 1\<rparr>) m)
             \<lparr>free_pages := free_pages m - 1\<rparr>))"

definition free_page :: "ptr \<Rightarrow> phys_mem \<Rightarrow> phys_mem" where
  "free_page page m =
     (if page = NULL then m
      else let idx = page div PAGE_SIZE; i = unat idx; f = frame_at m i in
        if idx \<ge> total_pages m then m
        else if pf_ref_count f = 0 then m
        else let f1 = f\<lparr>pf_ref_count := pf_ref_count f - 1\<rparr> in
          if pf_ref_count f1 = 0
          then (set_frame i (f1\<lparr>pf_flags := (pf_flags f1 AND PAGE_FLAG_DMA) OR PAGE_FLAG_FREE\<rparr>) m)
                 \<lparr>free_pages := free_pages m + 1\<rparr>
          else set_frame i f1 m)"

definition page_inc_ref :: "ptr \<Rightarrow> phys_mem \<Rightarrow> phys_mem" where
  "page_inc_ref page m =
     (if page = NULL then m
      else let idx = page div PAGE_SIZE; i = unat idx; f = frame_at m i in
        if idx < total_pages m \<and> pf_flags f AND PAGE_FLAG_USED \<noteq> 0
        then set_frame i (f\<lparr>pf_ref_count := pf_ref_count f + 1\<rparr>) m
        else m)"

definition page_get_ref_count :: "ptr \<Rightarrow> phys_mem \<Rightarrow> u32" where
  "page_get_ref_count page m =
     (if page = NULL then 0
      else let idx = page div PAGE_SIZE in
        if idx < total_pages m then pf_ref_count (frame_at m (unat idx)) else 0)"

definition page_get_flags :: "ptr \<Rightarrow> phys_mem \<Rightarrow> u64" where
  "page_get_flags page m =
     (if page = NULL then 0
      else let idx = page div PAGE_SIZE in
        if idx < total_pages m then pf_flags (frame_at m (unat idx)) else 0)"

definition page_set_flags :: "ptr \<Rightarrow> u64 \<Rightarrow> phys_mem \<Rightarrow> phys_mem" where
  "page_set_flags page flags m =
     (if page = NULL then m
      else let idx = page div PAGE_SIZE; i = unat idx in
        if idx < total_pages m then set_frame i ((frame_at m i)\<lparr>pf_flags := flags\<rparr>) m else m)"

definition reserve_page_range :: "ptr \<Rightarrow> u64 \<Rightarrow> phys_mem \<Rightarrow> phys_mem" where
  "reserve_page_range start sz m = fold mark_reserved (zone_range start (start + sz) m) m"

text \<open>The three out-parameters: total, free and used bytes.\<close>

definition get_memory_stats :: "phys_mem \<Rightarrow> u64 \<times> u64 \<times> u64" where
  "get_memory_stats m =
     (total_pages m * PAGE_SIZE, free_pages m * PAGE_SIZE,
      (total_pages m - free_pages m) * PAGE_SIZE)"

section \<open>Frame accounting\<close>

text \<open>
  The states a frame goes through. Every function but \<^verbatim>\<open>page_set_flags\<close> keeps a frame in
  one of them.
\<close>

definition frame_free :: "page_frame \<Rightarrow> bool" where
  "frame_free f \<longleftrightarrow> pf_ref_count f = 0 \<and> (pf_flags f = 0 \<or> pf_flags f = 8)"

definition frame_used :: "page_frame \<Rightarrow> bool" where
  "frame_used f \<longleftrightarrow> pf_ref_count f \<noteq> 0 \<and> (pf_flags f = 1 \<or> pf_flags f = 9)"

definition frame_reserved :: "page_frame \<Rightarrow> bool" where
  "frame_reserved f \<longleftrightarrow> pf_ref_count f = 0 \<and> pf_flags f = 2"

definition frame_ok :: "page_frame \<Rightarrow> bool" where
  "frame_ok f \<longleftrightarrow> frame_free f \<or> frame_used f \<or> frame_reserved f"

lemmas frame_state_defs = frame_ok_def frame_free_def frame_used_def frame_reserved_def

definition free_count :: "phys_mem \<Rightarrow> nat" where
  "free_count m = length (filter frame_free (page_frames m))"

definition frames_wf :: "phys_mem \<Rightarrow> bool" where
  "frames_wf m \<longleftrightarrow>
     length (page_frames m) = unat (total_pages m) \<and> total_pages m \<le> MAX_PHYSICAL_PAGES \<and>
     (\<forall>f \<in> set (page_frames m). frame_ok f)"

definition pm_inv :: "phys_mem \<Rightarrow> bool" where
  "pm_inv m \<longleftrightarrow> frames_wf m \<and> unat (free_pages m) = free_count m"

text \<open>
  The steps a client can take. A reference count that would wrap is excluded: the code
  does not test for it. So is \<^verbatim>\<open>page_set_flags\<close>, which overwrites the flags of a frame with
  any value. The number of a step is 1 when \<^verbatim>\<open>alloc_dma_page\<close> hands out a frame that is already
  in use, and 0 otherwise; \<open>pm_run\<close> adds these numbers up.
\<close>

definition dma_reused :: "phys_mem \<Rightarrow> bool" where
  "dma_reused m \<longleftrightarrow>
     (case scan_from is_dma_frame (tracked m) 0 of
        None \<Rightarrow> False
      | Some i \<Rightarrow> frame_used (frame_at m i))"

inductive pm_step :: "phys_mem \<Rightarrow> nat \<Rightarrow> phys_mem \<Rightarrow> bool" where
  pm_alloc: "alloc_page m = (p, m') \<Longrightarrow> pm_step m 0 m'"
| pm_dma: "alloc_dma_page m = (p, m') \<Longrightarrow> pm_step m (if dma_reused m then 1 else 0) m'"
| pm_free: "pm_step m 0 (free_page p m)"
| pm_inc: "page_get_ref_count p m \<noteq> - 1 \<Longrightarrow> pm_step m 0 (page_inc_ref p m)"
| pm_reserve: "pm_step m 0 (reserve_page_range p n m)"

inductive pm_run :: "phys_mem \<Rightarrow> nat \<Rightarrow> phys_mem \<Rightarrow> bool" where
  pm_done: "pm_run m 0 m"
| pm_more: "pm_run m k m1 \<Longrightarrow> pm_step m1 d m2 \<Longrightarrow> pm_run m (k + d) m2"

inductive_cases pm_stepE: "pm_step m d m'"

lemma total_pages_set_frame [simp]: "total_pages (set_frame i f m) = total_pages m"
  by (simp add: set_frame_def)

lemma page_frames_set_frame [simp]: "page_frames (set_frame i f m) = (page_frames m)[i := f]"
  by (simp add: set_frame_def)

lemma free_pages_set_frame [simp]: "free_pages (set_frame i f m) = free_pages m"
  by (simp add: set_frame_def)

lemma frames_wf_tracked [simp]: "frames_wf m \<Longrightarrow> tracked m = page_frames m"
  by (simp add: frames_wf_def tracked_def)

lemma free_count_le: "frames_wf m \<Longrightarrow> free_count m \<le> 1048576"
proof -
  assume wf: "frames_wf m"
  have "free_count m \<le> length (page_frames m)"
    by (simp add: free_count_def)
  also have "\<dots> \<le> unat MAX_PHYSICAL_PAGES"
    using wf by (simp add: frames_wf_def word_le_nat_alt)
  also have "\<dots> = 1048576"
    by (simp add: MAX_PHYSICAL_PAGES_def)
  finally show ?thesis .
qed

lemma frames_wf_update:
  "frames_wf m \<Longrightarrow> frame_ok f \<Longrightarrow> frames_wf (set_frame i f m)"
  by (auto simp: frames_wf_def dest: set_update_subset_insert [THEN subsetD])

lemma frames_wf_free_pages [simp]: "frames_wf (m\<lparr>free_pages := n\<rparr>) \<longleftrightarrow> frames_wf m"
  by (simp add: frames_wf_def)

lemma frames_wf_nth: "frames_wf m \<Longrightarrow> i < length (page_frames m) \<Longrightarrow> frame_ok (frame_at m i)"
  by (simp add: frames_wf_def frame_at_def)

lemma free_count_update:
  "i < length (page_frames m) \<Longrightarrow>
   free_count (set_frame i f m) + (if frame_free (frame_at m i) then 1 else 0)
     = free_count m + (if frame_free f then 1 else 0)"
  unfolding free_count_def frame_at_def page_frames_set_frame by (rule length_filter_update)

lemma free_count_free_pages [simp]: "free_count (m\<lparr>free_pages := n\<rparr>) = free_count m"
  by (simp add: free_count_def)

text \<open>The three ways an operation changes one frame, each with its change of the counter.\<close>

lemma pm_inv_take:
  assumes "pm_inv m" "i < length (page_frames m)" "frame_free (frame_at m i)" "frame_used f"
  shows "pm_inv ((set_frame i f m)\<lparr>free_pages := free_pages m - 1\<rparr>)"
proof -
  have c: "free_count (set_frame i f m) + 1 = free_count m"
    using free_count_update [OF assms(2), of f] assms(3,4) by (auto simp: frame_state_defs)
  with assms(1) have "free_pages m \<noteq> 0"
    by (auto simp: pm_inv_def unat_eq_0)
  then have "unat (free_pages m - 1) = unat (free_pages m) - 1"
    by (rule unat_minus_one)
  with c assms show ?thesis
    by (simp add: pm_inv_def frames_wf_update frame_ok_def)
qed

lemma pm_inv_give:
  assumes "pm_inv m" "i < length (page_frames m)" "\<not> frame_free (frame_at m i)" "frame_free f"
  shows "pm_inv ((set_frame i f m)\<lparr>free_pages := free_pages m + 1\<rparr>)"
proof -
  have c: "free_count (set_frame i f m) = free_count m + 1"
    using free_count_update [OF assms(2), of f] assms(3,4) by (auto simp: frame_state_defs)
  have "unat (free_pages m + 1) = unat (free_pages m) + 1"
    using assms(1) free_count_le [of m] by (simp add: pm_inv_def unat_word_ariths)
  with c assms show ?thesis
    by (simp add: pm_inv_def frames_wf_update frame_ok_def)
qed

lemma pm_inv_keep:
  assumes "pm_inv m" "i < length (page_frames m)" "frame_used (frame_at m i)" "frame_used f"
  shows "pm_inv (set_frame i f m)"
proof -
  have "free_count (set_frame i f m) = free_count m"
    using free_count_update [OF assms(2), of f] assms(3,4) by (auto simp: frame_state_defs)
  with assms show ?thesis
    by (simp add: pm_inv_def frames_wf_update frame_ok_def)
qed

lemma alloc_page_inv: "pm_inv m \<Longrightarrow> alloc_page m = (p, m') \<Longrightarrow> pm_inv m'"
proof (cases "scan_from (\<lambda>f. pf_flags f = PAGE_FLAG_FREE) (tracked m) 0")
  case None
  then show "pm_inv m \<Longrightarrow> alloc_page m = (p, m') \<Longrightarrow> pm_inv m'"
    by (simp add: alloc_page_def)
next
  case (Some i)
  assume inv: "pm_inv m" and a: "alloc_page m = (p, m')"
  then have i: "i < length (page_frames m)" "pf_flags (frame_at m i) = 0"
    using Some by (auto simp: scan_from_Some pm_inv_def frame_at_def PAGE_FLAG_FREE_def)
  then have "frame_free (frame_at m i)"
    using frames_wf_nth [of m i] inv by (auto simp: pm_inv_def frame_state_defs)
  with inv i show "pm_inv m'"
    using a Some pm_inv_take [OF inv i(1)]
    by (auto simp: alloc_page_def PAGE_FLAG_USED_def frame_used_def)
qed

lemma page_idx_less:
  "frames_wf m \<Longrightarrow> \<not> total_pages m \<le> p div PAGE_SIZE \<Longrightarrow>
   unat (p div PAGE_SIZE) < length (page_frames m)"
  by (simp add: frames_wf_def word_le_nat_alt)

lemma free_page_inv: "pm_inv m \<Longrightarrow> pm_inv (free_page p m)"
proof -
  assume inv: "pm_inv m"
  let ?i = "unat (p div PAGE_SIZE)" and ?f = "frame_at m (unat (p div PAGE_SIZE))"
  show ?thesis
  proof (cases "p = NULL \<or> total_pages m \<le> p div PAGE_SIZE \<or> pf_ref_count ?f = 0")
    case True
    with inv show ?thesis by (auto simp: free_page_def Let_def)
  next
    case False
    with inv have i: "?i < length (page_frames m)"
      by (simp add: pm_inv_def page_idx_less)
    with inv False have u: "frame_used ?f"
      using frames_wf_nth [OF _ i] by (auto simp: pm_inv_def frame_state_defs)
    show ?thesis
      using False u pm_inv_give [OF inv i] pm_inv_keep [OF inv i u]
      by (auto simp: free_page_def Let_def page_flag_defs frame_used_def frame_free_def)
  qed
qed

lemma page_inc_ref_inv:
  assumes inv: "pm_inv m" and "page_get_ref_count p m \<noteq> - 1"
  shows "pm_inv (page_inc_ref p m)"
proof -
  let ?i = "unat (p div PAGE_SIZE)" and ?f = "frame_at m (unat (p div PAGE_SIZE))"
  show ?thesis
  proof (cases "p = NULL \<or> total_pages m \<le> p div PAGE_SIZE \<or> pf_flags ?f AND PAGE_FLAG_USED = 0")
    case True
    with inv show ?thesis by (auto simp: page_inc_ref_def Let_def)
  next
    case False
    with inv have i: "?i < length (page_frames m)"
      by (simp add: pm_inv_def page_idx_less)
    with inv False have u: "frame_used ?f"
      using frames_wf_nth [OF _ i] by (auto simp: pm_inv_def frame_state_defs page_flag_defs)
    have "pf_ref_count ?f + 1 \<noteq> 0"
      using assms(2) False
      by (auto simp: page_get_ref_count_def Let_def eq_neg_iff_add_eq_0 not_le)
    then show ?thesis
      using False u pm_inv_keep [OF inv i u]
      by (auto simp: page_inc_ref_def Let_def frame_used_def)
  qed
qed

text \<open>
  \<^verbatim>\<open>PAGE_FLAG_FREE\<close> is 0, so a test of that bit never succeeds and the two reserving
  loops change nothing.
\<close>

lemma mark_reserved_id [simp]: "mark_reserved i m = m"
  by (simp add: mark_reserved_def PAGE_FLAG_FREE_def)

lemma mark_kernel_id [simp]: "mark_kernel i m = m"
  by (simp add: mark_kernel_def PAGE_FLAG_FREE_def)

lemma fold_mark_reserved [simp]: "fold mark_reserved is m = m"
  by (induction "is") auto

lemma fold_mark_kernel [simp]: "fold mark_kernel is m = m"
  by (induction "is") auto

section \<open>Initialisation\<close>

lemma fold_mark_free:
  assumes mark: "\<And>i m. mark i m = (set_frame i ((frame_at m i)\<lparr>pf_flags := v\<rparr>) m)
                                  \<lparr>free_pages := free_pages m + 1\<rparr>"
    and v: "v = 0 \<or> v = 8"
  shows "pm_inv m \<Longrightarrow> distinct is \<Longrightarrow>
         \<forall>i \<in> set is. i < length (page_frames m) \<and> frame_reserved (frame_at m i) \<Longrightarrow>
         pm_inv (fold mark is m) \<and> total_pages (fold mark is m) = total_pages m \<and>
         length (page_frames (fold mark is m)) = length (page_frames m) \<and>
         (\<forall>j. j \<notin> set is \<longrightarrow> frame_at (fold mark is m) j = frame_at m j) \<and>
         (\<forall>j \<in> set is. frame_free (frame_at (fold mark is m) j)) \<and>
         free_count (fold mark is m) = free_count m + length is"
proof (induction "is" arbitrary: m)
  case Nil
  then show ?case by simp
next
  case (Cons i "is")
  let ?f = "(frame_at m i)\<lparr>pf_flags := v\<rparr>"
  have i: "i < length (page_frames m)" "frame_reserved (frame_at m i)"
    using Cons.prems by auto
  then have f: "frame_free ?f" "\<not> frame_free (frame_at m i)"
    using v by (auto simp: frame_state_defs)
  have "pm_inv (mark i m)"
    unfolding mark by (rule pm_inv_give) (use Cons.prems i f in auto)
  moreover have "\<forall>j. j \<noteq> i \<longrightarrow> frame_at (mark i m) j = frame_at m j"
    by (simp add: mark frame_at_def)
  moreover have "free_count (mark i m) = free_count m + 1"
    using free_count_update [OF i(1), of ?f] f by (simp add: mark)
  moreover have "total_pages (mark i m) = total_pages m"
      "length (page_frames (mark i m)) = length (page_frames m)"
    by (simp_all add: mark)
  moreover have "\<forall>j \<in> set is. frame_at (mark i m) j = frame_at m j"
    using Cons.prems(2) calculation(2) by auto
  moreover have "frame_free (frame_at (mark i m) i)"
    using i(1) f(1) by (simp add: mark frame_at_def)
  ultimately show ?case
    using Cons.IH [of "mark i m"] Cons.prems by auto
qed

lemma mark_dma_flags:
  "mark_dma i m = (set_frame i ((frame_at m i)\<lparr>pf_flags := 8\<rparr>) m)\<lparr>free_pages := free_pages m + 1\<rparr>"
  by (simp add: mark_dma_def page_flag_defs)

lemma mark_normal_flags:
  "mark_normal i m = (set_frame i ((frame_at m i)\<lparr>pf_flags := 0\<rparr>) m)\<lparr>free_pages := free_pages m + 1\<rparr>"
  by (simp add: mark_normal_def page_flag_defs)

lemmas fold_mark_dma = fold_mark_free [where v = 8, OF mark_dma_flags]
lemmas fold_mark_normal = fold_mark_free [where v = 0, OF mark_normal_flags]

lemma page_count_of_le: "page_count_of h \<le> MAX_PHYSICAL_PAGES"
  by (simp add: page_count_of_def Let_def not_less)

lemma init_frames_inv:
  assumes "free_pages m = 0"
  shows "pm_inv (init_frames zones m) \<and> free_count (init_frames zones m) = 0 \<and>
         (\<forall>i < length (page_frames (init_frames zones m)).
            frame_reserved (frame_at (init_frames zones m) i))"
  using assms page_count_of_le
  by (auto simp: init_frames_def early_alloc_def Let_def pm_inv_def frames_wf_def free_count_def
      frame_at_def frame_state_defs page_flag_defs)

lemma zone_range_less:
  "frames_wf m \<Longrightarrow> i \<in> set (zone_range lo hi m) \<Longrightarrow> i < length (page_frames m)"
  by (auto simp: zone_range_def frames_wf_def)

lemma zone_range_cong: "total_pages m = total_pages m' \<Longrightarrow> zone_range lo hi m = zone_range lo hi m'"
  by (simp add: zone_range_def)

lemma distinct_zone_range [simp]: "distinct (zone_range lo hi m)"
  by (simp add: zone_range_def)

definition zone_frames :: "memory_zone \<Rightarrow> phys_mem \<Rightarrow> nat list" where
  "zone_frames z m =
     (if zone_size z > 0 then zone_range (start_address z) (end_address z) m else [])"

lemma init_physical_memory_fold:
  "init_physical_memory zones ks ke m =
     (let m1 = init_frames zones m;
          m2 = fold mark_dma (zone_frames (zones ZONE_DMA) m1) m1
      in fold mark_normal (zone_frames (zones ZONE_NORMAL) m2) m2)"
  by (simp add: init_physical_memory_def zone_frames_def Let_def)

section \<open>Allocation as a scan over the free frames\<close>

definition free_idxs :: "phys_mem \<Rightarrow> nat list" where
  "free_idxs m = map fst (filter (\<lambda>(i, f). pf_flags f = PAGE_FLAG_FREE) (enumerate 0 (tracked m)))"

fun alloc_page_n :: "nat \<Rightarrow> phys_mem \<Rightarrow> ptr list \<times> phys_mem" where
  "alloc_page_n 0 m = ([], m)"
| "alloc_page_n (Suc n) m =
     (let (p, m1) = alloc_page m; (ps, m2) = alloc_page_n n m1 in (p # ps, m2))"

lemma tracked_update:
  "tracked (set_frame i f m) = (tracked m)[i := f]"
  by (simp add: tracked_def take_update_swap)

lemma tracked_free_pages [simp]: "tracked (m\<lparr>free_pages := n\<rparr>) = tracked m"
  by (simp add: tracked_def)

lemma alloc_page_free_idxs:
  "fst (alloc_page m) = (case free_idxs m of [] \<Rightarrow> NULL | i # _ \<Rightarrow> of_nat i * PAGE_SIZE) \<and>
   free_idxs (snd (alloc_page m)) = tl (free_idxs m)"
proof (cases "scan_from (\<lambda>f. pf_flags f = PAGE_FLAG_FREE) (tracked m) 0")
  case None
  then show ?thesis
    using scan_from_enumerate [of "\<lambda>f. pf_flags f = PAGE_FLAG_FREE" "tracked m" 0]
    by (simp add: alloc_page_def free_idxs_def split: list.splits)
next
  case (Some i)
  then show ?thesis
    using scan_from_enumerate [of "\<lambda>f. pf_flags f = PAGE_FLAG_FREE" "tracked m" 0]
      scan_from_rest [OF Some, of "(frame_at m i)\<lparr>pf_flags := PAGE_FLAG_USED, pf_ref_count := 1\<rparr>"]
    by (simp add: alloc_page_def free_idxs_def tracked_update page_flag_defs split: list.splits)
qed

lemma page_addr_div:
  assumes "i \<le> 1048576"
  shows "unat ((of_nat i * PAGE_SIZE) div PAGE_SIZE) = i"
proof -
  have "unat (of_nat i * PAGE_SIZE) = i * 4096"
    using assms by (simp add: PAGE_SIZE_def unat_word_ariths unat_of_nat)
  then show ?thesis
    by (simp add: PAGE_SIZE_def unat_div_distrib)
qed

lemma alloc_page_cases:
  assumes "frames_wf m" "alloc_page m = (p, m')" "p \<noteq> NULL"
  obtains i where "i < length (page_frames m)" "unat (p div PAGE_SIZE) = i"
    "p div PAGE_SIZE < total_pages m" "frame_free (frame_at m i)" "pf_flags (frame_at m i) = 0"
    "m' = (set_frame i ((frame_at m i)\<lparr>pf_flags := PAGE_FLAG_USED, pf_ref_count := 1\<rparr>) m)
            \<lparr>free_pages := free_pages m - 1\<rparr>"
proof (cases "scan_from (\<lambda>f. pf_flags f = PAGE_FLAG_FREE) (tracked m) 0")
  case None
  with assms have False by (simp add: alloc_page_def)
  then show ?thesis ..
next
  case (Some i)
  with assms(1) have i: "i < length (page_frames m)" "pf_flags (frame_at m i) = 0"
    by (auto simp: scan_from_Some frame_at_def PAGE_FLAG_FREE_def)
  moreover have "i \<le> 1048576"
    using i assms(1) by (simp add: frames_wf_def MAX_PHYSICAL_PAGES_def word_le_nat_alt)
  then have "unat (p div PAGE_SIZE) = i"
    using assms(2) Some page_addr_div by (auto simp: alloc_page_def)
  moreover have "frame_free (frame_at m i)"
    using frames_wf_nth [OF assms(1) i(1)] i by (auto simp: frame_state_defs)
  ultimately show ?thesis
    using that [of i] assms Some by (auto simp: alloc_page_def frames_wf_def word_less_nat_alt)
qed

text \<open>A frame that is in use with reference count \<open>r\<close>, and the counting operations on it.\<close>

definition with_refs :: "nat \<Rightarrow> nat \<Rightarrow> phys_mem \<Rightarrow> phys_mem" where
  "with_refs i r m =
     (set_frame i ((frame_at m i)\<lparr>pf_flags := PAGE_FLAG_USED, pf_ref_count := of_nat r\<rparr>) m)
       \<lparr>free_pages := free_pages m - 1\<rparr>"

lemma with_refs_inc:
  assumes "p \<noteq> NULL" "p div PAGE_SIZE < total_pages m" "unat (p div PAGE_SIZE) = i"
    "i < length (page_frames m)"
  shows "(page_inc_ref p ^^ n) (with_refs i r m) = with_refs i (r + n) m"
  using assms
  by (induction n)
     (auto simp: with_refs_def page_inc_ref_def set_frame_def frame_at_def page_flag_defs
        add.commute add.left_commute)

lemma with_refs_free:
  assumes "p \<noteq> NULL" "p div PAGE_SIZE < total_pages m" "unat (p div PAGE_SIZE) = i"
    "i < length (page_frames m)" "Suc n < 2 ^ 32"
  shows "(free_page p ^^ n) (with_refs i (Suc n) m) = with_refs i 1 m"
  using assms(5)
proof (induction n)
  case 0
  then show ?case by simp
next
  case (Suc n)
  have "(of_nat (Suc (Suc n)) :: u32) \<noteq> 0" "(of_nat (Suc n) :: u32) \<noteq> 0"
    using Suc.prems by (simp_all add: u32_of_nat_neq_0 del: of_nat_Suc)
  then have "free_page p (with_refs i (Suc (Suc n)) m) = with_refs i (Suc n) m"
    using assms(1-4)
    by (auto simp: with_refs_def free_page_def set_frame_def frame_at_def Let_def)
  with Suc show ?case
    by (simp add: funpow_Suc_right del: funpow.simps)
qed

lemma page_frame_upd_id:
  "pf_ref_count f = r \<Longrightarrow> pf_flags f = g \<Longrightarrow> f\<lparr>pf_ref_count := r, pf_flags := g\<rparr> = f"
  by (cases f) simp

lemma page_frames_upd_id: "m\<lparr>page_frames := page_frames m\<rparr> = m"
  by (cases m) simp

lemma with_refs_last:
  assumes "p \<noteq> NULL" "p div PAGE_SIZE < total_pages m" "unat (p div PAGE_SIZE) = i"
    "i < length (page_frames m)" "frame_free (frame_at m i)" "pf_flags (frame_at m i) = 0"
  shows "free_page p (with_refs i 1 m) = m"
  using assms
  by (auto simp: with_refs_def free_page_def set_frame_def frame_at_def Let_def page_flag_defs
      frame_free_def page_frame_upd_id page_frames_upd_id)

section \<open>The counter beside the frames\<close>

text \<open>
  Only the counter is ever wrong: the operations act on the frames without reading it, so a state
  whose counter is \<open>k\<close> too low behaves as the state with the right counter.
\<close>

definition raise_free :: "nat \<Rightarrow> phys_mem \<Rightarrow> phys_mem" where
  "raise_free k m = m\<lparr>free_pages := free_pages m + of_nat k\<rparr>"

lemmas raise_simps = raise_free_def set_frame_def frame_at_def tracked_def Let_def

lemma alloc_page_raise:
  "alloc_page (raise_free k m) = (fst (alloc_page m), raise_free k (snd (alloc_page m)))"
  by (simp add: alloc_page_def raise_simps algebra_simps split: option.split)

lemma free_page_raise: "free_page p (raise_free k m) = raise_free k (free_page p m)"
  by (simp add: free_page_def raise_simps algebra_simps)

lemma page_inc_ref_raise: "page_inc_ref p (raise_free k m) = raise_free k (page_inc_ref p m)"
  by (simp add: page_inc_ref_def raise_simps)

lemma page_get_ref_count_raise [simp]: "page_get_ref_count p (raise_free k m) = page_get_ref_count p m"
  by (simp add: page_get_ref_count_def raise_simps)

lemma raise_free_0: "raise_free 0 m = m"
  by (simp add: raise_free_def)

lemma pm_inv_raise:
  "pm_inv (raise_free k m) \<longleftrightarrow> frames_wf m \<and> free_pages m = of_nat (free_count m) - of_nat k"
proof -
  have "unat w = free_count m \<longleftrightarrow> w = of_nat (free_count m)" if "frames_wf m" for w :: u64
    using free_count_le [OF that] by (simp add: word_unat_eq_iff unat_of_nat)
  then show ?thesis
    by (auto simp: pm_inv_def raise_free_def algebra_simps)
qed

lemma alloc_dma_page_raise_inv:
  assumes inv: "pm_inv (raise_free k m)" and a: "alloc_dma_page m = (p, m')"
  shows "pm_inv (raise_free (k + (if dma_reused m then 1 else 0)) m')"
proof (cases "scan_from is_dma_frame (tracked m) 0")
  case None
  with a inv show ?thesis by (simp add: alloc_dma_page_def dma_reused_def)
next
  case (Some i)
  let ?r = "raise_free k m"
  let ?f = "(frame_at m i)\<lparr>pf_flags := (pf_flags (frame_at m i) AND NOT PAGE_FLAG_FREE) OR PAGE_FLAG_USED,
               pf_ref_count := 1\<rparr>"
  have wf: "frames_wf m"
    using inv by (simp add: pm_inv_raise)
  have i: "i < length (page_frames ?r)" "is_dma_frame (frame_at m i)"
    using Some wf by (auto simp: scan_from_Some frame_at_def raise_free_def)
  then have flags: "pf_flags (frame_at m i) = 8 \<and> frame_free (frame_at m i) \<or>
      pf_flags (frame_at m i) = 9 \<and> frame_used (frame_at m i)"
    using frames_wf_nth [OF wf, of i]
    by (auto simp: is_dma_frame_def frame_state_defs page_flag_defs raise_free_def)
  then have u: "frame_used ?f"
    by (auto simp: frame_used_def page_flag_defs)
  have at: "frame_at ?r i = frame_at m i"
    by (simp add: raise_simps)
  show ?thesis
  proof (cases "frame_used (frame_at m i)")
    case True
    then have "raise_free (k + 1) m' = set_frame i ?f ?r"
      using a Some by (auto simp: alloc_dma_page_def raise_simps)
    with True Some pm_inv_keep [OF inv i(1), of ?f] u at show ?thesis
      by (simp add: dma_reused_def)
  next
    case False
    then have "raise_free k m' = (set_frame i ?f ?r)\<lparr>free_pages := free_pages ?r - 1\<rparr>"
      using a Some by (auto simp: alloc_dma_page_def raise_simps)
    with False flags Some pm_inv_take [OF inv i(1), of ?f] u at show ?thesis
      by (simp add: dma_reused_def)
  qed
qed

lemma pm_step_raise_inv:
  assumes "pm_step m d m'" "pm_inv (raise_free k m)"
  shows "pm_inv (raise_free (k + d) m')"
  using assms(1)
proof (rule pm_stepE)
  fix p assume "d = 0" "alloc_page m = (p, m')"
  then show ?thesis
    using alloc_page_inv [OF assms(2) alloc_page_raise] by simp
next
  fix p assume "d = (if dma_reused m then 1 else 0)" "alloc_dma_page m = (p, m')"
  then show ?thesis
    using alloc_dma_page_raise_inv [OF assms(2)] by blast
next
  fix p assume "d = 0" "m' = free_page p m"
  then show ?thesis
    using free_page_inv [OF assms(2), of p] by (simp add: free_page_raise)
next
  fix p assume "d = 0" "m' = page_inc_ref p m" "page_get_ref_count p m \<noteq> - 1"
  then show ?thesis
    using page_inc_ref_inv [OF assms(2), of p] by (simp add: page_inc_ref_raise)
next
  fix p n assume "d = 0" "m' = reserve_page_range p n m"
  then show ?thesis
    using assms(2) by (simp add: reserve_page_range_def)
qed

section \<open>Properties\<close>

text \<open>
  C3. The accounting of the allocator. Start from a state in which every tracked frame is free, used
  with a positive reference count, or reserved, and the free-page counter is the number of free
  frames. After any sequence of \<open>alloc_page\<close>, \<open>alloc_dma_page\<close>,
  \<open>free_page\<close>, \<open>page_inc_ref\<close> (of a count below the 32-bit maximum) and
  \<open>reserve_page_range\<close>, every frame is still in one of these states, and the free-page counter is
  the number of free frames minus the number \<open>k\<close> of times \<open>alloc_dma_page\<close> returned a frame
  already in use; so it is exact when that never happened. \<open>page_set_flags\<close> is not one of the steps.
\<close>

theorem pm_inv_reachable:
  assumes "pm_run m k m'" and "pm_inv m"
  shows "frames_wf m' \<and> free_pages m' = of_nat (free_count m') - of_nat k \<and> (k = 0 \<longrightarrow> pm_inv m')"
proof -
  have "pm_inv (raise_free k m')"
    using assms
    by (induction rule: pm_run.induct) (auto simp: raise_free_0 intro: pm_step_raise_inv)
  then show ?thesis
    using pm_inv_raise [of k m'] by (auto simp: raise_free_0)
qed

text \<open>
  C28. What initialisation leaves free. When the frames of the DMA zone and of the normal zone do not
  overlap, the accounting invariant holds afterwards and the free frames are exactly the frames of the
  two zones. This is so for every kernel image \<open>kstart\<close>, \<open>kend\<close>: a frame of a zone that
  holds the kernel or lies in the first megabyte is free as well, although the comments on the last two
  loops say that these frames are marked as used and reserved.
\<close>

theorem init_physical_memory_inv:
  assumes "free_pages m = 0"
    and "set (zone_frames (zones ZONE_DMA) (init_frames zones m))
           \<inter> set (zone_frames (zones ZONE_NORMAL) (init_frames zones m)) = {}"
  shows "pm_inv (init_physical_memory zones kstart kend m) \<and>
         (\<forall>i < unat (total_pages (init_physical_memory zones kstart kend m)).
            frame_free (frame_at (init_physical_memory zones kstart kend m) i) \<longleftrightarrow>
            i \<in> set (zone_frames (zones ZONE_DMA) (init_frames zones m))
              \<union> set (zone_frames (zones ZONE_NORMAL) (init_frames zones m)))"
proof -
  let ?m1 = "init_frames zones m"
  let ?d = "zone_frames (zones ZONE_DMA) ?m1" and ?n = "zone_frames (zones ZONE_NORMAL) ?m1"
  let ?m2 = "fold mark_dma ?d ?m1"
  note i = init_frames_inv [OF assms(1), of zones]
  have zl: "i < length (page_frames ?m1)" if "i \<in> set ?d \<or> i \<in> set ?n" for i
    using that i zone_range_less by (auto simp: zone_frames_def pm_inv_def split: if_splits)
  have d: "distinct ?d" "distinct ?n"
    by (simp_all add: zone_frames_def)
  have 2: "pm_inv ?m2 \<and> total_pages ?m2 = total_pages ?m1 \<and>
           length (page_frames ?m2) = length (page_frames ?m1) \<and>
           (\<forall>j. j \<notin> set ?d \<longrightarrow> frame_at ?m2 j = frame_at ?m1 j) \<and>
           (\<forall>j \<in> set ?d. frame_free (frame_at ?m2 j))"
    using fold_mark_dma [of ?m1 ?d] i d zl by auto
  then have zn: "zone_frames (zones ZONE_NORMAL) ?m2 = ?n"
    by (simp add: zone_frames_def zone_range_def)
  have "\<forall>i \<in> set ?n. i < length (page_frames ?m2) \<and> frame_reserved (frame_at ?m2 i)"
  proof
    fix j assume j: "j \<in> set ?n"
    with assms(2) have "j \<notin> set ?d" by blast
    with j 2 i zl show "j < length (page_frames ?m2) \<and> frame_reserved (frame_at ?m2 j)" by simp
  qed
  then have 3: "pm_inv (fold mark_normal ?n ?m2) \<and> total_pages (fold mark_normal ?n ?m2) = total_pages ?m1 \<and>
      (\<forall>j. j \<notin> set ?n \<longrightarrow> frame_at (fold mark_normal ?n ?m2) j = frame_at ?m2 j) \<and>
      (\<forall>j \<in> set ?n. frame_free (frame_at (fold mark_normal ?n ?m2) j))"
    using fold_mark_normal [of ?m2 ?n] 2 d by simp
  have "frame_free (frame_at (fold mark_normal ?n ?m2) j) \<longleftrightarrow> j \<in> set ?d \<union> set ?n"
    if "j < unat (total_pages ?m1)" for j
  proof -
    have "frame_reserved (frame_at ?m1 j)"
      using that i by (simp add: pm_inv_def frames_wf_def)
    then have "\<not> frame_free (frame_at ?m1 j)"
      by (simp add: frame_state_defs)
    with 2 3 show ?thesis
      by (cases "j \<in> set ?d"; cases "j \<in> set ?n") auto
  qed
  with 3 zn show ?thesis
    by (simp add: init_physical_memory_fold Let_def)
qed


text \<open>
  C27. Round trip of allocation and reference counting: after \<open>alloc_page\<close> and \<open>n\<close>
  reference increments, \<open>n + 1\<close> calls of \<open>free_page\<close> restore the allocator's state
  exactly.
\<close>

theorem alloc_free_roundtrip:
  assumes "frames_wf m" "alloc_page m = (p, m')" "p \<noteq> NULL" "Suc n < 2 ^ 32"
  shows "(free_page p ^^ Suc n) ((page_inc_ref p ^^ n) m') = m"
proof -
  obtain i where i: "i < length (page_frames m)" "unat (p div PAGE_SIZE) = i"
      "p div PAGE_SIZE < total_pages m" "frame_free (frame_at m i)" "pf_flags (frame_at m i) = 0"
    and m': "m' = with_refs i 1 m"
    by (rule alloc_page_cases [OF assms(1-3)]) (auto simp: with_refs_def)
  have "(free_page p ^^ n) ((page_inc_ref p ^^ n) m') = with_refs i 1 m"
    unfolding m' using with_refs_inc [of p m i n 1] with_refs_free [of p m i n] i assms(3,4) by simp
  then show ?thesis
    using with_refs_last [of p m i] i assms(3) by simp
qed

text \<open>
  \<^verbatim>\<open>alloc_dma_page\<close> tests the DMA bit alone: the page it returned is still
  a match, so while the allocator is not told otherwise the next call returns the same page again
  and lowers the free-page counter a second time.
\<close>

theorem alloc_dma_page_twice:
  assumes "alloc_dma_page m = (p, m')" "p \<noteq> NULL"
  shows "fst (alloc_dma_page m') = p \<and> free_pages (snd (alloc_dma_page m')) = free_pages m - 2"
proof (cases "scan_from is_dma_frame (tracked m) 0")
  case None
  with assms show ?thesis by (simp add: alloc_dma_page_def)
next
  case (Some i)
  let ?f = "(frame_at m i)\<lparr>pf_flags := (pf_flags (frame_at m i) AND NOT PAGE_FLAG_FREE) OR PAGE_FLAG_USED,
               pf_ref_count := 1\<rparr>"
  have i: "i < length (tracked m)" "is_dma_frame (tracked m ! i)"
      "\<forall>k < i. \<not> is_dma_frame (tracked m ! k)"
    using Some by (auto simp: scan_from_Some)
  have "is_dma_frame ?f"
    using i(1,2) by (simp add: is_dma_frame_def tracked_def frame_at_def page_flag_defs
        bit.conj_disj_distrib2)
  with i have "scan_from is_dma_frame ((tracked m)[i := ?f]) 0 = Some i"
    by (simp add: scan_from_Some)
  with assms Some show ?thesis
    by (auto simp: alloc_dma_page_def tracked_update)
qed

text \<open>
  \<^verbatim>\<open>reserve_page_range\<close> never reserves anything: its test for a free page masks with
  \<^verbatim>\<open>PAGE_FLAG_FREE\<close>, which is 0.
\<close>

theorem reserve_page_range_no_effect: "reserve_page_range start sz m = m"
  by (simp add: reserve_page_range_def)

section \<open>Concrete instances\<close>

definition sample_zones :: memory_zones where
  "sample_zones t =
     (case t of
        ZONE_DMA \<Rightarrow> \<lparr>start_address = 0x1000, end_address = 0x3000, zone_size = 0x2000, zone_free = 0,
                     zone_pages = 2, zone_free_pages = 2, zone_type = ZONE_DMA\<rparr>
      | ZONE_NORMAL \<Rightarrow> \<lparr>start_address = 0x3000, end_address = 0x6000, zone_size = 0x3000,
                     zone_free = 0, zone_pages = 3, zone_free_pages = 3, zone_type = ZONE_NORMAL\<rparr>
      | ZONE_RESERVED \<Rightarrow> \<lparr>start_address = 0, end_address = 0, zone_size = 0, zone_free = 0,
                     zone_pages = 0, zone_free_pages = 0, zone_type = ZONE_RESERVED\<rparr>)"

definition sample_mem :: phys_mem where
  "sample_mem = init_physical_memory sample_zones 0 0 phys_mem_boot"

lemma sample_mem_eq:
  "sample_mem =
     (let r = \<lparr>pf_flags = 2, pf_ref_count = 0, pf_order = 0\<rparr>;
          d = \<lparr>pf_flags = 8, pf_ref_count = 0, pf_order = 0\<rparr>;
          n = \<lparr>pf_flags = 0, pf_ref_count = 0, pf_order = 0\<rparr>
      in \<lparr>page_frames = [r, d, d, n, n, n], total_pages = 6, free_pages = 5, early_next = 0x100060\<rparr>)"
  by code_simp

lemma sample_mem_inv: "pm_inv sample_mem"
  unfolding sample_mem_eq by code_simp

lemma sample_alloc: "alloc_page sample_mem = (0x3000, snd (alloc_page sample_mem))"
  unfolding sample_mem_eq by code_simp

lemma sample_dma:
  "alloc_dma_page sample_mem = (0x1000, snd (alloc_dma_page sample_mem))"
  "alloc_dma_page (snd (alloc_dma_page sample_mem))
     = (0x1000, snd (alloc_dma_page (snd (alloc_dma_page sample_mem))))"
  "\<not> dma_reused sample_mem" "dma_reused (snd (alloc_dma_page sample_mem))"
  unfolding sample_mem_eq by code_simp+

theorem pm_inv_reachable_witness:
  "let m = free_page 0x3000 (snd (alloc_page sample_mem)) in
   let m' = snd (alloc_dma_page (snd (alloc_dma_page sample_mem))) in
   pm_inv m \<and> frames_wf m' \<and> free_pages m' = of_nat (free_count m') - 1"
proof -
  let ?m = "free_page 0x3000 (snd (alloc_page sample_mem))"
  have "pm_run sample_mem (0 + 0 + 0) ?m"
    by (rule pm_more [OF pm_more [OF pm_done pm_alloc [OF sample_alloc]] pm_free])
  then have "pm_inv ?m"
    using pm_inv_reachable [OF _ sample_mem_inv] by simp
  moreover have "pm_run sample_mem (0 + 0 + 1) (snd (alloc_dma_page (snd (alloc_dma_page sample_mem))))"
    using pm_more [OF pm_more [OF pm_done pm_dma [OF sample_dma(1)]] pm_dma [OF sample_dma(2)]] sample_dma(3,4)
    by simp
  ultimately show ?thesis
    using pm_inv_reachable [OF _ sample_mem_inv, of 1] by (simp add: Let_def)
qed

theorem init_physical_memory_inv_witness:
  "pm_inv (init_physical_memory sample_zones 0x3000 0x4000 phys_mem_boot) \<and>
   frame_free (frame_at (init_physical_memory sample_zones 0x3000 0x4000 phys_mem_boot) 3) \<and>
   \<not> frame_free (frame_at (init_physical_memory sample_zones 0x3000 0x4000 phys_mem_boot) 0)"
proof -
  have z: "zone_frames (sample_zones ZONE_DMA) (init_frames sample_zones phys_mem_boot) = [1, 2]"
      "zone_frames (sample_zones ZONE_NORMAL) (init_frames sample_zones phys_mem_boot) = [3, 4, 5]"
      "total_pages (init_physical_memory sample_zones 0x3000 0x4000 phys_mem_boot) = 6"
    by code_simp+
  have p: "free_pages phys_mem_boot = 0" "set [1, 2] \<inter> set [3, 4, 5 :: nat] = {}"
    by (simp_all add: phys_mem_boot_def)
  note i = init_physical_memory_inv [of phys_mem_boot sample_zones "0x3000" "0x4000", unfolded z, OF p]
  have "3 < unat (6 :: u64)" "0 < unat (6 :: u64)" "3 \<in> set [1, 2] \<union> set [3, 4, 5 :: nat]"
      "0 \<notin> set [1, 2] \<union> set [3, 4, 5 :: nat]"
    by simp_all
  with i show ?thesis by blast
qed

theorem alloc_free_roundtrip_witness:
  "(free_page 0x3000 ^^ Suc 4) ((page_inc_ref 0x3000 ^^ 4) (snd (alloc_page sample_mem))) = sample_mem"
  by (rule alloc_free_roundtrip [OF _ sample_alloc]) (use sample_mem_inv in \<open>auto simp: pm_inv_def\<close>)

theorem alloc_dma_page_twice_witness:
  "fst (alloc_dma_page sample_mem) = 0x1000 \<and>
   fst (alloc_dma_page (snd (alloc_dma_page sample_mem))) = 0x1000"
proof -
  have a: "alloc_dma_page sample_mem = (0x1000, snd (alloc_dma_page sample_mem))"
    unfolding sample_mem_eq by code_simp
  have "fst (alloc_dma_page sample_mem) = 0x1000"
    by (subst a) simp
  with alloc_dma_page_twice [OF a] show ?thesis
    by simp
qed

end
