(* ===== verification/Page_Directory_Props.thy ===== *)
theory Page_Directory_Props
  imports Page_Mapping Phys_Memory
begin

text \<open>
  Properties of page directories: mapping a range translates exactly the addresses of the range,
  unmapping restores the translations from before, a copy-on-write fault gives a private copy. The
  contract of the page allocator is discharged for the physical page allocator of
  \<^verbatim>\<open>kernel/memory.c\<close>.
\<close>

section \<open>Addresses\<close>

lemma mask_9: "(0x1FF :: u64) = mask 9"
  by (simp add: mask_eq_exp_minus_1)

lemma bit_page_base: "bit (page_base v) n \<longleftrightarrow> bit v n \<and> 12 \<le> n"
proof -
  have "(PAGE_SIZE_4K - 1 :: u64) = mask 12" by (simp add: PAGE_SIZE_4K_def mask_eq_exp_minus_1)
  then show ?thesis
    by (auto simp: page_base_def bit_and_iff bit_not_iff bit_mask_iff dest: bit_imp_le_length)
qed

lemma page_path_base [simp]: "page_path (page_base v) = page_path v"
  unfolding page_path_def pml4_index_def pdpt_index_def pd_index_def pt_index_def mask_9
  by (auto simp: bit_eq_iff bit_and_iff bit_drop_bit_eq bit_mask_iff bit_page_base)

lemma page_base_plus_pages: "aligned v \<Longrightarrow> aligned (v + of_nat k * PAGE_SIZE_4K)"
proof -
  assume "aligned v"
  then have "4096 dvd unat v" by (simp add: aligned_unat)
  moreover have "4096 dvd unat (of_nat k * PAGE_SIZE_4K :: u64)"
    by (simp add: PAGE_SIZE_4K_def unat_word_ariths unat_of_nat dvd_mod_iff mod_mult_right_eq)
  ultimately show ?thesis
    by (simp add: aligned_unat unat_word_ariths dvd_mod_iff)
qed

lemma page_offset: "aligned v \<Longrightarrow> x < 4096 \<Longrightarrow> (v + x) AND (PAGE_SIZE_4K - 1) = x"
proof -
  assume v: "aligned v" and x: "x < 4096"
  then have ux: "unat x < 4096" by (simp add: word_less_nat_alt)
  have m: "(PAGE_SIZE_4K - 1 :: u64) = mask 12" by (simp add: PAGE_SIZE_4K_def mask_eq_exp_minus_1)
  have "unat ((v + x) AND mask 12) = unat (v + x) mod 4096"
    unfolding take_bit_eq_mask [symmetric] unsigned_take_bit_eq by (simp add: take_bit_eq_mod)
  also have "\<dots> = unat x"
    using v ux by (auto simp: unat_aligned_add aligned_unat)
  finally show ?thesis unfolding m by (simp add: word_unat_eq_iff)
qed

lemma page_base_entry: "aligned p \<Longrightarrow> flag_bits flags \<Longrightarrow> page_base (page_entry p flags) = p"
proof -
  assume "aligned p" "flag_bits flags"
  moreover from this have "flag_bits (flags AND NOT PAGE_COW)"
    by (simp add: flag_bits_def page_base_def) (metis and.assoc and.commute and_zero_eq)
  ultimately show ?thesis by (simp add: page_entry_def page_base_flags or.assoc aligned_def)
qed

lemma translation_page:
  assumes "aligned v" "x < 4096" "page_base e = p"
  shows "translation (v + x) (Some (e, [])) = p + x"
  using assms page_offset [OF assms(1,2)] by (simp add: translation_def)

section \<open>The allocator of the kernel\<close>

text \<open>
  One-page requests served by \<^verbatim>\<open>alloc_page\<close> and \<^verbatim>\<open>free_page\<close> of
  \<^verbatim>\<open>kernel/memory.c\<close>; \<^verbatim>\<open>ALLOC_ZERO\<close> clears the page.
\<close>

definition zero_page :: "ptr \<Rightarrow> words \<Rightarrow> words" where
  "zero_page p w = (\<lambda>a. if page_base a = p then 0 else w a)"

definition phys_page_ops :: "phys_mem page_ops" where
  "phys_page_ops =
     \<lparr>po_alloc_pages = (\<lambda>n flags w m. let (p, m') = alloc_page m
                         in (p, if p \<noteq> NULL \<and> flags AND ALLOC_ZERO \<noteq> 0 then zero_page p w else w, m')),
      po_free_pages = (\<lambda>p n m. fold (\<lambda>k. free_page (p + of_nat k * 4096)) [0 ..< unat n] m),
      po_system_time = (\<lambda>_. 0)\<rparr>"

definition in_use :: "phys_mem \<Rightarrow> ptr set" where
  "in_use m = - {of_nat i * 4096 | i. i < length (page_frames m) \<and> pf_flags (frame_at m i) = PAGE_FLAG_FREE}"

lemma unat_frame: "frames_wf m \<Longrightarrow> i < length (page_frames m) \<Longrightarrow> unat (of_nat i * 4096 :: u64) = i * 4096"
  by (simp add: frames_wf_def MAX_PHYSICAL_PAGES_def word_le_nat_alt unat_word_ariths unat_of_nat)

lemma in_use_frame:
  assumes "frames_wf m" "k < length (page_frames m)"
  shows "of_nat k * 4096 \<in> in_use m \<longleftrightarrow> pf_flags (frame_at m k) \<noteq> PAGE_FLAG_FREE"
proof -
  have "i = k" if "i < length (page_frames m)" "of_nat k * 4096 = (of_nat i * 4096 :: u64)" for i
  proof -
    have "k * 4096 = i * 4096"
      using arg_cong [OF that(2), of unat] by (simp only: unat_frame [OF assms] unat_frame [OF assms(1) that(1)])
    then show ?thesis by simp
  qed
  then have "(\<exists>i. of_nat k * 4096 = (of_nat i * 4096 :: u64) \<and> i < length (page_frames m) \<and>
      pf_flags (frame_at m i) = PAGE_FLAG_FREE) \<longleftrightarrow> pf_flags (frame_at m k) = PAGE_FLAG_FREE"
    using assms(2) by metis
  then show ?thesis by (simp only: in_use_def Compl_iff mem_Collect_eq)
qed

lemma free_one: "po_free_pages phys_page_ops p 1 m = free_page p m"
  by (simp add: phys_page_ops_def)

lemma free_page_frames:
  "page_frames (free_page p m) = page_frames m \<or>
   (\<exists>f. page_frames (free_page p m) = (page_frames m)[unat (p div 4096) := f])"
  by (auto simp: free_page_def Let_def Phys_Memory.PAGE_SIZE_def)

lemma free_page_wf: "frames_wf m \<Longrightarrow> frames_wf (free_page p m)"
proof -
  assume wf: "frames_wf m"
  let ?m = "m\<lparr>free_pages := of_nat (free_count m)\<rparr>"
  have "free_page p m = (free_page p ?m)\<lparr>free_pages := free_pages (free_page p m)\<rparr>"
    by (simp add: free_page_def Let_def frame_at_def set_frame_def)
  moreover have "pm_inv ?m"
    using wf free_count_le [OF wf] by (simp add: pm_inv_def unat_of_nat)
  ultimately show ?thesis
    using free_page_inv [of ?m p] by (metis frames_wf_free_pages pm_inv_def)
qed

lemma alloc_page_frames:
  assumes "frames_wf m" "alloc_page m = (p, m')"
  shows "frames_wf m'"
    "m' = m \<and> p = NULL \<or>
     (\<exists>i f. i < length (page_frames m) \<and> pf_flags (frame_at m i) = PAGE_FLAG_FREE \<and> p = of_nat i * 4096 \<and>
            page_frames m' = (page_frames m)[i := f] \<and> pf_flags f = PAGE_FLAG_USED)"
proof -
  show d: "m' = m \<and> p = NULL \<or>
     (\<exists>i f. i < length (page_frames m) \<and> pf_flags (frame_at m i) = PAGE_FLAG_FREE \<and> p = of_nat i * 4096 \<and>
            page_frames m' = (page_frames m)[i := f] \<and> pf_flags f = PAGE_FLAG_USED)"
  proof (cases "scan_from (\<lambda>f. pf_flags f = PAGE_FLAG_FREE) (tracked m) 0")
    case (Some i)
    then have "i < length (page_frames m)" "pf_flags (frame_at m i) = PAGE_FLAG_FREE"
      using assms(1) by (simp_all add: scan_from_Some frame_at_def)
    moreover have "p = of_nat i * 4096"
      "page_frames m' = (page_frames m)[i := (frame_at m i)\<lparr>pf_flags := PAGE_FLAG_USED, pf_ref_count := 1\<rparr>]"
      using assms(2) Some by (auto simp: alloc_page_def Phys_Memory.PAGE_SIZE_def)
    ultimately show ?thesis
      by (intro disjI2 exI [of _ i] exI [of _ "(frame_at m i)\<lparr>pf_flags := PAGE_FLAG_USED, pf_ref_count := 1\<rparr>"]) simp
  qed (use assms(2) in \<open>simp add: alloc_page_def\<close>)
  let ?m = "m\<lparr>free_pages := of_nat (free_count m)\<rparr>"
  have "pm_inv ?m" using assms(1) free_count_le [OF assms(1)] by (simp add: pm_inv_def unat_of_nat)
  moreover have "alloc_page ?m = (p, m'\<lparr>free_pages := free_pages (snd (alloc_page ?m))\<rparr>)"
    using assms(2) by (auto simp: alloc_page_def tracked_def frame_at_def set_frame_def split: option.splits)
  ultimately show "frames_wf m'" using alloc_page_inv by (metis frames_wf_free_pages pm_inv_def)
qed

lemma frame_address: "aligned p \<Longrightarrow> of_nat (unat (p div 4096)) * 4096 = p"
proof -
  assume "aligned p"
  then have "unat p div 4096 * 4096 = unat p" by (simp add: aligned_unat)
  then have "unat (p div 4096 * 4096) = unat p"
    using unsigned_less [of p, where 'a = nat] by (simp add: unat_word_ariths unat_div)
  then show ?thesis by (simp add: word_unat_eq_iff)
qed

lemma in_use_update:
  "page_frames m' = (page_frames m)[i := f] \<Longrightarrow> x \<in> in_use m \<Longrightarrow>
   pf_flags f \<noteq> PAGE_FLAG_FREE \<or> x \<noteq> of_nat i * 4096 \<Longrightarrow> x \<in> in_use m'"
proof (rule ccontr)
  assume m': "page_frames m' = (page_frames m)[i := f]" and x: "x \<in> in_use m"
    and f: "pf_flags f \<noteq> PAGE_FLAG_FREE \<or> x \<noteq> of_nat i * 4096" and "x \<notin> in_use m'"
  then obtain k where k: "x = of_nat k * 4096" "k < length (page_frames m)"
    "pf_flags ((page_frames m)[i := f] ! k) = PAGE_FLAG_FREE"
    by (auto simp: in_use_def frame_at_def)
  with f have "pf_flags (frame_at m k) = PAGE_FLAG_FREE" by (cases "k = i") (simp_all add: frame_at_def)
  with k x show False unfolding in_use_def by blast
qed

interpretation kernel_pages: page_provider phys_page_ops in_use frames_wf
proof
  fix m w p w' m'
  assume wf: "frames_wf m"
    and "po_alloc_pages phys_page_ops 1 (ALLOC_ZERO OR ALLOC_KERNEL) w m = (p, w', m')"
  then have al: "alloc_page m = (p, m')"
    by (auto simp: phys_page_ops_def Let_def split: prod.splits)
  note a = alloc_page_frames [OF wf al]
  have "x \<in> in_use m'" if "x \<in> in_use m" for x
    using a(2)
  proof (elim disjE exE conjE)
    fix i f assume "page_frames m' = (page_frames m)[i := f]" "pf_flags f = PAGE_FLAG_USED"
    then show ?thesis using in_use_update [of m' m i f x] that by (simp add: page_flag_defs)
  qed (use that in simp)
  with a(1) show "frames_wf m' \<and> in_use m \<subseteq> in_use m'" by blast
next
  show "frames_wf m \<Longrightarrow> po_alloc_pages phys_page_ops 1 (ALLOC_ZERO OR ALLOC_KERNEL) w m = (NULL, w', m') \<Longrightarrow> w' = w"
    for m w w' m'
    by (auto simp: phys_page_ops_def Let_def split: prod.splits)
next
  fix m w p w' m'
  assume wf: "frames_wf m"
    and "po_alloc_pages phys_page_ops 1 (ALLOC_ZERO OR ALLOC_KERNEL) w m = (p, w', m')" "p \<noteq> NULL"
  then have al: "alloc_page m = (p, m')" "w' = zero_page p w"
    by (auto simp: phys_page_ops_def ALLOC_ZERO_def ALLOC_KERNEL_def Let_def split: prod.splits)
  obtain i f where i: "i < length (page_frames m)" "pf_flags (frame_at m i) = PAGE_FLAG_FREE" "p = of_nat i * 4096"
    "page_frames m' = (page_frames m)[i := f]" "pf_flags f = PAGE_FLAG_USED"
    using alloc_page_frames(2) [OF wf al(1)] \<open>p \<noteq> NULL\<close> by auto
  have up: "unat p = i * 4096" using unat_frame [OF wf i(1)] i(3) by simp
  then have ap: "aligned p" by (simp add: aligned_unat)
  have "p \<noteq> of_nat j * 4096 \<or> pf_flags (frame_at m' j) \<noteq> PAGE_FLAG_FREE" if "j < length (page_frames m')" for j
  proof -
    have "unat (of_nat j * 4096 :: u64) = j * 4096" using that unat_frame [OF wf, of j] i(4) by simp
    then have "j = i" if "p = of_nat j * 4096" using that up by simp
    moreover have "pf_flags (frame_at m' i) \<noteq> PAGE_FLAG_FREE"
      using i(1,4,5) by (simp add: frame_at_def page_flag_defs)
    ultimately show ?thesis by blast
  qed
  then have "p \<in> in_use m'" by (auto simp: in_use_def)
  moreover have "p \<notin> in_use m" using i by (auto simp: in_use_def)
  ultimately show "aligned p \<and> p \<notin> in_use m \<and> p \<in> in_use m' \<and>
      (\<forall>x. page_base x \<noteq> p \<longrightarrow> w' x = w x) \<and> (\<forall>j < 512. w' (pte p j) = 0)"
    using ap page_base_pte [OF ap] al(2) by (simp add: zero_page_def)
next
  fix m p
  assume wf: "frames_wf m" and p: "aligned p"
  have "x \<in> in_use (free_page p m)" if x: "x \<in> in_use m" "x \<noteq> p" for x
  proof (cases "page_frames (free_page p m) = page_frames m")
    case True
    with x show ?thesis by (simp add: in_use_def frame_at_def)
  next
    case False
    then obtain f where f: "page_frames (free_page p m) = (page_frames m)[unat (p div 4096) := f]"
      using free_page_frames [of p m] by blast
    show ?thesis by (rule in_use_update [OF f x(1)]) (use x(2) frame_address [OF p] in simp)
  qed
  with free_page_wf [OF wf] show
    "frames_wf (po_free_pages phys_page_ops p 1 m) \<and> in_use m - {p} \<subseteq> in_use (po_free_pages phys_page_ops p 1 m)"
    unfolding free_one by blast
qed

section \<open>Mapping and unmapping\<close>

lemma pd_wf_cong: "pm_words s = pm_words t \<Longrightarrow> pm_alloc s = pm_alloc t \<Longrightarrow> pd_wf owned ok r s = pd_wf owned ok r t"
  by (simp add: pd_wf_def)

lemma with_pd_Some:
  assumes "with_pd mo pd body s = Some (res, s')" "pd_dirs s pd = Some d"
  obtains d1 s1 where "body (d\<lparr>pd_lock := mtx_lock mo (pd_lock d)\<rparr>) s = (res, d1, s1)"
    "pd_dirs s' pd = Some (d1\<lparr>pd_lock := mtx_unlock mo (pd_lock d1)\<rparr>)"
    "pm_words s' = pm_words s1" "pm_alloc s' = pm_alloc s1" "pd_system_initialized s' = pd_system_initialized s1"
  using assms by (auto simp: with_pd_def Let_def split: prod.splits)

lemma get_physical_address_cong:
  "pml4_table d = pml4_table d' \<Longrightarrow> pm_words s = pm_words s' \<Longrightarrow> get_physical_address d v s = get_physical_address d' v s'"
  by (simp add: get_physical_address_def)

text \<open>Mapping touches only the memory and the allocator.\<close>

definition only_memory :: "('a, 'z) pmem_scheme \<Rightarrow> ('a, 'z) pmem_scheme \<Rightarrow> bool" where
  "only_memory s s' \<longleftrightarrow> pmem.more s' = pmem.more s"

lemma only_memory_refl [simp]: "only_memory s s"
  by (simp add: only_memory_def)

lemma only_memory_trans: "only_memory s1 s2 \<Longrightarrow> only_memory s2 s3 \<Longrightarrow> only_memory s1 s3"
  by (simp add: only_memory_def)

lemma only_memory_set_word: "only_memory s1 s2 \<Longrightarrow> only_memory s1 (set_word a v s2)"
  by (simp add: only_memory_def set_word_def)

lemma only_memory_pd: "only_memory s s' \<Longrightarrow> pd_system_initialized s' = pd_system_initialized s"
  for s s' :: "('a, 'm) pd_sys"
  by (cases s; cases s') (simp add: only_memory_def)

lemma table_for_frame: "table_for po b flags ea s = (r, s') \<Longrightarrow> only_memory s s'"
  by (auto simp: table_for_def alloc_table_def Let_def only_memory_def set_word_def split: if_splits prod.splits)

lemma map_page_frame: "map_page po flags n i v p d s = (r, d', s') \<Longrightarrow> only_memory s s'"
  by (auto simp: map_page_def Let_def split: if_splits prod.splits sum.splits
      dest!: table_for_frame intro: only_memory_trans intro!: only_memory_set_word)

lemma map_loop_frame: "map_loop po flags n sv sp i d s = (r, d', s') \<Longrightarrow> only_memory s s'"
proof (induction po flags n sv sp i d s arbitrary: r d' s' rule: map_loop.induct)
  case (1 po flags n sv sp i d s)
  obtain r1 d1 s1 where m: "map_page po flags n i (sv + of_nat i * PAGE_SIZE_4K) (sp + of_nat i * PAGE_SIZE_4K) d s = (r1, d1, s1)"
    by (metis prod_cases3)
  note f = map_page_frame [OF m]
  show ?case
  proof (cases "i < n")
    case True
    then show ?thesis
    proof (cases r1)
      case (Inr k)
      have "map_loop po flags n sv sp (i + k + 1) d1 s1 = (r, d', s')"
        using 1(2) True m Inr by (subst (asm) map_loop.simps) simp
      from 1(1) [OF True m [symmetric] Inr refl this] m Inr show ?thesis
        using only_memory_trans [OF f] by auto
    qed (use 1(2) m f in \<open>auto simp: map_loop.simps\<close>)
  qed (use 1(2) in \<open>simp add: map_loop.simps\<close>)
qed

lemma map_range_entries:
  assumes "page_provider po owned ok"
    and "pd_dirs s pd = Some d" "pd_wf owned ok (pml4_table d) s" "\<not> has flags Page_Directory.PAGE_SIZE"
    and "map_memory_range po mo pd vaddr paddr sz flags s = Some (Inr (), s')"
    and "n = unat ((page_up (vaddr + sz) - page_base vaddr) div PAGE_SIZE_4K)"
    and "pg = (\<lambda>k :: nat. page_path (page_base vaddr + of_nat k * PAGE_SIZE_4K))"
  obtains d' where "pd_dirs s' pd = Some d'" "pml4_table d' = pml4_table d" "pd_wf owned ok (pml4_table d) s'"
    "pd_grows owned (pml4_table d) s s'" "pd_system_initialized s' = pd_system_initialized s"
    "total_mapped_pages d' = total_mapped_pages d + of_nat n"
    "total_user_pages d' = total_user_pages d + (if has flags PAGE_USER then of_nat n else 0)"
    "inj_on pg {0 ..< n}"
    "\<forall>k < n. find_entry (pm_words s) (pml4_table d) (pg k) = None"
    "\<forall>k < n. find_entry (pm_words s') (pml4_table d) (pg k) = Some (page_entry (page_base paddr + of_nat k * PAGE_SIZE_4K) flags, [])"
    "\<forall>is. valid is \<longrightarrow> length is = 4 \<longrightarrow> (\<forall>k < n. is \<noteq> pg k) \<longrightarrow>
       find_entry (pm_words s') (pml4_table d) is = find_entry (pm_words s) (pml4_table d) is"
proof -
  let ?r = "pml4_table d" and ?d = "d\<lparr>pd_lock := mtx_lock mo (pd_lock d)\<rparr>"
  have run: "with_pd mo pd (map_loop po flags n (page_base vaddr) (page_base paddr) 0) s = Some (Inr (), s')"
    using assms(5,6) by (simp add: map_memory_range_def Let_def split: if_splits)
  obtain d1 s1 where w: "map_loop po flags n (page_base vaddr) (page_base paddr) 0 ?d s = (Inr (), d1, s1)"
    "s' = s1\<lparr>pd_dirs := (pd_dirs s1)(pd \<mapsto> d1\<lparr>pd_lock := mtx_unlock mo (pd_lock d1)\<rparr>)\<rparr>"
    using run assms(2) by (auto simp: with_pd_def Let_def split: prod.splits)
  have "pd_wf owned ok (pml4_table ?d) s" using assms(3) by simp
  note m = page_provider.map_loop_ok [OF assms(1) this assms(4) w(1) assms(7)]
  have om: "pd_system_initialized s' = pd_system_initialized s"
    using only_memory_pd [OF map_loop_frame [OF w(1)]] by (simp add: w(2))
  show ?thesis
    by (rule that [OF _ _ _ _ om, where d' = "d1\<lparr>pd_lock := mtx_unlock mo (pd_lock d1)\<rparr>"])
      (use m pd_wf_cong [of s1 s'] in \<open>simp_all add: w(2) pd_grows_def\<close>)
qed

lemma page_address:
  assumes "tree (pm_words s) (pml4_table d)" "aligned v" "x < 4096"
    and "find_entry (pm_words s) (pml4_table d) (page_path v) = Some (e, [])"
  shows "get_physical_address d (v + x) s = page_base e + x"
proof -
  have "page_base (v + x) = v"
    by (rule page_base_add [OF assms(2)]) (use assms(3) in \<open>simp add: word_less_nat_alt\<close>)
  then show ?thesis
    using get_physical_address_entry [OF assms(1), of "v + x"] assms(4) translation_page [OF assms(2,3) refl]
    by simp
qed

text \<open>
  C2. Mapping a range in pages of 4K with flags among the low twelve bits of an entry (present, writable,
  user and the like, without the execute-disable bit 63): when \<^verbatim>\<open>map_memory_range\<close> returns 0,
  every address of the range translates to the physical address at the same distance from the start,
  every address in another page translates as before, the page counter is right, the tables are still
  a tree of pages in use, and no memory in use outside the tables of this directory has changed.
\<close>

theorem map_memory_range_translates:
  assumes "page_provider po owned ok"
    and "pd_dirs s pd = Some d" "pd_wf owned ok (pml4_table d) s"
    and "\<not> has flags Page_Directory.PAGE_SIZE" "flag_bits flags"
    and "map_memory_range po mo pd vaddr paddr sz flags s = Some (Inr (), s')"
    and "n = unat ((page_up (vaddr + sz) - page_base vaddr) div PAGE_SIZE_4K)"
  shows "\<exists>d'. pd_dirs s' pd = Some d' \<and> pd_wf owned ok (pml4_table d') s' \<and>
           total_mapped_pages d' = total_mapped_pages d + of_nat n \<and>
           (\<forall>k < n. \<forall>x < 4096. get_physical_address d' (page_base vaddr + of_nat k * PAGE_SIZE_4K + x) s' =
                               page_base paddr + of_nat k * PAGE_SIZE_4K + x) \<and>
           (\<forall>a. (\<forall>k < n. page_path a \<noteq> page_path (page_base vaddr + of_nat k * PAGE_SIZE_4K)) \<longrightarrow>
                get_physical_address d' a s' = get_physical_address d a s) \<and>
           (\<forall>a. page_base a \<in> owned (pm_alloc s) - tables (pm_words s) (pml4_table d) \<longrightarrow>
                pm_words s' a = pm_words s a)"
proof -
  let ?r = "pml4_table d" and ?pg = "\<lambda>k :: nat. page_path (page_base vaddr + of_nat k * PAGE_SIZE_4K)"
  obtain d' where m: "pd_dirs s' pd = Some d'" "pml4_table d' = ?r" "pd_wf owned ok ?r s'" "pd_grows owned ?r s s'"
    "pd_system_initialized s' = pd_system_initialized s" "total_mapped_pages d' = total_mapped_pages d + of_nat n"
    "total_user_pages d' = total_user_pages d + (if has flags PAGE_USER then of_nat n else 0)" "inj_on ?pg {0 ..< n}"
    "\<forall>k < n. find_entry (pm_words s) ?r (?pg k) = None"
    "\<forall>k < n. find_entry (pm_words s') ?r (?pg k) = Some (page_entry (page_base paddr + of_nat k * PAGE_SIZE_4K) flags, [])"
    "\<forall>is. valid is \<longrightarrow> length is = 4 \<longrightarrow> (\<forall>k < n. is \<noteq> ?pg k) \<longrightarrow>
       find_entry (pm_words s') ?r is = find_entry (pm_words s) ?r is"
    by (rule map_range_entries [OF assms(1-4,6,7) refl])
  have tr: "tree (pm_words s) (pml4_table d)" "tree (pm_words s') (pml4_table d')"
    using assms(3) m(2,3) by (simp_all add: pd_wf_def)
  note ga = get_physical_address_entry [OF tr(1)] get_physical_address_entry [OF tr(2)]
  have "get_physical_address d' (page_base vaddr + of_nat k * PAGE_SIZE_4K + x) s' =
      page_base paddr + of_nat k * PAGE_SIZE_4K + x" if k: "k < n" "x < 4096" for k x
  proof -
    have al: "aligned (page_base vaddr + of_nat k * PAGE_SIZE_4K)" "aligned (page_base paddr + of_nat k * PAGE_SIZE_4K)"
      by (rule page_base_plus_pages, simp)+
    show ?thesis
      using page_address [OF tr(2) al(1) k(2)] m(2,10) k(1) page_base_entry [OF al(2) assms(5)] by simp
  qed
  moreover have "get_physical_address d' a s' = get_physical_address d a s" if "\<forall>k < n. page_path a \<noteq> ?pg k" for a
    using ga [of a] m(2,11) that by simp
  moreover have "pm_words s' a = pm_words s a" if "page_base a \<in> owned (pm_alloc s) - tables (pm_words s) ?r" for a
    using m(4) that by (simp add: pd_grows_def)
  ultimately show ?thesis using m(1,2,3,6) by metis
qed

text \<open>
  With the execute-disable bit among the flags \<^verbatim>\<open>get_physical_address\<close> returns the bit as part
  of the address: it clears only the low twelve bits of the entry.
\<close>

theorem execute_disable_in_address:
  assumes "page_provider po owned ok"
    and "pd_dirs s pd = Some d" "pd_wf owned ok (pml4_table d) s"
    and "\<not> has f Page_Directory.PAGE_SIZE" "flag_bits f"
    and "map_memory_range po mo pd vaddr paddr sz (f OR PAGE_EXEC_DISABLE) s = Some (Inr (), s')"
    and "n = unat ((page_up (vaddr + sz) - page_base vaddr) div PAGE_SIZE_4K)"
  shows "\<exists>d'. pd_dirs s' pd = Some d' \<and>
           (\<forall>k < n. \<forall>x < 4096. get_physical_address d' (page_base vaddr + of_nat k * PAGE_SIZE_4K + x) s' =
              ((page_base paddr + of_nat k * PAGE_SIZE_4K) OR PAGE_EXEC_DISABLE) + x)"
proof -
  have nx: "\<not> has (f OR PAGE_EXEC_DISABLE) Page_Directory.PAGE_SIZE"
    using assms(4) by (simp add: has_def bit.conj_disj_distrib2 PAGE_EXEC_DISABLE_def Page_Directory.PAGE_SIZE_def)
  obtain d' where m: "pd_dirs s' pd = Some d'" "pml4_table d' = pml4_table d" "pd_wf owned ok (pml4_table d) s'"
    "\<forall>k < n. find_entry (pm_words s') (pml4_table d) (page_path (page_base vaddr + of_nat k * PAGE_SIZE_4K)) =
       Some (page_entry (page_base paddr + of_nat k * PAGE_SIZE_4K) (f OR PAGE_EXEC_DISABLE), [])"
    by (rule map_range_entries [OF assms(1-3) nx assms(6,7) refl])
  have tr: "tree (pm_words s') (pml4_table d')"
    using m(2,3) by (simp add: pd_wf_def)
  have "page_entry p (f OR PAGE_EXEC_DISABLE) = page_entry p f OR PAGE_EXEC_DISABLE" for p
    by (simp add: page_entry_def bit.conj_disj_distrib2 or.assoc PAGE_EXEC_DISABLE_def PAGE_COW_def)
  moreover have "page_base PAGE_EXEC_DISABLE = PAGE_EXEC_DISABLE"
    by code_simp
  ultimately have "page_base (page_entry p (f OR PAGE_EXEC_DISABLE)) = p OR PAGE_EXEC_DISABLE" if "aligned p" for p
    using page_base_entry [OF that assms(5)] by (simp add: page_base_or)
  then show ?thesis
    using m page_address [OF tr page_base_plus_pages [OF aligned_page_base]] page_base_plus_pages [OF aligned_page_base]
    by (intro exI [of _ d']) simp
qed

text \<open>
  C9. Unmapping undoes mapping: after a range has been mapped in pages of 4K, unmapping it returns 0
  and every address translates as before the mapping; the tables that have become empty are freed, and
  the page counter has its old value. The counter of user pages does not: it keeps the pages of the
  range, because the code tests the user bit of an entry it has just cleared.
\<close>

theorem map_unmap_roundtrip:
  assumes "page_provider po owned ok"
    and "pd_dirs s pd = Some d" "pd_wf owned ok (pml4_table d) s" "\<not> has flags Page_Directory.PAGE_SIZE"
    and "map_memory_range po mo pd vaddr paddr sz flags s = Some (Inr (), s1)"
    and "n = unat ((page_up (vaddr + sz) - page_base vaddr) div PAGE_SIZE_4K)"
  shows "\<exists>s2 d2. unmap_memory_range po mo pd vaddr sz False s1 = Some (Inr (), s2) \<and> pd_dirs s2 pd = Some d2 \<and>
           pd_wf owned ok (pml4_table d2) s2 \<and>
           (\<forall>a. get_physical_address d2 a s2 = get_physical_address d a s) \<and>
           total_mapped_pages d2 = total_mapped_pages d \<and>
           total_user_pages d2 = total_user_pages d + (if has flags PAGE_USER then of_nat n else 0)"
proof -
  let ?r = "pml4_table d" and ?pg = "\<lambda>k :: nat. page_path (page_base vaddr + of_nat k * PAGE_SIZE_4K)"
  obtain d1 where m: "pd_dirs s1 pd = Some d1" "pml4_table d1 = ?r" "pd_wf owned ok ?r s1" "pd_grows owned ?r s s1"
    "pd_system_initialized s1 = pd_system_initialized s" "total_mapped_pages d1 = total_mapped_pages d + of_nat n"
    "total_user_pages d1 = total_user_pages d + (if has flags PAGE_USER then of_nat n else 0)" "inj_on ?pg {0 ..< n}"
    "\<forall>k < n. find_entry (pm_words s) ?r (?pg k) = None"
    "\<forall>k < n. find_entry (pm_words s1) ?r (?pg k) = Some (page_entry (page_base paddr + of_nat k * PAGE_SIZE_4K) flags, [])"
    "\<forall>is. valid is \<longrightarrow> length is = 4 \<longrightarrow> (\<forall>k < n. is \<noteq> ?pg k) \<longrightarrow>
       find_entry (pm_words s1) ?r is = find_entry (pm_words s) ?r is"
    by (rule map_range_entries [OF assms(1-6) refl])
  let ?d1 = "d1\<lparr>pd_lock := mtx_lock mo (pd_lock d1)\<rparr>"
  obtain d2 s2 where u: "unmap_loop po False n (page_base vaddr) 0 ?d1 s1 = (d2, s2)" by fastforce
  have "pd_wf owned ok (pml4_table ?d1) s1" using m(2,3) by simp
  moreover have "\<forall>k \<in> {0 ..< n}. \<forall>e rest. find_entry (pm_words s1) (pml4_table ?d1) (?pg k) = Some (e, rest) \<longrightarrow> rest = []"
    using m(2,10) by simp
  ultimately have un: "pd_wf owned ok ?r s2" "pml4_table d2 = ?r" "total_user_pages d2 = total_user_pages d1"
    "total_mapped_pages d2 = total_mapped_pages d1 - of_nat n"
    "\<forall>is. valid is \<longrightarrow> length is = 4 \<longrightarrow> find_entry (pm_words s2) ?r is =
       (if is \<in> ?pg ` {0 ..< n} then None else find_entry (pm_words s1) ?r is)"
    using page_provider.unmap_loop_ok [OF assms(1) _ u refl] m(2,8,10) by simp_all
  define s3 where "s3 = s2\<lparr>pd_dirs := (pd_dirs s2)(pd \<mapsto> d2\<lparr>pd_lock := mtx_unlock mo (pd_lock d2)\<rparr>)\<rparr>"
  let ?d3 = "d2\<lparr>pd_lock := mtx_unlock mo (pd_lock d2)\<rparr>"
  have "unmap_memory_range po mo pd vaddr sz False s1 = Some (Inr (), s3)"
    using assms(5,6) m(1,5) u
    by (auto simp: unmap_memory_range_def map_memory_range_def Let_def with_pd_def s3_def split: if_splits)
  moreover have wf3: "pd_wf owned ok (pml4_table ?d3) s3" "pd_dirs s3 pd = Some ?d3"
    using un(1,2) by (simp_all add: s3_def pd_wf_def)
  moreover have "get_physical_address ?d3 a s3 = get_physical_address d a s" for a
  proof -
    have "find_entry (pm_words s3) ?r (page_path a) = find_entry (pm_words s) ?r (page_path a)"
    proof (cases "page_path a \<in> ?pg ` {0 ..< n}")
      case True
      with un(5) m(9) show ?thesis by (auto simp: s3_def)
    next
      case False
      then have "\<forall>k < n. page_path a \<noteq> ?pg k" by (simp add: image_iff)
      with False un(5) m(11) show ?thesis by (simp add: s3_def)
    qed
    moreover have "tree (pm_words s) (pml4_table d)" "tree (pm_words s3) (pml4_table ?d3)"
      using assms(3) wf3(1) by (simp_all add: pd_wf_def)
    ultimately show ?thesis
      using get_physical_address_entry [of s d a] get_physical_address_entry [of s3 ?d3 a] un(2) by simp
  qed
  ultimately show ?thesis using un(3,4) m(6,7) by auto
qed

section \<open>Copy-on-write\<close>

lemma cow_fault_effect:
  assumes "page_provider po owned ok" "pd_system_initialized s" "pd \<noteq> NULL"
    and "pd_dirs s pd = Some d" "pd_wf owned ok (pml4_table d) s"
    and "has error_code MEM_ACCESS_WRITE" "\<not> has error_code MEM_ACCESS_RESERVED"
    and "find_entry (pm_words s) (pml4_table d) (page_path addr) = Some (e, [])" "has e PAGE_COW"
    and "page_base e \<in> owned (pm_alloc s)"
  shows "\<exists>res s' d'. handle_page_fault po mo pd addr error_code s = Some (res, s') \<and> pd_dirs s' pd = Some d' \<and>
           pd_wf owned ok (pml4_table d') s' \<and> page_fault_count d' = page_fault_count d + 1 \<and>
           (res = Inl EFAULT \<and> fst (alloc_table po s) = NULL \<and> (\<forall>a. get_physical_address d' a s' = get_physical_address d a s) \<or>
            res = Inr () \<and>
            (\<exists>n e'. n \<notin> owned (pm_alloc s) \<and> get_physical_address d' addr s' = n + (addr AND (PAGE_SIZE_4K - 1)) \<and>
               find_entry (pm_words s') (pml4_table d') (page_path addr) = Some (e', []) \<and>
               has e' PAGE_WRITABLE \<and> \<not> has e' PAGE_COW \<and>
               (\<forall>j < 512. pm_words s' (pte n j) = pm_words s (pte (page_base e) j)) \<and>
               (\<forall>a. page_base a \<in> owned (pm_alloc s) - tables (pm_words s) (pml4_table d) \<longrightarrow>
                    pm_words s' a = pm_words s a) \<and>
               (\<forall>a. page_path a \<noteq> page_path addr \<longrightarrow> get_physical_address d' a s' = get_physical_address d a s)))"
proof -
  let ?r = "pml4_table d"
  define d0 where "d0 = track_page_fault po (d\<lparr>pd_lock := mtx_lock mo (pd_lock d)\<rparr>) addr error_code s"
  have d0: "pml4_table d0 = ?r" "page_fault_count d0 = page_fault_count d + 1"
    by (simp_all add: d0_def track_page_fault_def Let_def)
  obtain res d1 s1 where h: "handle_cow_page_fault po d0 addr s = (res, d1, s1)" by (metis prod_cases3)
  have c: "pd_wf owned ok (pml4_table d0) s"
    "find_entry (pm_words s) (pml4_table d0) (page_path (page_base addr)) = Some (e, [])"
    using assms(5,8) d0(1) by simp_all
  note cow = page_provider.handle_cow_ok [OF assms(1) c assms(9,10) h, unfolded d0(1) page_path_base]
  define d' where "d' = d1\<lparr>pd_lock := mtx_unlock mo (pd_lock d1)\<rparr>"
  define s' where "s' = s1\<lparr>pd_dirs := (pd_dirs s1)(pd \<mapsto> d')\<rparr>"
  define out :: "errno + unit" where "out = (case res of Inl _ \<Rightarrow> Inl EFAULT | Inr _ \<Rightarrow> Inr ())"
  have run: "handle_page_fault po mo pd addr error_code s = Some (out, s')"
    using assms(2,3,4,6,7) h
    by (auto simp: handle_page_fault_def with_pd_def Let_def d0_def [symmetric] d'_def s'_def out_def split: sum.splits)
  have dirs: "pd_dirs s' pd = Some d'" "pml4_table d' = ?r" "page_fault_count d' = page_fault_count d + 1"
    "pd_wf owned ok (pml4_table d') s'"
    using cow d0 by (auto simp: s'_def d'_def pd_wf_def)
  have tr: "tree (pm_words s) (pml4_table d)" "tree (pm_words s') (pml4_table d')"
    using assms(5) dirs(4) by (simp_all add: pd_wf_def)
  note ga = get_physical_address_entry [OF tr(1)] get_physical_address_entry [OF tr(2)]
  show ?thesis
  proof (cases "res = Inr ()")
    case False
    with cow have "out = Inl EFAULT" "pm_words s1 = pm_words s" "fst (alloc_table po s) = NULL" by (auto simp: out_def)
    with run dirs show ?thesis
      using get_physical_address_cong [of d' d s' s] by (auto simp: s'_def)
  next
    case True
    with cow obtain n where n: "aligned n" "n \<notin> owned (pm_alloc s)"
      "\<forall>is. valid is \<longrightarrow> length is = 4 \<longrightarrow> find_entry (pm_words s1) ?r is =
         (if is = page_path addr then Some (cow_entry n e, []) else find_entry (pm_words s) ?r is)"
      "\<forall>j < 512. pm_words s1 (pte n j) = pm_words s (pte (page_base e) j)"
      "\<forall>a. page_base a \<in> owned (pm_alloc s) - tables (pm_words s) ?r \<longrightarrow> pm_words s1 a = pm_words s a"
      by auto
    have "has e PAGE_PRESENT"
      using find_entry_page [of "pm_words s" ?r "[pml4_index addr, pdpt_index addr, pd_index addr]" "pt_index addr" e]
        assms(8) by (auto simp: page_path_def simp del: find_entry.simps)
    note ce = cow_entry_simps [OF n(1) this]
    have fe: "find_entry (pm_words s') ?r (page_path addr) = Some (cow_entry n e, [])"
      using n(3) by (simp add: s'_def)
    have "get_physical_address d' addr s' = n + (addr AND (PAGE_SIZE_4K - 1))"
      using ga(2) [of addr] fe dirs(2) ce(1) by (simp add: translation_def)
    moreover have "get_physical_address d' a s' = get_physical_address d a s" if "page_path a \<noteq> page_path addr" for a
      using ga [of a] n(3) dirs(2) that by (simp add: s'_def)
    moreover have "out = Inr ()" using True by (simp add: out_def)
    moreover have "pm_words s' = pm_words s1" by (simp add: s'_def)
    ultimately show ?thesis
      using run dirs fe ce(3,4) n(2,4,5) by (intro exI [of _ out] exI [of _ s'] exI [of _ d']) auto
  qed
qed

lemma cow_fault_large:
  assumes "tree (pm_words s) (pml4_table d)"
    and "find_entry (pm_words s) (pml4_table d) (page_path addr) = Some (e, rest)" "rest \<noteq> []"
  shows "handle_cow_page_fault po d addr s = (Inl ENOTSUP, d, s)"
proof -
  let ?v = "page_base addr"
  have top: "\<not> has (pm_words s (pte (pml4_table d) (pml4_index ?v))) PAGE_PRESENT \<or>
      \<not> has (pm_words s (pte (pml4_table d) (pml4_index ?v))) Page_Directory.PAGE_SIZE"
    using treeD(3) [OF assms(1) index_less(1), of ?v] by blast
  have "find_entry (pm_words s) (pml4_table d) (page_path ?v) = Some (e, rest)"
    using assms(2) by simp
  with top assms(3) show ?thesis
    by (auto simp: handle_cow_page_fault_def Let_def page_path_def split: if_splits)
qed

text \<open>
  C10. A write fault on a copy-on-write page. On a page of 4K (no index of the path is left below its
  entry): either there is no free page, the fault is not handled
  and all translations stay, or the fault is handled and the faulting address then translates into a
  page that nobody used, that has the content of the old page, and whose entry is writable and no
  longer copy-on-write; the old page and all other memory in use outside the tables keep their
  content, and all other addresses translate as before. On a large page of 2M or 1G the fault is never
  handled, and no memory and no translation changes.
\<close>

theorem cow_fault_private_copy:
  assumes "page_provider po owned ok" "pd_system_initialized s" "pd \<noteq> NULL"
    and "pd_dirs s pd = Some d" "pd_wf owned ok (pml4_table d) s"
    and "has error_code MEM_ACCESS_WRITE" "\<not> has error_code MEM_ACCESS_RESERVED"
    and "find_entry (pm_words s) (pml4_table d) (page_path addr) = Some (e, rest)" "has e PAGE_COW"
    and "page_base e \<in> owned (pm_alloc s)"
  shows "(rest = [] \<longrightarrow>
          (\<exists>res s' d'. handle_page_fault po mo pd addr error_code s = Some (res, s') \<and> pd_dirs s' pd = Some d' \<and>
           pd_wf owned ok (pml4_table d') s' \<and> page_fault_count d' = page_fault_count d + 1 \<and>
           (res = Inl EFAULT \<and> fst (alloc_table po s) = NULL \<and> (\<forall>a. get_physical_address d' a s' = get_physical_address d a s) \<or>
            res = Inr () \<and>
            (\<exists>n e'. n \<notin> owned (pm_alloc s) \<and> get_physical_address d' addr s' = n + (addr AND (PAGE_SIZE_4K - 1)) \<and>
               find_entry (pm_words s') (pml4_table d') (page_path addr) = Some (e', []) \<and>
               has e' PAGE_WRITABLE \<and> \<not> has e' PAGE_COW \<and>
               (\<forall>j < 512. pm_words s' (pte n j) = pm_words s (pte (page_base e) j)) \<and>
               (\<forall>a. page_base a \<in> owned (pm_alloc s) - tables (pm_words s) (pml4_table d) \<longrightarrow>
                    pm_words s' a = pm_words s a) \<and>
               (\<forall>a. page_path a \<noteq> page_path addr \<longrightarrow> get_physical_address d' a s' = get_physical_address d a s))))) \<and>
         (rest \<noteq> [] \<longrightarrow>
          (\<exists>s' d'. handle_page_fault po mo pd addr error_code s = Some (Inl EFAULT, s') \<and> pd_dirs s' pd = Some d' \<and>
           pm_words s' = pm_words s \<and> page_fault_count d' = page_fault_count d + 1 \<and>
           (\<forall>a. get_physical_address d' a s' = get_physical_address d a s)))"
proof -
  define d0 where "d0 = track_page_fault po (d\<lparr>pd_lock := mtx_lock mo (pd_lock d)\<rparr>) addr error_code s"
  have d0: "pml4_table d0 = pml4_table d" "page_fault_count d0 = page_fault_count d + 1"
    by (simp_all add: d0_def track_page_fault_def Let_def)
  define d' where "d' = d0\<lparr>pd_lock := mtx_unlock mo (pd_lock d0)\<rparr>"
  have tr: "tree (pm_words s) (pml4_table d0)"
    using assms(5) d0(1) by (simp add: pd_wf_def)
  have "handle_page_fault po mo pd addr error_code s = Some (Inl EFAULT, s\<lparr>pd_dirs := (pd_dirs s)(pd \<mapsto> d')\<rparr>)"
    if "rest \<noteq> []"
    using cow_fault_large [OF tr, of addr e rest po] assms(2-4,6-8) d0(1) that
    by (simp add: handle_page_fault_def with_pd_def Let_def d0_def [symmetric] d'_def)
  moreover have "get_physical_address d' a (s\<lparr>pd_dirs := (pd_dirs s)(pd \<mapsto> d')\<rparr>) = get_physical_address d a s" for a
    by (rule get_physical_address_cong) (simp_all add: d'_def d0)
  ultimately show ?thesis
    using cow_fault_effect [OF assms(1-7) _ assms(9,10)] assms(8) by (auto simp: d'_def d0)
qed

lemma has_present: "has e PAGE_PRESENT \<longleftrightarrow> bit e 0"
  by (simp add: has_def PAGE_PRESENT_def and_one_eq bit_0 odd_iff_mod_2_eq_one flip: mod_2_eq_odd)

text \<open>Setting flags on a page of 4K rewrites its entry and nothing else.\<close>

lemma set_page_flags_ok:
  assumes pp: "page_provider po owned ok" and wf: "pd_wf owned ok (pml4_table d) s"
    and e: "find_entry (pm_words s) (pml4_table d) (page_path v) = Some (e, [])" and m: "\<not> has msk PAGE_PRESENT"
    and e': "e' = (e AND NOT msk) OR flags"
  obtains s' where "set_page_flags d v flags msk s = (Inr (), s')" "pd_wf owned ok (pml4_table d) s'"
    "pm_alloc s' = pm_alloc s" "only_memory s s'"
    "\<forall>is. valid is \<longrightarrow> length is = 4 \<longrightarrow> find_entry (pm_words s') (pml4_table d) is =
       (if is = page_path v then Some (e', []) else find_entry (pm_words s) (pml4_table d) is)"
proof -
  let ?r = "pml4_table d" and ?w = "pm_words s"
  let ?p = "[pml4_index v, pdpt_index v, pd_index v]"
  have path: "page_path v = ?p @ [pt_index v]" by (simp add: page_path_def)
  obtain t where t: "descend ?w ?r ?p = Some t" "?w (pte t (pt_index v)) = e" "has e PAGE_PRESENT"
    using find_entry_page [OF e [unfolded path]] by blast
  have idx: "pml4_index (page_base v) = pml4_index v" "pdpt_index (page_base v) = pdpt_index v"
    "pd_index (page_base v) = pd_index v" "pt_index (page_base v) = pt_index v"
    using page_path_base [of v] by (simp_all add: page_path_def)
  have run: "set_page_flags d v flags msk s = (Inr (), set_word (pte t (pt_index v)) e' s)"
    using t by (auto simp: set_page_flags_def Let_def idx is_table_def e' split: if_splits)
  have pr: "has e' PAGE_PRESENT"
    using m t(3) by (simp add: has_present e' bit_or_iff bit_and_iff bit_not_iff)
  have l: "length ?p = 3" "valid ?p" by simp_all
  note w = page_provider.write_page_ok [OF pp wf t(1) l index_less(4) [of v], where e = e', folded path]
  show ?thesis
    by (rule that [OF run w(1)]) (use w(3) pr in \<open>simp_all add: only_memory_def set_word_def\<close>)
qed

lemma mark_one_page:
  assumes "aligned v" "v + PAGE_SIZE_4K \<noteq> 0"
  shows "mark_pages_cow d v (v + PAGE_SIZE_4K) s = snd (set_page_flags d v PAGE_COW PAGE_WRITABLE s)"
proof -
  have "aligned (v + PAGE_SIZE_4K)" using page_base_plus_pages [OF assms(1), of 1] by simp
  then have up: "page_up (v + PAGE_SIZE_4K) = v + PAGE_SIZE_4K"
    using page_base_add [of "v + PAGE_SIZE_4K" 4095] by (simp add: page_up_def PAGE_SIZE_4K_def add.assoc add.commute [of v])
  have "unat (v + 4096) = unat v + 4096"
  proof -
    have "4096 dvd unat v" using assms(1) by (simp add: aligned_unat)
    then obtain q where q: "unat v = 4096 * q" ..
    have "unat v + 4096 \<noteq> 2 ^ 64"
      using assms(2) by (auto simp: PAGE_SIZE_4K_def word_unat_eq_iff unat_word_ariths)
    moreover have "unat v < 2 ^ 64" using unsigned_less [of v, where 'a = nat] by simp
    ultimately show ?thesis using q by (simp add: unat_word_ariths)
  qed
  then have "(unat (page_up (v + PAGE_SIZE_4K)) - unat v) div 4096 = 1" by (simp only: up) (simp add: PAGE_SIZE_4K_def)
  moreover have "page_base v = v" using assms(1) by (simp add: aligned_def)
  ultimately show ?thesis by (simp add: mark_pages_cow_def)
qed

lemma cow_mark:
  "has ((e AND NOT PAGE_WRITABLE) OR PAGE_COW) PAGE_COW" "page_base ((e AND NOT PAGE_WRITABLE) OR PAGE_COW) = page_base e"
  by (simp add: has_def pte_flag_defs, simp add: page_base_flags)
    (simp add: page_base_def pte_flag_defs PAGE_SIZE_4K_def and.assoc)

lemma mark_page_cow_ok:
  fixes s :: "('a, 'm) pd_sys" and d :: "'n page_directory"
  assumes "page_provider po owned ok" "pd_wf owned ok (pml4_table d) s" "aligned v" "v + PAGE_SIZE_4K \<noteq> 0"
    and "find_entry (pm_words s) (pml4_table d) (page_path v) = Some (e, [])"
  obtains s1 where "mark_pages_cow d v (v + PAGE_SIZE_4K) s = s1" "pd_wf owned ok (pml4_table d) s1"
    "pm_alloc s1 = pm_alloc s" "pd_dirs s1 = pd_dirs s" "pd_system_initialized s1 = pd_system_initialized s"
    "find_entry (pm_words s1) (pml4_table d) (page_path v) = Some ((e AND NOT PAGE_WRITABLE) OR PAGE_COW, [])"
proof -
  have "\<not> has PAGE_WRITABLE PAGE_PRESENT" by (simp add: has_def pte_flag_defs)
  then obtain s1 where s1: "set_page_flags d v PAGE_COW PAGE_WRITABLE s = (Inr (), s1)" "pd_wf owned ok (pml4_table d) s1"
    "pm_alloc s1 = pm_alloc s" "only_memory s s1"
    "\<forall>is. valid is \<longrightarrow> length is = 4 \<longrightarrow> find_entry (pm_words s1) (pml4_table d) is =
       (if is = page_path v then Some ((e AND NOT PAGE_WRITABLE) OR PAGE_COW, []) else find_entry (pm_words s) (pml4_table d) is)"
    using set_page_flags_ok [OF assms(1,2,5) _ refl] by metis
  have "pd_dirs s1 = pd_dirs s" "pd_system_initialized s1 = pd_system_initialized s"
    using s1(4) by (cases s; cases s1; simp add: only_memory_def)+
  then show ?thesis
    by (intro that [of s1]) (use s1 mark_one_page [OF assms(3,4), of d s] in simp_all)
qed

text \<open>
  C40. Copy-on-write lifts write protection. Take any present page of 4K, writable or mapped read-only.
  \<^verbatim>\<open>mark_pages_cow\<close> on its range makes its entry copy-on-write, and when a page can be allocated,
  a write fault on it is handled and leaves the entry writable. The comment in
  \<^verbatim>\<open>mark_pages_cow\<close> speaks of writable pages only.
\<close>

theorem cow_lifts_write_protection:
  assumes "page_provider po owned ok" "pd_system_initialized s" "pd \<noteq> NULL"
    and "pd_dirs s pd = Some d" "pd_wf owned ok (pml4_table d) s"
    and "has error_code MEM_ACCESS_WRITE" "\<not> has error_code MEM_ACCESS_RESERVED"
    and "aligned v" "v + PAGE_SIZE_4K \<noteq> 0"
    and "find_entry (pm_words s) (pml4_table d) (page_path v) = Some (e, [])"
    and "page_base e \<in> owned (pm_alloc s)"
    and "s1 = mark_pages_cow d v (v + PAGE_SIZE_4K) s"
  shows "(\<exists>e1. find_entry (pm_words s1) (pml4_table d) (page_path v) = Some (e1, []) \<and>
            has e1 PAGE_COW \<and> page_base e1 = page_base e) \<and>
         (fst (alloc_table po s1) \<noteq> NULL \<longrightarrow>
          (\<exists>s' d' e'. handle_page_fault po mo pd v error_code s1 = Some (Inr (), s') \<and> pd_dirs s' pd = Some d' \<and>
             find_entry (pm_words s') (pml4_table d') (page_path v) = Some (e', []) \<and> has e' PAGE_WRITABLE))"
proof -
  have s1: "pd_wf owned ok (pml4_table d) s1"
    "pm_alloc s1 = pm_alloc s" "pd_dirs s1 = pd_dirs s" "pd_system_initialized s1 = pd_system_initialized s"
    "find_entry (pm_words s1) (pml4_table d) (page_path v) = Some ((e AND NOT PAGE_WRITABLE) OR PAGE_COW, [])"
    by (rule mark_page_cow_ok [OF assms(1,5,8,9,10)]; simp add: assms(12))+
  note c = cow_mark [of e]
  have own: "page_base ((e AND NOT PAGE_WRITABLE) OR PAGE_COW) \<in> owned (pm_alloc s1)"
    using assms(11) s1(2) c(2) by simp
  have "pd_system_initialized s1" "pd_dirs s1 pd = Some d"
    using assms(2,4) s1(3,4) by simp_all
  from cow_fault_effect [OF assms(1) this(1) assms(3) this(2) s1(1) assms(6,7) s1(5) c(1) own, of mo] s1(5) c
  show ?thesis by blast
qed

section \<open>Concrete instances\<close>

text \<open>Seven frames, of which 2 to 5 are free, and an empty directory whose top table is frame 1.\<close>

definition sample_frames :: phys_mem where
  "sample_frames =
     (let u = \<lparr>pf_flags = PAGE_FLAG_USED, pf_ref_count = 1, pf_order = 0\<rparr>;
          f = \<lparr>pf_flags = PAGE_FLAG_FREE, pf_ref_count = 0, pf_order = 0\<rparr>
      in \<lparr>page_frames = [u, u, f, f, f, f, u], total_pages = 7, free_pages = 4, early_next = 0\<rparr>)"

definition sample_pd :: "unit page_directory" where
  "sample_pd = \<lparr>pml4_table = 0x1000, cr3_value = 0x1000, pd_lock = (), pd_ref_count = 1, pd_owner_pid = 7,
     page_fault_count = 0, cow_breaks_count = 0, total_mapped_pages = 0, total_user_pages = 0,
     last_page_faults = [], last_fault_index = 0, pd_next = NULL\<rparr>"

definition sample_locks :: "unit mutex_ops" where
  "sample_locks = \<lparr>mtx_init = (True, ()), mtx_lock = id, mtx_unlock = id, mtx_destroy = id\<rparr>"

definition sample_sys :: "(phys_mem, unit) pd_sys" where
  "sample_sys = \<lparr>pm_words = (\<lambda>_. 0), pm_alloc = sample_frames, pd_dirs = [0x100 \<mapsto> sample_pd],
     pd_heap = kheap_boot, pd_junk = [], global_pd_lock = (), all_page_directories = 0x100,
     total_page_directories = 1, pd_system_initialized = True\<rparr>"

definition sample_mapped :: "(phys_mem, unit) pd_sys" where
  "sample_mapped = snd (the (map_memory_range phys_page_ops sample_locks 0x100 0x7000 0x6000 0x1000 PAGE_USER sample_sys))"

lemma sample_map:
  "map_memory_range phys_page_ops sample_locks 0x100 0x7000 0x6000 0x1000 PAGE_USER sample_sys = Some (Inr (), sample_mapped)"
proof -
  let ?o = "map_memory_range phys_page_ops sample_locks 0x100 0x7000 0x6000 0x1000 PAGE_USER sample_sys"
  have "map_option fst ?o = Some (Inr ())" by code_simp
  then show ?thesis by (cases ?o) (auto simp: sample_mapped_def)
qed

lemma sample_frames_wf: "frames_wf sample_frames"
  by code_simp

lemma sample_sys_wf: "pd_dirs sample_sys 0x100 = Some sample_pd" "pd_wf in_use frames_wf (pml4_table sample_pd) sample_sys"
proof -
  have "descend (\<lambda>_. 0) r p = Some t \<longleftrightarrow> p = [] \<and> t = r" for r t p
    by (cases p) (auto simp: is_table_def)
  then have "tree (\<lambda>_. 0) 0x1000" "tables (\<lambda>_. 0) 0x1000 = {0x1000}"
    by (auto simp: tree_def tables_def aligned_def page_base_def PAGE_SIZE_4K_def)
  moreover have "0x1000 \<in> in_use sample_frames"
    using in_use_frame [OF sample_frames_wf, of 1]
    by (simp add: sample_frames_def Let_def frame_at_def page_flag_defs)
  ultimately show "pd_wf in_use frames_wf (pml4_table sample_pd) sample_sys"
    using sample_frames_wf by (simp add: pd_wf_def sample_sys_def sample_pd_def)
qed (simp add: sample_sys_def)

lemma sample_mapped_ok:
  obtains d where "pd_dirs sample_mapped 0x100 = Some d" "pml4_table d = 0x1000" "pd_system_initialized sample_mapped"
    "pd_wf in_use frames_wf 0x1000 sample_mapped" "in_use sample_frames \<subseteq> in_use (pm_alloc sample_mapped)"
    "find_entry (pm_words sample_mapped) 0x1000 (page_path 0x7000) = Some (page_entry 0x6000 PAGE_USER, [])"
proof -
  have n: "1 = unat ((page_up (0x7000 + 0x1000) - page_base 0x7000) div PAGE_SIZE_4K)" by code_simp
  have u: "\<not> has PAGE_USER Page_Directory.PAGE_SIZE" by simp
  obtain d where d: "pd_dirs sample_mapped 0x100 = Some d" "pml4_table d = pml4_table sample_pd"
    "pd_wf in_use frames_wf (pml4_table sample_pd) sample_mapped" "pd_grows in_use (pml4_table sample_pd) sample_sys sample_mapped"
    "pd_system_initialized sample_mapped = pd_system_initialized sample_sys"
    "\<forall>k < 1. find_entry (pm_words sample_mapped) (pml4_table sample_pd) (page_path (page_base 0x7000 + of_nat k * PAGE_SIZE_4K)) =
       Some (page_entry (page_base 0x6000 + of_nat k * PAGE_SIZE_4K) PAGE_USER, [])"
    by (rule map_range_entries [OF kernel_pages.page_provider_axioms sample_sys_wf u sample_map n refl])
  show ?thesis
    by (rule that [OF d(1)])
      (use d in \<open>simp_all add: sample_pd_def sample_sys_def pd_grows_def page_base_def PAGE_SIZE_4K_def\<close>)
qed

lemma sample_range: "1 = unat ((page_up (0x7000 + 0x1000) - page_base 0x7000) div PAGE_SIZE_4K)" "page_base 0x7000 = 0x7000"
  "page_base 0x6000 = 0x6000" "\<not> has PAGE_USER Page_Directory.PAGE_SIZE" "flag_bits PAGE_USER" "has PAGE_USER PAGE_USER"
  by code_simp+

theorem map_memory_range_translates_witness:
  "\<exists>d'. pd_dirs sample_mapped 0x100 = Some d' \<and> total_mapped_pages d' = 1 \<and>
        get_physical_address d' 0x7123 sample_mapped = 0x6123"
proof -
  obtain d' where d': "pd_dirs sample_mapped 0x100 = Some d'" "total_mapped_pages d' = total_mapped_pages sample_pd + of_nat 1"
    "\<forall>k < 1. \<forall>x < 4096. get_physical_address d' (page_base 0x7000 + of_nat k * PAGE_SIZE_4K + x) sample_mapped =
       page_base 0x6000 + of_nat k * PAGE_SIZE_4K + x"
    using map_memory_range_translates [OF kernel_pages.page_provider_axioms sample_sys_wf sample_range(4,5) sample_map
        sample_range(1)] by blast
  from d'(3) have "get_physical_address d' (0x7000 + of_nat 0 * PAGE_SIZE_4K + 0x123) sample_mapped =
      0x6000 + of_nat 0 * PAGE_SIZE_4K + 0x123"
    unfolding sample_range(2,3) by (elim allE [of _ 0] impE allE [of _ "0x123"]) simp_all
  with d' show ?thesis by (simp add: sample_pd_def)
qed

theorem map_unmap_roundtrip_witness:
  "\<exists>s2 d2. unmap_memory_range phys_page_ops sample_locks 0x100 0x7000 0x1000 False sample_mapped = Some (Inr (), s2) \<and>
     pd_dirs s2 0x100 = Some d2 \<and> (\<forall>a. get_physical_address d2 a s2 = NULL) \<and>
     total_mapped_pages d2 = 0 \<and> total_user_pages d2 = 1"
proof -
  have "get_physical_address sample_pd a sample_sys = NULL" for a
    by (simp add: get_physical_address_def sample_sys_def has_def)
  then show ?thesis
    using map_unmap_roundtrip [OF kernel_pages.page_provider_axioms sample_sys_wf sample_range(4) sample_map sample_range(1)]
    by (simp add: sample_pd_def sample_range(6)) metis
qed

definition sample_dir :: "unit page_directory" where
  "sample_dir = the (pd_dirs sample_mapped 0x100)"

definition sample_cow :: "(phys_mem, unit) pd_sys" where
  "sample_cow = mark_pages_cow sample_dir 0x7000 (0x7000 + PAGE_SIZE_4K) sample_mapped"

lemma sample_dir_ok:
  "pd_dirs sample_mapped 0x100 = Some sample_dir" "pml4_table sample_dir = 0x1000"
  "pd_wf in_use frames_wf (pml4_table sample_dir) sample_mapped" "pd_system_initialized sample_mapped"
  "find_entry (pm_words sample_mapped) (pml4_table sample_dir) (page_path 0x7000) = Some (page_entry 0x6000 PAGE_USER, [])"
  "page_base (page_entry 0x6000 PAGE_USER) \<in> in_use (pm_alloc sample_mapped)"
proof -
  obtain d where d: "pd_dirs sample_mapped 0x100 = Some d" "pml4_table d = 0x1000" "pd_system_initialized sample_mapped"
    "pd_wf in_use frames_wf 0x1000 sample_mapped" "in_use sample_frames \<subseteq> in_use (pm_alloc sample_mapped)"
    "find_entry (pm_words sample_mapped) 0x1000 (page_path 0x7000) = Some (page_entry 0x6000 PAGE_USER, [])"
    by (rule sample_mapped_ok)
  show "pd_dirs sample_mapped 0x100 = Some sample_dir" "pml4_table sample_dir = 0x1000"
    "pd_wf in_use frames_wf (pml4_table sample_dir) sample_mapped" "pd_system_initialized sample_mapped"
    "find_entry (pm_words sample_mapped) (pml4_table sample_dir) (page_path 0x7000) = Some (page_entry 0x6000 PAGE_USER, [])"
    using d by (simp_all add: sample_dir_def)
  have "of_nat 6 * 4096 \<in> in_use sample_frames"
    by (subst in_use_frame [OF sample_frames_wf]) (simp_all add: sample_frames_def Let_def frame_at_def page_flag_defs)
  moreover have "page_base (page_entry 0x6000 PAGE_USER) = of_nat 6 * 4096" by code_simp
  ultimately show "page_base (page_entry 0x6000 PAGE_USER) \<in> in_use (pm_alloc sample_mapped)" using d(5) by auto
qed

lemma sample_addr: "aligned 0x7000" "0x7000 + PAGE_SIZE_4K \<noteq> 0" "has 1 MEM_ACCESS_WRITE" "\<not> has 1 MEM_ACCESS_RESERVED"
  "page_path 0x7123 = page_path 0x7000" "\<not> has (page_entry 0x6000 PAGE_USER) PAGE_WRITABLE" "(0x100 :: ptr) \<noteq> NULL"
  by code_simp+

lemma sample_cow_ok:
  "pd_dirs sample_cow 0x100 = Some sample_dir" "pd_wf in_use frames_wf (pml4_table sample_dir) sample_cow"
  "pd_system_initialized sample_cow" "pm_alloc sample_cow = pm_alloc sample_mapped"
  "find_entry (pm_words sample_cow) (pml4_table sample_dir) (page_path 0x7000) =
     Some ((page_entry 0x6000 PAGE_USER AND NOT PAGE_WRITABLE) OR PAGE_COW, [])"
  by (rule mark_page_cow_ok [OF kernel_pages.page_provider_axioms sample_dir_ok(3) sample_addr(1,2) sample_dir_ok(5)],
      simp add: sample_cow_def sample_dir_ok)+

lemma sample_alloc_table: "fst (alloc_table phys_page_ops sample_cow) \<noteq> NULL"
proof -
  have "fst (alloc_page (pm_alloc sample_mapped)) \<noteq> NULL" by code_simp
  then show ?thesis by (simp add: alloc_table_def phys_page_ops_def sample_cow_ok(4) case_prod_unfold Let_def)
qed

theorem cow_fault_private_copy_witness:
  "\<exists>s' d' n. handle_page_fault phys_page_ops sample_locks 0x100 0x7123 1 sample_cow = Some (Inr (), s') \<and>
     pd_dirs s' 0x100 = Some d' \<and> n \<notin> in_use (pm_alloc sample_cow) \<and> get_physical_address d' 0x7123 s' = n + 0x123"
proof -
  have own: "page_base ((page_entry 0x6000 PAGE_USER AND NOT PAGE_WRITABLE) OR PAGE_COW) \<in> in_use (pm_alloc sample_cow)"
    using sample_dir_ok(6) sample_cow_ok(4) cow_mark(2) by simp
  have "(0x7123 :: u64) AND (PAGE_SIZE_4K - 1) = 0x123" by code_simp
  then show ?thesis
    using cow_fault_private_copy [OF kernel_pages.page_provider_axioms sample_cow_ok(3) sample_addr(7) sample_cow_ok(1,2)
        sample_addr(3,4) sample_cow_ok(5) [folded sample_addr(5)] cow_mark(1) own, of sample_locks] sample_alloc_table
    by metis
qed

theorem cow_lifts_write_protection_witness:
  "\<not> has (page_entry 0x6000 PAGE_USER) PAGE_WRITABLE \<and>
   (\<exists>s' d' e'. handle_page_fault phys_page_ops sample_locks 0x100 0x7000 1 sample_cow = Some (Inr (), s') \<and>
     pd_dirs s' 0x100 = Some d' \<and> find_entry (pm_words s') (pml4_table d') (page_path 0x7000) = Some (e', []) \<and>
     has e' PAGE_WRITABLE)"
  using cow_lifts_write_protection [OF kernel_pages.page_provider_axioms sample_dir_ok(4) sample_addr(7) sample_dir_ok(1,3)
      sample_addr(3,4,1,2) sample_dir_ok(5,6) sample_cow_def, of sample_locks] sample_alloc_table sample_addr(6)
  by blast

end
