(* ===== verification/Message_Passing.thy ===== *)
theory Message_Passing
  imports Ipc_Sync Message_Format
begin

text \<open>
  The message queues of \<^verbatim>\<open>kernel/message.c\<close>: a pool of queues, each with four linked lists
  of messages, one per priority, on top of the mutexes and semaphores of \<^verbatim>\<open>kernel/ipc.c\<close>. A
  handle is the index of a pool slot, \<^const>\<open>None\<close> for \<^verbatim>\<open>NULL\<close>. Every use of
  \<^verbatim>\<open>queue->...\<close> reads the slot at that moment, so a call that was suspended sees what happened
  meanwhile. \<^verbatim>\<open>kfree\<close> does nothing in this kernel, so a freed node stays readable. The static
  function \<^verbatim>\<open>destroy_message_queue\<close> and the public one have the same name in the source; the
  public one is \<open>destroy_message_queue_handle\<close>.
\<close>

section \<open>Data\<close>

definition MAX_MESSAGE_QUEUES :: nat where "MAX_MESSAGE_QUEUES = 32"
definition MSG_QUEUE_FLAG_PRIVATE :: u32 where "MSG_QUEUE_FLAG_PRIVATE = 1"

text \<open>A message and the pointer to the next node.\<close>

definition SIZEOF_MESSAGE_NODE :: u64 where "SIZEOF_MESSAGE_NODE = SIZEOF_MESSAGE + 8"

record message_node =
  mn_message :: message
  mn_next :: ptr

record message_queue =
  mq_header :: ipc_object_header
  mq_mutex :: "nat option"
  mq_free_slots :: "nat option"
  mq_used_slots :: "nat option"
  mq_owner :: pid_t
  mq_max_messages :: u32
  mq_message_count :: u32
  mq_flags :: u32
  mq_head :: "ptr list"
  mq_tail :: "ptr list"
  mq_messages_sent :: u64
  mq_messages_received :: u64

record msgs = ipc +
  message_queue_pool :: "message_queue list"
  message_queue_count :: u32
  next_message_id :: u32
  message_nodes :: "ptr \<rightharpoonup> message_node"

definition zero_message_queue :: message_queue where
  "zero_message_queue =
     \<lparr>mq_header = zero_header, mq_mutex = None, mq_free_slots = None, mq_used_slots = None, mq_owner = 0,
      mq_max_messages = 0, mq_message_count = 0, mq_flags = 0, mq_head = replicate 4 NULL,
      mq_tail = replicate 4 NULL, mq_messages_sent = 0, mq_messages_received = 0\<rparr>"

definition set_queue :: "nat \<Rightarrow> message_queue \<Rightarrow> 'z msgs_scheme \<Rightarrow> 'z msgs_scheme" where
  "set_queue i q s = s\<lparr>message_queue_pool := (message_queue_pool s)[i := q]\<rparr>"

abbreviation queue_of :: "nat \<Rightarrow> 'z msgs_scheme \<Rightarrow> message_queue" where
  "queue_of i s \<equiv> message_queue_pool s ! i"

text \<open>The test \<^verbatim>\<open>!queue || queue->header.type != IPC_TYPE_MESSAGE_QUEUE\<close>; the slot if it passes.\<close>

definition queue_at :: "nat option \<Rightarrow> 'z msgs_scheme \<Rightarrow> nat option" where
  "queue_at h s =
     (case h of
        None \<Rightarrow> None
      | Some i \<Rightarrow> if i < length (message_queue_pool s) \<and> hdr_type (mq_header (queue_of i s)) = IPC_TYPE_MESSAGE_QUEUE
                 then Some i else None)"

section \<open>Creating and destroying queues\<close>

definition find_free_message_queue :: "'z msgs_scheme \<Rightarrow> nat option" where
  "find_free_message_queue s = scan_from (\<lambda>q. hdr_type (mq_header q) = 0) (message_queue_pool s) 0"

text \<open>
  What happens when one of the three objects could not be created: those that were are destroyed
  (\<^verbatim>\<open>destroy_mutex\<close> and \<^verbatim>\<open>destroy_semaphore\<close> ignore \<^verbatim>\<open>NULL\<close>) and the slot is
  cleared.
\<close>

definition undo_create ::
    "nat \<Rightarrow> nat option \<Rightarrow> nat option \<Rightarrow> nat option \<Rightarrow> 'z msgs_scheme \<Rightarrow> 'z msgs_scheme option" where
  "undo_create i m f u s =
     Option.bind (if m \<noteq> None then destroy_mutex m s else Some s) (\<lambda>s1.
     Option.bind (if f \<noteq> None then destroy_semaphore f s1 else Some s1) (\<lambda>s2.
     Option.bind (if u \<noteq> None then destroy_semaphore u s2 else Some s2) (\<lambda>s3.
     Some (set_queue i zero_message_queue s3))))"

definition create_message_queue ::
    "string \<Rightarrow> u32 \<Rightarrow> 'z msgs_scheme \<Rightarrow> (nat option \<times> 'z msgs_scheme) option" where
  "create_message_queue name max_messages s =
     (if max_messages = 0 \<or> max_messages > 1000 then Some (None, s)
      else case find_free_message_queue s of
        None \<Rightarrow> Some (None, s)
      | Some i \<Rightarrow>
          let s1 = set_queue i ((queue_of i s)\<lparr>mq_header := new_header IPC_TYPE_MESSAGE_QUEUE name destroy_message_queue_fn\<rparr>) s;
              (m, s2) = create_mutex (suffixed name ''_mutex'') s1;
              (f, s3) = create_semaphore (suffixed name ''_free'') max_messages s2;
              (u, s4) = create_semaphore (suffixed name ''_used'') 0 s3
          in if m = None \<or> f = None \<or> u = None
             then map_option (\<lambda>s5. (None, s5)) (undo_create i m f u s4)
             else case get_current_pid (k_sched s4) of
                    None \<Rightarrow> None
                  | Some pid \<Rightarrow>
                      Some (Some i, (set_queue i
                        ((queue_of i s4)\<lparr>mq_mutex := m, mq_free_slots := f, mq_used_slots := u, mq_owner := pid,
                           mq_max_messages := max_messages, mq_message_count := 0, mq_flags := 0,
                           mq_head := replicate 4 NULL, mq_tail := replicate 4 NULL,
                           mq_messages_sent := 0, mq_messages_received := 0\<rparr>) s4)
                        \<lparr>message_queue_count := message_queue_count s4 + 1\<rparr>))"

text \<open>A node from the heap, cleared, and its way back.\<close>

definition zero_message :: message where
  "zero_message = \<lparr>m_id = 0, m_sender = 0, m_receiver = 0, m_type = 0, m_priority = 0, m_flags = 0, m_size = 0,
                   m_reply_id = 0, m_timestamp = 0, m_payload = replicate (unat MAX_MESSAGE_SIZE) 0\<rparr>"

definition allocate_message_node :: "'z msgs_scheme \<Rightarrow> ptr \<times> 'z msgs_scheme" where
  "allocate_message_node s =
     (let (p, h) = kmalloc SIZEOF_MESSAGE_NODE (sc_heap (k_sched s));
          s1 = s\<lparr>k_sched := (k_sched s)\<lparr>sc_heap := h\<rparr>\<rparr>
      in if p = NULL then (NULL, s1)
         else (p, s1\<lparr>message_nodes := (message_nodes s1)(p \<mapsto> \<lparr>mn_message = zero_message, mn_next = NULL\<rparr>)\<rparr>))"

definition free_message_node :: "ptr \<Rightarrow> 'z msgs_scheme \<Rightarrow> 'z msgs_scheme" where
  "free_message_node p s =
     (if p \<noteq> NULL then s\<lparr>k_sched := (k_sched s)\<lparr>sc_heap := kfree p (sc_heap (k_sched s))\<rparr>\<rparr> else s)"

partial_function (option) free_message_list :: "ptr \<Rightarrow> 'z msgs_scheme \<Rightarrow> 'z msgs_scheme option" where
  "free_message_list cur s =
     (if cur = NULL then Some s
      else case message_nodes s cur of
             None \<Rightarrow> None
           | Some n \<Rightarrow> free_message_list (mn_next n) (free_message_node cur s))"

definition free_priority :: "nat \<Rightarrow> nat \<Rightarrow> 'z msgs_scheme \<Rightarrow> 'z msgs_scheme option" where
  "free_priority i priority s =
     Option.bind (free_message_list (mq_head (queue_of i s) ! priority) s) (\<lambda>s1.
       let q = queue_of i s1
       in Some (set_queue i (q\<lparr>mq_head := (mq_head q)[priority := NULL], mq_tail := (mq_tail q)[priority := NULL]\<rparr>) s1))"

definition destroy_message_queue :: "nat option \<Rightarrow> 'z msgs_scheme \<Rightarrow> ('z msgs_scheme, unit) run" where
  "destroy_message_queue h s =
     (case queue_at h s of
        None \<Rightarrow> Ret () s
      | Some i \<Rightarrow>
          run_bind (mutex_lock (mq_mutex (queue_of i s)) s) (\<lambda>_ s1.
          run_bind (run_step (for_all_slots (free_priority i) [0 ..< 4] s1)) (\<lambda>_ s2.
          run_bind (run_option (mutex_unlock (mq_mutex (queue_of i s2)) s2)) (\<lambda>_ s3.
          run_bind (run_step (destroy_mutex (mq_mutex (queue_of i s3)) s3)) (\<lambda>_ s4.
          run_bind (run_step (destroy_semaphore (mq_free_slots (queue_of i s4)) s4)) (\<lambda>_ s5.
          run_bind (run_step (destroy_semaphore (mq_used_slots (queue_of i s5)) s5)) (\<lambda>_ s6.
          Ret () ((set_queue i zero_message_queue s6)\<lparr>message_queue_count := message_queue_count s6 - 1\<rparr>))))))))"

definition destroy_message_queue_handle :: "nat option \<Rightarrow> 'z msgs_scheme \<Rightarrow> ('z msgs_scheme, unit) run" where
  "destroy_message_queue_handle h s =
     (case queue_at h s of
        None \<Rightarrow> Ret () s
      | Some i \<Rightarrow>
          (case get_current_pid (k_sched s) of
             None \<Rightarrow> Stuck
           | Some pid \<Rightarrow> if mq_owner (queue_of i s) \<noteq> pid then Ret () s else destroy_message_queue h s))"

section \<open>Sending and receiving\<close>

definition level_of :: "u32 \<Rightarrow> nat" where
  "level_of priority = unat (if priority > MESSAGE_PRIORITY_URGENT then MESSAGE_PRIORITY_NORMAL else priority)"

text \<open>Appending the node at \<open>p\<close> to a priority list, with the counters.\<close>

definition link_node :: "nat \<Rightarrow> nat \<Rightarrow> ptr \<Rightarrow> 'z msgs_scheme \<Rightarrow> 'z msgs_scheme option" where
  "link_node i priority p s =
     (let q = queue_of i s; t = mq_tail q ! priority;
          count = (\<lambda>q. q\<lparr>mq_message_count := mq_message_count q + 1, mq_messages_sent := mq_messages_sent q + 1\<rparr>)
      in if t \<noteq> NULL
         then case message_nodes s t of
                None \<Rightarrow> None
              | Some n \<Rightarrow> Some (set_queue i (count (q\<lparr>mq_tail := (mq_tail q)[priority := p]\<rparr>))
                              (s\<lparr>message_nodes := (message_nodes s)(t \<mapsto> n\<lparr>mn_next := p\<rparr>)\<rparr>))
         else Some (set_queue i (count (q\<lparr>mq_head := (mq_head q)[priority := p], mq_tail := (mq_tail q)[priority := p]\<rparr>)) s))"

definition enqueue_message :: "nat \<Rightarrow> message \<Rightarrow> 'z msgs_scheme \<Rightarrow> ('z msgs_scheme, int) run" where
  "enqueue_message i msg s =
     (let (p, s1) = allocate_message_node s in
      if p = NULL then Ret (- 1) s1
      else
        let s2 = s1\<lparr>message_nodes := (message_nodes s1)(p \<mapsto> \<lparr>mn_message = msg, mn_next = NULL\<rparr>)\<rparr> in
        run_bind (mutex_lock (mq_mutex (queue_of i s2)) s2) (\<lambda>_ s3.
        run_bind (run_step (link_node i (level_of (m_priority msg)) p s3)) (\<lambda>_ s4.
        run_bind (run_option (mutex_unlock (mq_mutex (queue_of i s4)) s4)) (\<lambda>_ s5.
        run_bind (run_option (semaphore_post (mq_used_slots (queue_of i s5)) s5)) (\<lambda>_ s6.
        Ret 0 s6)))))"

text \<open>
  The loop from the highest priority down: the node it takes out, or \<^const>\<open>NULL\<close>, and the queue
  afterwards. \<^const>\<open>None\<close> when a head points to no node.
\<close>

fun unlink_first :: "(ptr \<rightharpoonup> message_node) \<Rightarrow> nat list \<Rightarrow> message_queue \<Rightarrow> (ptr \<times> message_queue) option" where
  "unlink_first h [] q = Some (NULL, q)"
| "unlink_first h (priority # ps) q =
     (let p = mq_head q ! priority in
      if p \<noteq> NULL
      then case h p of
             None \<Rightarrow> None
           | Some n \<Rightarrow>
               let q1 = q\<lparr>mq_head := (mq_head q)[priority := mn_next n]\<rparr>
               in Some (p, if mn_next n = NULL then q1\<lparr>mq_tail := (mq_tail q1)[priority := NULL]\<rparr> else q1)
      else unlink_first h ps q)"

text \<open>The result and, when it is 0, the message stored through the pointer.\<close>

definition dequeue_message :: "nat \<Rightarrow> 'z msgs_scheme \<Rightarrow> ('z msgs_scheme, int \<times> message option) run" where
  "dequeue_message i s =
     run_bind (mutex_lock (mq_mutex (queue_of i s)) s) (\<lambda>_ s1.
       case unlink_first (message_nodes s1) [3, 2, 1, 0] (queue_of i s1) of
         None \<Rightarrow> Stuck
       | Some (p, q) \<Rightarrow>
           if p = NULL
           then run_bind (run_option (mutex_unlock (mq_mutex q) s1)) (\<lambda>_ s2. Ret (- 1, None) s2)
           else case message_nodes s1 p of
                  None \<Rightarrow> Stuck
                | Some n \<Rightarrow>
                    let s2 = set_queue i (q\<lparr>mq_message_count := mq_message_count q - 1,
                                           mq_messages_received := mq_messages_received q + 1\<rparr>) s1 in
                    run_bind (run_option (mutex_unlock (mq_mutex (queue_of i s2)) s2)) (\<lambda>_ s3.
                    run_bind (run_option (semaphore_post (mq_free_slots (queue_of i s3)) (free_message_node p s3))) (\<lambda>_ s4.
                    Ret (0, Some (mn_message n)) s4)))"

text \<open>\<^verbatim>\<open>semaphore_wait\<close> or \<^verbatim>\<open>semaphore_trywait\<close>, depending on the flags\<close>

definition take_unit :: "u32 \<Rightarrow> nat option \<Rightarrow> 'z msgs_scheme \<Rightarrow> ('z msgs_scheme, int) run" where
  "take_unit flags sem s =
     (if flags AND MESSAGE_FLAG_BLOCKING \<noteq> 0 then semaphore_wait sem s
      else let (r, s1) = semaphore_trywait sem s in Ret r s1)"

text \<open>The header fields that a send fills in.\<close>

definition stamp :: "message \<Rightarrow> 'z msgs_scheme \<Rightarrow> (message \<times> 'z msgs_scheme) option" where
  "stamp msg s =
     (case get_current_pid (k_sched s) of
        None \<Rightarrow> None
      | Some pid \<Rightarrow> Some (msg\<lparr>m_sender := pid, m_id := next_message_id s, m_timestamp := get_tick_count (k_sched s)\<rparr>,
                         s\<lparr>next_message_id := next_message_id s + 1\<rparr>))"

text \<open>A message argument \<^const>\<open>None\<close> is a null pointer.\<close>

definition send_message :: "nat option \<Rightarrow> message option \<Rightarrow> u32 \<Rightarrow> 'z msgs_scheme \<Rightarrow> ('z msgs_scheme, int) run" where
  "send_message h msg flags s =
     (case (queue_at h s, msg) of
        (Some i, Some m) \<Rightarrow>
          (case stamp m s of
             None \<Rightarrow> Stuck
           | Some (m1, s1) \<Rightarrow>
               run_bind (take_unit flags (mq_free_slots (queue_of i s1)) s1) (\<lambda>r s2.
                 if r \<noteq> 0 then Ret (- 1) s2 else enqueue_message i m1 s2))
      | _ \<Rightarrow> Ret (- 1) s)"

text \<open>The test for a private queue; \<^const>\<open>None\<close> when there is no current task to compare with.\<close>

definition may_receive :: "nat \<Rightarrow> 'z msgs_scheme \<Rightarrow> bool option" where
  "may_receive i s =
     (if mq_flags (queue_of i s) AND MSG_QUEUE_FLAG_PRIVATE \<noteq> 0
      then map_option (\<lambda>pid. mq_owner (queue_of i s) = pid) (get_current_pid (k_sched s))
      else Some True)"

definition receive_message ::
    "nat option \<Rightarrow> bool \<Rightarrow> u32 \<Rightarrow> 'z msgs_scheme \<Rightarrow> ('z msgs_scheme, int \<times> message option) run" where
  "receive_message h message_ptr flags s =
     (case queue_at h s of
        None \<Rightarrow> Ret (- 1, None) s
      | Some i \<Rightarrow>
          if \<not> message_ptr then Ret (- 1, None) s
          else case may_receive i s of
                 None \<Rightarrow> Stuck
               | Some False \<Rightarrow> Ret (- 1, None) s
               | Some True \<Rightarrow>
                   run_bind (take_unit flags (mq_used_slots (queue_of i s)) s) (\<lambda>r s1.
                     if r \<noteq> 0 then Ret (- 1, None) s1 else dequeue_message i s1))"

text \<open>The result and the reply as it was filled in; it is sent nowhere.\<close>

definition reply_to_message ::
    "message option \<Rightarrow> message option \<Rightarrow> 'z msgs_scheme \<Rightarrow> ((int \<times> message option) \<times> 'z msgs_scheme) option" where
  "reply_to_message original reply s =
     (case (original, reply) of
        (Some m, Some r) \<Rightarrow>
          Option.bind (stamp (r\<lparr>m_receiver := m_sender m\<rparr>) s) (\<lambda>(r1, s1).
            Some ((0, Some (r1\<lparr>m_type := MESSAGE_TYPE_RESPONSE\<rparr>)), s1))
      | _ \<Rightarrow> Some ((- 1, reply), s))"

section \<open>Cleanup and initialisation\<close>

primrec cleanup_slots :: "pid_t \<Rightarrow> nat list \<Rightarrow> 'z msgs_scheme \<Rightarrow> ('z msgs_scheme, unit) run" where
  "cleanup_slots pid [] s = Ret () s"
| "cleanup_slots pid (i # is) s =
     run_bind (if hdr_type (mq_header (queue_of i s)) = IPC_TYPE_MESSAGE_QUEUE \<and> mq_owner (queue_of i s) = pid
               then destroy_message_queue_handle (Some i) s else Ret () s)
       (\<lambda>_ s1. cleanup_slots pid is s1)"

definition cleanup_task_message_queues :: "pid_t \<Rightarrow> 'z msgs_scheme \<Rightarrow> ('z msgs_scheme, unit) run" where
  "cleanup_task_message_queues pid s = cleanup_slots pid [0 ..< MAX_MESSAGE_QUEUES] s"

definition init_message_system :: "'z msgs_scheme \<Rightarrow> 'z msgs_scheme" where
  "init_message_system s =
     s\<lparr>message_queue_pool := replicate MAX_MESSAGE_QUEUES zero_message_queue, message_queue_count := 0,
       next_message_id := 1\<rparr>"

end
