(* ===== verification/Message_Passing_Props.thy ===== *)
theory Message_Passing_Props
  imports Message_Passing Ipc_Sync_Props "HOL-Library.Multiset"
begin

text \<open>
  The queues of \<^verbatim>\<open>kernel/message.c\<close> against a specification: four lists of messages, a
  capacity, and the memory left. Sending appends to the list of the message's priority, receiving
  takes the first message of the highest non-empty one. A send that gets no memory loses a place of
  the queue for good, which the specification counts.
\<close>

section \<open>Specification\<close>

record queue_spec =
  qs_levels :: "message list list"
  qs_lost :: nat
  qs_next_id :: u32
  qs_memory :: nat

definition NODE_BYTES :: nat where "NODE_BYTES = 1072"

definition spec_send :: "nat \<Rightarrow> pid_t \<Rightarrow> u64 \<Rightarrow> message \<Rightarrow> queue_spec \<Rightarrow> int \<times> queue_spec" where
  "spec_send capacity pid now m q =
     (let m1 = m\<lparr>m_sender := pid, m_id := qs_next_id q, m_timestamp := now\<rparr>;
          q1 = q\<lparr>qs_next_id := qs_next_id q + 1\<rparr>;
          k = level_of (m_priority m)
      in if length (concat (qs_levels q)) + qs_lost q \<ge> capacity then (- 1, q1)
         else if qs_memory q < NODE_BYTES then (- 1, q1\<lparr>qs_lost := qs_lost q + 1\<rparr>)
         else (0, q1\<lparr>qs_levels := (qs_levels q)[k := qs_levels q ! k @ [m1]], qs_memory := qs_memory q - NODE_BYTES\<rparr>))"

definition spec_receive :: "queue_spec \<Rightarrow> (int \<times> message option) \<times> queue_spec" where
  "spec_receive q =
     (case filter (\<lambda>k. qs_levels q ! k \<noteq> []) [3, 2, 1, 0] of
        [] \<Rightarrow> ((- 1, None), q)
      | k # _ \<Rightarrow> ((0, Some (hd (qs_levels q ! k))), q\<lparr>qs_levels := (qs_levels q)[k := tl (qs_levels q ! k)]\<rparr>))"

section \<open>Linked lists of messages\<close>

fun nseg :: "(ptr \<rightharpoonup> message_node) \<Rightarrow> ptr list \<Rightarrow> message list \<Rightarrow> bool" where
  "nseg h [] ms \<longleftrightarrow> ms = []"
| "nseg h (p # ps) ms \<longleftrightarrow>
     p \<noteq> NULL \<and> ms \<noteq> [] \<and> h p = Some \<lparr>mn_message = hd ms, mn_next = head_or NULL ps\<rparr> \<and> nseg h ps (tl ms)"

lemma nseg_cong: "(\<forall>p \<in> set ps. h' p = h p) \<Longrightarrow> nseg h' ps ms = nseg h ps ms"
  by (induction ps arbitrary: ms) auto

lemma nseg_length: "nseg h ps ms \<Longrightarrow> length ps = length ms"
  by (induction ps arbitrary: ms) (auto simp: Suc_length_conv neq_Nil_conv)

lemma nseg_mem: "nseg h ps ms \<Longrightarrow> p \<in> set ps \<Longrightarrow> p \<noteq> NULL \<and> (\<exists>n. h p = Some n)"
  by (induction ps arbitrary: ms) auto

lemma nseg_snoc:
  assumes "nseg h ps ms" "distinct ps" "p \<notin> set ps" "p \<noteq> NULL" "h p = Some \<lparr>mn_message = m, mn_next = NULL\<rparr>"
    and "ps \<noteq> []" "h (last ps) = Some v"
  shows "nseg (h(last ps \<mapsto> v\<lparr>mn_next := p\<rparr>)) (ps @ [p]) (ms @ [m])"
  using assms
proof (induction ps arbitrary: ms)
  case (Cons x ps)
  show ?case
  proof (cases "ps = []")
    case True
    with Cons.prems show ?thesis by (cases ms) auto
  next
    case False
    then have l: "last (x # ps) = last ps" "x \<noteq> last ps" using Cons.prems(2) by auto
    have "nseg (h(last ps \<mapsto> v\<lparr>mn_next := p\<rparr>)) (ps @ [p]) (tl ms @ [m])"
      using Cons False l by (intro Cons.IH) auto
    with False l(2) Cons.prems show ?thesis unfolding l(1) by (simp add: head_or_def fun_upd_def)
  qed
qed simp

section \<open>Representation\<close>

text \<open>The mutex and the two semaphores of a queue while no task uses them.\<close>

definition mutex_free :: "nat \<Rightarrow> 'z ipc_scheme \<Rightarrow> bool" where
  "mutex_free m s \<longleftrightarrow> mutex_at (Some m) s = Some m \<and> mx_owner (mutex_pool s ! m) = 0 \<and>
     mx_lock_count (mutex_pool s ! m) = 0 \<and> wq_waiter_count (mx_wait_queue (mutex_pool s ! m)) = 0"

definition sem_idle :: "nat \<Rightarrow> nat \<Rightarrow> 'z ipc_scheme \<Rightarrow> bool" where
  "sem_idle f v s \<longleftrightarrow> semaphore_at (Some f) s = Some f \<and> sm_value (semaphore_pool s ! f) = of_nat v \<and>
     sm_max_value (semaphore_pool s ! f) = 0x7FFFFFFF \<and> wq_waiter_count (sm_wait_queue (semaphore_pool s ! f)) = 0"

text \<open>A task runs with interrupts enabled.\<close>

definition running :: "pid_t \<Rightarrow> u64 \<Rightarrow> 'z kstate_scheme \<Rightarrow> bool" where
  "running pid now s \<longleftrightarrow> get_current_pid (k_sched s) = Some pid \<and> pid \<noteq> 0 \<and> interrupts_on (k_sched s) \<and>
     tick_count (k_sched s) = now"

definition levels_rep :: "ptr list \<Rightarrow> ptr list \<Rightarrow> (ptr \<rightharpoonup> message_node) \<Rightarrow> u64 \<Rightarrow> ptr list list \<Rightarrow> message list list \<Rightarrow> bool" where
  "levels_rep hds tls h bound pss lss \<longleftrightarrow>
     length hds = 4 \<and> length tls = 4 \<and> length pss = 4 \<and> length lss = 4 \<and>
     (\<forall>k < 4. hds ! k = head_or NULL (pss ! k) \<and> tls ! k = last_or NULL (pss ! k) \<and> nseg h (pss ! k) (lss ! k)) \<and>
     distinct (concat pss) \<and> (\<forall>p \<in> set (concat pss). p < bound)"

definition sync_rep :: "nat \<Rightarrow> nat \<Rightarrow> nat \<Rightarrow> 'z msgs_scheme \<Rightarrow> bool" where
  "sync_rep i free used s \<longleftrightarrow>
     (\<exists>m f u. mq_mutex (queue_of i s) = Some m \<and> mq_free_slots (queue_of i s) = Some f \<and>
        mq_used_slots (queue_of i s) = Some u \<and> f \<noteq> u \<and> mutex_free m s \<and> sem_idle f free s \<and> sem_idle u used s)"

definition store_rep :: "nat \<Rightarrow> message list list \<Rightarrow> 'z msgs_scheme \<Rightarrow> bool" where
  "store_rep i lss s \<longleftrightarrow>
     kheap_inv (sc_heap (k_sched s)) \<and>
     (\<exists>pss. levels_rep (mq_head (queue_of i s)) (mq_tail (queue_of i s)) (message_nodes s)
        (next_addr (sc_heap (k_sched s))) pss lss)"

definition mq_rep :: "nat \<Rightarrow> nat \<Rightarrow> queue_spec \<Rightarrow> 'z msgs_scheme \<Rightarrow> bool" where
  "mq_rep i capacity qs s \<longleftrightarrow>
     queue_at (Some i) s = Some i \<and> capacity \<le> 1000 \<and> mq_flags (queue_of i s) = 0 \<and>
     length (concat (qs_levels qs)) + qs_lost qs \<le> capacity \<and>
     sync_rep i (capacity - length (concat (qs_levels qs)) - qs_lost qs) (length (concat (qs_levels qs))) s \<and>
     store_rep i (qs_levels qs) s \<and> memory_left s = qs_memory qs \<and> next_message_id s = qs_next_id qs"

section \<open>Locks and semaphores without contention\<close>

lemma mutex_idle_running: "mutex_free m s \<Longrightarrow> running pid now s \<Longrightarrow> mutex_idle (Some m) pid s"
  by (simp add: mutex_free_def running_def mutex_idle_def)

lemmas lock_running = mutex_idle_running [THEN lock_idle]
lemmas unlock_running = mutex_idle_running [THEN unlock_idle]

lemma sti_add_value: "interrupts_on (k_sched s) \<Longrightarrow> sti (add_value f d (cli s)) = add_value f d s"
  by (cases s; cases "k_sched s") (simp add: sti_def cli_def add_value_def set_semaphore_def)

lemma trywait_idle:
  assumes "sem_idle f v s" "running pid now s" "v \<le> 1000"
  shows "semaphore_trywait (Some f) s = (if v = 0 then (- 1, s) else (0, add_value f (- 1) s))"
proof -
  have "sint (of_nat v :: 32 word) = int v"
    using assms(3) by (subst sint_nonneg) (simp_all add: word_le_nat_alt unat_of_nat uint_nat)
  with assms show ?thesis
    by (auto simp: semaphore_trywait_def sem_idle_def running_def Let_def sti_add_value sti_cli)
qed

lemma post_idle:
  assumes "sem_idle f v s" "running pid now s" "v \<le> 1000"
  shows "semaphore_post (Some f) s = Some (0, add_value f 1 s)"
proof -
  have "(of_nat v :: 32 word) \<noteq> 0x7FFFFFFF"
    using assms(3) by (auto simp: word_unat_eq_iff unat_of_nat)
  with assms show ?thesis
    by (auto simp: semaphore_post_def sem_idle_def running_def Let_def sti_add_value)
qed

section \<open>Updates of a family of lists\<close>

lemma mset_concat_update:
  "k < length xss \<Longrightarrow> mset (concat (xss[k := ys])) + mset (xss ! k) = mset (concat xss) + mset ys"
proof -
  assume k: "k < length xss"
  have "concat xss = concat (take k xss) @ xss ! k @ concat (drop (Suc k) xss)"
    by (subst id_take_nth_drop [OF k]) simp
  moreover have "concat (xss[k := ys]) = concat (take k xss) @ ys @ concat (drop (Suc k) xss)"
    by (subst upd_conv_take_nth_drop [OF k]) simp
  ultimately show ?thesis by simp
qed

lemma concat_snoc:
  assumes "k < length xss"
  shows "mset (concat (xss[k := xss ! k @ [p]])) = mset (p # concat xss)"
  using mset_concat_update [OF assms, of "xss ! k @ [p]"] by simp

lemma concat_tl:
  assumes "k < length xss" "xss ! k = p # ps"
  shows "mset (concat xss) = mset (p # concat (xss[k := ps]))"
  using mset_concat_update [OF assms(1), of ps] assms(2) by simp

lemma distinct_concat_nth:
  "distinct (concat xss) \<Longrightarrow> j < length xss \<Longrightarrow> k < length xss \<Longrightarrow> j \<noteq> k \<Longrightarrow> set (xss ! j) \<inter> set (xss ! k) = {}"
proof (induction xss arbitrary: j k)
  case (Cons xs xss)
  have d: "set xs \<inter> set (xss ! n) = {}" if "n < length xss" for n
    using Cons.prems(1) that by (auto dest: nth_mem)
  show ?case using Cons d by (cases j; cases k) auto
qed simp

lemma levels_empty:
  assumes "levels_rep hds tls h bound pss lss" "k < 4"
  shows "pss ! k = [] \<longleftrightarrow> lss ! k = []" "hds ! k = NULL \<longleftrightarrow> lss ! k = []" "tls ! k = NULL \<longleftrightarrow> lss ! k = []"
proof -
  have r: "hds ! k = head_or NULL (pss ! k)" "tls ! k = last_or NULL (pss ! k)" "nseg h (pss ! k) (lss ! k)"
    using assms by (auto simp: levels_rep_def)
  show e: "pss ! k = [] \<longleftrightarrow> lss ! k = []" using nseg_length [OF r(3)] by auto
  have "hd (pss ! k) \<noteq> NULL" "last (pss ! k) \<noteq> NULL" if "pss ! k \<noteq> []"
    using nseg_mem [OF r(3)] that by auto
  then show "hds ! k = NULL \<longleftrightarrow> lss ! k = []" "tls ! k = NULL \<longleftrightarrow> lss ! k = []"
    using r(1,2) e by (auto simp: head_or_def last_or_def)
qed

lemma levels_append:
  assumes r: "levels_rep hds tls h bound pss lss" and k: "k < 4"
    and p: "p \<noteq> NULL" "bound \<le> p" "p < bound'"
    and h': "h' = h(p \<mapsto> \<lparr>mn_message = m, mn_next = NULL\<rparr>)"
  shows "tls ! k = NULL \<Longrightarrow> levels_rep (hds[k := p]) (tls[k := p]) h' bound' (pss[k := pss ! k @ [p]]) (lss[k := lss ! k @ [m]])"
    "tls ! k \<noteq> NULL \<Longrightarrow> \<exists>v. h' (tls ! k) = Some v \<and> levels_rep hds (tls[k := p]) (h'(tls ! k \<mapsto> v\<lparr>mn_next := p\<rparr>)) bound'
        (pss[k := pss ! k @ [p]]) (lss[k := lss ! k @ [m]])"
proof -
  have len: "length hds = 4" "length tls = 4" "length pss = 4" "length lss = 4"
    and lv: "\<And>j. j < 4 \<Longrightarrow> hds ! j = head_or NULL (pss ! j) \<and> tls ! j = last_or NULL (pss ! j) \<and> nseg h (pss ! j) (lss ! j)"
    and d: "distinct (concat pss)" and b: "\<And>x. x \<in> set (concat pss) \<Longrightarrow> x < bound"
    using r by (auto simp: levels_rep_def)
  have in_concat: "x \<in> set (concat pss)" if "j < 4" "x \<in> set (pss ! j)" for x j
    using that len(3) by (auto intro: nth_mem)
  have fresh: "p \<notin> set (concat pss)" using b p(2) by (metis leD)
  have fr: "p \<notin> set (pss ! j)" if "j < 4" for j using in_concat [OF that] fresh by blast
  have dk: "distinct (pss ! k)" using d k len(3) by (auto simp: distinct_concat_iff)
  have "mset (concat (pss[k := pss ! k @ [p]])) = mset (p # concat pss)" using concat_snoc [of k pss p] k len(3) by simp
  from mset_eq_imp_distinct_iff [OF this] mset_eq_setD [OF this] d fresh
  have d': "distinct (concat (pss[k := pss ! k @ [p]]))" "set (concat (pss[k := pss ! k @ [p]])) = insert p (set (concat pss))"
    by (simp_all only: distinct.simps(2) list.set(2)) simp
  have b': "\<forall>x \<in> set (concat (pss[k := pss ! k @ [p]])). x < bound'"
    using d'(2) b p by (metis insert_iff less_trans order_le_less_trans)
  have seg': "nseg h' (pss ! j) (lss ! j)" if "j < 4" for j
    using lv [OF that] fr [OF that] by (subst nseg_cong [of _ _ h]) (auto simp: h')
  show "levels_rep (hds[k := p]) (tls[k := p]) h' bound' (pss[k := pss ! k @ [p]]) (lss[k := lss ! k @ [m]])" if z: "tls ! k = NULL"
  proof -
    have e: "pss ! k = []" "lss ! k = []" using levels_empty [OF r k] z by auto
    have "(hds[k := p]) ! j = head_or NULL ((pss[k := [p]]) ! j) \<and> (tls[k := p]) ! j = last_or NULL ((pss[k := [p]]) ! j) \<and>
        nseg h' ((pss[k := [p]]) ! j) ((lss[k := [m]]) ! j)" if "j < 4" for j
      using lv [OF that] seg' [OF that] len k p(1) by (cases "j = k") (auto simp: h')
    with d' b' len e show ?thesis by (simp add: levels_rep_def)
  qed
  show "\<exists>v. h' (tls ! k) = Some v \<and> levels_rep hds (tls[k := p]) (h'(tls ! k \<mapsto> v\<lparr>mn_next := p\<rparr>)) bound'
        (pss[k := pss ! k @ [p]]) (lss[k := lss ! k @ [m]])" if nz: "tls ! k \<noteq> NULL"
  proof -
    have ne: "pss ! k \<noteq> []" and t: "tls ! k = last (pss ! k)" using lv [OF k] nz by (auto simp: last_or_def split: if_splits)
    then have tin: "tls ! k \<in> set (pss ! k)" by simp
    then obtain v where v: "h' (tls ! k) = Some v" using nseg_mem [OF seg' [OF k]] by blast
    let ?h = "h'(tls ! k \<mapsto> v\<lparr>mn_next := p\<rparr>)"
    have sk: "nseg ?h (pss ! k @ [p]) (lss ! k @ [m])"
      using nseg_snoc [OF seg' [OF k] dk fr [OF k] p(1) _ ne, of m v] v t by (simp add: h')
    have sj: "nseg ?h (pss ! j) (lss ! j)" if "j < 4" "j \<noteq> k" for j
      using seg' [OF that(1)] distinct_concat_nth [OF d, of j k] that k len(3) tin
      by (subst nseg_cong [of _ _ h']) auto
    have "hds ! j = head_or NULL ((pss[k := pss ! k @ [p]]) ! j) \<and> (tls[k := p]) ! j = last_or NULL ((pss[k := pss ! k @ [p]]) ! j) \<and>
        nseg ?h ((pss[k := pss ! k @ [p]]) ! j) ((lss[k := lss ! k @ [m]]) ! j)" if "j < 4" for j
      using lv [OF that] sk sj [OF that] len k ne by (cases "j = k") (auto simp: head_or_def)
    with d' b' len v show ?thesis by (auto simp: levels_rep_def)
  qed
qed

lemma levels_remove:
  assumes r: "levels_rep hds tls h bound pss lss" and k: "k < 4" and ne: "lss ! k \<noteq> []"
  obtains n pss' where "h (hds ! k) = Some n" "mn_message n = hd (lss ! k)"
    "levels_rep (hds[k := mn_next n]) (if mn_next n = NULL then tls[k := NULL] else tls) h bound pss' (lss[k := tl (lss ! k)])"
proof -
  have len: "length hds = 4" "length tls = 4" "length pss = 4" "length lss = 4"
    and lv: "\<And>j. j < 4 \<Longrightarrow> hds ! j = head_or NULL (pss ! j) \<and> tls ! j = last_or NULL (pss ! j) \<and> nseg h (pss ! j) (lss ! j)"
    and d: "distinct (concat pss)" and b: "\<And>x. x \<in> set (concat pss) \<Longrightarrow> x < bound"
    using r by (auto simp: levels_rep_def)
  obtain p ps where ps: "pss ! k = p # ps" using levels_empty(1) [OF r k] ne by (cases "pss ! k") auto
  let ?n = "\<lparr>mn_message = hd (lss ! k), mn_next = head_or NULL ps\<rparr>"
  have n: "h (hds ! k) = Some ?n" "nseg h ps (tl (lss ! k))" using lv [OF k] ps by auto
  have z: "head_or NULL ps = NULL \<longleftrightarrow> ps = []"
    using nseg_mem [OF n(2), of "hd ps"] by (auto simp: head_or_def)
  have "mset (concat pss) = mset (p # concat (pss[k := ps]))" using concat_tl [of k pss p ps] k len(3) ps by simp
  from mset_eq_imp_distinct_iff [OF this] mset_eq_setD [OF this] d
  have d': "distinct (concat (pss[k := ps]))" "set (concat (pss[k := ps])) \<subseteq> set (concat pss)"
    by (simp_all only: distinct.simps(2) list.set(2)) auto
  have "(hds[k := head_or NULL ps]) ! j = head_or NULL ((pss[k := ps]) ! j) \<and>
      (if head_or NULL ps = NULL then tls[k := NULL] else tls) ! j = last_or NULL ((pss[k := ps]) ! j) \<and>
      nseg h ((pss[k := ps]) ! j) ((lss[k := tl (lss ! k)]) ! j)" if "j < 4" for j
    using lv [OF that] n(2) len k ps z by (cases "j = k") (auto simp: last_or_def)
  then have "levels_rep (hds[k := mn_next ?n]) (if mn_next ?n = NULL then tls[k := NULL] else tls) h bound (pss[k := ps]) (lss[k := tl (lss ! k)])"
    using d' b len by (auto simp: levels_rep_def)
  from that [OF n(1) _ this] show ?thesis by simp
qed

section \<open>The parts of a call\<close>

lemma queue_at_cong: "message_queue_pool s = message_queue_pool t \<Longrightarrow> queue_at h s = queue_at h t"
  by (simp add: queue_at_def split: option.split)

lemma mutex_free_cong: "mutex_pool s = mutex_pool t \<Longrightarrow> mutex_free m s = mutex_free m t"
  by (simp add: mutex_free_def mutex_at_def)

lemma sem_idle_cong: "semaphore_pool s = semaphore_pool t \<Longrightarrow> sem_idle f v s = sem_idle f v t"
  by (simp add: sem_idle_def semaphore_at_def)

lemma sem_idle_add:
  assumes "sem_idle f v s"
  shows "sem_idle g w s \<Longrightarrow> f \<noteq> g \<Longrightarrow> sem_idle g w (add_value f d s)"
    "of_nat v + d = of_nat v' \<Longrightarrow> sem_idle f v' (add_value f d s)"
  using assms by (auto simp: sem_idle_def add_value_def set_semaphore_def semaphore_at_def split: if_splits)

lemma add_value_simps [simp]:
  "mutex_pool (add_value f d s) = mutex_pool s" "k_sched (add_value f d s) = k_sched s"
  by (simp_all add: add_value_def set_semaphore_def)

lemma add_value_msgs [simp]:
  fixes s :: "'z msgs_scheme"
  shows "message_queue_pool (add_value f d s) = message_queue_pool s" "message_nodes (add_value f d s) = message_nodes s"
    "next_message_id (add_value f d s) = next_message_id s"
  by (simp_all add: add_value_def set_semaphore_def)

lemma held_msgs [simp]:
  fixes s :: "'z msgs_scheme"
  shows "message_queue_pool (held m pid n s) = message_queue_pool s" "message_nodes (held m pid n s) = message_nodes s"
  by (simp_all add: held_def set_mutex_def)

lemma set_queue_held: "set_queue i q (held m pid n s) = held m pid n (set_queue i q s)"
  by (simp add: set_queue_def held_def set_mutex_def)

lemma link_node_held: "link_node i k p (held m pid n s) = map_option (held m pid n) (link_node i k p s)"
proof -
  have "(held m pid n s)\<lparr>message_nodes := h\<rparr> = held m pid n (s\<lparr>message_nodes := h\<rparr>)" for h
    by (simp add: held_def set_mutex_def)
  then show ?thesis by (simp add: link_node_def Let_def set_queue_held split: option.split)
qed

lemma running_cong: "k_sched s = k_sched t \<Longrightarrow> running pid now s = running pid now t"
  by (simp add: running_def)

lemma level_of_less: "level_of pr < 4"
proof -
  have "unat (if pr > MESSAGE_PRIORITY_URGENT then MESSAGE_PRIORITY_NORMAL else pr) \<le> unat MESSAGE_PRIORITY_URGENT"
    by (simp add: MESSAGE_PRIORITY_NORMAL_def MESSAGE_PRIORITY_URGENT_def word_le_nat_alt not_less)
  then show ?thesis by (simp add: level_of_def MESSAGE_PRIORITY_URGENT_def)
qed

lemma node_size: "align16 SIZEOF_MESSAGE_NODE = 1072"
  by (simp add: align16_def SIZEOF_MESSAGE_NODE_def SIZEOF_MESSAGE_def)

lemma alloc_node_fails:
  assumes "kheap_inv (sc_heap (k_sched s))" "memory_left s < NODE_BYTES"
  shows "allocate_message_node s = (NULL, s)"
proof -
  have "kmalloc SIZEOF_MESSAGE_NODE (sc_heap (k_sched s)) = (NULL, sc_heap (k_sched s))"
    using assms(2) by (simp add: kmalloc_def node_size word_less_nat_alt NODE_BYTES_def)
  then show ?thesis by (simp add: allocate_message_node_def)
qed

lemma alloc_node_ok:
  assumes "kheap_inv (sc_heap (k_sched s))" "NODE_BYTES \<le> memory_left s"
  obtains h where "allocate_message_node s = (next_addr (sc_heap (k_sched s)),
      s\<lparr>k_sched := (k_sched s)\<lparr>sc_heap := h\<rparr>,
        message_nodes := (message_nodes s)(next_addr (sc_heap (k_sched s)) \<mapsto> \<lparr>mn_message = zero_message, mn_next = NULL\<rparr>)\<rparr>)"
    "kheap_inv h" "next_addr (sc_heap (k_sched s)) < next_addr h" "next_addr (sc_heap (k_sched s)) \<noteq> NULL"
    "unat (remaining h) = memory_left s - NODE_BYTES"
proof -
  let ?h = "sc_heap (k_sched s)"
  have nn: "next_addr ?h \<noteq> NULL" using assms(1) by (auto simp: kheap_inv_def HEAP_START_def)
  have "\<not> 1072 > remaining ?h" using assms(2) by (simp add: word_less_nat_alt NODE_BYTES_def)
  then obtain h where k: "kmalloc SIZEOF_MESSAGE_NODE ?h = (next_addr ?h, h)"
    by (simp add: kmalloc_def node_size Let_def)
  from kmalloc_Some [OF assms(1) k nn] have m: "kheap_inv h" "unat (next_addr h) = unat (next_addr ?h) + 1072"
    "unat (remaining h) = memory_left s - 1072" by (simp_all add: node_size)
  show ?thesis
    by (rule that [of h]) (use k nn m in \<open>simp_all add: allocate_message_node_def word_less_nat_alt NODE_BYTES_def\<close>)
qed

text \<open>Appending a new node under the lock.\<close>

lemma link_node_ok:
  assumes i: "i < length (message_queue_pool s)" and k: "k < 4"
    and r: "levels_rep (mq_head (queue_of i s)) (mq_tail (queue_of i s)) h bound pss lss"
    and p: "p \<noteq> NULL" "bound \<le> p" "p < bound'" "message_nodes s = h(p \<mapsto> \<lparr>mn_message = m, mn_next = NULL\<rparr>)"
  obtains q h' pss' where "link_node i k p s = Some (set_queue i q (s\<lparr>message_nodes := h'\<rparr>))"
    "levels_rep (mq_head q) (mq_tail q) h' bound' pss' (lss[k := lss ! k @ [m]])"
    "mq_header q = mq_header (queue_of i s)" "mq_mutex q = mq_mutex (queue_of i s)" "mq_free_slots q = mq_free_slots (queue_of i s)"
    "mq_used_slots q = mq_used_slots (queue_of i s)" "mq_flags q = mq_flags (queue_of i s)"
proof (cases "mq_tail (queue_of i s) ! k = NULL")
  case True
  note l = levels_append(1) [OF r k p(1-3) p(4) True]
  have "s = s\<lparr>message_nodes := message_nodes s\<rparr>" by simp
  then show ?thesis using True l
    by (intro that [of "(queue_of i s)\<lparr>mq_head := (mq_head (queue_of i s))[k := p], mq_tail := (mq_tail (queue_of i s))[k := p],
          mq_message_count := mq_message_count (queue_of i s) + 1, mq_messages_sent := mq_messages_sent (queue_of i s) + 1\<rparr>"
          "message_nodes s"]) (simp_all add: link_node_def Let_def)
next
  case False
  from levels_append(2) [OF r k p(1-3) p(4) False] obtain v where v: "message_nodes s (mq_tail (queue_of i s) ! k) = Some v"
    "levels_rep (mq_head (queue_of i s)) ((mq_tail (queue_of i s))[k := p])
       ((message_nodes s)(mq_tail (queue_of i s) ! k \<mapsto> v\<lparr>mn_next := p\<rparr>)) bound' (pss[k := pss ! k @ [p]]) (lss[k := lss ! k @ [m]])"
    by blast
  then show ?thesis using False
    by (intro that [of "(queue_of i s)\<lparr>mq_tail := (mq_tail (queue_of i s))[k := p],
          mq_message_count := mq_message_count (queue_of i s) + 1, mq_messages_sent := mq_messages_sent (queue_of i s) + 1\<rparr>"
          "(message_nodes s)(mq_tail (queue_of i s) ! k \<mapsto> v\<lparr>mn_next := p\<rparr>)"]) (simp_all add: link_node_def Let_def)
qed

text \<open>What a part of a call keeps of the queue in slot \<open>i\<close>.\<close>

definition keeps :: "nat \<Rightarrow> 'z msgs_scheme \<Rightarrow> 'z msgs_scheme \<Rightarrow> bool" where
  "keeps i s s' \<longleftrightarrow> queue_at (Some i) s' = queue_at (Some i) s \<and> mq_flags (queue_of i s') = mq_flags (queue_of i s) \<and>
     next_message_id s' = next_message_id s"

lemma queue_at_set_queue:
  "queue_at (Some i) s = Some i \<Longrightarrow> mq_header q = mq_header (queue_of i s) \<Longrightarrow> queue_at (Some i) (set_queue i q s) = Some i"
  by (auto simp: queue_at_def set_queue_def split: if_splits)

lemma enqueue_ok:
  assumes q: "queue_at (Some i) s = Some i" and sy: "sync_rep i a b s" and st: "store_rep i lss s"
    and run: "running pid now s" and b: "b < 1000" and mem: "NODE_BYTES \<le> memory_left s"
  obtains s' where "enqueue_message i m s = Ret 0 s'" "sync_rep i a (b + 1) s'"
    "store_rep i (lss[level_of (m_priority m) := lss ! level_of (m_priority m) @ [m]]) s'" "running pid now s'"
    "memory_left s' = memory_left s - NODE_BYTES" "keeps i s s'"
proof -
  let ?p = "next_addr (sc_heap (k_sched s))" and ?k = "level_of (m_priority m)"
  obtain mx f u where syn: "mq_mutex (queue_of i s) = Some mx" "mq_free_slots (queue_of i s) = Some f"
    "mq_used_slots (queue_of i s) = Some u" "f \<noteq> u" "mutex_free mx s" "sem_idle f a s" "sem_idle u b s"
    using sy by (auto simp: sync_rep_def)
  obtain pss where inv: "kheap_inv (sc_heap (k_sched s))"
    and lv: "levels_rep (mq_head (queue_of i s)) (mq_tail (queue_of i s)) (message_nodes s) ?p pss lss"
    using st by (auto simp: store_rep_def)
  obtain h where al: "allocate_message_node s = (?p, s\<lparr>k_sched := (k_sched s)\<lparr>sc_heap := h\<rparr>,
        message_nodes := (message_nodes s)(?p \<mapsto> \<lparr>mn_message = zero_message, mn_next = NULL\<rparr>)\<rparr>)"
    "kheap_inv h" "?p < next_addr h" "?p \<noteq> NULL" "unat (remaining h) = memory_left s - NODE_BYTES"
    by (rule alloc_node_ok [OF inv mem])
  define s2 where "s2 = s\<lparr>k_sched := (k_sched s)\<lparr>sc_heap := h\<rparr>,
      message_nodes := (message_nodes s)(?p \<mapsto> \<lparr>mn_message = m, mn_next = NULL\<rparr>)\<rparr>"
  have s2: "message_queue_pool s2 = message_queue_pool s" "mutex_pool s2 = mutex_pool s" "semaphore_pool s2 = semaphore_pool s"
    by (simp_all add: s2_def)
  have i: "i < length (message_queue_pool s2)" using q s2(1) by (auto simp: queue_at_def split: if_splits)
  have run2: "running pid now s2" using run by (auto simp: running_def s2_def get_current_pid_def split: if_splits)
  have lv2: "levels_rep (mq_head (queue_of i s2)) (mq_tail (queue_of i s2)) (message_nodes s) ?p pss lss" using lv s2(1) by simp
  have nodes: "message_nodes s2 = (message_nodes s)(?p \<mapsto> \<lparr>mn_message = m, mn_next = NULL\<rparr>)" by (simp add: s2_def)
  obtain q' h' pss' where lk: "link_node i ?k ?p s2 = Some (set_queue i q' (s2\<lparr>message_nodes := h'\<rparr>))"
    "levels_rep (mq_head q') (mq_tail q') h' (next_addr h) pss' (lss[?k := lss ! ?k @ [m]])"
    "mq_header q' = mq_header (queue_of i s2)" "mq_mutex q' = mq_mutex (queue_of i s2)" "mq_free_slots q' = mq_free_slots (queue_of i s2)"
    "mq_used_slots q' = mq_used_slots (queue_of i s2)" "mq_flags q' = mq_flags (queue_of i s2)"
    by (rule link_node_ok [OF i level_of_less lv2 al(4) order_refl al(3) nodes])
  define s4 where "s4 = set_queue i q' (s2\<lparr>message_nodes := h'\<rparr>)"
  have s4: "queue_of i s4 = q'" "mutex_pool s4 = mutex_pool s" "semaphore_pool s4 = semaphore_pool s" "k_sched s4 = k_sched s2"
    using i by (simp_all add: s4_def set_queue_def s2)
  have idle: "mutex_free mx s2" "mutex_free mx s4" "sem_idle f a s4" "sem_idle u b s4"
    using syn(5-7) mutex_free_cong [of s2 s] mutex_free_cong [of s4 s] sem_idle_cong [of s4 s] s2 s4 by simp_all
  have run4: "running pid now s4" using run2 s4(4) running_cong by blast
  have "enqueue_message i m s = Ret 0 (add_value u 1 s4)"
    using al(1,4) syn(1,3) s2(1) lk(1,4,6) s4(1) lock_running [OF idle(1) run2] unlock_running [OF idle(2) run4]
      post_idle [OF idle(4) run4] b
    by (simp add: enqueue_message_def s2_def [symmetric] link_node_held run_step_def s4_def [symmetric])
  moreover have "sync_rep i a (b + 1) (add_value u 1 s4)"
    unfolding sync_rep_def using syn(1-4) s4(1) lk(4-6) s2(1) idle sem_idle_add [OF idle(4)] mutex_free_cong [of "add_value u 1 s4" s4]
    by (intro exI [of _ mx] exI [of _ f] exI [of _ u]) simp
  moreover have "store_rep i (lss[?k := lss ! ?k @ [m]]) (add_value u 1 s4)"
    unfolding store_rep_def using s4(1,4) lk(2) al(2) by (auto simp: s2_def s4_def set_queue_def)
  moreover have "keeps i s (add_value u 1 s4)"
    using queue_at_set_queue [of i "s2\<lparr>message_nodes := h'\<rparr>" q'] q lk(3,7) s4(1) s2(1) queue_at_cong [of "add_value u 1 s4" s4]
      queue_at_cong [of "s2\<lparr>message_nodes := h'\<rparr>" s]
    by (simp add: keeps_def s4_def [symmetric]) (simp add: s4_def set_queue_def s2_def)
  moreover have "running pid now (add_value u 1 s4)" "memory_left (add_value u 1 s4) = memory_left s - NODE_BYTES"
    using run4 running_cong [of "add_value u 1 s4" s4] s4(4) al(5) by (simp_all add: s2_def)
  ultimately show ?thesis using that by blast
qed

lemma unlink_first_none:
  "\<forall>k \<in> set ks. mq_head q ! k = NULL \<Longrightarrow> unlink_first h ks q = Some (NULL, q)"
  by (induction ks) auto

lemma unlink_first_some:
  "filter (\<lambda>k. mq_head q ! k \<noteq> NULL) ks = k # ks' \<Longrightarrow> h (mq_head q ! k) = Some n \<Longrightarrow>
   unlink_first h ks q = Some (mq_head q ! k,
     q\<lparr>mq_head := (mq_head q)[k := mn_next n],
       mq_tail := if mn_next n = NULL then (mq_tail q)[k := NULL] else mq_tail q\<rparr>)"
  by (induction ks) (auto simp: Let_def split: if_splits)

lemma free_message_node_simp: "free_message_node p s = s"
  by (simp add: free_message_node_def kfree_def)

text \<open>Taking out the first message of the highest level that has one.\<close>

lemma dequeue_ok:
  assumes q: "queue_at (Some i) s = Some i" and sy: "sync_rep i a b s" and st: "store_rep i lss s"
    and run: "running pid now s" and a: "a < 1000" and ks: "filter (\<lambda>k. lss ! k \<noteq> []) [3, 2, 1, 0] = k # ks"
  obtains s' where "dequeue_message i s = Ret (0, Some (hd (lss ! k))) s'" "sync_rep i (a + 1) b s'"
    "store_rep i (lss[k := tl (lss ! k)]) s'" "running pid now s'" "memory_left s' = memory_left s" "keeps i s s'"
proof -
  obtain mx f u where syn: "mq_mutex (queue_of i s) = Some mx" "mq_free_slots (queue_of i s) = Some f"
    "mq_used_slots (queue_of i s) = Some u" "f \<noteq> u" "mutex_free mx s" "sem_idle f a s" "sem_idle u b s"
    using sy by (auto simp: sync_rep_def)
  obtain pss where inv: "kheap_inv (sc_heap (k_sched s))"
    and lv: "levels_rep (mq_head (queue_of i s)) (mq_tail (queue_of i s)) (message_nodes s) (next_addr (sc_heap (k_sched s))) pss lss"
    using st by (auto simp: store_rep_def)
  have k: "k < 4" "lss ! k \<noteq> []" using ks by (auto split: if_splits)
  have "\<forall>j \<in> set [3, 2, 1, 0]. (mq_head (queue_of i s) ! j \<noteq> NULL) = (lss ! j \<noteq> [])"
    using levels_empty(2) [OF lv] by simp
  then have ks': "filter (\<lambda>k. mq_head (queue_of i s) ! k \<noteq> NULL) [3, 2, 1, 0] = k # ks"
    using filter_cong [OF refl, of "[3, 2, 1, 0]"] ks by fastforce
  obtain n pss' where n: "message_nodes s (mq_head (queue_of i s) ! k) = Some n" "mn_message n = hd (lss ! k)"
    and lv': "levels_rep ((mq_head (queue_of i s))[k := mn_next n])
      (if mn_next n = NULL then (mq_tail (queue_of i s))[k := NULL] else mq_tail (queue_of i s)) (message_nodes s)
      (next_addr (sc_heap (k_sched s))) pss' (lss[k := tl (lss ! k)])"
    by (rule levels_remove [OF lv k])
  define q' where "q' = (queue_of i s)\<lparr>mq_head := (mq_head (queue_of i s))[k := mn_next n],
      mq_tail := if mn_next n = NULL then (mq_tail (queue_of i s))[k := NULL] else mq_tail (queue_of i s),
      mq_message_count := mq_message_count (queue_of i s) - 1, mq_messages_received := mq_messages_received (queue_of i s) + 1\<rparr>"
  define s2 where "s2 = set_queue i q' s"
  have i: "i < length (message_queue_pool s)" using q by (auto simp: queue_at_def split: if_splits)
  have s2: "queue_of i s2 = q'" "mutex_pool s2 = mutex_pool s" "semaphore_pool s2 = semaphore_pool s" "k_sched s2 = k_sched s"
    "message_nodes s2 = message_nodes s" "next_message_id s2 = next_message_id s"
    using i by (simp_all add: s2_def set_queue_def)
  have idle: "mutex_free mx s2" "sem_idle f a s2" "sem_idle u b s2"
    using syn(5-7) mutex_free_cong [of s2 s] sem_idle_cong [of s2 s] s2 by simp_all
  have run2: "running pid now s2" using run s2(4) running_cong by blast
  have hn: "mq_head (queue_of i s) ! k \<noteq> NULL" using levels_empty(2) [OF lv k(1)] k(2) by simp
  have "dequeue_message i s = Ret (0, Some (hd (lss ! k))) (add_value f 1 s2)"
    using syn(1,2) lock_running [OF syn(5) run] unlock_running [OF idle(1) run2] post_idle [OF idle(2) run2] a hn n s2(1)
      unlink_first_some [OF ks', of "message_nodes s" n]
    by (simp add: dequeue_message_def set_queue_held s2_def [symmetric] q'_def [symmetric] free_message_node_simp del: unlink_first.simps) (simp add: q'_def)
  moreover have "sync_rep i (a + 1) b (add_value f 1 s2)"
    unfolding sync_rep_def using syn(1-4) s2(1) idle sem_idle_add [OF idle(2)] mutex_free_cong [of "add_value f 1 s2" s2]
    by (intro exI [of _ mx] exI [of _ f] exI [of _ u]) (simp add: q'_def)
  moreover have "store_rep i (lss[k := tl (lss ! k)]) (add_value f 1 s2)"
    unfolding store_rep_def using s2(1,4,5) lv' inv by (auto simp: q'_def)
  moreover have "keeps i s (add_value f 1 s2)"
    using queue_at_set_queue [of i s q'] q s2(1,6) queue_at_cong [of "add_value f 1 s2" s2]
    by (simp add: keeps_def s2_def [symmetric]) (simp add: q'_def)
  moreover have "running pid now (add_value f 1 s2)" "memory_left (add_value f 1 s2) = memory_left s"
    using run2 running_cong [of "add_value f 1 s2" s2] s2(4) by simp_all
  ultimately show ?thesis using that by blast
qed

section \<open>Sending and receiving refine the specification\<close>

lemma take_unit_idle:
  assumes "sem_idle f v s" "running pid now s" "v \<le> 1000"
  shows "take_unit flags (Some f) s = (if v = 0 then Ret (- 1) s else Ret 0 (add_value f (- 1) s))"
  using trywait_idle [OF assms] by (simp add: take_unit_def MESSAGE_FLAG_BLOCKING_def)

lemma sync_rep_take:
  assumes "sync_rep i a b s"
  obtains f u where "mq_free_slots (queue_of i s) = Some f" "sem_idle f a s" "mq_used_slots (queue_of i s) = Some u"
    "sem_idle u b s" "a \<noteq> 0 \<longrightarrow> sync_rep i (a - 1) b (add_value f (- 1) s)" "b \<noteq> 0 \<longrightarrow> sync_rep i a (b - 1) (add_value u (- 1) s)"
proof -
  obtain mx f u where syn: "mq_mutex (queue_of i s) = Some mx" "mq_free_slots (queue_of i s) = Some f"
    "mq_used_slots (queue_of i s) = Some u" "f \<noteq> u" "mutex_free mx s" "sem_idle f a s" "sem_idle u b s"
    using assms by (auto simp: sync_rep_def)
  have w: "of_nat v + (- 1 :: 32 word) = of_nat (v - 1)" if "v \<noteq> 0" for v using that by simp
  have "sync_rep i (a - 1) b (add_value f (- 1) s)" if "a \<noteq> 0"
    unfolding sync_rep_def using syn sem_idle_add [OF syn(6)] w [OF that] mutex_free_cong [of "add_value f (- 1) s" s]
    by (intro exI [of _ mx] exI [of _ f] exI [of _ u]) simp
  moreover have "sync_rep i a (b - 1) (add_value u (- 1) s)" if "b \<noteq> 0"
    unfolding sync_rep_def using syn sem_idle_add [OF syn(7)] w [OF that] mutex_free_cong [of "add_value u (- 1) s" s]
    by (intro exI [of _ mx] exI [of _ f] exI [of _ u]) simp
  ultimately show ?thesis using that syn by blast
qed

lemma rep_add_value:
  "store_rep i lss (add_value f d s) = store_rep i lss s" "queue_at h (add_value f d s) = queue_at h s"
  "running pid now (add_value f d s) = running pid now s"
  by (simp_all add: store_rep_def running_def queue_at_def split: option.split)

lemma rep_next_id:
  "store_rep i lss (s\<lparr>next_message_id := n\<rparr>) = store_rep i lss s" "queue_at h (s\<lparr>next_message_id := n\<rparr>) = queue_at h s"
  "running pid now (s\<lparr>next_message_id := n\<rparr>) = running pid now s" "sync_rep i a b (s\<lparr>next_message_id := n\<rparr>) = sync_rep i a b s"
  by (simp_all add: store_rep_def running_def queue_at_def sync_rep_def mutex_free_def sem_idle_def mutex_at_def semaphore_at_def split: option.split)

lemma levels_length: "store_rep i lss s \<Longrightarrow> length lss = 4"
  by (auto simp: store_rep_def levels_rep_def)

lemma send_refines:
  assumes rep: "mq_rep i capacity qs s" and run: "running pid now s"
  obtains s' where "send_message (Some i) (Some m) flags s = Ret (fst (spec_send capacity pid now m qs)) s'"
    "mq_rep i capacity (snd (spec_send capacity pid now m qs)) s'" "running pid now s'"
proof -
  let ?n = "length (concat (qs_levels qs))" and ?s1 = "s\<lparr>next_message_id := next_message_id s + 1\<rparr>"
  let ?a = "capacity - ?n - qs_lost qs" and ?k = "level_of (m_priority m)"
  define m1 where "m1 = m\<lparr>m_sender := pid, m_id := next_message_id s, m_timestamp := now\<rparr>"
  have r: "queue_at (Some i) s = Some i" "capacity \<le> 1000" "mq_flags (queue_of i s) = 0" "?n + qs_lost qs \<le> capacity"
    "sync_rep i ?a ?n s" "store_rep i (qs_levels qs) s" "memory_left s = qs_memory qs" "next_message_id s = qs_next_id qs"
    using rep by (simp_all add: mq_rep_def)
  have st: "stamp m s = Some (m1, ?s1)" using run by (simp add: stamp_def running_def m1_def get_tick_count_def)
  have sy1: "sync_rep i ?a ?n ?s1" using r(5) by (simp add: rep_next_id)
  obtain f u where fu: "mq_free_slots (queue_of i ?s1) = Some f" "sem_idle f ?a ?s1"
    "?a \<noteq> 0 \<longrightarrow> sync_rep i (?a - 1) ?n (add_value f (- 1) ?s1)"
    by (rule sync_rep_take [OF sy1])
  have run1: "running pid now ?s1" using run by (simp add: rep_next_id)
  have send: "send_message (Some i) (Some m) flags s =
      (if ?a = 0 then Ret (- 1) ?s1 else enqueue_message i m1 (add_value f (- 1) ?s1))"
    using r(1,2) st fu(1) take_unit_idle [OF fu(2) run1, of flags] by (simp add: send_message_def)
  consider "?n + qs_lost qs \<ge> capacity" | "?n + qs_lost qs < capacity" "qs_memory qs < NODE_BYTES"
    | "?n + qs_lost qs < capacity" "NODE_BYTES \<le> qs_memory qs" by linarith
  then show ?thesis
  proof cases
    case 1
    then show ?thesis using that [of ?s1] send r run1
      by (simp add: spec_send_def mq_rep_def rep_next_id)
  next
    case 2
    let ?s2 = "add_value f (- 1) ?s1"
    have a: "?a \<noteq> 0" "?a - 1 = capacity - ?n - (qs_lost qs + 1)" using 2 by simp_all
    have "kheap_inv (sc_heap (k_sched ?s2))" using r(6) by (simp add: store_rep_def)
    then have "enqueue_message i m1 ?s2 = Ret (- 1) ?s2"
      using alloc_node_fails [of ?s2] 2(2) r(7) by (simp add: enqueue_message_def)
    then show ?thesis using that [of ?s2] send r run1 2 a fu(3)
      by (simp add: spec_send_def mq_rep_def rep_next_id rep_add_value)
  next
    case 3
    let ?s2 = "add_value f (- 1) ?s1" and ?l = "(qs_levels qs)[?k := qs_levels qs ! ?k @ [m1]]"
    have a: "?a \<noteq> 0" using 3 by simp
    have e: "queue_at (Some i) ?s2 = Some i" "sync_rep i (?a - 1) ?n ?s2" "store_rep i (qs_levels qs) ?s2" "running pid now ?s2"
      "?n < 1000" "NODE_BYTES \<le> memory_left ?s2"
      using r run1 3 fu(3) a by (simp_all add: rep_add_value rep_next_id)
    obtain s' where s': "enqueue_message i m1 ?s2 = Ret 0 s'" "sync_rep i (?a - 1) (?n + 1) s'"
      "store_rep i ((qs_levels qs)[level_of (m_priority m1) := qs_levels qs ! level_of (m_priority m1) @ [m1]]) s'"
      "running pid now s'" "memory_left s' = memory_left ?s2 - NODE_BYTES" "keeps i ?s2 s'"
      by (rule enqueue_ok [OF e])
    have "level_of (m_priority m1) = ?k" by (simp add: m1_def)
    moreover have "length (concat ?l) = ?n + 1"
      using concat_snoc [of ?k "qs_levels qs" m1] level_of_less [of "m_priority m"] levels_length [OF r(6)]
      by (metis length_Cons mset_eq_length Suc_eq_plus1)
    ultimately show ?thesis using that [of s'] send s' r 3 a
      by (simp add: spec_send_def mq_rep_def keeps_def m1_def Let_def rep_add_value rep_next_id)
  qed
qed

lemma no_level: "length lss = 4 \<Longrightarrow> filter (\<lambda>k. lss ! k \<noteq> []) [3, 2, 1, 0] = [] \<longleftrightarrow> length (concat lss) = 0"
  by (auto simp: numeral_eq_Suc length_Suc_conv)

lemma receive_refines:
  assumes rep: "mq_rep i capacity qs s" and run: "running pid now s"
  obtains s' where "receive_message (Some i) True flags s = Ret (fst (spec_receive qs)) s'"
    "mq_rep i capacity (snd (spec_receive qs)) s'" "running pid now s'"
proof -
  let ?n = "length (concat (qs_levels qs))" and ?l = "qs_levels qs"
  let ?a = "capacity - ?n - qs_lost qs"
  have r: "queue_at (Some i) s = Some i" "capacity \<le> 1000" "mq_flags (queue_of i s) = 0" "?n + qs_lost qs \<le> capacity"
    "sync_rep i ?a ?n s" "store_rep i ?l s" "memory_left s = qs_memory qs" "next_message_id s = qs_next_id qs"
    using rep by (simp_all add: mq_rep_def)
  obtain f u where fu: "mq_used_slots (queue_of i s) = Some u" "sem_idle u ?n s"
    "?n \<noteq> 0 \<longrightarrow> sync_rep i ?a (?n - 1) (add_value u (- 1) s)"
    by (rule sync_rep_take [OF r(5)])
  have recv: "receive_message (Some i) True flags s =
      (if ?n = 0 then Ret (- 1, None) s else dequeue_message i (add_value u (- 1) s))"
    using r(1-4) fu(1) take_unit_idle [OF fu(2) run, of flags] by (simp add: receive_message_def may_receive_def)
  note nl = no_level [OF levels_length [OF r(6)]]
  show ?thesis
  proof (cases "filter (\<lambda>k. ?l ! k \<noteq> []) [3, 2, 1, 0]")
    case Nil
    then have "?n = 0" using nl by blast
    with Nil show ?thesis using that [of s] rep recv run by (simp add: spec_receive_def)
  next
    case (Cons k ks)
    let ?s1 = "add_value u (- 1) s" and ?t = "?l[k := tl (?l ! k)]"
    have n: "?n \<noteq> 0" using nl Cons by (metis list.distinct(1))
    have k: "k < length ?l" "?l ! k \<noteq> []" using Cons levels_length [OF r(6)] by (auto split: if_splits)
    have e: "queue_at (Some i) ?s1 = Some i" "sync_rep i ?a (?n - 1) ?s1" "store_rep i ?l ?s1" "running pid now ?s1"
      using r run fu(3) n by (simp_all add: rep_add_value)
    have a: "?a < 1000" using r(2,4) n by linarith
    obtain s' where s': "dequeue_message i ?s1 = Ret (0, Some (hd (?l ! k))) s'" "sync_rep i (?a + 1) (?n - 1) s'"
      "store_rep i ?t s'" "running pid now s'" "memory_left s' = memory_left ?s1" "keeps i ?s1 s'"
      by (rule dequeue_ok [OF e a Cons])
    have "Suc (length (concat ?t)) = ?n"
      using concat_tl [of k ?l "hd (?l ! k)" "tl (?l ! k)"] k by (metis length_Cons list.collapse mset_eq_length)
    then have "length (concat ?t) = ?n - 1" "capacity - length (concat ?t) - qs_lost qs = ?a + 1" using r(4) by simp_all
    with Cons show ?thesis using that [of s'] recv s' r n
      by (simp add: spec_receive_def mq_rep_def keeps_def rep_add_value del: filter.simps)
  qed
qed

text \<open>Sequences of calls by a task on one queue, and what the specification answers.\<close>

datatype queue_call = Send message u32 | Receive u32

fun run_calls :: "nat \<Rightarrow> queue_call list \<Rightarrow> 'z msgs_scheme \<Rightarrow> ('z msgs_scheme, (int \<times> message option) list) run" where
  "run_calls i [] s = Ret [] s"
| "run_calls i (Send m flags # cs) s =
     run_bind (send_message (Some i) (Some m) flags s) (\<lambda>r s1. run_bind (run_calls i cs s1) (\<lambda>rs s2. Ret ((r, None) # rs) s2))"
| "run_calls i (Receive flags # cs) s =
     run_bind (receive_message (Some i) True flags s) (\<lambda>r s1. run_bind (run_calls i cs s1) (\<lambda>rs s2. Ret (r # rs) s2))"

fun spec_calls :: "nat \<Rightarrow> pid_t \<Rightarrow> u64 \<Rightarrow> queue_call list \<Rightarrow> queue_spec \<Rightarrow> (int \<times> message option) list" where
  "spec_calls capacity pid now [] q = []"
| "spec_calls capacity pid now (Send m flags # cs) q =
     (let (r, q1) = spec_send capacity pid now m q in (r, None) # spec_calls capacity pid now cs q1)"
| "spec_calls capacity pid now (Receive flags # cs) q =
     (let (r, q1) = spec_receive q in r # spec_calls capacity pid now cs q1)"

lemma run_calls_refines:
  assumes "mq_rep i capacity qs s" "running pid now s"
  shows "\<exists>s'. run_calls i cs s = Ret (spec_calls capacity pid now cs qs) s'"
  using assms
proof (induction cs arbitrary: qs s)
  case (Cons c cs)
  show ?case
  proof (cases c)
    case (Send m flags)
    obtain s1 where s1: "send_message (Some i) (Some m) flags s = Ret (fst (spec_send capacity pid now m qs)) s1"
      "mq_rep i capacity (snd (spec_send capacity pid now m qs)) s1" "running pid now s1"
      by (rule send_refines [OF Cons.prems])
    with Cons.IH [OF s1(2,3)] Send show ?thesis by (auto simp: case_prod_unfold Let_def)
  next
    case (Receive flags)
    obtain s1 where s1: "receive_message (Some i) True flags s = Ret (fst (spec_receive qs)) s1"
      "mq_rep i capacity (snd (spec_receive qs)) s1" "running pid now s1"
      by (rule receive_refines [OF Cons.prems])
    with Cons.IH [OF s1(2,3)] Receive show ?thesis by (auto simp: case_prod_unfold Let_def)
  qed
qed simp

section \<open>A new queue\<close>

definition empty_spec :: "'z msgs_scheme \<Rightarrow> queue_spec" where
  "empty_spec s = \<lparr>qs_levels = replicate 4 [], qs_lost = 0, qs_next_id = next_message_id s, qs_memory = memory_left s\<rparr>"

lemma create_semaphore_Some:
  assumes "create_semaphore name v s = (Some f, s')"
  shows "sem_of f s' = \<lparr>sm_header = new_header IPC_TYPE_SEMAPHORE name destroy_semaphore_fn, sm_value = v,
      sm_max_value = 0x7FFFFFFF, sm_wait_queue = init_wait_queue name WAIT_QUEUE_SEMAPHORE f\<rparr>"
    "semaphore_pool s' = (semaphore_pool s)[f := sem_of f s']" "hdr_type (sm_header (sem_of f s)) = 0" "f < length (semaphore_pool s)"
    "\<exists>p c. s' = s\<lparr>semaphore_pool := p, semaphore_count := c\<rparr>"
  using assms
  by (auto simp: create_semaphore_def find_free_semaphore_def set_semaphore_def scan_from_Some split: option.splits)

lemma create_mutex_Some:
  assumes "create_mutex name s = (Some m, s')"
  shows "mutex_pool s' = (mutex_pool s)[m := \<lparr>mx_header = new_header IPC_TYPE_MUTEX name destroy_mutex_fn, mx_owner = 0,
      mx_lock_count = 0, mx_wait_queue = init_wait_queue name WAIT_QUEUE_MUTEX m\<rparr>]" "m < length (mutex_pool s)"
    "\<exists>p c. s' = s\<lparr>mutex_pool := p, mutex_count := c\<rparr>"
  using assms by (auto simp: create_mutex_def find_free_mutex_def set_mutex_def scan_from_Some split: option.splits)

lemma sem_idle_new: "f < length (semaphore_pool s) \<Longrightarrow> sem_of f s = \<lparr>sm_header = new_header IPC_TYPE_SEMAPHORE name destroy_semaphore_fn,
      sm_value = v, sm_max_value = 0x7FFFFFFF, sm_wait_queue = init_wait_queue name WAIT_QUEUE_SEMAPHORE f\<rparr> \<Longrightarrow>
   sem_idle f (unat v) s"
  by (simp add: sem_idle_def semaphore_at_def new_header_def init_wait_queue_def)

lemma create_sync:
  assumes "create_mutex n1 s1 = (Some m, s2)" "create_semaphore n2 v s2 = (Some f, s3)" "create_semaphore n3 0 s3 = (Some u, s4)"
  shows "f \<noteq> u" "mutex_free m s4" "sem_idle f (unat v) s4" "sem_idle u 0 s4"
proof -
  note m = create_mutex_Some [OF assms(1)]
  note f = create_semaphore_Some [OF assms(2)]
  note u = create_semaphore_Some [OF assms(3)]
  show fu: "f \<noteq> u"
  proof
    assume "f = u"
    then have "hdr_type (sm_header (sem_of f s3)) = 0" using u(3) by simp
    with f(1) show False by (simp add: new_header_def IPC_TYPE_SEMAPHORE_def)
  qed
  have len: "f < length (semaphore_pool s4)" "u < length (semaphore_pool s4)"
    using f(2,4) u(2,4) by (metis length_list_update)+
  have "sem_of f s4 = sem_of f s3" using u(2) fu by (metis nth_list_update_neq)
  with f(1) show "sem_idle f (unat v) s4" using sem_idle_new [OF len(1)] by simp
  show "sem_idle u 0 s4" using sem_idle_new [OF len(2) u(1)] by simp
  have "mutex_pool s4 = mutex_pool s2" using f(5) u(5) by auto
  moreover have "mutex_free m s2"
    using m(1,2) by (simp add: mutex_free_def mutex_at_def new_header_def init_wait_queue_def)
  ultimately show "mutex_free m s4" using mutex_free_cong by blast
qed

lemma levels_rep_empty: "levels_rep (replicate 4 NULL) (replicate 4 NULL) h bound (replicate 4 []) (replicate 4 [])"
  by (simp add: levels_rep_def)

lemma create_rep:
  assumes c: "create_message_queue name mx s0 = Some (Some i, s)" and run: "running pid now s0"
    and inv: "kheap_inv (sc_heap (k_sched s0))"
  shows "mq_rep i (unat mx) (empty_spec s0) s" "running pid now s"
proof -
  have mx: "unat mx \<le> 1000" and free: "find_free_message_queue s0 = Some i"
    using c by (auto simp: create_message_queue_def word_less_nat_alt split: if_splits option.splits prod.splits)
  define s1 where "s1 = set_queue i ((queue_of i s0)\<lparr>mq_header := new_header IPC_TYPE_MESSAGE_QUEUE name destroy_message_queue_fn\<rparr>) s0"
  obtain m s2 f s3 u s4 where cr: "create_mutex (suffixed name ''_mutex'') s1 = (m, s2)"
    "create_semaphore (suffixed name ''_free'') mx s2 = (f, s3)" "create_semaphore (suffixed name ''_used'') 0 s3 = (u, s4)"
    by (metis prod.collapse)
  with c free obtain m' f' u' where S: "m = Some m'" "f = Some f'" "u = Some u'"
    by (auto simp: create_message_queue_def Let_def s1_def [symmetric] split: if_splits)
  note sy = create_sync [OF cr [unfolded S]]
  have fr: "k_sched s4 = k_sched s0" "message_queue_pool s4 = message_queue_pool s1" "message_nodes s4 = message_nodes s0"
    "next_message_id s4 = next_message_id s0"
    using create_mutex_Some(3) [OF cr(1) [unfolded S]] create_semaphore_Some(5) [OF cr(2) [unfolded S]]
      create_semaphore_Some(5) [OF cr(3) [unfolded S]] by (auto simp: s1_def set_queue_def)
  have i: "i < length (message_queue_pool s0)" using free by (simp add: find_free_message_queue_def scan_from_Some)
  have q: "queue_of i s4 = (queue_of i s0)\<lparr>mq_header := new_header IPC_TYPE_MESSAGE_QUEUE name destroy_message_queue_fn\<rparr>"
    using i fr(2) by (simp add: s1_def set_queue_def)
  define q' where "q' = (queue_of i s4)\<lparr>mq_mutex := Some m', mq_free_slots := Some f', mq_used_slots := Some u', mq_owner := pid,
      mq_max_messages := mx, mq_message_count := 0, mq_flags := 0, mq_head := replicate 4 NULL, mq_tail := replicate 4 NULL,
      mq_messages_sent := 0, mq_messages_received := 0\<rparr>"
  have "get_current_pid (k_sched s4) = Some pid" using run fr(1) by (simp add: running_def)
  then have s: "s = (set_queue i q' s4)\<lparr>message_queue_count := message_queue_count s4 + 1\<rparr>"
    using c free cr S by (auto simp: create_message_queue_def Let_def s1_def [symmetric] q'_def split: if_splits)
  have len: "i < length (message_queue_pool s4)" using i fr(2) by (simp add: s1_def set_queue_def)
  have at: "queue_of i s = q'" "mutex_pool s = mutex_pool s4" "semaphore_pool s = semaphore_pool s4" "k_sched s = k_sched s0"
    "message_nodes s = message_nodes s0" "next_message_id s = next_message_id s0" "length (message_queue_pool s) = length (message_queue_pool s4)"
    using s len fr by (simp_all add: set_queue_def)
  have "sync_rep i (unat mx) 0 s"
    unfolding sync_rep_def using sy at(1-3) mutex_free_cong [of s s4] sem_idle_cong [of s s4]
    by (intro exI [of _ m'] exI [of _ f'] exI [of _ u']) (simp add: q'_def)
  moreover have "store_rep i (replicate 4 []) s"
    unfolding store_rep_def using at levels_rep_empty inv by (auto simp: q'_def)
  moreover have "queue_at (Some i) s = Some i"
    using at(1,7) len q by (simp add: queue_at_def q'_def new_header_def)
  ultimately show "mq_rep i (unat mx) (empty_spec s0) s"
    using mx at by (simp add: mq_rep_def empty_spec_def q'_def)
  show "running pid now s" using run running_cong [of s s0] at(4) by blast
qed

section \<open>Properties\<close>

text \<open>The same call with \<^verbatim>\<open>MESSAGE_FLAG_NON_BLOCKING\<close>, bit 0 of the flags, and no other flag.\<close>

fun nonblocking :: "queue_call \<Rightarrow> queue_call" where
  "nonblocking (Send m flags) = Send m 1"
| "nonblocking (Receive flags) = Receive 1"

lemma spec_calls_nonblocking:
  "spec_calls capacity pid now (map nonblocking cs) q = spec_calls capacity pid now cs q"
proof (induction cs arbitrary: q)
  case (Cons c cs)
  then show ?case by (cases c) (simp_all add: case_prod_unfold Let_def)
qed simp


text \<open>
  \<^verbatim>\<open>MESSAGE_FLAG_BLOCKING\<close> is 0, so the test for it never succeeds: whatever the flags, a call on
  the queue returns without waiting, and a receive on a new queue, meant to wait for a message, returns
  \<open>- 1\<close>.
\<close>

theorem blocking_calls_never_block:
  assumes "create_message_queue name mx s0 = Some (Some i, s)" "running pid now s0" "kheap_inv (sc_heap (k_sched s0))"
  shows "(\<exists>rs s'. run_calls i cs s = Ret rs s') \<and>
         (\<exists>s'. run_calls i [Receive MESSAGE_FLAG_BLOCKING] s = Ret [(- 1, None)] s')"
proof -
  have "spec_calls (unat mx) pid now [Receive MESSAGE_FLAG_BLOCKING] (empty_spec s0) = [(- 1, None)]"
    by (simp add: spec_receive_def empty_spec_def)
  then show ?thesis
    using run_calls_refines [OF create_rep [OF assms]] by metis
qed

lemma spec_budget:
  "NODE_BYTES * length (filter (\<lambda>(c, r). (\<exists>m flags. c = Send m flags) \<and> fst r = 0) (zip cs (spec_calls capacity pid now cs q)))
     \<le> qs_memory q"
proof (induction cs arbitrary: q)
  case (Cons c cs)
  show ?case
  proof (cases c)
    case (Send m flags)
    have "NODE_BYTES * (if fst (spec_send capacity pid now m q) = 0 then 1 else 0) + qs_memory (snd (spec_send capacity pid now m q))
        \<le> qs_memory q"
      by (simp add: spec_send_def Let_def)
    with Send Cons.IH [of "snd (spec_send capacity pid now m q)"] show ?thesis
      by (simp add: case_prod_unfold Let_def split: if_splits)
  next
    case (Receive flags)
    have "qs_memory (snd (spec_receive q)) = qs_memory q"
      by (simp add: spec_receive_def del: filter.simps split: list.split)
    with Receive Cons.IH [of "snd (spec_receive q)"] show ?thesis by (simp add: case_prod_unfold Let_def)
  qed
qed simp

text \<open>
  C32. The number of messages that can ever be sent is bounded by the memory: because
  \<^verbatim>\<open>kfree\<close> returns nothing to the heap, every successful send uses 1072 bytes for good, even if
  the message is received, so in any sequence of calls at most one send per 1072 bytes of the heap
  succeeds (15650 for the whole heap of 16 MB).
\<close>

theorem message_budget:
  assumes "create_message_queue name mx s0 = Some (Some i, s)" "running pid now s0" "kheap_inv (sc_heap (k_sched s0))"
    and "run_calls i cs s = Ret rs s'"
  shows "length (filter (\<lambda>(c, r). (\<exists>m flags. c = Send m flags) \<and> fst r = 0) (zip cs rs)) \<le> memory_left s0 div 1072"
proof -
  have "rs = spec_calls (unat mx) pid now cs (empty_spec s0)"
    using run_calls_refines [OF create_rep [OF assms(1-3)], of cs] assms(4) by simp
  with spec_budget [of cs "unat mx" pid now "empty_spec s0"] show ?thesis
    by (simp add: empty_spec_def NODE_BYTES_def less_eq_div_iff_mult_less_eq mult.commute)
qed

section \<open>Instances\<close>

definition demo_msgs :: msgs where
  "demo_msgs = init_message_system (ipc.extend
     (demo_ipc\<lparr>mutex_pool := [zero_mutex], mutex_count := 0, semaphore_pool := [zero_semaphore, zero_semaphore]\<rparr>)
     \<lparr>message_queue_pool = [], message_queue_count = 0, next_message_id = 0, message_nodes = Map.empty\<rparr>)"

definition demo_message :: "u32 \<Rightarrow> message" where
  "demo_message pr = zero_message\<lparr>m_priority := pr\<rparr>"

lemma demo_msgs_ok: "running 2 7 demo_msgs" "kheap_inv (sc_heap (k_sched demo_msgs))" "memory_left demo_msgs = 2 ^ 24"
proof -
  have "k_sched demo_msgs = k_sched demo_ipc" by (simp add: demo_msgs_def init_message_system_def ipc.extend_def)
  then show "running 2 7 demo_msgs" "kheap_inv (sc_heap (k_sched demo_msgs))" "memory_left demo_msgs = 2 ^ 24"
    using demo_ipc_pid demo_ipc_fresh by (simp_all add: running_def waiters_fresh_def) (simp_all add: demo_ipc_def demo_defs)
qed

lemma demo_create: "\<exists>s. create_message_queue ''q'' 2 demo_msgs = Some (Some 0, s)"
proof -
  have "replicate MAX_MESSAGE_QUEUES q = q # replicate 31 q" for q :: message_queue
    by (simp add: MAX_MESSAGE_QUEUES_def numeral_eq_Suc)
  moreover have "get_current_pid busy_system = Some 2" using demo_ipc_pid by (simp add: demo_ipc_def)
  ultimately show ?thesis
    by (simp add: create_message_queue_def find_free_message_queue_def demo_msgs_def init_message_system_def ipc.extend_def
      zero_message_queue_def zero_header_def create_mutex_def find_free_mutex_def zero_mutex_def
      create_semaphore_def find_free_semaphore_def zero_semaphore_def set_queue_def set_mutex_def set_semaphore_def
      new_header_def IPC_TYPE_SEMAPHORE_def demo_ipc_def)
qed

text \<open>A low, an urgent and a normal message to a queue of two places; then three receives.\<close>

definition demo_calls :: "queue_call list" where
  "demo_calls = [Send (demo_message 0) 0, Send (demo_message 3) 0, Send (demo_message 1) 0, Receive 0, Receive 0, Receive 0]"

lemma spec_calls_Cons:
  "spec_calls c pid now (Send m flags # cs) q = (fst (spec_send c pid now m q), None) # spec_calls c pid now cs (snd (spec_send c pid now m q))"
  "spec_calls c pid now (Receive flags # cs) q = fst (spec_receive q) # spec_calls c pid now cs (snd (spec_receive q))"
  by (simp_all add: case_prod_unfold Let_def)

lemma demo_spec:
  "map (\<lambda>(r, m). (r, map_option m_id m)) (spec_calls 2 2 7 demo_calls (empty_spec demo_msgs))
     = [(0, None), (0, None), (- 1, None), (0, Some 2), (0, Some 1), (- 1, None)]"
proof -
  have "replicate 4 [] = [[], [], [], [] :: message list]" by (simp add: numeral_eq_Suc)
  moreover have "next_message_id demo_msgs = 1" by (simp add: demo_msgs_def init_message_system_def)
  ultimately have e: "empty_spec demo_msgs = \<lparr>qs_levels = [[], [], [], []], qs_lost = 0, qs_next_id = 1, qs_memory = 16777216\<rparr>"
    by (simp add: empty_spec_def demo_msgs_ok(3))
  define x where "x = (demo_message 0)\<lparr>m_sender := 2, m_id := 1, m_timestamp := 7\<rparr>"
  define y where "y = (demo_message 3)\<lparr>m_sender := 2, m_id := 2, m_timestamp := 7\<rparr>"
  have lv: "level_of 0 = 0" "level_of 1 = 1" "level_of 3 = Suc (Suc (Suc 0))"
    by (simp_all add: level_of_def MESSAGE_PRIORITY_URGENT_def MESSAGE_PRIORITY_NORMAL_def)
  note defs = spec_send_def spec_receive_def Let_def lv demo_message_def NODE_BYTES_def
  have "spec_send 2 2 7 (demo_message 0) \<lparr>qs_levels = [[], [], [], []], qs_lost = 0, qs_next_id = 1, qs_memory = 16777216\<rparr>
      = (0, \<lparr>qs_levels = [[x], [], [], []], qs_lost = 0, qs_next_id = 2, qs_memory = 16776144\<rparr>)"
    "spec_send 2 2 7 (demo_message 3) \<lparr>qs_levels = [[x], [], [], []], qs_lost = 0, qs_next_id = 2, qs_memory = 16776144\<rparr>
      = (0, \<lparr>qs_levels = [[x], [], [], [y]], qs_lost = 0, qs_next_id = 3, qs_memory = 16775072\<rparr>)"
    "spec_send 2 2 7 (demo_message 1) \<lparr>qs_levels = [[x], [], [], [y]], qs_lost = 0, qs_next_id = 3, qs_memory = 16775072\<rparr>
      = (- 1, \<lparr>qs_levels = [[x], [], [], [y]], qs_lost = 0, qs_next_id = 4, qs_memory = 16775072\<rparr>)"
    "spec_receive \<lparr>qs_levels = [[x], [], [], [y]], qs_lost = 0, qs_next_id = 4, qs_memory = 16775072\<rparr>
      = ((0, Some y), \<lparr>qs_levels = [[x], [], [], []], qs_lost = 0, qs_next_id = 4, qs_memory = 16775072\<rparr>)"
    "spec_receive \<lparr>qs_levels = [[x], [], [], []], qs_lost = 0, qs_next_id = 4, qs_memory = 16775072\<rparr>
      = ((0, Some x), \<lparr>qs_levels = [[], [], [], []], qs_lost = 0, qs_next_id = 4, qs_memory = 16775072\<rparr>)"
    "spec_receive \<lparr>qs_levels = [[], [], [], []], qs_lost = 0, qs_next_id = 4, qs_memory = 16775072\<rparr>
      = ((- 1, None), \<lparr>qs_levels = [[], [], [], []], qs_lost = 0, qs_next_id = 4, qs_memory = 16775072\<rparr>)"
    unfolding x_def y_def by (simp_all add: defs numeral_3_eq_3)
  moreover have "m_id x = 1" "m_id y = 2" by (simp_all add: x_def y_def)
  ultimately show ?thesis unfolding e demo_calls_def spec_calls_Cons by simp
qed


theorem message_budget_witness:
  "\<exists>s rs s'. create_message_queue ''q'' 2 demo_msgs = Some (Some 0, s) \<and> run_calls 0 demo_calls s = Ret rs s' \<and>
     length (filter (\<lambda>(c, r). (\<exists>m flags. c = Send m flags) \<and> fst r = 0) (zip demo_calls rs)) \<le> 15650"
proof -
  obtain s where c: "create_message_queue ''q'' 2 demo_msgs = Some (Some 0, s)" using demo_create by blast
  obtain rs s' where r: "run_calls 0 demo_calls s = Ret rs s'"
    using run_calls_refines [OF create_rep [OF c demo_msgs_ok(1,2)], of demo_calls] by blast
  from message_budget [OF c demo_msgs_ok(1,2) r] c r demo_msgs_ok(3) show ?thesis by auto
qed

end
