(* ===== verification/Interrupts.thy ===== *)
theory Interrupts
  imports Task_Context
begin

text \<open>
  Interrupt handling of \<^verbatim>\<open>kernel/interrupt.c\<close>: the descriptor table, the assembly stubs, the
  handler tables and the dispatch to them, and the programming of the two interrupt controllers;
  and the timer setup of \<^verbatim>\<open>kernel/init.c\<close>. The devices behind the I/O ports are a parameter, as
  are the link-time addresses of the stubs and the functions that other parts of the kernel register as
  handlers. \<^verbatim>\<open>kernel_panic\<close> does not return: a result \<^const>\<open>None\<close>. Log output is left out.
\<close>

section \<open>Constants and data\<close>

definition INT_VECTOR_PAGE_FAULT :: u8 where "INT_VECTOR_PAGE_FAULT = 0x0E"
definition INT_VECTOR_IRQ_BASE :: u8 where "INT_VECTOR_IRQ_BASE = 0x20"
definition INT_VECTOR_SYSCALL :: u8 where "INT_VECTOR_SYSCALL = 0x80"
definition INT_VECTOR_YIELD :: u8 where "INT_VECTOR_YIELD = 0x81"
definition IDT_ENTRIES :: nat where "IDT_ENTRIES = 256"
definition IDT_ATTR_INTERRUPT_KERNEL :: u8 where "IDT_ATTR_INTERRUPT_KERNEL = push_bit 7 1 OR push_bit 5 0 OR 0xE"
definition IDT_ATTR_TRAP_KERNEL :: u8 where "IDT_ATTR_TRAP_KERNEL = push_bit 7 1 OR push_bit 5 0 OR 0xF"
definition IDT_ATTR_TRAP_USER :: u8 where "IDT_ATTR_TRAP_USER = push_bit 7 1 OR push_bit 5 3 OR 0xF"
definition KERNEL_CODE_SEGMENT :: u16 where "KERNEL_CODE_SEGMENT = 8"

definition PIC1_COMMAND :: u16 where "PIC1_COMMAND = 0x20"
definition PIC1_DATA :: u16 where "PIC1_DATA = 0x21"
definition PIC2_COMMAND :: u16 where "PIC2_COMMAND = 0xA0"
definition PIC2_DATA :: u16 where "PIC2_DATA = 0xA1"
definition PIC_EOI :: u8 where "PIC_EOI = 0x20"
definition PIC_INIT :: u8 where "PIC_INIT = 0x11"

record idt_entry =
  offset_low :: u16
  idt_selector :: u16
  idt_ist :: u8
  idt_attr :: u8
  offset_mid :: u16
  offset_high :: u32
  idt_reserved :: u32

record idtr =
  idtr_limit :: u16
  idtr_base :: u64

text \<open>\<^verbatim>\<open>page_fault_handler\<close>, or a function that another part of the kernel registers.\<close>

datatype 'h isr_handler = page_fault_handler | Handler 'h

text \<open>The processor's access to the devices: \<open>'d\<close> is their state.\<close>

record 'd port_ops =
  port_out :: "u16 \<Rightarrow> u8 \<Rightarrow> 'd \<Rightarrow> 'd"
  port_in :: "u16 \<Rightarrow> 'd \<Rightarrow> u8 \<times> 'd"

record ('h, 'd) interrupts =
  int_devices :: 'd
  int_enabled :: bool
  idt :: "idt_entry list"
  int_idtr :: idtr
  exception_handlers :: "'h isr_handler option list"
  irq_handlers :: "'h isr_handler option list"
  isr_handlers :: "'h isr_handler option list"
  irq_mask :: u16

definition outb :: "'d port_ops \<Rightarrow> u16 \<Rightarrow> u8 \<Rightarrow> ('h, 'd) interrupts \<Rightarrow> ('h, 'd) interrupts" where
  "outb po port v s = s\<lparr>int_devices := port_out po port v (int_devices s)\<rparr>"

definition inb :: "'d port_ops \<Rightarrow> u16 \<Rightarrow> ('h, 'd) interrupts \<Rightarrow> u8 \<times> ('h, 'd) interrupts" where
  "inb po port s = (let (v, d) = port_in po port (int_devices s) in (v, s\<lparr>int_devices := d\<rparr>))"

definition enable_interrupts :: "('h, 'd) interrupts \<Rightarrow> ('h, 'd) interrupts" where
  "enable_interrupts s = s\<lparr>int_enabled := True\<rparr>"

definition disable_interrupts :: "('h, 'd) interrupts \<Rightarrow> ('h, 'd) interrupts" where
  "disable_interrupts s = s\<lparr>int_enabled := False\<rparr>"

section \<open>Stubs and the descriptor table\<close>

datatype stub = isr_stub nat | irq_stub nat | isr_stub_syscall | isr_stub_yield

text \<open>The table of stubs by vector; \<^const>\<open>None\<close> where the array holds \<^verbatim>\<open>NULL\<close>.\<close>

definition isr_stubs :: "nat \<Rightarrow> stub option" where
  "isr_stubs v =
     (if v < 32 then Some (isr_stub v)
      else if v < 48 then Some (irq_stub (v - 32))
      else if v = 0x80 then Some isr_stub_syscall
      else if v = 0x81 then Some isr_stub_yield
      else None)"

definition stub_pointer :: "(stub \<Rightarrow> u64) \<Rightarrow> nat \<Rightarrow> u64" where
  "stub_pointer addr v = (case isr_stubs v of None \<Rightarrow> 0 | Some s \<Rightarrow> addr s)"

definition idt_gate :: "u64 \<Rightarrow> u8 \<Rightarrow> idt_entry" where
  "idt_gate handler_addr attr =
     \<lparr>offset_low = ucast (handler_addr AND 0xFFFF), idt_selector = KERNEL_CODE_SEGMENT, idt_ist = 0, idt_attr = attr,
      offset_mid = ucast (drop_bit 16 handler_addr AND 0xFFFF),
      offset_high = ucast (drop_bit 32 handler_addr AND 0xFFFFFFFF), idt_reserved = 0\<rparr>"

definition set_idt_entry :: "u8 \<Rightarrow> u64 \<Rightarrow> u8 \<Rightarrow> ('h, 'd) interrupts \<Rightarrow> ('h, 'd) interrupts" where
  "set_idt_entry vector handler attr s = s\<lparr>idt := (idt s)[unat vector := idt_gate handler attr]\<rparr>"

text \<open>\<open>base\<close> is the address of the table, \<open>addr\<close> gives the addresses of the stubs.\<close>

definition init_idt :: "u64 \<Rightarrow> (stub \<Rightarrow> u64) \<Rightarrow> ('h, 'd) interrupts \<Rightarrow> ('h, 'd) interrupts" where
  "init_idt base addr s =
     (let s1 = s\<lparr>int_idtr := \<lparr>idtr_limit = of_nat (16 * IDT_ENTRIES) - 1, idtr_base = base\<rparr>\<rparr>;
          s2 = fold (\<lambda>i. set_idt_entry (of_nat i) (stub_pointer addr i) IDT_ATTR_INTERRUPT_KERNEL) [0 ..< 32] s1;
          s3 = fold (\<lambda>i. set_idt_entry (INT_VECTOR_IRQ_BASE + of_nat i) (stub_pointer addr (unat INT_VECTOR_IRQ_BASE + i))
                       IDT_ATTR_INTERRUPT_KERNEL) [0 ..< 16] s2;
          s4 = set_idt_entry INT_VECTOR_SYSCALL (stub_pointer addr (unat INT_VECTOR_SYSCALL)) IDT_ATTR_TRAP_USER s3
      in set_idt_entry INT_VECTOR_YIELD (stub_pointer addr (unat INT_VECTOR_YIELD)) IDT_ATTR_TRAP_KERNEL s4)"

text \<open>
  The stubs. The processor has pushed the return frame and, for some exceptions, an error code; the
  stub completes the structure \<^verbatim>\<open>cpu_context_t\<close> on the stack.
\<close>

definition pushes_error_code :: "nat \<Rightarrow> bool" where
  "pushes_error_code n \<longleftrightarrow> n \<in> {8, 10, 11, 12, 13, 14, 17, 30}"

definition stub_prologue :: "stub \<Rightarrow> cpu \<Rightarrow> cpu" where
  "stub_prologue st c =
     (case st of
        isr_stub n \<Rightarrow> push (of_nat n) (if pushes_error_code n then c else push 0 c)
      | irq_stub n \<Rightarrow> push (of_nat (32 + n)) (push 0 c)
      | isr_stub_syscall \<Rightarrow> push 0x80 (push 0 c)
      | isr_stub_yield \<Rightarrow> push 0x81 (push 0 c))"

definition saved_regs :: "reg list" where
  "saved_regs = [RAX, RBX, RCX, RDX, RSI, RDI, RBP, R8, R9, R10, R11, R12, R13, R14, R15]"

text \<open>
  \<^verbatim>\<open>isr_common_stub\<close> and \<^verbatim>\<open>irq_common_stub\<close>, which differ in the C function \<open>f\<close> that they
  call with the address of the context.
\<close>

definition common_save :: "cpu \<Rightarrow> cpu" where
  "common_save c = (let c1 = fold push_reg saved_regs c in c1\<lparr>gpr := (gpr c1)(RDI := rsp c1)\<rparr>)"

definition common_restore :: "cpu \<Rightarrow> cpu" where
  "common_restore c = (let c1 = fold pop_reg (rev saved_regs) c in iretq (c1\<lparr>rsp := rsp c1 + 16\<rparr>))"

definition common_stub :: "(cpu \<Rightarrow> cpu) \<Rightarrow> cpu \<Rightarrow> cpu" where
  "common_stub f c = common_restore (f (common_save c))"

text \<open>\<^verbatim>\<open>context->int_num\<close>, seen from the C function\<close>

definition context_int_num :: "cpu \<Rightarrow> u64" where
  "context_int_num c = cpu_words c (gpr c RDI + 15 * 8)"

section \<open>Interrupt controllers\<close>

definition reprogram_pic :: "'d port_ops \<Rightarrow> u8 \<Rightarrow> u8 \<Rightarrow> ('h, 'd) interrupts \<Rightarrow> ('h, 'd) interrupts" where
  "reprogram_pic po pic1_base pic2_base s =
     (let (pic1_mask, s1) = inb po PIC1_DATA s;
          (pic2_mask, s2) = inb po PIC2_DATA s1
      in (outb po PIC2_DATA pic2_mask \<circ> outb po PIC1_DATA pic1_mask \<circ>
          outb po PIC2_DATA 1 \<circ> outb po PIC1_DATA 1 \<circ>
          outb po PIC2_DATA 2 \<circ> outb po PIC1_DATA (push_bit 2 1) \<circ>
          outb po PIC2_DATA pic2_base \<circ> outb po PIC1_DATA pic1_base \<circ>
          outb po PIC2_COMMAND PIC_INIT \<circ> outb po PIC1_COMMAND PIC_INIT) s2)"

definition init_pic :: "'d port_ops \<Rightarrow> ('h, 'd) interrupts \<Rightarrow> ('h, 'd) interrupts" where
  "init_pic po s =
     outb po PIC2_DATA 0xFF (outb po PIC1_DATA 0xFF (reprogram_pic po INT_VECTOR_IRQ_BASE (INT_VECTOR_IRQ_BASE + 8) s))"

text \<open>
  \<^verbatim>\<open>1 << irq\<close> is an \<^verbatim>\<open>int\<close>, truncated where it is combined with a mask. (C leaves shifts of 32
  and more undefined; the properties are about the sixteen lines that exist.)
\<close>

definition irq_bit :: "u8 \<Rightarrow> 32 word" where
  "irq_bit irq = push_bit (unat irq) 1"

definition enable_irq :: "'d port_ops \<Rightarrow> u8 \<Rightarrow> ('h, 'd) interrupts \<Rightarrow> ('h, 'd) interrupts" where
  "enable_irq po irq0 s =
     (let (port, irq) = (if irq0 < 8 then (PIC1_DATA, irq0) else (PIC2_DATA, irq0 - 8));
          (v, s1) = inb po port s;
          s2 = outb po port (ucast (ucast v AND NOT (irq_bit irq))) s1
      in if irq < 8 then s2\<lparr>irq_mask := ucast (ucast (irq_mask s2) AND NOT (irq_bit irq))\<rparr>
         else let s3 = s2\<lparr>irq_mask := ucast (ucast (irq_mask s2) AND NOT (irq_bit (irq + 8)))\<rparr>
              in if irq_mask s3 AND 0xFF00 \<noteq> 0
                 then let (w, s4) = inb po PIC1_DATA s3 in outb po PIC1_DATA (ucast (ucast w AND NOT (irq_bit 2))) s4
                 else s3)"

definition disable_irq :: "'d port_ops \<Rightarrow> u8 \<Rightarrow> ('h, 'd) interrupts \<Rightarrow> ('h, 'd) interrupts" where
  "disable_irq po irq0 s =
     (let (port, irq) = (if irq0 < 8 then (PIC1_DATA, irq0) else (PIC2_DATA, irq0 - 8));
          (v, s1) = inb po port s;
          s2 = outb po port (ucast (ucast v OR irq_bit irq)) s1
      in s2\<lparr>irq_mask := ucast (ucast (irq_mask s2) OR irq_bit (if irq < 8 then irq else irq + 8))\<rparr>)"

definition mask_all_irqs :: "'d port_ops \<Rightarrow> ('h, 'd) interrupts \<Rightarrow> ('h, 'd) interrupts" where
  "mask_all_irqs po s = (outb po PIC2_DATA 0xFF (outb po PIC1_DATA 0xFF s))\<lparr>irq_mask := 0xFFFF\<rparr>"

definition unmask_all_irqs :: "'d port_ops \<Rightarrow> ('h, 'd) interrupts \<Rightarrow> ('h, 'd) interrupts" where
  "unmask_all_irqs po s = (outb po PIC2_DATA 0 (outb po PIC1_DATA 0 s))\<lparr>irq_mask := 0\<rparr>"

definition send_eoi :: "'d port_ops \<Rightarrow> u8 \<Rightarrow> ('h, 'd) interrupts \<Rightarrow> ('h, 'd) interrupts" where
  "send_eoi po irq s = outb po PIC1_COMMAND PIC_EOI (if irq \<ge> 8 then outb po PIC2_COMMAND PIC_EOI s else s)"

section \<open>Handlers\<close>

text \<open>
  A registered function acts on the interrupt state and may not return; \<^verbatim>\<open>page_fault_handler\<close>
  ends in \<^verbatim>\<open>kernel_panic\<close> on every path.
\<close>

definition call_handler ::
    "('h \<Rightarrow> u64 \<Rightarrow> ('h, 'd) interrupts \<Rightarrow> ('h, 'd) interrupts option) \<Rightarrow> 'h isr_handler \<Rightarrow> u64 \<Rightarrow>
     ('h, 'd) interrupts \<Rightarrow> ('h, 'd) interrupts option" where
  "call_handler call h int_num s = (case h of page_fault_handler \<Rightarrow> None | Handler f \<Rightarrow> call f int_num s)"

definition handle_exception ::
    "('h \<Rightarrow> u64 \<Rightarrow> ('h, 'd) interrupts \<Rightarrow> ('h, 'd) interrupts option) \<Rightarrow> u64 \<Rightarrow>
     ('h, 'd) interrupts \<Rightarrow> ('h, 'd) interrupts option" where
  "handle_exception call int_num s =
     (let exception_num = ucast int_num :: u8 in
      if exception_num < 32
      then case exception_handlers s ! unat exception_num of
             Some h \<Rightarrow> call_handler call h int_num s
           | None \<Rightarrow> None
      else None)"

definition handle_irq ::
    "'d port_ops \<Rightarrow> ('h \<Rightarrow> u64 \<Rightarrow> ('h, 'd) interrupts \<Rightarrow> ('h, 'd) interrupts option) \<Rightarrow> u64 \<Rightarrow>
     ('h, 'd) interrupts \<Rightarrow> ('h, 'd) interrupts option" where
  "handle_irq po call int_num s =
     (let irq = (ucast int_num :: u8) - INT_VECTOR_IRQ_BASE in
      if irq \<ge> 16 then None
      else Option.bind (case irq_handlers s ! unat irq of Some h \<Rightarrow> call_handler call h int_num s | None \<Rightarrow> Some s)
             (\<lambda>s1. Some (send_eoi po irq s1)))"

definition handle_isr ::
    "('h \<Rightarrow> u64 \<Rightarrow> ('h, 'd) interrupts \<Rightarrow> ('h, 'd) interrupts option) \<Rightarrow> u64 \<Rightarrow>
     ('h, 'd) interrupts \<Rightarrow> ('h, 'd) interrupts option" where
  "handle_isr call int_num s =
     (case isr_handlers s ! unat (ucast int_num :: u8) of
        Some h \<Rightarrow> call_handler call h int_num s
      | None \<Rightarrow> Some s)"

definition register_exception_handler :: "u8 \<Rightarrow> 'h isr_handler option \<Rightarrow> ('h, 'd) interrupts \<Rightarrow> ('h, 'd) interrupts" where
  "register_exception_handler vector h s =
     (if vector < 32 then s\<lparr>exception_handlers := (exception_handlers s)[unat vector := h]\<rparr> else s)"

definition register_irq_handler :: "u8 \<Rightarrow> 'h isr_handler option \<Rightarrow> ('h, 'd) interrupts \<Rightarrow> ('h, 'd) interrupts" where
  "register_irq_handler irq h s =
     (if irq < 16 then s\<lparr>irq_handlers := (irq_handlers s)[unat irq := h]\<rparr> else s)"

text \<open>The test \<^verbatim>\<open>vector < IDT_ENTRIES\<close> holds for every 8-bit vector.\<close>

definition register_isr_handler :: "u8 \<Rightarrow> 'h isr_handler option \<Rightarrow> ('h, 'd) interrupts \<Rightarrow> ('h, 'd) interrupts" where
  "register_isr_handler vector h s =
     (if unat vector < IDT_ENTRIES then s\<lparr>isr_handlers := (isr_handlers s)[unat vector := h]\<rparr> else s)"

definition setup_special_handlers :: "('h, 'd) interrupts \<Rightarrow> ('h, 'd) interrupts" where
  "setup_special_handlers s = register_exception_handler INT_VECTOR_PAGE_FAULT (Some page_fault_handler) s"

definition init_interrupts ::
    "'d port_ops \<Rightarrow> u64 \<Rightarrow> (stub \<Rightarrow> u64) \<Rightarrow> ('h, 'd) interrupts \<Rightarrow> ('h, 'd) interrupts" where
  "init_interrupts po base addr s =
     (let s1 = (disable_interrupts s)\<lparr>exception_handlers := replicate 32 None, irq_handlers := replicate 16 None,
                                     isr_handlers := replicate IDT_ENTRIES None\<rparr>
      in enable_interrupts (mask_all_irqs po (setup_special_handlers (init_pic po (init_idt base addr s1)))))"

text \<open>
  What an interrupt with a given vector does once the processor has found the gate: the stub reports
  its own number to \<^verbatim>\<open>handle_exception\<close> or \<^verbatim>\<open>handle_irq\<close>.
\<close>

definition stub_number :: "stub \<Rightarrow> u64" where
  "stub_number st =
     (case st of isr_stub n \<Rightarrow> of_nat n | irq_stub n \<Rightarrow> of_nat (32 + n) | isr_stub_syscall \<Rightarrow> 0x80 | isr_stub_yield \<Rightarrow> 0x81)"

definition run_stub ::
    "'d port_ops \<Rightarrow> ('h \<Rightarrow> u64 \<Rightarrow> ('h, 'd) interrupts \<Rightarrow> ('h, 'd) interrupts option) \<Rightarrow> stub \<Rightarrow>
     ('h, 'd) interrupts \<Rightarrow> ('h, 'd) interrupts option" where
  "run_stub po call st s =
     (case st of
        irq_stub n \<Rightarrow> handle_irq po call (stub_number st) s
      | _ \<Rightarrow> handle_exception call (stub_number st) s)"

section \<open>The interval timer\<close>

definition PIT_COMMAND_PORT :: u16 where "PIT_COMMAND_PORT = 0x43"
definition PIT_DATA_PORT_0 :: u16 where "PIT_DATA_PORT_0 = 0x40"
definition PIT_DIVISOR :: nat where "PIT_DIVISOR = 1193182 div 1000"

definition init_pit :: "'d port_ops \<Rightarrow> ('h, 'd) interrupts \<Rightarrow> ('h, 'd) interrupts" where
  "init_pit po s =
     (let divisor = of_nat PIT_DIVISOR :: u16;
          s1 = outb po PIT_COMMAND_PORT (0 OR 0x30 OR 6) s;
          s2 = outb po PIT_DATA_PORT_0 (ucast (divisor AND 0xFF)) s1
      in outb po PIT_DATA_PORT_0 (ucast (drop_bit 8 divisor AND 0xFF)) s2)"


section \<open>What the code relies on\<close>

text \<open>
  A 8259 controller as its data sheet describes it, as far as the code uses it: the initialisation
  sequence (0 when the controller is ready), the base vector, the mask and the lines in service. The end-of-interrupt
  command takes the line of highest priority, the lowest bit, out of service.
\<close>

record pic =
  pic_phase :: nat
  pic_base :: u8
  pic_imr :: u8
  pic_isr :: u8

definition pic_command :: "u8 \<Rightarrow> pic \<Rightarrow> pic" where
  "pic_command v p =
     (if v = PIC_INIT then p\<lparr>pic_phase := 1, pic_imr := 0, pic_isr := 0\<rparr>
      else p\<lparr>pic_isr := pic_isr p AND (pic_isr p - 1)\<rparr>)"

definition pic_data :: "u8 \<Rightarrow> pic \<Rightarrow> pic" where
  "pic_data v p =
     (if pic_phase p = 0 then p\<lparr>pic_imr := v\<rparr>
      else if pic_phase p = 1 then p\<lparr>pic_base := v AND 0xF8, pic_phase := 2\<rparr>
      else if pic_phase p = 2 then p\<lparr>pic_phase := 3\<rparr>
      else p\<lparr>pic_phase := 0\<rparr>)"

text \<open>The devices contain two such controllers at the ports of the source.\<close>

definition pic_device :: "'d port_ops \<Rightarrow> ('d \<Rightarrow> pic \<times> pic) \<Rightarrow> bool" where
  "pic_device po view \<longleftrightarrow>
     (\<forall>d v. v \<in> {PIC_INIT, PIC_EOI} \<longrightarrow>
        view (port_out po PIC1_COMMAND v d) = apfst (pic_command v) (view d) \<and>
        view (port_out po PIC2_COMMAND v d) = apsnd (pic_command v) (view d)) \<and>
     (\<forall>d v. view (port_out po PIC1_DATA v d) = apfst (pic_data v) (view d) \<and>
            view (port_out po PIC2_DATA v d) = apsnd (pic_data v) (view d)) \<and>
     (\<forall>d. view (snd (port_in po PIC1_DATA d)) = view d \<and> view (snd (port_in po PIC2_DATA d)) = view d) \<and>
     (\<forall>d. (pic_phase (fst (view d)) = 0 \<longrightarrow> fst (port_in po PIC1_DATA d) = pic_imr (fst (view d))) \<and>
          (pic_phase (snd (view d)) = 0 \<longrightarrow> fst (port_in po PIC2_DATA d) = pic_imr (snd (view d))))"

text \<open>
  The processor: it finds the address of the stub in the gate, and it pushes the return frame on the
  stack, aligned to 16 bytes, and the error code where the exception has one. Ten exceptions have one,
  among them the control protection exception 21 and the communication exception 29.
\<close>

definition cpu_error_code :: "stub \<Rightarrow> bool" where
  "cpu_error_code st = (case st of isr_stub n \<Rightarrow> n \<in> {8, 10, 11, 12, 13, 14, 17, 21, 29, 30} | _ \<Rightarrow> False)"

definition gate_offset :: "idt_entry \<Rightarrow> u64" where
  "gate_offset g = ucast (offset_low g) OR push_bit 16 (ucast (offset_mid g)) OR push_bit 32 (ucast (offset_high g))"

definition deliver :: "bool \<Rightarrow> u64 \<Rightarrow> cpu \<Rightarrow> cpu" where
  "deliver has_error error_code c =
     (let c1 = (push (rip c) \<circ> push (seg_cs c) \<circ> push (rflags c) \<circ> push (rsp c) \<circ> push (seg_ss c))
                 (c\<lparr>rsp := rsp c AND NOT 15\<rparr>)
      in if has_error then push error_code c1 else c1)"

end
