(* ===== verification/Interrupt_Props.thy ===== *)
theory Interrupt_Props
  imports Interrupts
begin

text \<open>
  Properties of interrupt handling: the stubs are transparent to the interrupted code, the descriptor
  table leads to them, the controllers show exactly the lines that were enabled, and every handled line is acknowledged.
\<close>

section \<open>The stack of a stub\<close>

lemma fold_push_regs: "fold push_reg rs c = fold push (map (gpr c) rs) c"
proof (induction rs arbitrary: c)
  case (Cons r rs)
  have "gpr (push_reg r c) = gpr c"
    by (simp add: push_reg_def push_def)
  with Cons.IH [of "push_reg r c"] show ?case
    by (simp add: push_reg_def)
qed simp

lemma fold_push_frame [simp]:
  "gpr (fold push vs c) = gpr c" "rsp (fold push vs c) = rsp c - 8 * of_nat (length vs)"
  by (induction vs arbitrary: c) (simp_all add: push_def distrib_left diff_diff_add)

lemma slot_neq: "i < 32 \<Longrightarrow> j < 32 \<Longrightarrow> i \<noteq> j \<Longrightarrow> (x :: u64) - 8 * of_nat i \<noteq> x - 8 * of_nat j"
proof
  assume *: "i < 32" "j < 32" "i \<noteq> j" and "x - 8 * of_nat i = x - 8 * of_nat j"
  then have "(8 :: u64) * of_nat i = 8 * of_nat j" by (metis diff_left_imp_eq)
  with * show False by (simp add: word_unat_eq_iff unat_word_ariths unat_of_nat)
qed

lemma push_words:
  "cpu_words (push v c) = (cpu_words c)(rsp c - 8 := v)"
  by (simp add: push_def)

lemma fold_push_at:
  "length vs < 32 \<Longrightarrow> j < length vs \<Longrightarrow> cpu_words (fold push vs c) (rsp c - 8 * of_nat (Suc j)) = vs ! j"
proof (induction vs rule: rev_induct)
  case (snoc v vs)
  have top: "rsp (fold push vs c) - 8 = rsp c - 8 * of_nat (Suc (length vs))"
    by (simp add: distrib_left algebra_simps)
  show ?case
  proof (cases "j = length vs")
    case True
    then show ?thesis by (simp add: push_words top del: of_nat_Suc fold_push_frame)
  next
    case False
    then have "rsp c - 8 * of_nat (Suc j) \<noteq> rsp c - 8 * of_nat (Suc (length vs))"
      using snoc.prems by (intro slot_neq) simp_all
    with False snoc show ?thesis
      by (simp add: push_words top nth_append del: of_nat_Suc fold_push_frame)
  qed
qed simp

lemma fold_pop_frame [simp]:
  "cpu_words (fold pop_reg rs c) = cpu_words c" "rsp (fold pop_reg rs c) = rsp c + 8 * of_nat (length rs)"
  by (induction rs arbitrary: c) (simp_all add: pop_reg_def distrib_left add.assoc)

lemma pop_gpr: "gpr (pop_reg r c) = (gpr c)(r := cpu_words c (rsp c))"
  by (simp add: pop_reg_def)

lemma fold_pop_at:
  "distinct rs \<Longrightarrow> j < length rs \<Longrightarrow> gpr (fold pop_reg rs c) (rs ! j) = cpu_words c (rsp c + 8 * of_nat j)"
proof (induction rs rule: rev_induct)
  case (snoc r rs)
  have "rs ! j \<noteq> r" if "j < length rs"
    using snoc.prems(1) nth_mem [OF that] by auto
  with snoc show ?case
    by (auto simp: pop_gpr nth_append less_Suc_eq)
qed simp

definition frame_words :: "stub \<Rightarrow> u64 \<Rightarrow> cpu \<Rightarrow> u64 list" where
  "frame_words st e c =
     [seg_ss c, rsp c, rflags c, seg_cs c, rip c, e, stub_number st] @ map (gpr c) saved_regs"

definition stub_has_error :: "stub \<Rightarrow> bool" where
  "stub_has_error st = (case st of isr_stub n \<Rightarrow> pushes_error_code n | _ \<Rightarrow> False)"

lemma error_code_agrees:
  assumes "st \<noteq> isr_stub 21" "st \<noteq> isr_stub 29"
  shows "cpu_error_code st = stub_has_error st"
  using assms by (auto simp: cpu_error_code_def stub_has_error_def pushes_error_code_def split: stub.split)

lemma stub_entry:
  "\<exists>e'. common_save (stub_prologue st (deliver (stub_has_error st) e c)) =
     (let d = fold push (frame_words st e' c) (c\<lparr>rsp := rsp c AND NOT 15\<rparr>)
      in d\<lparr>gpr := (gpr c)(RDI := rsp d)\<rparr>)"
proof -
  let ?c = "c\<lparr>rsp := rsp c AND NOT 15\<rparr>"
  have "\<exists>e'. stub_prologue st (deliver (stub_has_error st) e c) =
      fold push [seg_ss c, rsp c, rflags c, seg_cs c, rip c, e', stub_number st] ?c"
    by (cases "stub_has_error st"; intro exI [of _ "if stub_has_error st then e else 0"])
      (auto simp: stub_prologue_def deliver_def stub_has_error_def stub_number_def Let_def split: stub.split)
  then obtain e' where *: "stub_prologue st (deliver (stub_has_error st) e c) =
      fold push [seg_ss c, rsp c, rflags c, seg_cs c, rip c, e', stub_number st] ?c" by blast
  have "gpr (fold push [seg_ss c, rsp c, rflags c, seg_cs c, rip c, e', stub_number st] ?c) = gpr c"
    by (simp del: fold.simps)
  then show ?thesis
    unfolding * common_save_def fold_push_regs frame_words_def fold_append
    by (intro exI [of _ e']) (simp add: Let_def del: fold.simps)
qed

lemma saved_regs_length [simp]: "length saved_regs = 15"
  by (simp add: saved_regs_def)

lemma length_frame_words [simp]: "length (frame_words st e c) = 22"
  by (simp add: frame_words_def saved_regs_def)

text \<open>The context seen from its own address: slot \<open>j\<close> of the structure is word \<open>21 - j\<close> of the pushes.\<close>

lemma context_slot:
  assumes d: "d = fold push (frame_words st e c) (c\<lparr>rsp := a\<rparr>)" and j: "j < 22"
  shows "cpu_words d (rsp d + 8 * of_nat j) = frame_words st e c ! (21 - j)"
proof -
  have "rsp d + 8 * of_nat j = a - 8 * of_nat (Suc (21 - j))"
    using j by (simp add: d of_nat_diff algebra_simps)
  moreover have "cpu_words d (a - 8 * of_nat (Suc (21 - j))) = frame_words st e c ! (21 - j)"
    using fold_push_at [of "frame_words st e c" "21 - j" "c\<lparr>rsp := a\<rparr>"] by (simp add: d del: of_nat_Suc)
  ultimately show ?thesis by metis
qed

lemma saved_regs_complete: "\<exists>j < 15. r = rev saved_regs ! j \<and> frame_words st e c ! (21 - j) = gpr c r"
proof -
  have "r \<in> set (rev saved_regs)"
    by (cases r) (simp_all add: saved_regs_def)
  then obtain j where j: "j < 15" "rev saved_regs ! j = r"
    unfolding in_set_conv_nth by auto
  moreover from j(1) have "frame_words st e c ! (21 - j) = gpr c (rev saved_regs ! j)"
    by (simp add: frame_words_def nth_append rev_nth)
  ultimately show ?thesis by blast
qed

text \<open>
  C4. Interrupts are transparent. The processor takes an exception, a hardware interrupt or one of the two
  software interrupts, and pushes an error code for the ten exceptions that have one. For every
  vector but 21 and 29, once the C function has returned with its stack pointer
  and the saved context as they were, the interrupted code continues with all fifteen registers, its
  stack, flags and segments unchanged; and the function finds the number of the vector in the context.
  The stubs of 21 and 29 push a second error code, so these two are excluded.
\<close>

theorem interrupt_transparent:
  assumes vector: "st \<noteq> isr_stub 21" "st \<noteq> isr_stub 29"
    and d: "d = common_save (stub_prologue st (deliver (cpu_error_code st) e c))"
    and f: "rsp (f d) = rsp d"
      "\<forall>j < 22. cpu_words (f d) (rsp d + 8 * of_nat j) = cpu_words d (rsp d + 8 * of_nat j)"
    and c': "c' = common_stub f (stub_prologue st (deliver (cpu_error_code st) e c))"
  shows "context_int_num d = stub_number st \<and> gpr c' = gpr c \<and> rip c' = rip c \<and> rsp c' = rsp c \<and>
         rflags c' = rflags c \<and> seg_cs c' = seg_cs c \<and> seg_ss c' = seg_ss c"
proof -
  obtain e' d0 where d0: "d0 = fold push (frame_words st e' c) (c\<lparr>rsp := rsp c AND NOT 15\<rparr>)"
      and d': "d = d0\<lparr>gpr := (gpr c)(RDI := rsp d0)\<rparr>"
    using stub_entry [of st e c] by (auto simp: d error_code_agrees [OF vector] Let_def)
  define w where "w = frame_words st e' c"
  have slot: "cpu_words (f d) (rsp d + 8 * of_nat j) = w ! (21 - j)" if "j < 22" for j
    using context_slot [OF d0 that] f(2) that by (simp add: d' w_def)
  have c'': "c' = common_restore (f d)"
    by (simp add: c' d common_stub_def)
  have regs: "gpr c' (rev saved_regs ! j) = w ! (21 - j)" if "j < 15" for j
    using fold_pop_at [of "rev saved_regs" j "f d"] slot [of j] that f(1)
    by (simp add: c'' common_restore_def Let_def iretq_def saved_regs_def)
  have "gpr c' r = gpr c r" for r
    using saved_regs_complete [of r st e' c] regs by (auto simp: w_def)
  moreover have "context_int_num d = w ! 6"
    using context_slot [OF d0, of 15] by (simp add: context_int_num_def d' w_def)
  moreover have "rip c' = w ! 4" "seg_cs c' = w ! 3" "rflags c' = w ! 2" "rsp c' = w ! 1" "seg_ss c' = w ! 0"
    using slot [of 17] slot [of 18] slot [of 19] slot [of 20] slot [of 21] f(1)
    by (simp_all add: c'' common_restore_def Let_def iretq_def add.assoc)
  ultimately show ?thesis
    by (simp add: w_def frame_words_def fun_eq_iff)
qed


section \<open>The descriptor table and the handler tables\<close>

lemma gate_offset_gate: "gate_offset (idt_gate a attr) = a"
proof -
  have masks: "(0xFFFF :: u64) = mask 16" "(0xFFFFFFFF :: u64) = mask 32"
    by (simp_all add: mask_eq_exp_minus_1)
  show ?thesis
  proof (rule bit_word_eqI)
    fix n :: nat
    show "bit (gate_offset (idt_gate a attr)) n = bit a n" if "n < LENGTH(64)"
      using that unfolding gate_offset_def idt_gate_def masks
      by (cases "n < 32") (auto simp: bit_simps not_less)
  qed
qed

lemma fold_set_idt_entry:
  "fold (\<lambda>i. set_idt_entry (g i) (h i) attr) is s =
     s\<lparr>idt := fold (\<lambda>i l. l[unat (g i) := idt_gate (h i) attr]) is (idt s)\<rparr>"
  by (induction "is" arbitrary: s) (simp_all add: set_idt_entry_def)

lemma set_idt_range:
  assumes "\<forall>i < n. unat (g i :: u8) = b + i" "b + n \<le> length (idt s)"
  shows "\<exists>l. fold (\<lambda>i. set_idt_entry (g i) (h i) attr) [0 ..< n] s = s\<lparr>idt := l\<rparr> \<and> length l = length (idt s) \<and>
           (\<forall>j. l ! j = (if b \<le> j \<and> j < b + n then idt_gate (h (j - b)) attr else idt s ! j))"
proof -
  have "fold (\<lambda>i l. l[unat (g i) := idt_gate (h i) attr]) [0 ..< n] (idt s) =
      fold (\<lambda>i l. l[b + i := idt_gate (h i) attr]) [0 ..< n] (idt s)"
    using assms(1) by (intro fold_cong) auto
  then show ?thesis
    using assms(2)
    by (intro exI [of _ "fold (\<lambda>i l. l[b + i := idt_gate (h i) attr]) [0 ..< n] (idt s)"])
      (simp add: fold_set_idt_entry fold_update_nth)
qed

text \<open>The attributes that the gate of a stub has.\<close>

definition stub_attr :: "stub \<Rightarrow> u8" where
  "stub_attr st =
     (case st of isr_stub_syscall \<Rightarrow> IDT_ATTR_TRAP_USER | isr_stub_yield \<Rightarrow> IDT_ATTR_TRAP_KERNEL
      | _ \<Rightarrow> IDT_ATTR_INTERRUPT_KERNEL)"

text \<open>
  The well-formedness of the interrupt state: the tables have the sizes that the handlers index them
  with, and the gate of every vector that has a stub is present and leads to it.
\<close>

definition int_wf :: "u64 \<Rightarrow> (stub \<Rightarrow> u64) \<Rightarrow> ('h, 'd) interrupts \<Rightarrow> bool" where
  "int_wf base addr s \<longleftrightarrow>
     length (exception_handlers s) = 32 \<and> length (irq_handlers s) = 16 \<and> length (isr_handlers s) = 256 \<and>
     length (idt s) = 256 \<and> int_idtr s = \<lparr>idtr_limit = 4095, idtr_base = base\<rparr> \<and>
     (\<forall>v st. isr_stubs v = Some st \<longrightarrow>
        gate_offset (idt s ! v) = addr st \<and> idt_attr (idt s ! v) = stub_attr st)"

lemma init_idt_gates:
  assumes "length (idt s) = 256"
  shows "\<exists>l. init_idt base addr s = s\<lparr>int_idtr := \<lparr>idtr_limit = 4095, idtr_base = base\<rparr>, idt := l\<rparr> \<and> length l = 256 \<and>
           (\<forall>v st. isr_stubs v = Some st \<longrightarrow> l ! v = idt_gate (addr st) (stub_attr st))"
proof -
  define s1 where "s1 = s\<lparr>int_idtr := \<lparr>idtr_limit = of_nat (16 * IDT_ENTRIES) - 1, idtr_base = base\<rparr>\<rparr>"
  have u: "\<forall>i < 32. unat (of_nat i :: u8) = 0 + i" "\<forall>i < 16. unat (INT_VECTOR_IRQ_BASE + of_nat i) = 32 + i"
    by (simp_all add: INT_VECTOR_IRQ_BASE_def unat_word_ariths unat_of_nat)
  obtain l2 where l2: "fold (\<lambda>i. set_idt_entry (of_nat i) (stub_pointer addr i) IDT_ATTR_INTERRUPT_KERNEL) [0 ..< 32] s1 =
      s1\<lparr>idt := l2\<rparr>" "length l2 = length (idt s1)"
      "\<forall>j. l2 ! j = (if 0 \<le> j \<and> j < 0 + 32 then idt_gate (stub_pointer addr (j - 0)) IDT_ATTR_INTERRUPT_KERNEL
                     else idt s1 ! j)"
    using set_idt_range [OF u(1), of s1 "stub_pointer addr"] assms unfolding s1_def by fastforce
  obtain l3 where l3: "fold (\<lambda>i. set_idt_entry (INT_VECTOR_IRQ_BASE + of_nat i)
        (stub_pointer addr (unat INT_VECTOR_IRQ_BASE + i)) IDT_ATTR_INTERRUPT_KERNEL) [0 ..< 16] (s1\<lparr>idt := l2\<rparr>) =
      s1\<lparr>idt := l2, idt := l3\<rparr>" "length l3 = length (idt (s1\<lparr>idt := l2\<rparr>))"
      "\<forall>j. l3 ! j = (if 32 \<le> j \<and> j < 32 + 16 then idt_gate (stub_pointer addr (unat INT_VECTOR_IRQ_BASE + (j - 32)))
                     IDT_ATTR_INTERRUPT_KERNEL else idt (s1\<lparr>idt := l2\<rparr>) ! j)"
    using set_idt_range [OF u(2), of "s1\<lparr>idt := l2\<rparr>" "\<lambda>i. stub_pointer addr (unat INT_VECTOR_IRQ_BASE + i)"
        IDT_ATTR_INTERRUPT_KERNEL] l2(2) assms
    unfolding s1_def by fastforce
  define l where "l = l3[128 := idt_gate (addr isr_stub_syscall) IDT_ATTR_TRAP_USER,
      129 := idt_gate (addr isr_stub_yield) IDT_ATTR_TRAP_KERNEL]"
  have "init_idt base addr s = s\<lparr>int_idtr := \<lparr>idtr_limit = 4095, idtr_base = base\<rparr>, idt := l\<rparr>"
    unfolding init_idt_def Let_def s1_def [symmetric] l2(1) l3(1)
    by (simp add: set_idt_entry_def s1_def IDT_ENTRIES_def INT_VECTOR_SYSCALL_def INT_VECTOR_YIELD_def l_def
        stub_pointer_def isr_stubs_def)
  moreover have "length l = 256"
    using l2(2) l3(2) assms by (simp add: l_def s1_def)
  moreover have "l ! v = idt_gate (addr st) (stub_attr st)" if "isr_stubs v = Some st" for v st
    using that l2(2,3) l3(2,3) assms
    by (auto simp: l_def s1_def INT_VECTOR_IRQ_BASE_def nth_list_update stub_pointer_def isr_stubs_def stub_attr_def
        split: if_splits)
  ultimately show ?thesis by blast
qed

lemma stub_attr_present: "bit (stub_attr st) 7"
  by (cases st) (simp_all add: stub_attr_def IDT_ATTR_TRAP_USER_def IDT_ATTR_TRAP_KERNEL_def IDT_ATTR_INTERRUPT_KERNEL_def bit_simps)

text \<open>The state up to the devices, the tracking mask and the interrupt flag, which the controller functions change.\<close>

lemma outb_frame [simp]:
  "idt (outb po p v s) = idt s" "int_idtr (outb po p v s) = int_idtr s" "irq_mask (outb po p v s) = irq_mask s"
  "exception_handlers (outb po p v s) = exception_handlers s" "irq_handlers (outb po p v s) = irq_handlers s"
  "isr_handlers (outb po p v s) = isr_handlers s" "int_devices (outb po p v s) = port_out po p v (int_devices s)"
  by (simp_all add: outb_def)

lemma inb_split: "inb po p s = (fst (port_in po p (int_devices s)), s\<lparr>int_devices := snd (port_in po p (int_devices s))\<rparr>)"
  by (simp add: inb_def split_beta)

lemma int_wf_cong:
  "int_wf base addr s \<Longrightarrow> idt s' = idt s \<Longrightarrow> int_idtr s' = int_idtr s \<Longrightarrow>
   length (exception_handlers s') = length (exception_handlers s) \<Longrightarrow>
   length (irq_handlers s') = length (irq_handlers s) \<Longrightarrow> length (isr_handlers s') = length (isr_handlers s) \<Longrightarrow>
   int_wf base addr s'"
  by (simp add: int_wf_def)


lemmas pic_function_defs =
  reprogram_pic_def init_pic_def enable_irq_def disable_irq_def mask_all_irqs_def unmask_all_irqs_def send_eoi_def
  enable_interrupts_def disable_interrupts_def

text \<open>The operations of the interface, and the interrupts that other code takes.\<close>

inductive int_reach ::
    "'d port_ops \<Rightarrow> ('h \<Rightarrow> u64 \<Rightarrow> ('h, 'd) interrupts \<Rightarrow> ('h, 'd) interrupts option) \<Rightarrow> u64 \<Rightarrow> (stub \<Rightarrow> u64) \<Rightarrow>
     ('h, 'd) interrupts \<Rightarrow> bool"
  for po call base addr where
  boot: "length (idt s) = 256 \<Longrightarrow> int_reach po call base addr (init_interrupts po base addr s)"
| register_exception:
    "int_reach po call base addr s \<Longrightarrow> int_reach po call base addr (register_exception_handler v h s)"
| register_irq: "int_reach po call base addr s \<Longrightarrow> int_reach po call base addr (register_irq_handler v h s)"
| register_isr: "int_reach po call base addr s \<Longrightarrow> int_reach po call base addr (register_isr_handler v h s)"
| enable: "int_reach po call base addr s \<Longrightarrow> int_reach po call base addr (enable_irq po irq s)"
| disable: "int_reach po call base addr s \<Longrightarrow> int_reach po call base addr (disable_irq po irq s)"
| mask_all: "int_reach po call base addr s \<Longrightarrow> int_reach po call base addr (mask_all_irqs po s)"
| unmask_all: "int_reach po call base addr s \<Longrightarrow> int_reach po call base addr (unmask_all_irqs po s)"
| taken:
    "int_reach po call base addr s \<Longrightarrow> run_stub po call st s = Some s' \<Longrightarrow> int_reach po call base addr s'"

definition same_tables :: "('h, 'd) interrupts \<Rightarrow> ('h, 'd) interrupts \<Rightarrow> bool" where
  "same_tables s s' \<longleftrightarrow>
     idt s' = idt s \<and> int_idtr s' = int_idtr s \<and> length (exception_handlers s') = length (exception_handlers s) \<and>
     length (irq_handlers s') = length (irq_handlers s) \<and> length (isr_handlers s') = length (isr_handlers s)"

lemma int_wf_same: "int_wf base addr s \<Longrightarrow> same_tables s s' \<Longrightarrow> int_wf base addr s'"
  by (simp add: same_tables_def int_wf_def)

lemma controller_same_tables:
  "same_tables s (reprogram_pic po b1 b2 s)" "same_tables s (init_pic po s)" "same_tables s (enable_irq po irq s)"
  "same_tables s (disable_irq po irq s)" "same_tables s (mask_all_irqs po s)" "same_tables s (unmask_all_irqs po s)"
  "same_tables s (send_eoi po irq s)"
  by (simp_all add: same_tables_def pic_function_defs inb_split Let_def)

lemma register_same_tables:
  "same_tables s (register_exception_handler v h s)" "same_tables s (register_irq_handler v h s)"
  "same_tables s (register_isr_handler v h s)"
  by (simp_all add: same_tables_def register_exception_handler_def register_irq_handler_def register_isr_handler_def)

lemma same_tables_trans: "same_tables s t \<Longrightarrow> same_tables t u \<Longrightarrow> same_tables s u"
  by (simp add: same_tables_def)

lemma init_interrupts_wf:
  assumes "length (idt s) = 256"
  shows "int_wf base addr (init_interrupts po base addr s)"
proof -
  define s1 where "s1 = (disable_interrupts s)\<lparr>exception_handlers := replicate 32 None, irq_handlers := replicate 16 None,
                                     isr_handlers := replicate IDT_ENTRIES None\<rparr>"
  have "length (idt s1) = 256"
    using assms by (simp add: s1_def disable_interrupts_def)
  from init_idt_gates [OF this, of base addr] have "int_wf base addr (init_idt base addr s1)"
    by (auto simp: int_wf_def gate_offset_gate s1_def IDT_ENTRIES_def)
      (simp add: idt_gate_def)
  moreover have "same_tables (init_idt base addr s1)
      (mask_all_irqs po (setup_special_handlers (init_pic po (init_idt base addr s1))))"
    unfolding setup_special_handlers_def
    by (meson controller_same_tables register_same_tables same_tables_trans)
  ultimately have "int_wf base addr (mask_all_irqs po (setup_special_handlers (init_pic po (init_idt base addr s1))))"
    by (rule int_wf_same)
  then show ?thesis
    by (simp add: init_interrupts_def Let_def s1_def [symmetric] int_wf_def enable_interrupts_def)
qed

lemma run_stub_same_tables:
  assumes "\<forall>h n s s'. call h n s = Some s' \<longrightarrow> same_tables s s'" "run_stub po call st s = Some s'"
  shows "same_tables s s'"
proof -
  have call: "same_tables s t" if "call_handler call h n s = Some t" for h n t
    using that assms(1) by (auto simp: call_handler_def split: isr_handler.splits)
  have refl: "same_tables s s" by (simp add: same_tables_def)
  show ?thesis
  proof (cases "\<exists>n. st = irq_stub n")
    case True
    then obtain t irq where "t = s \<or> (\<exists>h n. call_handler call h n s = Some t)" and s': "s' = send_eoi po irq t"
      using assms(2) unfolding run_stub_def handle_irq_def Let_def
      by (auto simp: bind_eq_Some_conv split: if_splits option.splits)
    then have "same_tables s t"
      using call refl by blast
    then show ?thesis
      unfolding s' by (rule same_tables_trans) (rule controller_same_tables)
  next
    case False
    then show ?thesis
      using assms(2) call
      by (auto simp: run_stub_def handle_exception_def Let_def split: stub.splits if_splits option.splits)
  qed
qed

lemma reach_wf:
  assumes "\<forall>h n s s'. call h n s = Some s' \<longrightarrow> same_tables s s'"
    and "int_reach po call base addr s"
  shows "int_wf base addr s"
  using assms(2)
proof induction
  case (boot s)
  then show ?case by (rule init_interrupts_wf)
next
  case (taken s st s')
  then show ?case
    using run_stub_same_tables [OF assms(1)] int_wf_same by blast
qed (erule int_wf_same; rule controller_same_tables register_same_tables)+

text \<open>
  C24. Whatever the other parts of the kernel do with the interface (handlers registered and called, lines
  enabled and disabled) the descriptor table stays well formed: it has 256 entries, the processor
  knows its address and size, every vector with a stub has its gate at the right offset and with the right
  type, and the handler tables have the sizes with which they are indexed.
  The functions that are registered reach the tables only through the interface, so that they keep their sizes.
\<close>

theorem int_reach_wf:
  assumes "\<forall>h n s s'. call h n s = Some s' \<longrightarrow> same_tables s s'"
    and "int_reach po call base addr s"
  shows "int_wf base addr s"
  by (rule reach_wf [OF assms])


section \<open>The controllers\<close>

definition pics :: "('d \<Rightarrow> pic \<times> pic) \<Rightarrow> ('h, 'd) interrupts \<Rightarrow> pic \<times> pic" where
  "pics view s = view (int_devices s)"

definition pics_ready :: "('d \<Rightarrow> pic \<times> pic) \<Rightarrow> ('h, 'd) interrupts \<Rightarrow> bool" where
  "pics_ready view s \<longleftrightarrow>
     pic_phase (fst (pics view s)) = 0 \<and> pic_phase (snd (pics view s)) = 0 \<and>
     pic_base (fst (pics view s)) = 0x20 \<and> pic_base (snd (pics view s)) = 0x28"

text \<open>The mask of the sixteen lines, and the lines that can interrupt: those of the second controller through line 2.\<close>

definition unmasked :: "('d \<Rightarrow> pic \<times> pic) \<Rightarrow> ('h, 'd) interrupts \<Rightarrow> nat \<Rightarrow> bool" where
  "unmasked view s n \<longleftrightarrow>
     (if n < 8 then \<not> bit (pic_imr (fst (pics view s))) n else n < 16 \<and> \<not> bit (pic_imr (snd (pics view s))) (n - 8))"

definition delivered :: "('d \<Rightarrow> pic \<times> pic) \<Rightarrow> ('h, 'd) interrupts \<Rightarrow> nat \<Rightarrow> bool" where
  "delivered view s n \<longleftrightarrow> unmasked view s n \<and> (8 \<le> n \<longrightarrow> unmasked view s 2)"

lemma pic_device_out:
  assumes "pic_device po view"
  shows "view (port_out po PIC1_DATA v d) = apfst (pic_data v) (view d)"
    "view (port_out po PIC2_DATA v d) = apsnd (pic_data v) (view d)"
    "view (port_out po PIC1_COMMAND PIC_INIT d) = apfst (pic_command PIC_INIT) (view d)"
    "view (port_out po PIC2_COMMAND PIC_INIT d) = apsnd (pic_command PIC_INIT) (view d)"
    "view (port_out po PIC1_COMMAND PIC_EOI d) = apfst (pic_command PIC_EOI) (view d)"
    "view (port_out po PIC2_COMMAND PIC_EOI d) = apsnd (pic_command PIC_EOI) (view d)"
    "view (snd (port_in po PIC1_DATA d)) = view d" "view (snd (port_in po PIC2_DATA d)) = view d"
    "pic_phase (fst (view d)) = 0 \<Longrightarrow> fst (port_in po PIC1_DATA d) = pic_imr (fst (view d))"
    "pic_phase (snd (view d)) = 0 \<Longrightarrow> fst (port_in po PIC2_DATA d) = pic_imr (snd (view d))"
  using assms by (simp_all add: pic_device_def)

lemma init_pics:
  assumes "pic_device po view"
  shows "pics_ready view (init_interrupts po base addr s)"
    and "pic_imr (fst (pics view (init_interrupts po base addr s))) = 0xFF"
    and "pic_imr (snd (pics view (init_interrupts po base addr s))) = 0xFF"
    and "pic_isr (fst (pics view (init_interrupts po base addr s))) = 0"
    and "pic_isr (snd (pics view (init_interrupts po base addr s))) = 0"
    and "irq_mask (init_interrupts po base addr s) = 0xFFFF"
  unfolding pics_ready_def pics_def
  by (simp_all add: init_interrupts_def Let_def enable_interrupts_def mask_all_irqs_def
      setup_special_handlers_def register_exception_handler_def init_pic_def reprogram_pic_def inb_split
      pic_device_out [OF assms] pic_command_def pic_data_def INT_VECTOR_IRQ_BASE_def apfst_def apsnd_def split_beta map_prod_def)


lemma irq_bit_clear: "unat irq < 8 \<Longrightarrow> bit (ucast (ucast (v :: u8) AND NOT (irq_bit irq)) :: u8) n = (bit v n \<and> n \<noteq> unat irq)"
  by (auto simp: irq_bit_def bit_simps dest: bit_imp_le_length)

lemma irq_bit_set: "unat irq < 8 \<Longrightarrow> bit (ucast (ucast (v :: u8) OR irq_bit irq) :: u8) n = (bit v n \<or> n = unat irq)"
  by (auto simp: irq_bit_def bit_simps dest: bit_imp_le_length)

lemma second_controller_line: "8 \<le> (irq :: u8) \<Longrightarrow> unat (irq - 8) = unat irq - 8"
  by (simp add: unat_sub word_le_nat_alt)

lemma enable_irq_pics:
  assumes dev: "pic_device po view" and rdy: "pics_ready view s" and irq: "irq < 16"
  shows "pics view (enable_irq po irq s) =
           (if irq < 8 then apfst (pic_imr_update (\<lambda>m. ucast (ucast m AND NOT (irq_bit irq)))) (pics view s)
            else apsnd (pic_imr_update (\<lambda>m. ucast (ucast m AND NOT (irq_bit (irq - 8))))) (pics view s))"
    and "irq_mask (enable_irq po irq s) = ucast (ucast (irq_mask s) AND NOT (irq_bit (if irq < 8 then irq else irq - 8)))"
proof -
  have "irq - 8 < 8" if "\<not> irq < 8"
    using irq that by (simp add: word_less_nat_alt word_le_nat_alt unat_sub)
  then show "pics view (enable_irq po irq s) =
           (if irq < 8 then apfst (pic_imr_update (\<lambda>m. ucast (ucast m AND NOT (irq_bit irq)))) (pics view s)
            else apsnd (pic_imr_update (\<lambda>m. ucast (ucast m AND NOT (irq_bit (irq - 8))))) (pics view s))"
    "irq_mask (enable_irq po irq s) = ucast (ucast (irq_mask s) AND NOT (irq_bit (if irq < 8 then irq else irq - 8)))"
    using rdy by (auto simp: enable_irq_def inb_split Let_def pics_ready_def pics_def pic_device_out [OF dev] pic_data_def
        apfst_def apsnd_def map_prod_def split_beta)
qed

lemma disable_irq_pics:
  assumes dev: "pic_device po view" and rdy: "pics_ready view s" and irq: "irq < 16"
  shows "pics view (disable_irq po irq s) =
           (if irq < 8 then apfst (pic_imr_update (\<lambda>m. ucast (ucast m OR irq_bit irq))) (pics view s)
            else apsnd (pic_imr_update (\<lambda>m. ucast (ucast m OR irq_bit (irq - 8)))) (pics view s))"
  using rdy by (auto simp: disable_irq_def inb_split Let_def pics_ready_def pics_def pic_device_out [OF dev] pic_data_def
        apfst_def apsnd_def map_prod_def split_beta)

text \<open>A sequence of operations on the lines, and what it means for the set of enabled lines.\<close>

datatype irq_op = Enable u8 | Disable u8 | Mask_all | Unmask_all

fun irq_step :: "'d port_ops \<Rightarrow> irq_op \<Rightarrow> ('h, 'd) interrupts \<Rightarrow> ('h, 'd) interrupts" where
  "irq_step po (Enable irq) s = enable_irq po irq s"
| "irq_step po (Disable irq) s = disable_irq po irq s"
| "irq_step po Mask_all s = mask_all_irqs po s"
| "irq_step po Unmask_all s = unmask_all_irqs po s"

fun line_step :: "irq_op \<Rightarrow> nat set \<Rightarrow> nat set" where
  "line_step (Enable irq) A = insert (unat irq) A"
| "line_step (Disable irq) A = A - {unat irq}"
| "line_step Mask_all A = {}"
| "line_step Unmask_all A = {..< 16}"

fun irq_op_ok :: "irq_op \<Rightarrow> bool" where
  "irq_op_ok (Enable irq) = (irq < 16)"
| "irq_op_ok (Disable irq) = (irq < 16)"
| "irq_op_ok _ = True"

lemma all_ones_bit: "bit (255 :: int) n \<longleftrightarrow> n < 8" "bit (65535 :: int) n \<longleftrightarrow> n < 16"
  using bit_mask_iff [where 'a = int, of 8 n] bit_mask_iff [where 'a = int, of 16 n]
  by (simp_all add: mask_eq_exp_minus_1)

lemma irq_step_lines:
  assumes dev: "pic_device po view" and rdy: "pics_ready view s" and ok: "irq_op_ok x"
  shows "pics_ready view (irq_step po x s) \<and> {n. unmasked view (irq_step po x s) n} = line_step x {n. unmasked view s n}"
proof (cases x)
  case (Enable irq)
  then show ?thesis
    using rdy ok second_controller_line [of irq]
    by (auto simp: pics_ready_def unmasked_def enable_irq_pics [OF dev rdy] irq_bit_clear word_less_nat_alt word_le_nat_alt
        not_less split: if_splits)
next
  case (Disable irq)
  then show ?thesis
    using rdy ok second_controller_line [of irq]
    by (auto simp: pics_ready_def unmasked_def disable_irq_pics [OF dev rdy] irq_bit_set word_less_nat_alt word_le_nat_alt
        not_less split: if_splits)
qed (use rdy in \<open>auto simp: pics_ready_def pics_def unmasked_def mask_all_irqs_def unmask_all_irqs_def
        pic_device_out [OF dev] pic_data_def all_ones_bit\<close>)

text \<open>
  C12. After \<^verbatim>\<open>init_interrupts\<close> the controllers send their interrupts to the vectors 0x20 to 0x2F, and
  whatever sequence of \<^verbatim>\<open>enable_irq\<close>, \<^verbatim>\<open>disable_irq\<close>, \<^verbatim>\<open>mask_all_irqs\<close> and
  \<^verbatim>\<open>unmask_all_irqs\<close> follows, the lines unmasked in the two controllers are exactly those that the
  sequence leaves enabled.
\<close>

theorem irq_lines_exact:
  assumes "pic_device po view" "\<forall>x \<in> set xs. irq_op_ok x"
    and "s' = fold (irq_step po) xs (init_interrupts po base addr s)"
  shows "pics_ready view s' \<and> {n. unmasked view s' n} = fold line_step xs {}"
proof -
  have "pics_ready view (fold (irq_step po) xs t) \<and>
      {n. unmasked view (fold (irq_step po) xs t) n} = fold line_step xs {n. unmasked view t n}" if "pics_ready view t" for t
    using assms(2) that
  proof (induction xs arbitrary: t)
    case (Cons x xs)
    then show ?case
      using irq_step_lines [OF assms(1) Cons.prems(2), of x] by simp
  qed simp
  moreover have "{n. unmasked view (init_interrupts po base addr s) n} = {}"
    using init_pics [OF assms(1), of base addr s] by (auto simp: unmasked_def all_ones_bit)
  ultimately show ?thesis
    using init_pics(1) [OF assms(1)] assms(3) by metis
qed

text \<open>
  C37. Enabling lines of the second controller does not make them interrupt. \<^verbatim>\<open>enable_irq\<close>
  subtracts 8 from the line before it decides which half of its mask to update: the branch that would
  enable the cascade line 2 of the first controller is never taken, and the upper half of
  \<^verbatim>\<open>irq_mask\<close> keeps showing the lines as masked.
\<close>

theorem second_controller_never_interrupts:
  assumes "pic_device po view" "\<forall>i \<in> set is. 8 \<le> i \<and> i < 16"
    and "s' = fold (enable_irq po) is (init_interrupts po base addr s)" and "8 \<le> n" "n < 16"
  shows "\<not> delivered view s' n \<and> bit (irq_mask s') n"
proof -
  have "pics_ready view (fold (enable_irq po) is t) \<and> \<not> unmasked view (fold (enable_irq po) is t) 2 \<and>
        bit (irq_mask (fold (enable_irq po) is t)) n"
    if "pics_ready view t" "\<not> unmasked view t 2" "bit (irq_mask t) n" for t :: "('b, 'a) interrupts"
    using assms(2) that
  proof (induction "is" arbitrary: t)
    case (Cons i "is")
    have i: "\<not> i < 8" "i < 16" "unat (i - 8) < 8"
      using Cons.prems(1) second_controller_line [of i] by (auto simp: not_less word_less_nat_alt word_le_nat_alt)
    have "pics_ready view (enable_irq po i t)" "\<not> unmasked view (enable_irq po i t) 2"
      using Cons.prems(2,3) i by (simp_all add: pics_ready_def unmasked_def enable_irq_pics [OF assms(1) Cons.prems(2)])
    moreover have "bit (irq_mask (enable_irq po i t)) n"
      using Cons.prems(4) i assms(4,5)
      by (simp add: enable_irq_pics [OF assms(1) Cons.prems(2)] irq_bit_def bit_simps)
    ultimately show ?case
      using Cons.IH [of "enable_irq po i t"] Cons.prems(1) by simp
  qed simp
  moreover have "\<not> unmasked view (init_interrupts po base addr s) 2" "bit (irq_mask (init_interrupts po base addr s)) n"
    using init_pics [OF assms(1), of base addr s] assms(5) by (simp_all add: unmasked_def all_ones_bit)
  ultimately show ?thesis
    using init_pics(1) [OF assms(1), of base addr s] assms(3,4) by (simp add: delivered_def)
qed


section \<open>Handlers\<close>

text \<open>The controllers when the processor has accepted line \<open>n\<close>: it is in service, and so is the cascade line for \<open>8 \<le> n\<close>.\<close>

definition accept_line :: "nat \<Rightarrow> pic \<times> pic \<Rightarrow> pic \<times> pic" where
  "accept_line n ps =
     (if n < 8 then apfst (pic_isr_update (\<lambda>i. i OR push_bit n 1)) ps
      else apsnd (pic_isr_update (\<lambda>i. i OR push_bit (n - 8) 1)) (apfst (pic_isr_update (\<lambda>i. i OR push_bit 2 1)) ps))"

lemma clear_only_bit: "(push_bit n 1 :: u8) AND (push_bit n 1 - 1) = 0"
proof -
  have "(push_bit n 1 :: u8) AND mask n = 0"
    by (rule bit_word_eqI) (simp add: bit_simps)
  then show ?thesis by (simp add: mask_eq_exp_minus_1 push_bit_eq_mult)
qed

lemma send_eoi_accepted:
  assumes dev: "pic_device po view" and n: "n < 16" and s: "pics view s = accept_line n ps"
    and idle: "pic_isr (fst ps) = 0" "pic_isr (snd ps) = 0"
  shows "pics view (send_eoi po (of_nat n) s) = ps"
proof -
  have line: "(8 \<le> (of_nat n :: u8)) = (8 \<le> n)"
    using n by (simp add: word_le_nat_alt unat_of_nat)
  have upd: "p\<lparr>pic_isr := 0\<rparr> = p" if "pic_isr p = 0" for p :: pic
    using that by simp
  have eoi: "pic_command PIC_EOI p = p\<lparr>pic_isr := pic_isr p AND (pic_isr p - 1)\<rparr>" for p
    by (simp add: pic_command_def PIC_EOI_def PIC_INIT_def)
  show ?thesis
    using s clear_only_bit [of n] clear_only_bit [of "n - 8"] clear_only_bit [of 2] idle
    by (cases ps; cases "n < 8")
      (auto simp: pics_def send_eoi_def line pic_device_out [OF dev] accept_line_def eoi upd not_less)
qed

lemma ucast_of_nat_u8: "(ucast (of_nat n :: u64) :: u8) = of_nat n"
  by transfer simp

lemma irq_stub_number:
  assumes "n < 16"
  shows "(ucast (stub_number (irq_stub n)) :: u8) - INT_VECTOR_IRQ_BASE = of_nat n" "\<not> 16 \<le> (of_nat n :: u8)"
    "unat (of_nat n :: u8) = n"
  using assms ucast_of_nat_u8 [of "32 + n"] by (simp_all add: stub_number_def INT_VECTOR_IRQ_BASE_def word_le_nat_alt unat_of_nat)

text \<open>
  C18. Every hardware interrupt is acknowledged. When line \<open>n\<close> has been accepted while no other
  line was in service, and its handler, if there is one, returns and leaves the controllers alone, the
  stub returns and both controllers are back in the state before the interrupt: no line is in service, so the
  next interrupt can be delivered.
\<close>

theorem irq_acknowledged:
  assumes "pic_device po view" "n < 16" "pics view s = accept_line n ps"
    and "pic_isr (fst ps) = 0" "pic_isr (snd ps) = 0"
    and handler: "\<forall>h. irq_handlers s ! n = Some h \<longrightarrow>
      (\<exists>t. call_handler call h (stub_number (irq_stub n)) s = Some t \<and> pics view t = pics view s)"
  shows "\<exists>s'. run_stub po call (irq_stub n) s = Some s' \<and> pics view s' = ps"
proof -
  obtain t where "(case irq_handlers s ! n of Some h \<Rightarrow> call_handler call h (stub_number (irq_stub n)) s | None \<Rightarrow> Some s) = Some t"
      and "pics view t = accept_line n ps"
    using handler assms(3) by (cases "irq_handlers s ! n") auto
  with send_eoi_accepted [OF assms(1,2) _ assms(4,5)] show ?thesis
    by (simp add: run_stub_def handle_irq_def Let_def irq_stub_number [OF assms(2)])
qed

text \<open>
  C31. Registered handlers are called. After \<^verbatim>\<open>register_exception_handler\<close> the stub of
  the exception runs the handler, and after \<^verbatim>\<open>register_irq_handler\<close> the stub of the line runs it
  and then acknowledges the interrupt; the other vectors are handled as before.
\<close>

theorem registered_handler_runs:
  assumes "int_wf base addr s" "v < 32" "n < 16"
    and se: "se = register_exception_handler (of_nat v) (Some (Handler f)) s"
    and si: "si = register_irq_handler (of_nat n) (Some (Handler f)) s"
  shows "run_stub po call (isr_stub v) se = call f (of_nat v) se \<and>
         run_stub po call (irq_stub n) si = map_option (send_eoi po (of_nat n)) (call f (of_nat (32 + n)) si) \<and>
         (\<forall>u < 32. u \<noteq> v \<longrightarrow> exception_handlers se ! u = exception_handlers s ! u) \<and> irq_handlers se = irq_handlers s \<and>
         (\<forall>m < 16. m \<noteq> n \<longrightarrow> irq_handlers si ! m = irq_handlers s ! m) \<and> exception_handlers si = exception_handlers s"
proof -
  have num: "(ucast (of_nat v :: u64) :: u8) = of_nat v" "unat (of_nat v :: u8) = v" "(of_nat v :: u8) < 32"
    "(of_nat n :: u8) < 16"
    using assms(2,3) by (simp_all add: unat_of_nat word_less_nat_alt ucast_of_nat_u8)
  have len: "length (exception_handlers s) = 32" "length (irq_handlers s) = 16"
    using assms(1) by (simp_all add: int_wf_def)
  have "run_stub po call (isr_stub v) se = call f (of_nat v) se"
    using assms(2) by (simp add: se run_stub_def stub_number_def handle_exception_def num register_exception_handler_def len
        call_handler_def)
  moreover have "run_stub po call (irq_stub n) si = map_option (send_eoi po (of_nat n)) (call f (of_nat (32 + n)) si)"
    using assms(3) irq_stub_number [OF assms(3)]
    by (cases "call f (stub_number (irq_stub n)) si")
      (simp_all add: si run_stub_def handle_irq_def Let_def register_irq_handler_def num len call_handler_def
        stub_number_def)
  ultimately show ?thesis
    using num irq_stub_number [OF assms(3)]
    by (simp add: se si register_exception_handler_def register_irq_handler_def)
qed

text \<open>
  C38. Handlers for the software interrupts are stored and never called. In every state that the kernel
  reaches, after \<^verbatim>\<open>register_isr_handler\<close> has stored a handler for the system call vector 0x80 and one
  for the yield vector 0x81, the gates of the two vectors lead to their stubs, and the stubs end in
  \<^verbatim>\<open>kernel_panic\<close>: they report to \<^verbatim>\<open>handle_exception\<close>, which accepts only
  numbers below 32, instead of \<^verbatim>\<open>handle_isr\<close>.
\<close>

theorem software_interrupts_panic:
  assumes "\<forall>h n s s'. call h n s = Some s' \<longrightarrow> same_tables s s'" "int_reach po call base addr s"
    and t: "t = register_isr_handler INT_VECTOR_YIELD (Some h2) (register_isr_handler INT_VECTOR_SYSCALL (Some h1) s)"
  shows "isr_handlers t ! 0x80 = Some h1 \<and> isr_handlers t ! 0x81 = Some h2 \<and>
         gate_offset (idt t ! 0x80) = addr isr_stub_syscall \<and> gate_offset (idt t ! 0x81) = addr isr_stub_yield \<and>
         run_stub po call isr_stub_syscall t = None \<and> run_stub po call isr_stub_yield t = None"
proof -
  have "int_wf base addr t"
    unfolding t by (rule reach_wf [OF assms(1), of po]) (intro int_reach.register_isr assms(2))
  moreover have "isr_stubs 0x80 = Some isr_stub_syscall" "isr_stubs 0x81 = Some isr_stub_yield"
    by (simp_all add: isr_stubs_def)
  moreover have "length (isr_handlers s) = 256"
    using reach_wf [OF assms(1,2)] by (simp add: int_wf_def)
  then have "isr_handlers t ! 0x80 = Some h1" "isr_handlers t ! 0x81 = Some h2"
    by (simp_all add: t register_isr_handler_def IDT_ENTRIES_def INT_VECTOR_SYSCALL_def INT_VECTOR_YIELD_def)
  ultimately show ?thesis
    unfolding int_wf_def by (simp add: run_stub_def stub_number_def handle_exception_def)
qed


section \<open>Concrete instances\<close>

text \<open>Devices that consist of the two controllers, a state with an empty descriptor table, and handlers that do nothing.\<close>

definition two_pics :: "(pic \<times> pic) port_ops" where
  "two_pics =
     \<lparr>port_out = (\<lambda>p v ps. if p = PIC1_COMMAND then apfst (pic_command v) ps else if p = PIC2_COMMAND then apsnd (pic_command v) ps
                     else if p = PIC1_DATA then apfst (pic_data v) ps else if p = PIC2_DATA then apsnd (pic_data v) ps else ps),
      port_in = (\<lambda>p ps. (if p = PIC1_DATA then pic_imr (fst ps) else pic_imr (snd ps), ps))\<rparr>"

lemma two_pics_device: "pic_device two_pics (\<lambda>d. d)"
  by (simp add: pic_device_def two_pics_def PIC1_COMMAND_def PIC2_COMMAND_def PIC1_DATA_def PIC2_DATA_def)

definition sample_pic :: pic where
  "sample_pic = \<lparr>pic_phase = 0, pic_base = 8, pic_imr = 0, pic_isr = 0\<rparr>"

definition sample_int :: "(unit, pic \<times> pic) interrupts" where
  "sample_int =
     \<lparr>int_devices = (sample_pic, sample_pic), int_enabled = False, idt = replicate 256 (idt_gate 0 0),
      int_idtr = \<lparr>idtr_limit = 0, idtr_base = 0\<rparr>, exception_handlers = [], irq_handlers = replicate 16 (Some (Handler ())),
      isr_handlers = [], irq_mask = 0xFFFF\<rparr>"

definition quiet :: "unit \<Rightarrow> u64 \<Rightarrow> (unit, pic \<times> pic) interrupts \<Rightarrow> (unit, pic \<times> pic) interrupts option" where
  "quiet h n s = Some s"

lemma sample_int_idt: "length (idt sample_int) = 256"
  by (simp add: sample_int_def)

theorem interrupt_transparent_witness:
  "let f = (\<lambda>d. d\<lparr>gpr := (\<lambda>_. 0)\<rparr>);
       c' = common_stub f (stub_prologue (isr_stub 14) (deliver (cpu_error_code (isr_stub 14)) 2 sample_cpu))
   in gpr c' = gpr sample_cpu \<and> rsp c' = rsp sample_cpu"
  using interrupt_transparent [OF _ _ refl _ _ refl, of "isr_stub 14" "\<lambda>d. d\<lparr>gpr := (\<lambda>_. 0)\<rparr>" 2 sample_cpu]
  by (simp add: Let_def)

theorem int_reach_wf_witness:
  "int_wf 0x1000 (\<lambda>_. 0x2000) (register_irq_handler 0 (Some (Handler ())) (init_interrupts two_pics 0x1000 (\<lambda>_. 0x2000) sample_int))"
  by (rule int_reach_wf [of quiet two_pics])
    (auto simp: quiet_def same_tables_def intro: int_reach.intros sample_int_idt)

theorem irq_lines_exact_witness:
  "{n. unmasked (\<lambda>d. d) (fold (irq_step two_pics) [Enable 0, Enable 9, Disable 9, Enable 1]
      (init_interrupts two_pics 0x1000 (\<lambda>_. 0x2000) sample_int)) n} = {0, 1}"
  using irq_lines_exact [OF two_pics_device _ refl, of "[Enable 0, Enable 9, Disable 9, Enable 1]"]
  by (auto simp del: fold.simps simp: fold.simps(1,2) [of line_step])

theorem second_controller_never_interrupts_witness:
  "\<not> delivered (\<lambda>d. d) (fold (enable_irq two_pics) [9, 14] (init_interrupts two_pics 0x1000 (\<lambda>_. 0x2000) sample_int)) 9"
  using second_controller_never_interrupts [OF two_pics_device _ refl, of "[9, 14]" 9 "0x1000" "\<lambda>_. 0x2000" sample_int] by (simp del: fold.simps)

theorem irq_acknowledged_witness:
  "\<exists>s'. run_stub two_pics quiet (irq_stub 9) (sample_int\<lparr>int_devices := accept_line 9 (sample_pic, sample_pic)\<rparr>) = Some s' \<and>
        pics (\<lambda>d. d) s' = (sample_pic, sample_pic)"
  by (rule irq_acknowledged [OF two_pics_device])
    (simp_all add: pics_def sample_pic_def sample_int_def call_handler_def quiet_def)

theorem software_interrupts_panic_witness:
  "let t = register_isr_handler INT_VECTOR_YIELD (Some (Handler ())) (register_isr_handler INT_VECTOR_SYSCALL (Some (Handler ()))
             (init_interrupts two_pics 0x1000 (\<lambda>_. 0x2000) sample_int))
   in isr_handlers t ! 0x80 = Some (Handler ()) \<and> run_stub two_pics quiet isr_stub_syscall t = None"
  using software_interrupts_panic [OF _ int_reach.boot [OF sample_int_idt, of two_pics quiet "0x1000" "\<lambda>_. 0x2000"] refl,
      of "Handler ()" "Handler ()"]
  by (simp add: Let_def quiet_def same_tables_def)

theorem registered_handler_runs_witness:
  "let si = register_irq_handler (of_nat 1) (Some (Handler ())) (init_interrupts two_pics 0x1000 (\<lambda>_. 0x2000) sample_int)
   in run_stub two_pics quiet (irq_stub 1) si = Some (send_eoi two_pics 1 si)"
  using registered_handler_runs [OF init_interrupts_wf [OF sample_int_idt] _ _ refl refl,
      where v = 3 and n = 1 and f = "()" and call = quiet and po = two_pics]
  by (simp add: Let_def quiet_def)

end
