(* ===== verification/Shared_Memory.thy ===== *)
theory Shared_Memory
  imports Ipc_Sync
begin

text \<open>
  The shared memory regions of \<^verbatim>\<open>kernel/shared_memory.c\<close> (lines 1--661; the rest of the file
  repeats parts of it). A handle is the index of a pool slot. The arrays of page addresses are heap objects, a map
  from their addresses to their contents. The virtual memory system, the page allocator behind
  \<^verbatim>\<open>allocate_physical_page\<close> and the macro \<^verbatim>\<open>ALIGN_UP\<close> come from headers that the repository does not
  have: they are operations on an unknown state \<open>'v\<close>. The source defines \<^verbatim>\<open>destroy_shared_memory\<close> twice;
  the public function is \<open>destroy_shared_memory_handle\<close>, which is the one in scope at
  \<^verbatim>\<open>cleanup_task_shared_memory\<close>, while \<^verbatim>\<open>create_shared_memory\<close> sees the static one.
\<close>

section \<open>Data\<close>

definition MAX_SHARED_MEMORY_REGIONS :: nat where "MAX_SHARED_MEMORY_REGIONS = 64"
definition MAX_MAPPINGS_PER_REGION :: nat where "MAX_MAPPINGS_PER_REGION = 16"
definition SHM_PERM_READ :: u32 where "SHM_PERM_READ = 1"
definition SHM_PERM_WRITE :: u32 where "SHM_PERM_WRITE = 2"
definition SHM_MAP_FIXED :: u32 where "SHM_MAP_FIXED = 1"
definition SHM_PAGE_SIZE :: u64 where "SHM_PAGE_SIZE = 4096"

record shm_mapping =
  sp_pid :: pid_t
  sp_virtual_addr :: ptr
  sp_permissions :: u32
  sp_flags :: u32
  sp_is_active :: bool

record shared_memory =
  sh_header :: ipc_object_header
  sh_mutex :: "nat option"
  sh_size :: u64
  sh_page_count :: u64
  sh_pages :: ptr
  sh_creator :: pid_t
  sh_default_perm :: u32
  sh_mapping_count :: u32
  sh_mappings :: "shm_mapping list"
  sh_access_count :: u64
  sh_creation_time :: u64

record 'v shms = ipc +
  shm_pool :: "shared_memory list"
  shm_count :: u32
  page_arrays :: "ptr \<rightharpoonup> u64 list"
  shm_vm :: 'v

record 'v vm_ops =
  vm_map_physical_pages :: "pid_t \<Rightarrow> ptr \<Rightarrow> u64 list \<Rightarrow> u32 \<Rightarrow> 'v \<Rightarrow> ptr \<times> 'v"
  vm_unmap_pages :: "pid_t \<Rightarrow> ptr \<Rightarrow> u64 \<Rightarrow> 'v \<Rightarrow> int \<times> 'v"
  vm_expand_mapping :: "pid_t \<Rightarrow> ptr \<Rightarrow> u64 list \<Rightarrow> u32 \<Rightarrow> 'v \<Rightarrow> 'v"
  allocate_physical_page :: "'v \<Rightarrow> u64 \<times> 'v"
  free_physical_page :: "u64 \<Rightarrow> 'v \<Rightarrow> 'v"
  map_physical_page :: "u64 \<Rightarrow> 'v \<Rightarrow> ptr \<times> 'v"
  memset_page :: "ptr \<Rightarrow> 'v \<Rightarrow> 'v"
  unmap_physical_page :: "ptr \<Rightarrow> 'v \<Rightarrow> 'v"
  align_up :: "u64 \<Rightarrow> u64 \<Rightarrow> u64"

definition zero_mapping :: shm_mapping where
  "zero_mapping = \<lparr>sp_pid = 0, sp_virtual_addr = NULL, sp_permissions = 0, sp_flags = 0, sp_is_active = False\<rparr>"

definition zero_shm :: shared_memory where
  "zero_shm =
     \<lparr>sh_header = zero_header, sh_mutex = None, sh_size = 0, sh_page_count = 0, sh_pages = NULL, sh_creator = 0,
      sh_default_perm = 0, sh_mapping_count = 0, sh_mappings = replicate MAX_MAPPINGS_PER_REGION zero_mapping,
      sh_access_count = 0, sh_creation_time = 0\<rparr>"

abbreviation shm_of :: "nat \<Rightarrow> ('v, 'z) shms_scheme \<Rightarrow> shared_memory" where
  "shm_of i s \<equiv> shm_pool s ! i"

definition set_shm :: "nat \<Rightarrow> shared_memory \<Rightarrow> ('v, 'z) shms_scheme \<Rightarrow> ('v, 'z) shms_scheme" where
  "set_shm i r s = s\<lparr>shm_pool := (shm_pool s)[i := r]\<rparr>"

definition set_vm :: "'v \<Rightarrow> ('v, 'z) shms_scheme \<Rightarrow> ('v, 'z) shms_scheme" where
  "set_vm v s = s\<lparr>shm_vm := v\<rparr>"

text \<open>The test \<^verbatim>\<open>!shm || shm->header.type != IPC_TYPE_SHARED_MEMORY\<close>; the slot if it passes.\<close>

definition shm_at :: "nat option \<Rightarrow> ('v, 'z) shms_scheme \<Rightarrow> nat option" where
  "shm_at h s =
     (case h of
        None \<Rightarrow> None
      | Some i \<Rightarrow> if i < length (shm_pool s) \<and> hdr_type (sh_header (shm_of i s)) = IPC_TYPE_SHARED_MEMORY then Some i else None)"

definition find_free_shared_memory :: "('v, 'z) shms_scheme \<Rightarrow> nat option" where
  "find_free_shared_memory s = scan_from (\<lambda>r. hdr_type (sh_header r) = 0) (shm_pool s) 0"

section \<open>Mappings of a region\<close>

definition find_mapping :: "pid_t \<Rightarrow> shared_memory \<Rightarrow> nat option" where
  "find_mapping pid r = scan_from (\<lambda>m. sp_is_active m \<and> sp_pid m = pid) (sh_mappings r) 0"

definition add_mapping :: "pid_t \<Rightarrow> ptr \<Rightarrow> u32 \<Rightarrow> u32 \<Rightarrow> shared_memory \<Rightarrow> int \<times> shared_memory" where
  "add_mapping pid addr perm flags r =
     (case scan_from (\<lambda>m. \<not> sp_is_active m) (sh_mappings r) 0 of
        None \<Rightarrow> (- 1, r)
      | Some i \<Rightarrow>
          (0, r\<lparr>sh_mappings := (sh_mappings r)[i := \<lparr>sp_pid = pid, sp_virtual_addr = addr, sp_permissions = perm,
                                                   sp_flags = flags, sp_is_active = True\<rparr>],
                sh_mapping_count := sh_mapping_count r + 1\<rparr>))"

definition remove_mapping :: "pid_t \<Rightarrow> shared_memory \<Rightarrow> int \<times> shared_memory" where
  "remove_mapping pid r =
     (case find_mapping pid r of
        None \<Rightarrow> (- 1, r)
      | Some i \<Rightarrow>
          (0, r\<lparr>sh_mappings := (sh_mappings r)[i := (sh_mappings r ! i)\<lparr>sp_is_active := False\<rparr>],
                sh_mapping_count := sh_mapping_count r - 1\<rparr>))"

section \<open>Physical pages\<close>

text \<open>Zeroing a page through a temporary mapping.\<close>

definition clear_page :: "'v vm_ops \<Rightarrow> u64 \<Rightarrow> 'v \<Rightarrow> 'v" where
  "clear_page vo a v =
     (let (t, v1) = map_physical_page vo a v in unmap_physical_page vo t (memset_page vo t v1))"

text \<open>The loop of \<^verbatim>\<open>allocate_physical_pages\<close>; \<open>acc\<close> are the pages allocated so far.\<close>

fun allocate_loop :: "'v vm_ops \<Rightarrow> nat \<Rightarrow> u64 list \<Rightarrow> 'v \<Rightarrow> u64 list option \<times> 'v" where
  "allocate_loop vo 0 acc v = (Some acc, v)"
| "allocate_loop vo (Suc n) acc v =
     (let (a, v1) = allocate_physical_page vo v in
      if a = 0 then (None, fold (free_physical_page vo) acc v1)
      else allocate_loop vo n (acc @ [a]) (clear_page vo a v1))"

definition heap_alloc :: "u64 \<Rightarrow> ('v, 'z) shms_scheme \<Rightarrow> ptr \<times> ('v, 'z) shms_scheme" where
  "heap_alloc sz s =
     (let (p, h) = kmalloc sz (sc_heap (k_sched s)) in (p, s\<lparr>k_sched := (k_sched s)\<lparr>sc_heap := h\<rparr>\<rparr>))"

definition heap_free :: "ptr \<Rightarrow> ('v, 'z) shms_scheme \<Rightarrow> ('v, 'z) shms_scheme" where
  "heap_free p s = s\<lparr>k_sched := (k_sched s)\<lparr>sc_heap := kfree p (sc_heap (k_sched s))\<rparr>\<rparr>"

text \<open>\<^verbatim>\<open>sizeof(physical_addr_t)\<close> is 8.\<close>

definition allocate_physical_pages :: "'v vm_ops \<Rightarrow> u64 \<Rightarrow> ('v, 'z) shms_scheme \<Rightarrow> ptr \<times> ('v, 'z) shms_scheme" where
  "allocate_physical_pages vo count s =
     (if count = 0 then (NULL, s)
      else let (p, s1) = heap_alloc (count * 8) s in
        if p = NULL then (NULL, s1)
        else case allocate_loop vo (unat count) [] (shm_vm s1) of
               (None, v) \<Rightarrow> (NULL, heap_free p (set_vm v s1))
             | (Some xs, v) \<Rightarrow> (p, (set_vm v s1)\<lparr>page_arrays := (page_arrays s1)(p \<mapsto> xs)\<rparr>))"

text \<open>
  \<^verbatim>\<open>free_physical_pages(pages + off, count)\<close>. Reading an array that does not exist, or beyond
  its end, is \<^const>\<open>None\<close>.
\<close>

definition free_physical_pages ::
    "'v vm_ops \<Rightarrow> ptr \<Rightarrow> u64 \<Rightarrow> u64 \<Rightarrow> ('v, 'z) shms_scheme \<Rightarrow> ('v, 'z) shms_scheme option" where
  "free_physical_pages vo pages off count s =
     (if pages + 8 * off = NULL \<or> count = 0 then Some s
      else case page_arrays s pages of
             None \<Rightarrow> None
           | Some xs \<Rightarrow>
               if unat off + unat count \<le> length xs
               then Some (set_vm (fold (free_physical_page vo) (filter (\<lambda>a. a \<noteq> 0) (take (unat count) (drop (unat off) xs)))
                                   (shm_vm s)) s)
               else None)"

section \<open>Mapping and unmapping\<close>

definition unlock_ret :: "nat \<Rightarrow> 'a \<Rightarrow> ('v, 'z) shms_scheme \<Rightarrow> (('v, 'z) shms_scheme, 'a) run" where
  "unlock_ret i x s = run_bind (run_option (mutex_unlock (sh_mutex (shm_of i s)) s)) (\<lambda>_ s1. Ret x s1)"

text \<open>
  The page array of a region. An array of which no entry is read need not exist: a region that was
  cleared while the caller waited for the lock has no array and the count 0.
\<close>

abbreviation pages_array :: "shared_memory \<Rightarrow> ('v, 'z) shms_scheme \<Rightarrow> u64 list option" where
  "pages_array r s \<equiv> (if sh_page_count r = 0 then Some [] else page_arrays s (sh_pages r))"

text \<open>The part of \<^verbatim>\<open>map_shared_memory\<close> under the lock.\<close>

definition map_locked ::
    "'v vm_ops \<Rightarrow> nat \<Rightarrow> pid_t \<Rightarrow> ptr \<Rightarrow> u32 \<Rightarrow> ('v, 'z) shms_scheme \<Rightarrow> (ptr \<times> ('v, 'z) shms_scheme) option" where
  "map_locked vo i pid addr permissions s =
     (let r = shm_of i s in
      case find_mapping pid r of
        Some j \<Rightarrow> Some (sp_virtual_addr (sh_mappings r ! j), s)
      | None \<Rightarrow>
          if sh_mapping_count r \<ge> of_nat MAX_MAPPINGS_PER_REGION then Some (NULL, s)
          else
            let perm = permissions AND sh_default_perm r; flags = (if addr \<noteq> NULL then SHM_MAP_FIXED else 0) in
            case pages_array r s of
              None \<Rightarrow> None
            | Some xs \<Rightarrow>
                let (mapped, v) = vm_map_physical_pages vo pid addr (take (unat (sh_page_count r)) xs) perm (shm_vm s);
                    s1 = set_vm v s
                in if mapped = NULL then Some (NULL, s1)
                   else let (res, r1) = add_mapping pid mapped perm flags r in
                     if res \<noteq> 0
                     then Some (NULL, set_vm (snd (vm_unmap_pages vo pid mapped (sh_page_count r) v)) s1)
                     else Some (mapped, set_shm i (r1\<lparr>sh_access_count := sh_access_count r1 + 1\<rparr>) s1))"

definition map_shared_memory ::
    "'v vm_ops \<Rightarrow> nat option \<Rightarrow> ptr \<Rightarrow> u32 \<Rightarrow> ('v, 'z) shms_scheme \<Rightarrow> (('v, 'z) shms_scheme, ptr) run" where
  "map_shared_memory vo h addr permissions s =
     (case shm_at h s of
        None \<Rightarrow> Ret NULL s
      | Some i \<Rightarrow>
          (case get_current_pid (k_sched s) of
             None \<Rightarrow> Stuck
           | Some pid \<Rightarrow>
               run_bind (mutex_lock (sh_mutex (shm_of i s)) s) (\<lambda>_ s1.
               run_bind (run_option (map_locked vo i pid addr permissions s1)) (\<lambda>p s2.
               unlock_ret i p s2))))"

definition unmap_locked :: "'v vm_ops \<Rightarrow> nat \<Rightarrow> pid_t \<Rightarrow> ('v, 'z) shms_scheme \<Rightarrow> int \<times> ('v, 'z) shms_scheme" where
  "unmap_locked vo i pid s =
     (let r = shm_of i s in
      case find_mapping pid r of
        None \<Rightarrow> (- 1, s)
      | Some j \<Rightarrow>
          let (res, v) = vm_unmap_pages vo pid (sp_virtual_addr (sh_mappings r ! j)) (sh_page_count r) (shm_vm s)
          in (res, set_shm i (snd (remove_mapping pid r)) (set_vm v s)))"

definition unmap_shared_memory :: "'v vm_ops \<Rightarrow> nat option \<Rightarrow> ('v, 'z) shms_scheme \<Rightarrow> (('v, 'z) shms_scheme, int) run" where
  "unmap_shared_memory vo h s =
     (case shm_at h s of
        None \<Rightarrow> Ret (- 1) s
      | Some i \<Rightarrow>
          (case get_current_pid (k_sched s) of
             None \<Rightarrow> Stuck
           | Some pid \<Rightarrow>
               run_bind (mutex_lock (sh_mutex (shm_of i s)) s) (\<lambda>_ s1.
                 let (res, s2) = unmap_locked vo i pid s1 in unlock_ret i res s2)))"

section \<open>Creating and destroying regions\<close>

definition unmap_slot :: "'v vm_ops \<Rightarrow> nat \<Rightarrow> nat \<Rightarrow> ('v, 'z) shms_scheme \<Rightarrow> ('v, 'z) shms_scheme" where
  "unmap_slot vo i j s =
     (let r = shm_of i s; m = sh_mappings r ! j in
      if sp_is_active m
      then set_shm i (r\<lparr>sh_mappings := (sh_mappings r)[j := m\<lparr>sp_is_active := False\<rparr>]\<rparr>)
             (set_vm (snd (vm_unmap_pages vo (sp_pid m) (sp_virtual_addr m) (sh_page_count r) (shm_vm s))) s)
      else s)"

definition destroy_shared_memory :: "'v vm_ops \<Rightarrow> nat option \<Rightarrow> ('v, 'z) shms_scheme \<Rightarrow> (('v, 'z) shms_scheme, unit) run" where
  "destroy_shared_memory vo h s =
     (case shm_at h s of
        None \<Rightarrow> Ret () s
      | Some i \<Rightarrow>
          run_bind (mutex_lock (sh_mutex (shm_of i s)) s) (\<lambda>_ s1.
          let s2 = fold (unmap_slot vo i) [0 ..< MAX_MAPPINGS_PER_REGION] s1 in
          run_bind (run_step (free_physical_pages vo (sh_pages (shm_of i s2)) 0 (sh_page_count (shm_of i s2)) s2)) (\<lambda>_ s3.
          run_bind (run_option (mutex_unlock (sh_mutex (shm_of i s3)) s3)) (\<lambda>_ s4.
          run_bind (run_step (destroy_mutex (sh_mutex (shm_of i s4)) s4)) (\<lambda>_ s5.
          Ret () ((set_shm i zero_shm s5)\<lparr>shm_count := shm_count s5 - 1\<rparr>))))))"

definition destroy_shared_memory_handle ::
    "'v vm_ops \<Rightarrow> nat option \<Rightarrow> ('v, 'z) shms_scheme \<Rightarrow> (('v, 'z) shms_scheme, unit) run" where
  "destroy_shared_memory_handle vo h s =
     (case shm_at h s of
        None \<Rightarrow> Ret () s
      | Some i \<Rightarrow>
          (case get_current_pid (k_sched s) of
             None \<Rightarrow> Stuck
           | Some pid \<Rightarrow> if sh_creator (shm_of i s) \<noteq> pid then Ret () s else destroy_shared_memory vo h s))"

text \<open>The fields that \<^verbatim>\<open>create_shared_memory\<close> fills in once it has the pages.\<close>

definition fill_shm :: "u64 \<Rightarrow> u64 \<Rightarrow> ptr \<Rightarrow> pid_t \<Rightarrow> u32 \<Rightarrow> u64 \<Rightarrow> shared_memory \<Rightarrow> shared_memory" where
  "fill_shm sz page_count pages pid permissions now r =
     r\<lparr>sh_size := sz, sh_page_count := page_count, sh_pages := pages, sh_creator := pid, sh_default_perm := permissions,
       sh_mapping_count := 0, sh_mappings := replicate MAX_MAPPINGS_PER_REGION zero_mapping, sh_access_count := 0,
       sh_creation_time := now\<rparr>"

definition create_shared_memory ::
    "'v vm_ops \<Rightarrow> string \<Rightarrow> u64 \<Rightarrow> u32 \<Rightarrow> ('v, 'z) shms_scheme \<Rightarrow> (('v, 'z) shms_scheme, nat option) run" where
  "create_shared_memory vo name size0 permissions s =
     (if size0 = 0 \<or> size0 > 0x40000000 then Ret None s
      else
        let sz = align_up vo size0 SHM_PAGE_SIZE in
        case find_free_shared_memory s of
          None \<Rightarrow> Ret None s
        | Some i \<Rightarrow>
            let s1 = set_shm i ((shm_of i s)\<lparr>sh_header := new_header IPC_TYPE_SHARED_MEMORY name destroy_shared_memory_fn\<rparr>) s;
                (m, s2) = create_mutex (suffixed name ''_mutex'') s1;
                s3 = set_shm i ((shm_of i s2)\<lparr>sh_mutex := m\<rparr>) s2
            in if m = None then Ret None (set_shm i zero_shm s3)
               else
                 let page_count = sz div SHM_PAGE_SIZE; (pages, s4) = allocate_physical_pages vo page_count s3 in
                 if pages = NULL
                 then run_bind (run_step (destroy_mutex (sh_mutex (shm_of i s4)) s4)) (\<lambda>_ s5. Ret None (set_shm i zero_shm s5))
                 else (case get_current_pid (k_sched s4) of
                    None \<Rightarrow> Stuck
                  | Some pid \<Rightarrow>
                      let s5 = (set_shm i (fill_shm sz page_count pages pid permissions (get_tick_count (k_sched s4)) (shm_of i s4)) s4)
                                 \<lparr>shm_count := shm_count s4 + 1\<rparr>
                      in run_bind (map_shared_memory vo (Some i) NULL permissions s5) (\<lambda>p s6.
                           if p = NULL then run_bind (destroy_shared_memory vo (Some i) s6) (\<lambda>_ s7. Ret None s7)
                           else Ret (Some i) s6)))"

section \<open>Resizing\<close>

definition expand_slot :: "'v vm_ops \<Rightarrow> u64 list \<Rightarrow> shm_mapping \<Rightarrow> 'v \<Rightarrow> 'v" where
  "expand_slot vo new_pages m v =
     (if sp_is_active m then vm_expand_mapping vo (sp_pid m) (sp_virtual_addr m) new_pages (sp_permissions m) v else v)"

definition grow_locked ::
    "'v vm_ops \<Rightarrow> nat \<Rightarrow> u64 \<Rightarrow> u64 \<Rightarrow> ('v, 'z) shms_scheme \<Rightarrow> (int \<times> ('v, 'z) shms_scheme) option" where
  "grow_locked vo i new_size new_page_count s =
     (let old = sh_page_count (shm_of i s); additional = new_page_count - old;
          (new_pages, s1) = allocate_physical_pages vo additional s in
      if new_pages = NULL then Some (- 1, s1)
      else let (combined, s2) = heap_alloc (new_page_count * 8) s1 in
        if combined = NULL
        then map_option (\<lambda>s3. (- 1, s3)) (free_physical_pages vo new_pages 0 additional s2)
        else case (pages_array (shm_of i s2) s2, page_arrays s2 new_pages) of
               (Some xs, Some ys) \<Rightarrow>
                 let ys1 = take (unat additional) ys;
                     s3 = s2\<lparr>page_arrays := (page_arrays s2)(combined \<mapsto> take (unat old) xs @ ys1)\<rparr>;
                     s4 = heap_free new_pages (heap_free (sh_pages (shm_of i s3)) s3);
                     s5 = set_shm i ((shm_of i s4)\<lparr>sh_pages := combined\<rparr>) s4;
                     s6 = set_vm (fold (expand_slot vo ys1) (sh_mappings (shm_of i s5)) (shm_vm s5)) s5
                 in Some (0, set_shm i ((shm_of i s6)\<lparr>sh_size := new_size, sh_page_count := new_page_count\<rparr>) s6)
             | _ \<Rightarrow> None)"

definition contract_slot :: "'v vm_ops \<Rightarrow> u64 \<Rightarrow> u64 \<Rightarrow> shm_mapping \<Rightarrow> 'v \<Rightarrow> 'v" where
  "contract_slot vo new_size pages_to_unmap m v =
     (if sp_is_active m then snd (vm_unmap_pages vo (sp_pid m) (sp_virtual_addr m + new_size) pages_to_unmap v) else v)"

definition shrink_locked ::
    "'v vm_ops \<Rightarrow> nat \<Rightarrow> u64 \<Rightarrow> u64 \<Rightarrow> ('v, 'z) shms_scheme \<Rightarrow> (int \<times> ('v, 'z) shms_scheme) option" where
  "shrink_locked vo i new_size new_page_count s =
     (let r = shm_of i s; excess = sh_page_count r - new_page_count;
          s1 = set_vm (fold (contract_slot vo new_size excess) (sh_mappings r) (shm_vm s)) s
      in Option.bind (free_physical_pages vo (sh_pages r) new_page_count excess s1) (\<lambda>s2.
           let (smaller, s3) = heap_alloc (new_page_count * 8) s2 in
           if smaller = NULL then Some (- 1, s3)
           else case page_arrays s3 (sh_pages (shm_of i s3)) of
                  None \<Rightarrow> None
                | Some xs \<Rightarrow>
                    let s4 = s3\<lparr>page_arrays := (page_arrays s3)(smaller \<mapsto> take (unat new_page_count) xs)\<rparr>;
                        s5 = heap_free (sh_pages (shm_of i s4)) s4
                    in Some (0, set_shm i ((shm_of i s5)\<lparr>sh_pages := smaller, sh_size := new_size,
                                                        sh_page_count := new_page_count\<rparr>) s5)))"

definition resize_locked ::
    "'v vm_ops \<Rightarrow> nat \<Rightarrow> u64 \<Rightarrow> ('v, 'z) shms_scheme \<Rightarrow> (int \<times> ('v, 'z) shms_scheme) option" where
  "resize_locked vo i new_size s =
     (let new_page_count = new_size div SHM_PAGE_SIZE; old = sh_page_count (shm_of i s) in
      if new_page_count = old then Some (0, s)
      else if new_page_count > old then grow_locked vo i new_size new_page_count s
      else shrink_locked vo i new_size new_page_count s)"

definition resize_shared_memory ::
    "'v vm_ops \<Rightarrow> nat option \<Rightarrow> u64 \<Rightarrow> ('v, 'z) shms_scheme \<Rightarrow> (('v, 'z) shms_scheme, int) run" where
  "resize_shared_memory vo h new_size0 s =
     (case shm_at h s of
        None \<Rightarrow> Ret (- 1) s
      | Some i \<Rightarrow>
          (case get_current_pid (k_sched s) of
             None \<Rightarrow> Stuck
           | Some pid \<Rightarrow>
               if sh_creator (shm_of i s) \<noteq> pid then Ret (- 1) s
               else
                 let new_size = align_up vo new_size0 SHM_PAGE_SIZE in
                 run_bind (mutex_lock (sh_mutex (shm_of i s)) s) (\<lambda>_ s1.
                 run_bind (run_option (resize_locked vo i new_size s1)) (\<lambda>res s2.
                 unlock_ret i res s2))))"

section \<open>Cleanup, queries and initialisation\<close>

primrec cleanup_regions :: "'v vm_ops \<Rightarrow> pid_t \<Rightarrow> nat list \<Rightarrow> ('v, 'z) shms_scheme \<Rightarrow> (('v, 'z) shms_scheme, unit) run" where
  "cleanup_regions vo pid [] s = Ret () s"
| "cleanup_regions vo pid (i # is) s =
     run_bind
       (if hdr_type (sh_header (shm_of i s)) \<noteq> IPC_TYPE_SHARED_MEMORY then Ret () s
        else run_bind (mutex_lock (sh_mutex (shm_of i s)) s) (\<lambda>_ s1.
          let s2 = snd (unmap_locked vo i pid s1) in
          if sh_creator (shm_of i s2) = pid \<and> sh_mapping_count (shm_of i s2) = 0
          then run_bind (run_option (mutex_unlock (sh_mutex (shm_of i s2)) s2)) (\<lambda>_ s3. destroy_shared_memory_handle vo (Some i) s3)
          else unlock_ret i () s2))
       (\<lambda>_ s3. cleanup_regions vo pid is s3)"

definition cleanup_task_shared_memory :: "'v vm_ops \<Rightarrow> pid_t \<Rightarrow> ('v, 'z) shms_scheme \<Rightarrow> (('v, 'z) shms_scheme, unit) run" where
  "cleanup_task_shared_memory vo pid s = cleanup_regions vo pid [0 ..< MAX_SHARED_MEMORY_REGIONS] s"

record shared_memory_info =
  info_size :: u64
  info_creator :: pid_t
  info_mapping_count :: u32
  info_default_permissions :: u32
  info_access_count :: u64
  info_creation_time :: u64
  info_name :: string

text \<open>\<open>info\<close> tells whether the pointer to the result is not null.\<close>

definition get_shared_memory_info ::
    "nat option \<Rightarrow> bool \<Rightarrow> ('v, 'z) shms_scheme \<Rightarrow> (('v, 'z) shms_scheme, int \<times> shared_memory_info option) run" where
  "get_shared_memory_info h info s =
     (case shm_at h s of
        None \<Rightarrow> Ret (- 1, None) s
      | Some i \<Rightarrow>
          if \<not> info then Ret (- 1, None) s
          else run_bind (mutex_lock (sh_mutex (shm_of i s)) s) (\<lambda>_ s1.
            let r = shm_of i s1 in
            unlock_ret i (0, Some \<lparr>info_size = sh_size r, info_creator = sh_creator r, info_mapping_count = sh_mapping_count r,
                                   info_default_permissions = sh_default_perm r, info_access_count = sh_access_count r,
                                   info_creation_time = sh_creation_time r, info_name = hdr_name (sh_header r)\<rparr>) s1))"

definition find_shared_memory :: "string option \<Rightarrow> ('v, 'z) shms_scheme \<Rightarrow> nat option" where
  "find_shared_memory name s =
     (case name of
        None \<Rightarrow> None
      | Some n \<Rightarrow> scan_from (\<lambda>r. hdr_type (sh_header r) = IPC_TYPE_SHARED_MEMORY \<and> hdr_name (sh_header r) = n) (shm_pool s) 0)"

text \<open>\<^verbatim>\<open>kernel_panic\<close> does not return.\<close>

definition init_shared_memory_system :: "'v vm_ops \<Rightarrow> ('v, 'z) shms_scheme \<Rightarrow> (('v, 'z) shms_scheme, unit) run" where
  "init_shared_memory_system vo s =
     run_bind (create_shared_memory vo ''kernel_shared'' (SHM_PAGE_SIZE * 4) (SHM_PERM_READ OR SHM_PERM_WRITE)
                 (s\<lparr>shm_pool := replicate MAX_SHARED_MEMORY_REGIONS zero_shm, shm_count := 0\<rparr>)) (\<lambda>k s1.
       if k = None then Stuck
       else run_bind (create_shared_memory vo ''system_config'' (SHM_PAGE_SIZE * 2) SHM_PERM_READ s1) (\<lambda>c s2.
              if c = None then Stuck else Ret () s2))"

end
