(* ===== verification/Shared_Memory_Props.thy ===== *)
theory Shared_Memory_Props
  imports Shared_Memory Ipc_Sync_Props
begin

text \<open>
  Properties of the shared memory regions: their mapping tables stay consistent through all calls, also
  those that are suspended on a lock; a table implements a map from tasks to addresses; and physical pages are
  allocated all or not at all and follow the size of the region.
\<close>

section \<open>Calls and what they leave alone\<close>

text \<open>
  A call keeps a property of the state: where it is suspended the property holds, and if it holds when the
  call is resumed, the rest keeps it.
\<close>

primrec run_keeps :: "('s \<Rightarrow> bool) \<Rightarrow> ('s, 'a) run \<Rightarrow> bool" where
  "run_keeps P Stuck \<longleftrightarrow> True"
| "run_keeps P (Ret x s) \<longleftrightarrow> P s"
| "run_keeps P (Susp s k) \<longleftrightarrow> P s \<and> (\<forall>s'. P s' \<longrightarrow> run_keeps P (k s'))"

lemma run_keeps_bind: "run_keeps P r \<Longrightarrow> (\<And>x s. P s \<Longrightarrow> run_keeps P (f x s)) \<Longrightarrow> run_keeps P (run_bind r f)"
  by (induction r) auto

lemma run_keeps_option: "(\<And>x s. r = Some (x, s) \<Longrightarrow> P s) \<Longrightarrow> run_keeps P (run_option r)"
  by (auto simp: run_option_def split: option.splits)

lemma run_keeps_step: "(\<And>s. r = Some s \<Longrightarrow> P s) \<Longrightarrow> run_keeps P (run_step r)"
  by (auto simp: run_step_def split: option.splits)

lemma k_unblock_only_sched: "k_unblock pid s = Some s' \<Longrightarrow> \<exists>sc. s' = s\<lparr>k_sched := sc\<rparr>"
  by (auto simp: k_unblock_def split: option.splits)

lemma wake_loop_frame:
  assumes "wake_waiters_loop adv n cur woken q s = Some y"
  shows "\<exists>sc. snd (snd (snd y)) = s\<lparr>k_sched := sc\<rparr>"
proof (rule wake_waiters_loop.raw_induct [OF _ assms, where P = "\<lambda>adv n cur woken q s y. \<exists>sc. snd (snd (snd y)) = s\<lparr>k_sched := sc\<rparr>"],
    goal_cases)
  case (1 f adv n cur woken q s y)
  show ?case
  proof (cases "cur \<noteq> NULL \<and> (n = 0 \<or> woken < n)")
    case True
    with 1(2) obtain w s1 where "k_waiters s cur = Some w" "k_unblock (w_pid w) s = Some s1"
        "f adv n (w_next w) (woken + 1) (adv cur (w_next w) q) s1 = Some y"
      by (auto simp: bind_eq_Some_conv split: option.splits)
    from 1(1) [OF this(3)] k_unblock_only_sched [OF this(2)] show ?thesis by auto
  next
    case False
    with 1(2) show ?thesis by (auto intro: exI [of _ "k_sched s"])
  qed
qed

lemma wake_waiters_frame: "wake_waiters q c s = Some (q', s') \<Longrightarrow> \<exists>sc. s' = s\<lparr>k_sched := sc\<rparr>"
  using wake_loop_frame by (fastforce simp: wake_waiters_def Let_def bind_eq_Some_conv)

text \<open>A property of the part of the state beyond the scheduler, the waiters and the mutexes.\<close>

definition ipc_indep :: "('z ipc_scheme \<Rightarrow> bool) \<Rightarrow> bool" where
  "ipc_indep P \<longleftrightarrow>
     (\<forall>s sc. P (s\<lparr>k_sched := sc\<rparr>) = P s) \<and> (\<forall>s ws. P (s\<lparr>k_waiters := ws\<rparr>) = P s) \<and>
     (\<forall>s mp. P (s\<lparr>mutex_pool := mp\<rparr>) = P s) \<and> (\<forall>s n. P (s\<lparr>mutex_count := n\<rparr>) = P s)"

lemma ipc_indepD:
  assumes "ipc_indep P"
  shows "P (s\<lparr>k_sched := sc\<rparr>) = P s" "P (s\<lparr>k_waiters := ws\<rparr>) = P s" "P (s\<lparr>mutex_pool := mp\<rparr>) = P s"
    "P (s\<lparr>mutex_count := n\<rparr>) = P s"
  using assms by (simp_all add: ipc_indep_def)

lemma add_waiter_indep:
  assumes P: "ipc_indep P" and "add_waiter q pid t s = Some (q', s')"
  shows "P s' = P s"
proof -
  obtain p s1 where nw: "new_waiter pid t NULL s = (p, s1)" by force
  then have "P s1 = P s"
    by (auto simp: new_waiter_def Let_def ipc_indepD [OF P] split: prod.splits if_splits)
  moreover have "s' = s1 \<or> (\<exists>ws'. s' = s1\<lparr>k_waiters := ws'\<rparr>)"
    using assms nw by (auto simp: add_waiter_def set_next_def Let_def bind_eq_Some_conv split: option.splits if_splits)
  ultimately show ?thesis by (auto simp: ipc_indepD [OF P])
qed

lemma wake_waiters_indep: "ipc_indep P \<Longrightarrow> wake_waiters q c s = Some (q', s') \<Longrightarrow> P s' = P s"
  by (auto dest: wake_waiters_frame simp: ipc_indepD)

lemma cli_sti_indep: "ipc_indep P \<Longrightarrow> P (cli s) = P s" "ipc_indep P \<Longrightarrow> P (sti s) = P s"
    "ipc_indep P \<Longrightarrow> P (set_mutex i m s) = P s"
  by (simp_all add: cli_def sti_def set_mutex_def ipc_indepD)

lemma mutex_unlock_indep:
  assumes P: "ipc_indep P" and "mutex_unlock h s = Some (x, s')"
  shows "P s' = P s"
  using assms(2)
  by (auto simp: mutex_unlock_def Let_def bind_eq_Some_conv cli_sti_indep [OF P] wake_waiters_indep [OF P]
      split: option.splits if_splits)

lemma destroy_mutex_indep:
  assumes P: "ipc_indep P" and "destroy_mutex h s = Some s'"
  shows "P s' = P s"
  using assms(2)
  by (auto simp: destroy_mutex_def bind_eq_Some_conv cli_sti_indep [OF P] wake_waiters_indep [OF P] ipc_indepD [OF P]
      split: option.splits)

lemma create_mutex_indep: "ipc_indep P \<Longrightarrow> create_mutex name s = (h, s') \<Longrightarrow> P s' = P s"
  by (auto simp: create_mutex_def cli_sti_indep ipc_indepD split: option.splits)

lemma mutex_lock_keeps:
  assumes P: "ipc_indep P" and "P s"
  shows "run_keeps P (mutex_lock h s)"
proof -
  have blk: "run_keeps P (run_bind (k_block pid t) (\<lambda>_ s2. Ret 0 (take_mutex i pid s2)))" if "P t" for pid i t
    using that by (auto simp: k_block_def take_mutex_def cli_sti_indep [OF P] ipc_indepD [OF P] split: option.splits bool.splits)
  have wait: "P (sti (set_mutex i m s1))" if "add_waiter q pid t (cli s) = Some (q', s1)" for i m q pid t q' s1
    using add_waiter_indep [OF P that] assms(2) by (simp add: cli_sti_indep [OF P])
  show ?thesis
    unfolding mutex_lock_def Let_def
    by (auto simp: relock_mutex_def cli_sti_indep [OF P] assms(2) split: option.splits intro!: blk wait)
      (simp_all add: take_mutex_def cli_sti_indep [OF P] assms(2))
qed

section \<open>The mapping tables\<close>

definition active_at :: "shared_memory \<Rightarrow> nat \<Rightarrow> bool" where
  "active_at r j \<longleftrightarrow> j < 16 \<and> sp_is_active (sh_mappings r ! j)"

definition shm_wf :: "shared_memory \<Rightarrow> bool" where
  "shm_wf r \<longleftrightarrow>
     length (sh_mappings r) = 16 \<and> unat (sh_mapping_count r) = length (filter sp_is_active (sh_mappings r)) \<and>
     (\<forall>j k. active_at r j \<and> active_at r k \<and> sp_pid (sh_mappings r ! j) = sp_pid (sh_mappings r ! k) \<longrightarrow> j = k) \<and>
     (\<forall>j. active_at r j \<longrightarrow> sp_permissions (sh_mappings r ! j) AND NOT (sh_default_perm r) = 0)"

definition shms_wf :: "('v, 'z) shms_scheme \<Rightarrow> bool" where
  "shms_wf s \<longleftrightarrow> length (shm_pool s) = 64 \<and> (\<forall>i < 64. shm_wf (shm_of i s))"

lemma shms_wf_indep: "ipc_indep shms_wf"
  by (simp add: ipc_indep_def shms_wf_def)

lemma shms_wf_frame [simp]:
  "shms_wf (set_vm v s) = shms_wf s" "shms_wf (s\<lparr>page_arrays := pa\<rparr>) = shms_wf s" "shms_wf (s\<lparr>shm_count := n\<rparr>) = shms_wf s"
  "shms_wf (s\<lparr>k_sched := sc\<rparr>) = shms_wf s"
  by (simp_all add: shms_wf_def set_vm_def)

lemma set_shm_wf: "shms_wf s \<Longrightarrow> shm_wf r \<Longrightarrow> shms_wf (set_shm i r s)"
  by (cases "i < 64") (auto simp: shms_wf_def set_shm_def nth_list_update)

lemma shms_wf_at: "shms_wf s \<Longrightarrow> shm_at h s = Some i \<Longrightarrow> i < 64"
  by (auto simp: shms_wf_def shm_at_def split: option.splits if_splits)

lemma zero_shm_wf: "shm_wf zero_shm"
  by (auto simp: shm_wf_def zero_shm_def zero_mapping_def active_at_def MAX_MAPPINGS_PER_REGION_def)

lemma shm_wf_frame [simp]:
  "shm_wf (r\<lparr>sh_access_count := n\<rparr>) = shm_wf r" "shm_wf (r\<lparr>sh_header := h\<rparr>) = shm_wf r" "shm_wf (r\<lparr>sh_mutex := m\<rparr>) = shm_wf r"
  "shm_wf (r\<lparr>sh_pages := p\<rparr>) = shm_wf r" "shm_wf (r\<lparr>sh_size := sz\<rparr>) = shm_wf r" "shm_wf (r\<lparr>sh_page_count := n'\<rparr>) = shm_wf r"
  by (simp_all add: shm_wf_def active_at_def)

lemma find_mapping_Some:
  assumes "shm_wf r" "find_mapping pid r = Some j"
  shows "active_at r j" "sp_pid (sh_mappings r ! j) = pid"
  using assms by (auto simp: find_mapping_def scan_from_Some shm_wf_def active_at_def)

lemma find_mapping_None:
  assumes "shm_wf r" "find_mapping pid r = None"
  shows "\<forall>j. active_at r j \<longrightarrow> sp_pid (sh_mappings r ! j) \<noteq> pid"
  using assms by (auto simp: find_mapping_def scan_from_None shm_wf_def active_at_def)

lemma add_mapping_wf:
  assumes wf: "shm_wf r" and "find_mapping pid r = None" "add_mapping pid addr perm flags r = (res, r')"
    and "perm AND NOT (sh_default_perm r) = 0"
  shows "shm_wf r'"
proof (cases "scan_from (\<lambda>m. \<not> sp_is_active m) (sh_mappings r) 0")
  case None
  then show ?thesis using assms by (simp add: add_mapping_def)
next
  case (Some i)
  define m where "m = \<lparr>sp_pid = pid, sp_virtual_addr = addr, sp_permissions = perm, sp_flags = flags, sp_is_active = True\<rparr>"
  have i: "i < 16" "\<not> sp_is_active (sh_mappings r ! i)" "length (sh_mappings r) = 16"
    using Some wf by (auto simp: scan_from_Some shm_wf_def)
  have r': "r' = r\<lparr>sh_mappings := (sh_mappings r)[i := m], sh_mapping_count := sh_mapping_count r + 1\<rparr>"
    using assms(3) Some by (simp add: add_mapping_def m_def)
  have "length (filter sp_is_active ((sh_mappings r)[i := m])) = Suc (length (filter sp_is_active (sh_mappings r)))"
    using length_filter_update [of i "sh_mappings r" sp_is_active m] i by (simp add: m_def)
  moreover have "length (filter sp_is_active (sh_mappings r)) \<le> 16"
    using i(3) length_filter_le [of sp_is_active "sh_mappings r"] by simp
  then have "unat (sh_mapping_count r + 1) = Suc (length (filter sp_is_active (sh_mappings r)))"
    using wf by (simp add: shm_wf_def unat_word_ariths)
  ultimately show ?thesis
    using wf find_mapping_None [OF wf assms(2)] assms(4) i
    by (auto simp: shm_wf_def r' active_at_def nth_list_update m_def split: if_splits)
qed

lemma remove_mapping_wf:
  assumes wf: "shm_wf r"
  shows "shm_wf (snd (remove_mapping pid r))"
proof (cases "find_mapping pid r")
  case None
  then show ?thesis using wf by (simp add: remove_mapping_def)
next
  case (Some j)
  define m where "m = (sh_mappings r ! j)\<lparr>sp_is_active := False\<rparr>"
  have j: "j < length (sh_mappings r)" "sp_is_active (sh_mappings r ! j)"
    using find_mapping_Some [OF wf Some] wf by (simp_all add: active_at_def shm_wf_def)
  have "Suc (length (filter sp_is_active ((sh_mappings r)[j := m]))) = length (filter sp_is_active (sh_mappings r))"
    using length_filter_update [OF j(1), of sp_is_active m] j by (simp add: m_def)
  moreover have "unat (sh_mapping_count r - 1) = unat (sh_mapping_count r) - 1"
    using wf calculation by (metis unat_1 unat_minus_one nat.simps(3) unat_0 shm_wf_def)
  ultimately show ?thesis
    using wf Some j by (auto simp: shm_wf_def remove_mapping_def active_at_def nth_list_update m_def split: if_splits)
qed


section \<open>Every call keeps the tables consistent\<close>

lemma heap_free_id [simp]: "heap_free p s = s"
  by (simp add: heap_free_def kfree_def)

lemma heap_alloc_frame: "heap_alloc sz s = (p, s') \<Longrightarrow> \<exists>sc. s' = s\<lparr>k_sched := sc\<rparr>"
  by (auto simp: heap_alloc_def split: prod.splits)

lemma allocate_pages_pool: "allocate_physical_pages vo n s = (p, s') \<Longrightarrow> shm_pool s' = shm_pool s"
  by (auto simp: allocate_physical_pages_def set_vm_def heap_free_def split: prod.splits option.splits if_splits
      dest!: heap_alloc_frame)

lemma free_pages_pool: "free_physical_pages vo pages off n s = Some s' \<Longrightarrow> shm_pool s' = shm_pool s"
  by (auto simp: free_physical_pages_def set_vm_def split: option.splits if_splits)

lemma shms_wf_pool: "shm_pool s' = shm_pool s \<Longrightarrow> shms_wf s' = shms_wf s"
  by (simp add: shms_wf_def)

lemma shms_wf_shm: "shms_wf s \<Longrightarrow> i < 64 \<Longrightarrow> shm_wf (shm_of i s)"
  by (simp add: shms_wf_def)

lemma masked_perm: "(p AND d) AND NOT d = (0 :: u32)"
  by (rule bit_word_eqI) (simp add: bit_simps)

lemma map_locked_wf:
  assumes "shms_wf s" "i < 64" "map_locked vo i pid addr perm s = Some (p, s')"
  shows "shms_wf s'"
proof -
  note wf = shms_wf_shm [OF assms(1,2)]
  show ?thesis
    using assms(1,3) add_mapping_wf [OF wf _ _ masked_perm]
    by (auto simp: map_locked_def Let_def split: option.splits prod.splits if_splits
        intro!: set_shm_wf)
qed

lemma unmap_locked_wf: "shms_wf s \<Longrightarrow> i < 64 \<Longrightarrow> shms_wf (snd (unmap_locked vo i pid s))"
  using remove_mapping_wf [OF shms_wf_shm]
  by (auto simp: unmap_locked_def Let_def split: option.splits prod.splits intro!: set_shm_wf)

lemma unlock_ret_keeps: "shms_wf s \<Longrightarrow> run_keeps shms_wf (unlock_ret i x s)"
  unfolding unlock_ret_def
  by (intro run_keeps_bind run_keeps_option) (auto simp: mutex_unlock_indep [OF shms_wf_indep])

lemmas lock_keeps = mutex_lock_keeps [OF shms_wf_indep]

lemma map_shared_memory_keeps: "shms_wf s \<Longrightarrow> run_keeps shms_wf (map_shared_memory vo h addr perm s)"
  using shms_wf_at
  by (auto simp: map_shared_memory_def split: option.splits
      intro!: run_keeps_bind lock_keeps run_keeps_option unlock_ret_keeps intro: map_locked_wf)

lemma unmap_shared_memory_keeps: "shms_wf s \<Longrightarrow> run_keeps shms_wf (unmap_shared_memory vo h s)"
  using shms_wf_at
  by (auto simp: unmap_shared_memory_def split_beta split: option.splits
      intro!: run_keeps_bind lock_keeps unlock_ret_keeps unmap_locked_wf)


lemma unmap_slot_more:
  "\<exists>r v. unmap_slot vo i j s = set_shm i r (set_vm v s)"
proof (cases "sp_is_active (sh_mappings (shm_of i s) ! j)")
  case True
  then show ?thesis by (auto simp: unmap_slot_def Let_def)
next
  case False
  then show ?thesis
    by (intro exI [of _ "shm_of i s"] exI [of _ "shm_vm s"]) (simp add: unmap_slot_def Let_def set_shm_def set_vm_def)
qed

text \<open>All regions but the one in slot \<open>i\<close> are consistent.\<close>

definition shms_wf_but :: "nat \<Rightarrow> ('v, 'z) shms_scheme \<Rightarrow> bool" where
  "shms_wf_but i s \<longleftrightarrow> length (shm_pool s) = 64 \<and> (\<forall>j < 64. j \<noteq> i \<longrightarrow> shm_wf (shm_of j s))"

lemma shms_wf_but_indep: "ipc_indep (shms_wf_but i)"
  by (simp add: ipc_indep_def shms_wf_but_def)

lemma unmap_slots_but: "shms_wf_but i s \<Longrightarrow> shms_wf_but i (fold (unmap_slot vo i) js s)"
proof (induction js arbitrary: s)
  case (Cons j js)
  have "shms_wf_but i (set_shm i r (set_vm v s))" for r v
    using Cons.prems by (simp add: shms_wf_but_def set_shm_def set_vm_def)
  then show ?case
    using Cons.IH unmap_slot_more [of vo i j s] by auto
qed simp

lemma zero_slot_wf: "shms_wf_but i s \<Longrightarrow> i < 64 \<Longrightarrow> shms_wf (set_shm i zero_shm s)"
  using zero_shm_wf by (auto simp: shms_wf_def shms_wf_but_def set_shm_def nth_list_update)

lemma free_pages_but: "free_physical_pages vo pages off n s = Some s' \<Longrightarrow> shms_wf_but i s \<Longrightarrow> shms_wf_but i s'"
  by (drule free_pages_pool) (simp add: shms_wf_but_def)

text \<open>The part of \<^verbatim>\<open>destroy_shared_memory\<close> after the mappings are gone\<close>

lemma destroy_tail_keeps:
  assumes "shms_wf_but i s" "i < 64"
  shows "run_keeps shms_wf (run_bind (run_step (free_physical_pages vo pages 0 n s)) (\<lambda>_ s3.
          run_bind (run_option (mutex_unlock (sh_mutex (shm_of i s3)) s3)) (\<lambda>_ s4.
          run_bind (run_step (destroy_mutex (sh_mutex (shm_of i s4)) s4)) (\<lambda>_ s5.
          Ret () ((set_shm i zero_shm s5)\<lparr>shm_count := shm_count s5 - 1\<rparr>)))))"
  using assms
  by (auto simp: run_step_def run_option_def split: option.splits intro!: zero_slot_wf
      dest!: mutex_unlock_indep [OF shms_wf_but_indep [of i]] destroy_mutex_indep [OF shms_wf_but_indep [of i]]
      dest: free_pages_but)

lemma destroy_shared_memory_keeps:
  assumes "shms_wf s"
  shows "run_keeps shms_wf (destroy_shared_memory vo h s)"
proof (cases "shm_at h s")
  case None
  then show ?thesis using assms by (simp add: destroy_shared_memory_def)
next
  case (Some i)
  then show ?thesis
    using assms shms_wf_at [OF assms Some]
    by (auto simp: destroy_shared_memory_def Let_def shms_wf_def shms_wf_but_def
        intro!: run_keeps_bind [OF lock_keeps] destroy_tail_keeps unmap_slots_but)
qed

lemma destroy_handle_keeps: "shms_wf s \<Longrightarrow> run_keeps shms_wf (destroy_shared_memory_handle vo h s)"
  by (auto simp: destroy_shared_memory_handle_def destroy_shared_memory_keeps split: option.splits)

lemma fill_shm_wf: "shm_wf (fill_shm sz n p pid perm now r)"
  by (auto simp: shm_wf_def fill_shm_def zero_mapping_def active_at_def MAX_MAPPINGS_PER_REGION_def)

lemma create_shared_memory_keeps:
  assumes "shms_wf s"
  shows "run_keeps shms_wf (create_shared_memory vo name sz perm s)"
proof (cases "find_free_shared_memory s")
  case None
  then show ?thesis using assms by (simp add: create_shared_memory_def)
next
  case (Some i)
  have i: "i < 64"
    using Some assms by (simp add: find_free_shared_memory_def scan_from_Some shms_wf_def)
  define s1 where "s1 = set_shm i ((shm_of i s)\<lparr>sh_header := new_header IPC_TYPE_SHARED_MEMORY name destroy_shared_memory_fn\<rparr>) s"
  obtain m s2 where m: "create_mutex (suffixed name ''_mutex'') s1 = (m, s2)" by force
  define s3 where "s3 = set_shm i ((shm_of i s2)\<lparr>sh_mutex := m\<rparr>) s2"
  have "shms_wf s1"
    using assms i shms_wf_shm by (auto simp: s1_def intro!: set_shm_wf)
  then have "shms_wf s2"
    using create_mutex_indep [OF shms_wf_indep m] by simp
  then have s3: "shms_wf s3"
    using i shms_wf_shm by (auto simp: s3_def intro!: set_shm_wf)
  obtain p s4 where p: "allocate_physical_pages vo (align_up vo sz SHM_PAGE_SIZE div SHM_PAGE_SIZE) s3 = (p, s4)" by force
  have s4: "shms_wf s4"
    using s3 shms_wf_pool [OF allocate_pages_pool [OF p]] by simp
  have undo: "run_keeps shms_wf (run_bind (run_step (destroy_mutex h s4)) (\<lambda>_ s5. Ret None (set_shm i zero_shm s5)))" for h
    using s4 by (auto simp: run_step_def destroy_mutex_indep [OF shms_wf_indep] zero_shm_wf intro!: set_shm_wf split: option.splits)
  have rest: "run_keeps shms_wf (run_bind (map_shared_memory vo (Some i) NULL perm s5) (\<lambda>p s6.
      if p = NULL then run_bind (destroy_shared_memory vo (Some i) s6) (\<lambda>_ s7. Ret None s7) else Ret (Some i) s6))"
    if "shms_wf s5" for s5
    using that by (intro run_keeps_bind [OF map_shared_memory_keeps]) (auto intro!: run_keeps_bind [OF destroy_shared_memory_keeps])
  have eq: "create_shared_memory vo name sz perm s =
      (if sz = 0 \<or> sz > 0x40000000 then Ret None s
       else if m = None then Ret None (set_shm i zero_shm s3)
       else if p = NULL then run_bind (run_step (destroy_mutex (sh_mutex (shm_of i s4)) s4)) (\<lambda>_ s5. Ret None (set_shm i zero_shm s5))
       else case get_current_pid (k_sched s4) of
              None \<Rightarrow> Stuck
            | Some pid \<Rightarrow> run_bind (map_shared_memory vo (Some i) NULL perm
                ((set_shm i (fill_shm (align_up vo sz SHM_PAGE_SIZE) (align_up vo sz SHM_PAGE_SIZE div SHM_PAGE_SIZE) p pid perm
                    (get_tick_count (k_sched s4)) (shm_of i s4)) s4)\<lparr>shm_count := shm_count s4 + 1\<rparr>)) (\<lambda>p s6.
                if p = NULL then run_bind (destroy_shared_memory vo (Some i) s6) (\<lambda>_ s7. Ret None s7) else Ret (Some i) s6))"
    using p by (simp add: create_shared_memory_def Some Let_def s1_def [symmetric] m s3_def split: option.split)
  show ?thesis
    unfolding eq using assms s3 s4 undo
    by (auto simp: fill_shm_wf zero_shm_wf split: option.splits intro!: rest set_shm_wf)
qed

lemma shrink_cases:
  assumes "shrink_locked vo i new_size n s = Some (res, s')"
  obtains s2 p s3 where
    "free_physical_pages vo (sh_pages (shm_of i s)) n (sh_page_count (shm_of i s) - n)
       (set_vm (fold (contract_slot vo new_size (sh_page_count (shm_of i s) - n)) (sh_mappings (shm_of i s)) (shm_vm s)) s) = Some s2"
    "heap_alloc (n * 8) s2 = (p, s3)" "shm_pool s3 = shm_pool s" "shm_vm s3 = shm_vm s2" "page_arrays s3 = page_arrays s"
    "p = NULL \<and> res = - 1 \<and> s' = s3 \<or>
     p \<noteq> NULL \<and> res = 0 \<and> (\<exists>xs. page_arrays s (sh_pages (shm_of i s)) = Some xs \<and>
       s' = set_shm i ((shm_of i s)\<lparr>sh_pages := p, sh_size := new_size, sh_page_count := n\<rparr>)
              (heap_free (sh_pages (shm_of i s)) (s3\<lparr>page_arrays := (page_arrays s)(p \<mapsto> take (unat n) xs)\<rparr>)))"
proof -
  let ?v = "fold (contract_slot vo new_size (sh_page_count (shm_of i s) - n)) (sh_mappings (shm_of i s)) (shm_vm s)"
  obtain s2 where s2: "free_physical_pages vo (sh_pages (shm_of i s)) n (sh_page_count (shm_of i s) - n) (set_vm ?v s) = Some s2"
    using assms by (auto simp: shrink_locked_def Let_def bind_eq_Some_conv)
  obtain p s3 where p: "heap_alloc (n * 8) s2 = (p, s3)" by force
  have pool: "shm_pool s2 = shm_pool s" "page_arrays s2 = page_arrays s"
    using s2 by (auto simp: free_physical_pages_def set_vm_def split: option.splits if_splits)
  obtain sc where s3: "s3 = s2\<lparr>k_sched := sc\<rparr>" using heap_alloc_frame [OF p] by blast
  show thesis
    using that [OF s2 p] assms s2 p pool s3
    by (auto simp: shrink_locked_def Let_def heap_free_def split: if_splits option.splits)
qed

lemma grow_cases:
  assumes "grow_locked vo i new_size n s = Some (res, s')" "i < length (shm_pool s)"
  obtains q s1 p s2 where
    "allocate_physical_pages vo (n - sh_page_count (shm_of i s)) s = (q, s1)" "heap_alloc (n * 8) s1 = (p, s2)"
    "shm_pool s1 = shm_pool s" "shm_pool s2 = shm_pool s" "shm_vm s2 = shm_vm s1" "page_arrays s2 = page_arrays s1"
    "q = NULL \<and> res = - 1 \<and> s' = s1 \<or>
     q \<noteq> NULL \<and> p = NULL \<and> res = - 1 \<and> free_physical_pages vo q 0 (n - sh_page_count (shm_of i s)) s2 = Some s' \<or>
     q \<noteq> NULL \<and> p \<noteq> NULL \<and> res = 0 \<and>
       (\<exists>xs ys v. pages_array (shm_of i s) s1 = Some xs \<and> page_arrays s1 q = Some ys \<and>
          v = fold (expand_slot vo (take (unat (n - sh_page_count (shm_of i s))) ys)) (sh_mappings (shm_of i s)) (shm_vm s1) \<and>
          s' = set_shm i ((shm_of i s)\<lparr>sh_pages := p, sh_size := new_size, sh_page_count := n\<rparr>)
                 (set_vm v (s2\<lparr>page_arrays := (page_arrays s1)(p \<mapsto> take (unat (sh_page_count (shm_of i s))) xs @
                    take (unat (n - sh_page_count (shm_of i s))) ys)\<rparr>)))"
proof -
  obtain q s1 where q: "allocate_physical_pages vo (n - sh_page_count (shm_of i s)) s = (q, s1)" by force
  obtain p s2 where p: "heap_alloc (n * 8) s1 = (p, s2)" by force
  obtain sc where s2: "s2 = s1\<lparr>k_sched := sc\<rparr>" using heap_alloc_frame [OF p] by blast
  note pool = allocate_pages_pool [OF q]
  consider "q = NULL" | "q \<noteq> NULL" "p = NULL" | "q \<noteq> NULL" "p \<noteq> NULL" by blast
  then show thesis
  proof cases
    case 3
    then obtain xs ys where "pages_array (shm_of i s) s1 = Some xs" "page_arrays s1 q = Some ys"
      using assms q p s2 pool by (auto simp: grow_locked_def Let_def split: option.splits if_splits)
    with 3 show thesis
      using assms pool s2
      by (intro that [OF q p])
        (auto simp: grow_locked_def Let_def q p heap_free_def set_shm_def set_vm_def kfree_def split: if_splits)
  qed (use assms pool s2 in \<open>intro that [OF q p]; auto simp: grow_locked_def Let_def q p\<close>)+
qed

lemma set_pages_wf:
  "shms_wf s \<Longrightarrow> i < 64 \<Longrightarrow> shm_pool t = shm_pool s \<Longrightarrow>
   shms_wf (set_shm i ((shm_of i s)\<lparr>sh_pages := p, sh_size := sz, sh_page_count := m\<rparr>) t)"
  using shms_wf_pool [of t s] by (intro set_shm_wf) (simp_all add: shms_wf_shm)

lemma grow_locked_wf:
  assumes "shms_wf s" "i < 64" "grow_locked vo i sz n s = Some (res, s')"
  shows "shms_wf s'"
proof -
  have "i < length (shm_pool s)" using assms(1,2) by (simp add: shms_wf_def)
  from assms(3) this show ?thesis
  proof (rule grow_cases, goal_cases)
    case (1 q s1 p s2)
    from 1(7) show ?case
    proof (elim disjE conjE exE)
      assume "s' = s1"
      then show ?thesis using assms(1) shms_wf_pool [OF 1(3)] by simp
    next
      assume "free_physical_pages vo q 0 (n - sh_page_count (shm_of i s)) s2 = Some s'"
      then show ?thesis using assms(1) free_pages_pool 1(4) shms_wf_pool [of s' s] by metis
    next
      fix xs ys v
      assume "s' = set_shm i ((shm_of i s)\<lparr>sh_pages := p, sh_size := sz, sh_page_count := n\<rparr>)
                 (set_vm v (s2\<lparr>page_arrays := (page_arrays s1)(p \<mapsto> take (unat (sh_page_count (shm_of i s))) xs @
                    take (unat (n - sh_page_count (shm_of i s))) ys)\<rparr>))"
      then show ?thesis
        using 1(4) by (simp add: set_pages_wf [OF assms(1,2)] set_vm_def)
    qed
  qed
qed

lemma shrink_locked_wf:
  assumes "shms_wf s" "i < 64" "shrink_locked vo i sz n s = Some (res, s')"
  shows "shms_wf s'"
  using assms(3)
proof (rule shrink_cases, goal_cases)
  case (1 s2 p s3)
  from 1(6) show ?case
  proof (elim disjE conjE exE)
    assume "s' = s3"
    then show ?thesis using assms(1) shms_wf_pool [OF 1(3)] by simp
  next
    fix xs
    assume "s' = set_shm i ((shm_of i s)\<lparr>sh_pages := p, sh_size := sz, sh_page_count := n\<rparr>)
              (heap_free (sh_pages (shm_of i s)) (s3\<lparr>page_arrays := (page_arrays s)(p \<mapsto> take (unat n) xs)\<rparr>))"
    then show ?thesis
      using 1(3) by (simp add: set_pages_wf [OF assms(1,2)] heap_free_def)
  qed
qed

lemma resize_locked_wf:
  "shms_wf s \<Longrightarrow> i < 64 \<Longrightarrow> resize_locked vo i n s = Some (res, s') \<Longrightarrow> shms_wf s'"
  by (auto simp: resize_locked_def Let_def split: if_splits intro: grow_locked_wf shrink_locked_wf)

lemma resize_shared_memory_keeps: "shms_wf s \<Longrightarrow> run_keeps shms_wf (resize_shared_memory vo h n s)"
  using shms_wf_at
  by (auto simp: resize_shared_memory_def Let_def split: option.splits
      intro!: run_keeps_bind lock_keeps run_keeps_option unlock_ret_keeps intro: resize_locked_wf)

lemma unlock_destroy_keeps:
  "shms_wf s \<Longrightarrow> run_keeps shms_wf (run_bind (run_option (mutex_unlock h s)) (\<lambda>_ s3. destroy_shared_memory_handle vo (Some i) s3))"
  by (intro run_keeps_bind run_keeps_option) (auto simp: mutex_unlock_indep [OF shms_wf_indep] destroy_handle_keeps)

lemma cleanup_regions_keeps:
  "shms_wf s \<Longrightarrow> \<forall>i \<in> set is. i < 64 \<Longrightarrow> run_keeps shms_wf (cleanup_regions vo pid is s)"
proof (induction "is" arbitrary: s)
  case (Cons i "is")
  have "run_keeps shms_wf (if hdr_type (sh_header (shm_of i s)) \<noteq> IPC_TYPE_SHARED_MEMORY then Ret () s
        else run_bind (mutex_lock (sh_mutex (shm_of i s)) s) (\<lambda>_ s1.
          let s2 = snd (unmap_locked vo i pid s1) in
          if sh_creator (shm_of i s2) = pid \<and> sh_mapping_count (shm_of i s2) = 0
          then run_bind (run_option (mutex_unlock (sh_mutex (shm_of i s2)) s2)) (\<lambda>_ s3. destroy_shared_memory_handle vo (Some i) s3)
          else unlock_ret i () s2))"
    using Cons.prems by (auto simp: Let_def intro!: run_keeps_bind [OF lock_keeps] unlock_ret_keeps unlock_destroy_keeps
        unmap_locked_wf)
  then show ?case
    using Cons by (auto intro: run_keeps_bind)
qed simp

text \<open>The calls of the interface.\<close>

datatype shm_call =
    Create_shm string u64 u32 | Destroy_shm "nat option" | Map_shm "nat option" ptr u32 | Unmap_shm "nat option"
  | Resize_shm "nat option" u64 | Cleanup_shm pid_t

definition run_unit :: "('s, 'a) run \<Rightarrow> ('s, unit) run" where
  "run_unit r = run_bind r (\<lambda>_ s. Ret () s)"

fun shm_run :: "'v vm_ops \<Rightarrow> shm_call \<Rightarrow> ('v, 'z) shms_scheme \<Rightarrow> (('v, 'z) shms_scheme, unit) run" where
  "shm_run vo (Create_shm name sz perm) s = run_unit (create_shared_memory vo name sz perm s)"
| "shm_run vo (Destroy_shm h) s = destroy_shared_memory_handle vo h s"
| "shm_run vo (Map_shm h addr perm) s = run_unit (map_shared_memory vo h addr perm s)"
| "shm_run vo (Unmap_shm h) s = run_unit (unmap_shared_memory vo h s)"
| "shm_run vo (Resize_shm h n) s = run_unit (resize_shared_memory vo h n s)"
| "shm_run vo (Cleanup_shm pid) s = cleanup_task_shared_memory vo pid s"

text \<open>
  C14. Every call keeps the mapping tables consistent, also when it is suspended on the mutex of a region
  while other tasks make calls: the count is the number of active mappings, a task has at most one
  mapping of a region, and no mapping has a permission that the region does not have.
\<close>

theorem shm_calls_keep_tables:
  assumes "shms_wf s"
  shows "run_keeps shms_wf (shm_run vo c s)"
  using assms
  by (cases c) (auto simp: cleanup_task_shared_memory_def MAX_SHARED_MEMORY_REGIONS_def run_unit_def
      intro!: run_keeps_bind create_shared_memory_keeps destroy_handle_keeps map_shared_memory_keeps
        unmap_shared_memory_keeps resize_shared_memory_keeps cleanup_regions_keeps)


section \<open>Physical pages\<close>

text \<open>
  What the code relies on: \<open>used\<close> are the pages in use. \<^verbatim>\<open>allocate_physical_page\<close> returns 0 or a page that was
  not in use, \<^verbatim>\<open>free_physical_page\<close> gives one back, and mapping pages does neither.
\<close>

definition page_source :: "'v vm_ops \<Rightarrow> ('v \<Rightarrow> u64 set) \<Rightarrow> bool" where
  "page_source vo used \<longleftrightarrow>
     (\<forall>v a v'. allocate_physical_page vo v = (a, v') \<longrightarrow>
        (if a = 0 then used v' = used v else a \<notin> used v \<and> used v' = insert a (used v))) \<and>
     (\<forall>a v. used (free_physical_page vo a v) = used v - {a}) \<and>
     (\<forall>a v. used (snd (map_physical_page vo a v)) = used v) \<and> (\<forall>t v. used (memset_page vo t v) = used v) \<and>
     (\<forall>t v. used (unmap_physical_page vo t v) = used v) \<and>
     (\<forall>pid a n v. used (snd (vm_unmap_pages vo pid a n v)) = used v) \<and>
     (\<forall>pid a ps p v. used (vm_expand_mapping vo pid a ps p v) = used v) \<and>
     (\<forall>pid a ps p v. used (snd (vm_map_physical_pages vo pid a ps p v)) = used v)"

lemma page_sourceD:
  assumes "page_source vo used"
  shows "allocate_physical_page vo v = (a, v') \<Longrightarrow>
      (if a = 0 then used v' = used v else a \<notin> used v \<and> used v' = insert a (used v))"
    "used (free_physical_page vo a v) = used v - {a}" "used (clear_page vo a v) = used v"
    "used (contract_slot vo n k m v) = used v" "used (expand_slot vo ps m v) = used v"
  using assms
  by (simp_all add: page_source_def clear_page_def contract_slot_def expand_slot_def split_beta)

lemma fold_free_used: "page_source vo used \<Longrightarrow> used (fold (free_physical_page vo) xs v) = used v - set xs"
  by (induction xs arbitrary: v) (auto simp: page_sourceD)

lemma fold_slots_used:
  assumes "page_source vo used"
  shows "used (fold (contract_slot vo n k) ms v) = used v" "used (fold (expand_slot vo ps) ms v) = used v"
  by (induction ms arbitrary: v) (simp_all add: page_sourceD [OF assms])

lemma allocate_loop_pages:
  assumes "page_source vo used"
    and "distinct acc" "0 \<notin> set acc" "set acc \<inter> base = {}" "used v = base \<union> set acc"
    and "allocate_loop vo n acc v = (res, v')"
  shows "case res of None \<Rightarrow> used v' = base
         | Some xs \<Rightarrow> length xs = length acc + n \<and> distinct xs \<and> 0 \<notin> set xs \<and> set xs \<inter> base = {} \<and> used v' = base \<union> set xs"
  using assms(2-)
proof (induction n arbitrary: acc v)
  case 0
  then show ?case by auto
next
  case (Suc n)
  obtain a v1 where a: "allocate_physical_page vo v = (a, v1)" by force
  note al = page_sourceD(1) [OF assms(1) a]
  show ?case
  proof (cases "a = 0")
    case True
    then show ?thesis
      using Suc.prems a al by (auto simp: fold_free_used [OF assms(1)])
  next
    case False
    have "allocate_loop vo n (acc @ [a]) (clear_page vo a v1) = (res, v')"
      using Suc.prems(5) a False by simp
    moreover have "distinct (acc @ [a])" "0 \<notin> set (acc @ [a])" "set (acc @ [a]) \<inter> base = {}"
        "used (clear_page vo a v1) = base \<union> set (acc @ [a])"
      using Suc.prems(1-4) al False by (auto simp: page_sourceD(3) [OF assms(1)])
    ultimately show ?thesis
      using Suc.IH [of "acc @ [a]" "clear_page vo a v1"] by (simp split: option.splits)
  qed
qed

lemma allocate_pages_spec:
  assumes src: "page_source vo used" and al: "allocate_physical_pages vo n s = (p, s')"
  obtains "p = NULL" "used (shm_vm s') = used (shm_vm s)" "page_arrays s' = page_arrays s"
      "\<exists>sc. s' = set_vm (shm_vm s') (s\<lparr>k_sched := sc\<rparr>)"
    | xs sc where "p \<noteq> NULL" "n \<noteq> 0" "length xs = unat n" "distinct xs" "0 \<notin> set xs" "set xs \<inter> used (shm_vm s) = {}"
      "used (shm_vm s') = used (shm_vm s) \<union> set xs" "kmalloc (n * 8) (sc_heap (k_sched s)) = (p, sc_heap sc)"
      "s' = set_vm (shm_vm s') (s\<lparr>k_sched := sc, page_arrays := (page_arrays s)(p \<mapsto> xs)\<rparr>)"
proof (cases "n = 0")
  case True
  then have "p = NULL" "s' = s" using al by (simp_all add: allocate_physical_pages_def)
  then show thesis
    by (intro that(1)) (simp_all add: set_vm_def exI [of _ "k_sched s"])
next
  case False
  obtain q h where k: "kmalloc (n * 8) (sc_heap (k_sched s)) = (q, h)" by force
  define sc where "sc = (k_sched s)\<lparr>sc_heap := h\<rparr>"
  have q: "heap_alloc (n * 8) s = (q, s\<lparr>k_sched := sc\<rparr>)"
    using k by (simp add: heap_alloc_def sc_def)
  obtain res v where l: "allocate_loop vo (unat n) [] (shm_vm s) = (res, v)" by force
  note pages = allocate_loop_pages [OF src _ _ _ _ l, of "used (shm_vm s)", simplified]
  consider "q = NULL" | "q \<noteq> NULL" "res = None" | xs where "q \<noteq> NULL" "res = Some xs" by blast
  then show thesis
  proof cases
    case 1
    then have "p = NULL" "s' = s\<lparr>k_sched := sc\<rparr>" using al False q by (simp_all add: allocate_physical_pages_def)
    then show thesis by (intro that(1)) (auto simp: set_vm_def)
  next
    case 2
    then have "p = NULL" "s' = set_vm v (s\<lparr>k_sched := sc\<rparr>)"
      using al False q l by (simp_all add: allocate_physical_pages_def)
    then show thesis
      using 2 pages by (intro that(1)) (auto simp: set_vm_def)
  next
    case 3
    then have "q = p \<and> (set_vm v (s\<lparr>k_sched := sc\<rparr>))\<lparr>page_arrays := (page_arrays s)(q \<mapsto> xs)\<rparr> = s'"
      using al False q l by (auto simp: allocate_physical_pages_def)
    then have "p = q" "s' = (set_vm v (s\<lparr>k_sched := sc\<rparr>))\<lparr>page_arrays := (page_arrays s)(q \<mapsto> xs)\<rparr>"
      by auto
    then show thesis
      using 3 pages False k by (intro that(2) [of xs sc]) (simp_all add: set_vm_def sc_def)
  qed
qed

text \<open>
  C21. Pages are allocated all or not at all: either \<^verbatim>\<open>allocate_physical_pages\<close> returns the array of as
  many different pages as were asked for, none of which was in use, and these are the only ones
  that became used; or it returns \<^verbatim>\<open>NULL\<close> and no page is lost.
\<close>

theorem allocate_pages_all_or_nothing:
  assumes "page_source vo used" "allocate_physical_pages vo n s = (p, s')"
  shows "if p = NULL then used (shm_vm s') = used (shm_vm s)
         else \<exists>xs. page_arrays s' p = Some xs \<and> length xs = unat n \<and> distinct xs \<and> 0 \<notin> set xs \<and>
                set xs \<inter> used (shm_vm s) = {} \<and> used (shm_vm s') = used (shm_vm s) \<union> set xs"
  using assms
proof (cases rule: allocate_pages_spec)
  case (2 xs sc)
  moreover have "page_arrays s' p = Some xs"
    by (subst 2(9)) (simp add: set_vm_def)
  ultimately show ?thesis by simp
qed simp


text \<open>The pages of a region, and the arrays in the heap.\<close>

definition region_pages :: "nat \<Rightarrow> ('v, 'z) shms_scheme \<Rightarrow> u64 list \<Rightarrow> bool" where
  "region_pages i s xs \<longleftrightarrow>
     page_arrays s (sh_pages (shm_of i s)) = Some xs \<and> length xs = unat (sh_page_count (shm_of i s)) \<and>
     distinct xs \<and> 0 \<notin> set xs \<and> sh_pages (shm_of i s) \<noteq> NULL \<and> unat (sh_pages (shm_of i s)) + 8 * length xs < 2 ^ 64"

definition arrays_fresh :: "('v, 'z) shms_scheme \<Rightarrow> bool" where
  "arrays_fresh s \<longleftrightarrow>
     kheap_inv (sc_heap (k_sched s)) \<and> (\<forall>p \<in> dom (page_arrays s). p < next_addr (sc_heap (k_sched s)))"

lemma kmalloc_array:
  assumes "kheap_inv h" "kmalloc (n * 8) h = (p, h')" "p \<noteq> NULL" "unat n < 2 ^ 52"
  shows "p = next_addr h" "kheap_inv h'" "unat p + 8 * unat n < 2 ^ 64"
proof -
  have n8: "unat (n * 8) = 8 * unat n"
    using assms(4) by (simp add: unat_word_ariths)
  have "8 * unat n \<le> unat (align16 (n * 8))"
    using assms(4) by (simp add: unat_align16 n8)
  then show "p = next_addr h" "kheap_inv h'" "unat p + 8 * unat n < 2 ^ 64"
    using kmalloc_Some [OF assms(1-3)] by (auto simp: kheap_inv_def HEAP_START_def HEAP_SIZE_def)
qed

lemma free_pages_used:
  assumes "page_source vo used" "page_arrays s p = Some xs" "p \<noteq> NULL" "unat p + 8 * length xs < 2 ^ 64" "0 \<notin> set xs"
    and "unat off + unat n = length xs"
  shows "\<exists>s'. free_physical_pages vo p off n s = Some s' \<and> used (shm_vm s') = used (shm_vm s) - set (drop (unat off) xs) \<and>
            s' = set_vm (shm_vm s') s"
proof -
  have "unat (p + 8 * off) = unat p + 8 * unat off"
    using assms(4,6) by (simp add: unat_word_ariths)
  then have "p + 8 * off \<noteq> NULL"
    using assms(3) by (metis add_is_0 unat_0 unat_eq_zero)
  moreover have "filter (\<lambda>a. a \<noteq> 0) (drop (unat off) xs) = drop (unat off) xs"
    using assms(5) by (simp add: filter_id_conv) (metis in_set_dropD)
  moreover have "take (unat n) (drop (unat off) xs) = drop (unat off) xs"
    using assms(6) by simp
  moreover have "drop (unat off) xs = []" if "n = 0"
    using that assms(6) by simp
  ultimately show ?thesis
    using assms(2,6) by (cases "n = 0") (auto simp: free_physical_pages_def fold_free_used [OF assms(1)] set_vm_def)
qed

text \<open>What a resize of the region in slot \<open>i\<close> to \<open>n\<close> pages does, for each outcome.\<close>

definition resized ::
    "('v \<Rightarrow> u64 set) \<Rightarrow> nat \<Rightarrow> nat \<Rightarrow> u64 list \<Rightarrow> int \<Rightarrow> ('v, 'z) shms_scheme \<Rightarrow> ('v, 'z) shms_scheme \<Rightarrow> bool" where
  "resized used i n xs res s s' \<longleftrightarrow>
     (if res = 0
      then if n \<ge> length xs
           then \<exists>ys. length (xs @ ys) = n \<and> region_pages i s' (xs @ ys) \<and> set ys \<inter> used (shm_vm s) = {} \<and>
                  used (shm_vm s') = used (shm_vm s) \<union> set ys
           else region_pages i s' (take n xs) \<and> used (shm_vm s') = used (shm_vm s) - set (drop n xs)
      else region_pages i s' xs \<and>
           used (shm_vm s') = (if n \<ge> length xs then used (shm_vm s) else used (shm_vm s) - set (drop n xs)))"

lemma grow_resized:
  assumes src: "page_source vo used" and i: "i < length (shm_pool s)" and rp: "region_pages i s xs"
    and sub: "set xs \<subseteq> used (shm_vm s)" and fr: "arrays_fresh s"
    and n: "sh_page_count (shm_of i s) < n" "unat n < 2 ^ 52"
    and g: "grow_locked vo i sz n s = Some (res, s')"
  shows "resized used i (unat n) xs res s s'"
proof -
  let ?k = "n - sh_page_count (shm_of i s)"
  have k: "unat ?k = unat n - length xs" "length xs < unat n"
    using n(1) rp by (simp_all add: region_pages_def unat_sub word_less_nat_alt word_le_nat_alt)
  from g i show ?thesis
  proof (rule grow_cases, goal_cases)
    case (1 q s1 p s2)
    from src 1(1) show ?case
    proof (cases rule: allocate_pages_spec)
      case a: 1
      then show ?thesis
        using 1(3,7) rp k by (auto simp: resized_def region_pages_def)
    next
      case a: (2 ys sc)
      have q: "q = next_addr (sc_heap (k_sched s))" "unat q + 8 * length ys < 2 ^ 64" "kheap_inv (sc_heap sc)"
        using kmalloc_array [OF _ a(8,1)] fr a(3) k n(2) by (simp_all add: arrays_fresh_def)
      have arr: "page_arrays s1 = (page_arrays s)(q \<mapsto> ys)" "sc_heap (k_sched s1) = sc_heap sc"
        by (subst a(9), simp add: set_vm_def)+
      have old: "page_arrays s1 (sh_pages (shm_of i s)) = Some xs"
        using fr rp q(1) by (auto simp: arr arrays_fresh_def region_pages_def)
      from 1(7) a(1) show ?thesis
      proof (elim disjE conjE exE)
        assume p: "p = NULL" "res = - 1" and f: "free_physical_pages vo q 0 ?k s2 = Some s'"
        obtain s3 where "free_physical_pages vo q 0 ?k s2 = Some s3" "used (shm_vm s3) = used (shm_vm s2) - set ys"
            "s3 = set_vm (shm_vm s3) s2"
          using free_pages_used [OF src, of s2 q ys 0 ?k] q(2) a(1,3,5) 1(6) by (auto simp: arr)
        with f have f: "used (shm_vm s') = used (shm_vm s2) - set ys" "s' = set_vm (shm_vm s') s2" by simp_all
        have "used (shm_vm s') = used (shm_vm s)"
          using f(1) 1(5) a(6,7) by auto
        moreover have "region_pages i s' xs"
          using rp old 1(4,6) by (subst f(2)) (simp add: region_pages_def set_vm_def)
        ultimately show ?thesis using p k by (simp add: resized_def)
      next
        fix xs' ys' v
        assume p: "p \<noteq> NULL" and res: "res = 0" and xs': "pages_array (shm_of i s) s1 = Some xs'"
          and ys': "page_arrays s1 q = Some ys'"
          and v: "v = fold (expand_slot vo (take (unat ?k) ys')) (sh_mappings (shm_of i s)) (shm_vm s1)"
          and s': "s' = set_shm i ((shm_of i s)\<lparr>sh_pages := p, sh_size := sz, sh_page_count := n\<rparr>)
                 (set_vm v (s2\<lparr>page_arrays := (page_arrays s1)(p \<mapsto> take (unat (sh_page_count (shm_of i s))) xs' @
                    take (unat ?k) ys')\<rparr>))"
        have "unat (sh_page_count (shm_of i s)) = length xs" using rp by (simp add: region_pages_def)
        then have eqs: "xs' = xs" "ys' = ys" using xs' ys' old by (auto simp: arr split: if_splits)
        have takes: "take (unat (sh_page_count (shm_of i s))) xs = xs" "take (unat ?k) ys = ys"
          using rp a(3) by (simp_all add: region_pages_def)
        have used: "used (shm_vm s') = used (shm_vm s) \<union> set ys"
          using a(7) by (simp add: s' v set_vm_def set_shm_def fold_slots_used [OF src])
        have "kmalloc (n * 8) (sc_heap sc) = (p, sc_heap (k_sched s2))"
          using 1(2) by (auto simp: heap_alloc_def arr split: prod.splits)
        from kmalloc_array [OF q(3) this p n(2)] have "unat p + 8 * unat n < 2 ^ 64" by simp
        then have "region_pages i s' (xs @ ys)"
          using p k a(3,4,5,6) sub rp i 1(4)
          by (auto simp: region_pages_def s' set_vm_def set_shm_def eqs takes)
        then show ?thesis
          using res k a(3,6) used by (auto simp: resized_def intro!: exI [of _ ys])
      qed simp
    qed
  qed
qed

lemma shrink_resized:
  assumes src: "page_source vo used" and i: "i < length (shm_pool s)" and rp: "region_pages i s xs" and fr: "arrays_fresh s"
    and n: "n < sh_page_count (shm_of i s)" "unat n < 2 ^ 52"
    and g: "shrink_locked vo i sz n s = Some (res, s')"
  shows "resized used i (unat n) xs res s s'"
proof -
  let ?k = "sh_page_count (shm_of i s) - n"
  let ?s1 = "set_vm (fold (contract_slot vo sz ?k) (sh_mappings (shm_of i s)) (shm_vm s)) s"
  have k: "unat n + unat ?k = length xs" "unat n < length xs"
    using n(1) rp by (simp_all add: region_pages_def unat_sub word_less_nat_alt word_le_nat_alt)
  from g show ?thesis
  proof (rule shrink_cases, goal_cases)
    case (1 s2 p s3)
    obtain t where "free_physical_pages vo (sh_pages (shm_of i s)) n ?k ?s1 = Some t"
        "used (shm_vm t) = used (shm_vm ?s1) - set (drop (unat n) xs)" "t = set_vm (shm_vm t) ?s1"
      using free_pages_used [OF src, of ?s1 "sh_pages (shm_of i s)" xs n ?k] rp k(1)
      by (auto simp: region_pages_def set_vm_def)
    with 1(1) have t: "used (shm_vm s2) = used (shm_vm ?s1) - set (drop (unat n) xs)" "s2 = set_vm (shm_vm s2) ?s1" by simp_all
    have used: "used (shm_vm s3) = used (shm_vm s) - set (drop (unat n) xs)"
      using t(1) 1(4) by (simp add: set_vm_def fold_slots_used [OF src])
    have same: "region_pages i s3 xs"
      using rp 1(3,5) by (simp add: region_pages_def)
    from 1(6) show ?case
    proof (elim disjE conjE exE)
      fix xs'
      assume p: "p \<noteq> NULL" and res: "res = 0" and xs': "page_arrays s (sh_pages (shm_of i s)) = Some xs'"
        and s': "s' = set_shm i ((shm_of i s)\<lparr>sh_pages := p, sh_size := sz, sh_page_count := n\<rparr>)
              (heap_free (sh_pages (shm_of i s)) (s3\<lparr>page_arrays := (page_arrays s)(p \<mapsto> take (unat n) xs')\<rparr>))"
      have "kheap_inv (sc_heap (k_sched s2))" using fr by (subst t(2)) (simp add: arrays_fresh_def set_vm_def)
      moreover have "kmalloc (n * 8) (sc_heap (k_sched s2)) = (p, sc_heap (k_sched s3))"
        using 1(2) by (auto simp: heap_alloc_def split: prod.splits)
      ultimately have "unat p + 8 * unat n < 2 ^ 64" using kmalloc_array(3) p n(2) by blast
      then have "region_pages i s' (take (unat n) xs)"
        using p k rp i 1(3) xs' by (auto simp: region_pages_def s' set_shm_def dest: in_set_takeD)
      then show ?thesis
        using res k used by (simp add: resized_def s' set_shm_def)
    qed (use same used k in \<open>simp add: resized_def\<close>)
  qed
qed

text \<open>
  C17. Resizing keeps the array of pages and the pages in use together: growing adds pages that were not in use
  behind the old ones, shrinking gives back exactly the pages behind the new end, and a failed growth changes
  nothing. Only a shrink that fails, because there is no memory for the smaller array, leaves the region with pages that it
  has already given back: they are still in its array, and it will free them a second time when it is destroyed.
\<close>

theorem resize_moves_pages:
  assumes "page_source vo used" "i < length (shm_pool s)" "region_pages i s xs" "set xs \<subseteq> used (shm_vm s)" "arrays_fresh s"
    and "resize_locked vo i new_size s = Some (res, s')"
  shows "resized used i (unat (new_size div SHM_PAGE_SIZE)) xs res s s'"
proof -
  let ?n = "new_size div SHM_PAGE_SIZE"
  have n: "unat ?n < 2 ^ 52"
  proof -
    have "unat new_size < 2 ^ LENGTH(64)" by (rule unsigned_less)
    then show ?thesis by (simp add: unat_div SHM_PAGE_SIZE_def)
  qed
  consider "?n = sh_page_count (shm_of i s)" | "?n > sh_page_count (shm_of i s)" | "?n < sh_page_count (shm_of i s)"
    by (meson linorder_neqE)
  then show ?thesis
  proof cases
    case 1
    then show ?thesis
      using assms(3,6) by (auto simp: resize_locked_def resized_def region_pages_def)
  next
    case 2
    then have "resize_locked vo i new_size s = grow_locked vo i new_size ?n s"
      by (auto simp: resize_locked_def Let_def)
    then show ?thesis
      using grow_resized [OF assms(1-5) 2 n] assms(6) by simp
  next
    case 3
    then have "resize_locked vo i new_size s = shrink_locked vo i new_size ?n s"
      by (auto simp: resize_locked_def Let_def)
    then show ?thesis
      using shrink_resized [OF assms(1-3,5) 3 n] assms(6) by simp
  qed
qed


section \<open>A table as a map\<close>

text \<open>Where and with which permissions a region is mapped for a task.\<close>

definition mapping_of :: "shared_memory \<Rightarrow> pid_t \<rightharpoonup> ptr \<times> u32" where
  "mapping_of r pid =
     map_option (\<lambda>j. (sp_virtual_addr (sh_mappings r ! j), sp_permissions (sh_mappings r ! j))) (find_mapping pid r)"

lemma find_mapping_unique:
  "shm_wf r \<Longrightarrow> find_mapping pid r = Some j \<longleftrightarrow> active_at r j \<and> sp_pid (sh_mappings r ! j) = pid"
proof (rule iffI)
  assume wf: "shm_wf r" and j: "active_at r j \<and> sp_pid (sh_mappings r ! j) = pid"
  then obtain k where k: "find_mapping pid r = Some k"
    using find_mapping_None [OF wf, of pid] by (cases "find_mapping pid r") auto
  with find_mapping_Some [OF wf k] j wf show "find_mapping pid r = Some j"
    by (auto simp: shm_wf_def)
qed (auto dest: find_mapping_Some)

lemma mapping_of_wf:
  assumes "shm_wf r"
  shows "mapping_of r pid = Some (a, p) \<longleftrightarrow>
    (\<exists>j. active_at r j \<and> sp_pid (sh_mappings r ! j) = pid \<and> sp_virtual_addr (sh_mappings r ! j) = a \<and>
         sp_permissions (sh_mappings r ! j) = p)"
  using find_mapping_unique [OF assms] by (auto simp: mapping_of_def)

text \<open>The slots that matter for a task decide its mapping.\<close>

lemma mapping_of_cong:
  assumes "shm_wf r" "shm_wf r'"
    and "\<And>j. active_at r' j \<and> sp_pid (sh_mappings r' ! j) = q \<longleftrightarrow> active_at r j \<and> sp_pid (sh_mappings r ! j) = q"
    and "\<And>j. active_at r j \<Longrightarrow> sp_pid (sh_mappings r ! j) = q \<Longrightarrow> sh_mappings r' ! j = sh_mappings r ! j"
  shows "mapping_of r' q = mapping_of r q"
proof -
  have "find_mapping q r' = Some j \<longleftrightarrow> find_mapping q r = Some j" for j
    using find_mapping_unique [OF assms(1)] find_mapping_unique [OF assms(2)] assms(3) by simp
  then have eq: "find_mapping q r' = find_mapping q r"
    by (metis option.exhaust)
  show ?thesis
  proof (cases "find_mapping q r")
    case (Some j)
    then show ?thesis
      using eq assms(4) find_mapping_Some [OF assms(1) Some] by (simp add: mapping_of_def)
  qed (simp add: mapping_of_def eq)
qed

lemma add_mapping_map:
  assumes wf: "shm_wf r" and none: "find_mapping pid r = None" and "perm AND NOT (sh_default_perm r) = 0"
    and "sh_mapping_count r < 16"
  shows "\<exists>r'. add_mapping pid addr perm flags r = (0, r') \<and> shm_wf r' \<and> mapping_of r' = (mapping_of r)(pid \<mapsto> (addr, perm))"
proof -
  have len: "length (sh_mappings r) = 16" using wf by (simp add: shm_wf_def)
  have "length (filter sp_is_active (sh_mappings r)) < 16"
    using wf assms(4) by (simp add: shm_wf_def word_less_nat_alt)
  then obtain i where i: "scan_from (\<lambda>m. \<not> sp_is_active m) (sh_mappings r) 0 = Some i"
    using len by (cases "scan_from (\<lambda>m. \<not> sp_is_active m) (sh_mappings r) 0")
      (auto simp: scan_from_None filter_id_conv [THEN iffD2])
  then have i': "i < 16" "\<not> active_at r i" using len by (auto simp: scan_from_Some active_at_def)
  define r' where "r' = snd (add_mapping pid addr perm flags r)"
  have add: "add_mapping pid addr perm flags r = (0, r')" using i by (simp add: r'_def add_mapping_def)
  have wf': "shm_wf r'" by (rule add_mapping_wf [OF wf none add assms(3)])
  have act: "active_at r' j \<longleftrightarrow> j = i \<or> active_at r j" for j
    using i i' len by (auto simp: r'_def add_mapping_def active_at_def nth_list_update)
  have at_i: "sh_mappings r' ! i = \<lparr>sp_pid = pid, sp_virtual_addr = addr, sp_permissions = perm, sp_flags = flags, sp_is_active = True\<rparr>"
    using i i' len by (simp add: r'_def add_mapping_def)
  have other: "sh_mappings r' ! j = sh_mappings r ! j" if "j \<noteq> i" for j
    using i that by (simp add: r'_def add_mapping_def)
  have "mapping_of r' q = ((mapping_of r)(pid \<mapsto> (addr, perm))) q" for q
  proof (cases "q = pid")
    case True
    have "mapping_of r' pid = Some (addr, perm)"
      unfolding mapping_of_wf [OF wf'] by (rule exI [of _ i]) (simp add: act at_i)
    with True show ?thesis by simp
  next
    case False
    have "mapping_of r' q = mapping_of r q"
    proof (rule mapping_of_cong [OF wf wf'])
      fix j
      show "active_at r' j \<and> sp_pid (sh_mappings r' ! j) = q \<longleftrightarrow> active_at r j \<and> sp_pid (sh_mappings r ! j) = q"
        using False i' by (cases "j = i") (simp_all add: act at_i other)
      show "sh_mappings r' ! j = sh_mappings r ! j" if "active_at r j"
        using that i'(2) other by (cases "j = i") simp_all
    qed
    with False show ?thesis by simp
  qed
  with add wf' show ?thesis by blast
qed

lemma remove_mapping_map:
  assumes wf: "shm_wf r"
  shows "mapping_of (snd (remove_mapping pid r)) = (mapping_of r)(pid := None)"
proof (cases "find_mapping pid r")
  case None
  then have "mapping_of r pid = None" by (simp add: mapping_of_def)
  with None show ?thesis by (simp add: remove_mapping_def fun_upd_idem)
next
  case (Some i)
  define r' where "r' = snd (remove_mapping pid r)"
  have i: "active_at r i" "sp_pid (sh_mappings r ! i) = pid" "length (sh_mappings r) = 16"
    using find_mapping_Some [OF wf Some] wf by (simp_all add: shm_wf_def)
  have wf': "shm_wf r'" unfolding r'_def by (rule remove_mapping_wf [OF wf])
  have act: "active_at r' j \<longleftrightarrow> j \<noteq> i \<and> active_at r j" for j
    using Some i by (auto simp: r'_def remove_mapping_def active_at_def nth_list_update)
  have other: "sh_mappings r' ! j = sh_mappings r ! j" if "j \<noteq> i" for j
    using Some that by (simp add: r'_def remove_mapping_def)
  have "mapping_of r' q = ((mapping_of r)(pid := None)) q" for q
  proof (cases "q = pid")
    case True
    have "find_mapping pid r' \<noteq> Some j" for j
    proof -
      have "sp_pid (sh_mappings r' ! j) \<noteq> pid" if "active_at r' j"
        using that act other [of j] i wf by (auto simp: shm_wf_def)
      then show ?thesis using find_mapping_unique [OF wf', of pid j] by blast
    qed
    then have "find_mapping pid r' = None" by (metis option.exhaust)
    with True show ?thesis by (simp add: mapping_of_def)
  next
    case False
    have "mapping_of r' q = mapping_of r q"
    proof (rule mapping_of_cong [OF wf wf'])
      fix j
      show "active_at r' j \<and> sp_pid (sh_mappings r' ! j) = q \<longleftrightarrow> active_at r j \<and> sp_pid (sh_mappings r ! j) = q"
        using False i by (cases "j = i") (simp_all add: act other)
      show "sh_mappings r' ! j = sh_mappings r ! j" if "sp_pid (sh_mappings r ! j) = q"
        using that i False other by (cases "j = i") simp_all
    qed
    with False show ?thesis by simp
  qed
  then show ?thesis by (simp add: r'_def fun_eq_iff)
qed

lemma mapping_of_access: "mapping_of (r\<lparr>sh_access_count := n\<rparr>) = mapping_of r"
  by (simp add: mapping_of_def find_mapping_def fun_eq_iff)

lemma unmap_locked_map:
  assumes "shms_wf s" "i < 64"
  shows "mapping_of (shm_of i (snd (unmap_locked vo i pid s))) = (mapping_of (shm_of i s))(pid := None)"
proof (cases "find_mapping pid (shm_of i s)")
  case None
  then have "mapping_of (shm_of i s) pid = None" by (simp add: mapping_of_def)
  with None show ?thesis by (simp add: unmap_locked_def Let_def fun_upd_idem)
next
  case (Some j)
  have "i < length (shm_pool s)" using assms by (simp add: shms_wf_def)
  with Some have "shm_of i (snd (unmap_locked vo i pid s)) = snd (remove_mapping pid (shm_of i s))"
    by (simp add: unmap_locked_def Let_def set_shm_def set_vm_def split_beta)
  then show ?thesis
    using remove_mapping_map [OF shms_wf_shm [OF assms], of pid] by simp
qed

lemma map_locked_new:
  assumes "shms_wf s" "i < 64" "find_mapping pid (shm_of i s) = None" "map_locked vo i pid addr permissions s = Some (p, s')"
  shows "mapping_of (shm_of i s') = (if p = NULL then mapping_of (shm_of i s)
           else (mapping_of (shm_of i s))(pid \<mapsto> (p, permissions AND sh_default_perm (shm_of i s))))"
proof (cases "sh_mapping_count (shm_of i s) < 16")
  case False
  then show ?thesis
    using assms(3,4) by (auto simp: map_locked_def Let_def MAX_MAPPINGS_PER_REGION_def not_less)
next
  case True
  let ?r = "shm_of i s" and ?perm = "permissions AND sh_default_perm (shm_of i s)"
    and ?flags = "if addr \<noteq> NULL then SHM_MAP_FIXED else 0"
  have room: "\<not> of_nat MAX_MAPPINGS_PER_REGION \<le> sh_mapping_count ?r"
    using True by (simp add: MAX_MAPPINGS_PER_REGION_def not_le)
  obtain xs where xs: "pages_array ?r s = Some xs"
    using assms(3,4) room by (cases "pages_array ?r s") (simp_all add: map_locked_def)
  obtain q v where q: "vm_map_physical_pages vo pid addr (take (unat (sh_page_count ?r)) xs) ?perm (shm_vm s) = (q, v)" by force
  obtain r' where r': "add_mapping pid q ?perm ?flags ?r = (0, r')" "mapping_of r' = (mapping_of ?r)(pid \<mapsto> (q, ?perm))"
    using add_mapping_map [OF shms_wf_shm [OF assms(1,2)] assms(3) masked_perm True] by blast
  have "map_locked vo i pid addr permissions s =
      (if q = NULL then Some (NULL, set_vm v s)
       else Some (q, set_shm i (r'\<lparr>sh_access_count := sh_access_count r' + 1\<rparr>) (set_vm v s)))"
    unfolding map_locked_def Let_def
    using assms(3) room xs q r'(1) by simp
  moreover have "i < length (shm_pool s)" using assms(1,2) by (simp add: shms_wf_def)
  ultimately show ?thesis
    using assms(4) r'(2) by (auto simp: set_shm_def set_vm_def mapping_of_access split: if_splits)
qed



section \<open>Concrete instances\<close>

text \<open>
  A virtual memory system that hands out pages upwards from an address and remembers those in use; everything is mapped at the
  same address. It satisfies the laws for every state.
\<close>

definition bump_pages :: "(u64 \<times> u64 set) vm_ops" where
  "bump_pages =
     \<lparr>vm_map_physical_pages = (\<lambda>pid addr ps perm v. (0x40000000, v)), vm_unmap_pages = (\<lambda>pid addr n v. (0, v)),
      vm_expand_mapping = (\<lambda>pid addr ps perm v. v),
      allocate_physical_page = (\<lambda>v. if fst v = 0 \<or> fst v \<in> snd v then (0, v) else (fst v, (fst v + 4096, insert (fst v) (snd v)))),
      free_physical_page = (\<lambda>a v. (fst v, snd v - {a})), map_physical_page = (\<lambda>a v. (a, v)),
      memset_page = (\<lambda>t v. v), unmap_physical_page = (\<lambda>t v. v), align_up = (\<lambda>x a. (x + a - 1) div a * a)\<rparr>"

lemma bump_pages_source: "page_source bump_pages snd"
  by (auto simp: page_source_def bump_pages_def split: if_splits)

definition demo_region :: shared_memory where
  "demo_region = zero_shm\<lparr>sh_header := new_header IPC_TYPE_SHARED_MEMORY ''demo'' destroy_shared_memory_fn, sh_size := 8192,
     sh_page_count := 2, sh_pages := 0xFFFFFFFF8FFF0000, sh_creator := 2, sh_default_perm := 3\<rparr>"

definition demo_shms :: "(u64 \<times> u64 set) shms" where
  "demo_shms = ipc.extend demo_ipc \<lparr>shm_pool = demo_region # replicate 63 zero_shm, shm_count = 1,
     page_arrays = [0xFFFFFFFF8FFF0000 \<mapsto> [0x5000, 0x6000]], shm_vm = (0x7000, {0x5000, 0x6000})\<rparr>"

lemma demo_shms_sel [simp]:
  "shm_pool demo_shms = demo_region # replicate 63 zero_shm" "page_arrays demo_shms = [0xFFFFFFFF8FFF0000 \<mapsto> [0x5000, 0x6000]]"
  "shm_vm demo_shms = (0x7000, {0x5000, 0x6000})" "k_sched demo_shms = k_sched demo_ipc"
  by (simp_all add: demo_shms_def ipc.defs demo_ipc_def)

lemma demo_shms_wf: "shms_wf demo_shms"
proof -
  have "shm_wf demo_region"
    by (auto simp: demo_region_def shm_wf_def zero_shm_def zero_mapping_def active_at_def MAX_MAPPINGS_PER_REGION_def)
  then show ?thesis
    by (auto simp: shms_wf_def nth_Cons zero_shm_wf split: nat.splits)
qed

theorem shm_calls_keep_tables_witness: "run_keeps shms_wf (shm_run bump_pages (Map_shm (Some 0) NULL 1) demo_shms)"
  by (rule shm_calls_keep_tables [OF demo_shms_wf])

lemma demo_shms_heap: "sc_heap (k_sched demo_ipc) = kheap_boot"
  by (simp add: demo_ipc_def demo_defs)

lemma demo_kmalloc: "unat n < 1000 \<Longrightarrow> \<exists>h. kmalloc (n * 8) kheap_boot = (0xFFFFFFFF90000000, h)"
proof -
  assume n: "unat n < 1000"
  have "unat (align16 (n * 8)) \<le> 8016"
    using n by (simp add: unat_align16 unat_word_ariths)
  then have "\<not> remaining kheap_boot < align16 (n * 8)"
    by (simp add: word_less_nat_alt kheap_boot_def HEAP_SIZE_def)
  then show ?thesis
    by (simp add: kmalloc_def Let_def) (simp add: kheap_boot_def HEAP_START_def)
qed

lemma demo_alloc: "\<exists>s'. allocate_physical_pages bump_pages 2 demo_shms = (0xFFFFFFFF90000000, s')"
proof -
  obtain h where h: "kmalloc (2 * 8) kheap_boot = (0xFFFFFFFF90000000, h)" using demo_kmalloc [of 2] by auto
  have "unat (2 :: u64) = Suc (Suc 0)" by simp
  then have "fst (allocate_loop bump_pages (unat (2 :: u64)) [] (0x7000, {0x5000, 0x6000})) = Some [0x7000, 0x8000]"
    by (simp only:) (simp add: bump_pages_def clear_page_def)
  then obtain v where "allocate_loop bump_pages (unat (2 :: u64)) [] (0x7000, {0x5000, 0x6000}) = (Some [0x7000, 0x8000], v)"
    by (metis prod.collapse)
  then show ?thesis
    using h by (simp add: allocate_physical_pages_def heap_alloc_def demo_shms_heap)
qed

theorem allocate_pages_all_or_nothing_witness:
  "\<exists>s' xs. allocate_physical_pages bump_pages 2 demo_shms = (0xFFFFFFFF90000000, s') \<and> length xs = 2 \<and> distinct xs \<and>
           snd (shm_vm s') = {0x5000, 0x6000} \<union> set xs"
proof -
  obtain s' where s': "allocate_physical_pages bump_pages 2 demo_shms = (0xFFFFFFFF90000000, s')"
    using demo_alloc by blast
  from allocate_pages_all_or_nothing [OF bump_pages_source s'] obtain xs where
      "length xs = unat (2 :: u64)" "distinct xs" "snd (shm_vm s') = snd (shm_vm demo_shms) \<union> set xs" by auto
  with s' show ?thesis by auto
qed


lemma demo_region_pages: "region_pages 0 demo_shms [0x5000, 0x6000]" "arrays_fresh demo_shms"
  by (simp_all add: region_pages_def demo_region_def arrays_fresh_def demo_shms_heap kheap_boot_inv)
    (simp add: kheap_boot_def HEAP_START_def)

lemma contract_inactive: "\<forall>m \<in> set ms. \<not> sp_is_active m \<Longrightarrow> fold (contract_slot vo n k) ms v = v"
  by (induction ms) (simp_all add: contract_slot_def)

lemma demo_shrink: "\<exists>s'. resize_locked bump_pages 0 4096 demo_shms = Some (0, s')"
proof -
  let ?v = "fold (contract_slot bump_pages 4096 1) (sh_mappings demo_region) (0x7000, {0x5000, 0x6000})"
  have v: "?v = (0x7000, {0x5000, 0x6000})"
    by (rule contract_inactive) (auto simp: demo_region_def zero_shm_def zero_mapping_def)
  obtain h where h: "kmalloc (1 * 8) kheap_boot = (0xFFFFFFFF90000000, h)" using demo_kmalloc [of 1] by auto
  have c: "sh_page_count demo_region = 2" "sh_pages demo_region = 0xFFFFFFFF8FFF0000"
    by (simp_all add: demo_region_def)
  show ?thesis
    using h v by (simp add: resize_locked_def shrink_locked_def Let_def SHM_PAGE_SIZE_def c free_physical_pages_def set_vm_def
        heap_alloc_def demo_shms_heap)
qed

theorem resize_moves_pages_witness:
  "\<exists>s'. resize_locked bump_pages 0 4096 demo_shms = Some (0, s') \<and> region_pages 0 s' [0x5000] \<and> snd (shm_vm s') = {0x5000}"
proof -
  obtain s' where s': "resize_locked bump_pages 0 4096 demo_shms = Some (0, s')" using demo_shrink by blast
  have "resized snd 0 (unat (4096 div SHM_PAGE_SIZE)) [0x5000, 0x6000] 0 demo_shms s'"
    by (rule resize_moves_pages [OF bump_pages_source _ demo_region_pages(1) _ demo_region_pages(2) s']) simp_all
  moreover have "{0x5000, 0x6000} - {0x6000} = {0x5000 :: u64}" by auto
  ultimately show ?thesis
    using s' by (simp add: resized_def SHM_PAGE_SIZE_def)
qed

lemma demo_map: "\<exists>s'. map_locked bump_pages 0 2 NULL 1 demo_shms = Some (0x40000000, s')"
proof -
  have none: "scan_from P (replicate n zero_mapping) k = None" if "\<not> P zero_mapping" for P n k
    using that by (simp add: scan_from_None)
  have "find_mapping 2 demo_region = None" "sh_mapping_count demo_region = 0" "sh_pages demo_region = 0xFFFFFFFF8FFF0000"
    by (simp_all add: find_mapping_def demo_region_def zero_shm_def none zero_mapping_def scan_from_None)
  moreover have "fst (add_mapping 2 0x40000000 p f demo_region) = 0" for p f
    by (simp add: add_mapping_def demo_region_def zero_shm_def MAX_MAPPINGS_PER_REGION_def zero_mapping_def numeral_eq_Suc)
  ultimately show ?thesis
    by (simp add: map_locked_def Let_def MAX_MAPPINGS_PER_REGION_def bump_pages_def split_beta)
qed


end
