(* ===== verification/Ipc_Init.thy ===== *)
theory Ipc_Init
  imports Ipc_Stats Msg_Ring Shared_Memory_Props
begin

text \<open>
  The start of the IPC subsystems, \<^verbatim>\<open>kernel/ipc_init.c\<close>: initialisation in the order of the
  dependencies, the clean-up after a task, the timeout checks and the health check over the statistics of
  \<^verbatim>\<open>Ipc_Stats\<close>. The message subsystem is the one of \<^verbatim>\<open>kernel/ipc/message/message.c\<close>; its
  \<^const>\<open>ms_stats\<close> is the variable \<^verbatim>\<open>ipc_stats\<close> of this file, so it is handed over at the call.
  The other initialisers, like the two registration functions, have no definition or more than one in the sources,
  so they are parameters, and so are the clean-up and timeout functions, which exist in none, one or two versions: the
  record \<^verbatim>\<open>subsystem_ops\<close>. An initialiser acts on the statistics, which it can change through
  \<^verbatim>\<open>update_ipc_stats\<close>, and on a state of any type; one that does not return is \<^const>\<open>None\<close>. A
  clean-up takes mutexes and can be suspended, so it is a \<^typ>\<open>('s, unit) run\<close>, over any state.
\<close>

record ('w, 'c) subsystem_ops =
  so_init_mutex :: "ipc_stats \<times> 'w \<Rightarrow> (ipc_stats \<times> 'w) option"
  so_init_semaphore :: "ipc_stats \<times> 'w \<Rightarrow> (ipc_stats \<times> 'w) option"
  so_init_event :: "ipc_stats \<times> 'w \<Rightarrow> (ipc_stats \<times> 'w) option"
  so_init_shared_memory :: "ipc_stats \<times> 'w \<Rightarrow> (ipc_stats \<times> 'w) option"
  so_cleanup_mutexes :: "pid_t \<Rightarrow> 'c \<Rightarrow> ('c, unit) run"
  so_cleanup_semaphores :: "pid_t \<Rightarrow> 'c \<Rightarrow> ('c, unit) run"
  so_cleanup_events :: "pid_t \<Rightarrow> 'c \<Rightarrow> ('c, unit) run"
  so_cleanup_messages :: "pid_t \<Rightarrow> 'c \<Rightarrow> ('c, unit) run"
  so_cleanup_shared_memory :: "pid_t \<Rightarrow> 'c \<Rightarrow> ('c, unit) run"
  so_check_event_timeouts :: "'c \<Rightarrow> ('c, unit) run"
  so_check_message_timeouts :: "'c \<Rightarrow> ('c, unit) run"
  so_register_cleanup :: "'w \<Rightarrow> 'w"
  so_register_timeouts :: "'w \<Rightarrow> 'w"

record ('m, 's, 'w) ipc_system =
  ipc_statistics :: ipc_stats
  mutex_initialized :: bool
  semaphore_initialized :: bool
  event_initialized :: bool
  message_initialized :: bool
  shared_memory_initialized :: bool
  last_error :: string
  ipc_messages :: "('m, 's) msg_sys"
  ipc_world :: 'w

definition ipc_boot :: "('m, 's) msg_sys \<Rightarrow> 'w \<Rightarrow> ('m, 's, 'w) ipc_system" where
  "ipc_boot ms w = \<lparr>ipc_statistics = init_ipc_stats, mutex_initialized = False, semaphore_initialized = False,
     event_initialized = False, message_initialized = False, shared_memory_initialized = False, last_error = [],
     ipc_messages = ms, ipc_world = w\<rparr>"

text \<open>A call of an initialiser.\<close>

abbreviation call_init ::
    "(ipc_stats \<times> 'w \<Rightarrow> (ipc_stats \<times> 'w) option) \<Rightarrow> ('m, 's, 'w) ipc_system \<Rightarrow> ('m, 's, 'w) ipc_system option" where
  "call_init f s \<equiv> map_option (\<lambda>(st, w). s\<lparr>ipc_statistics := st, ipc_world := w\<rparr>) (f (ipc_statistics s, ipc_world s))"

text \<open>\<^verbatim>\<open>vsnprintf\<close> keeps 255 characters of the message.\<close>

definition record_error :: "string \<Rightarrow> ('m, 's, 'w) ipc_system \<Rightarrow> ('m, 's, 'w) ipc_system" where
  "record_error msg s = s\<lparr>last_error := take 255 msg\<rparr>"

fun decimal :: "nat \<Rightarrow> string" where
  "decimal n = (if n < 10 then [char_of (48 + n)] else decimal (n div 10) @ [char_of (48 + n mod 10)])"

declare decimal.simps [simp del]

definition get_last_ipc_error :: "('m, 's, 'w) ipc_system \<Rightarrow> string" where
  "get_last_ipc_error s = (if last_error s \<noteq> [] then last_error s else ''No error'')"

definition cleanup_task_ipc :: "('w, 'c) subsystem_ops \<Rightarrow> pid_t \<Rightarrow> 'c \<Rightarrow> ('c, unit) run" where
  "cleanup_task_ipc so pid w =
     run_bind (so_cleanup_mutexes so pid w) (\<lambda>_ w.
     run_bind (so_cleanup_semaphores so pid w) (\<lambda>_ w.
     run_bind (so_cleanup_events so pid w) (\<lambda>_ w.
     run_bind (so_cleanup_messages so pid w) (\<lambda>_ w.
     so_cleanup_shared_memory so pid w))))"

definition check_ipc_timeouts :: "('w, 'c) subsystem_ops \<Rightarrow> 'c \<Rightarrow> ('c, unit) run" where
  "check_ipc_timeouts so w = run_bind (so_check_event_timeouts so w) (\<lambda>_ w. so_check_message_timeouts so w)"

definition initialize_mutex_subsystem :: "('w, 'c) subsystem_ops \<Rightarrow> ('m, 's, 'w) ipc_system \<Rightarrow> (bool \<times> ('m, 's, 'w) ipc_system) option" where
  "initialize_mutex_subsystem so s =
     (if mutex_initialized s then Some (True, s)
      else map_option (\<lambda>s. (True, s\<lparr>mutex_initialized := True\<rparr>)) (call_init (so_init_mutex so) s))"

definition initialize_semaphore_subsystem :: "('w, 'c) subsystem_ops \<Rightarrow> ('m, 's, 'w) ipc_system \<Rightarrow> (bool \<times> ('m, 's, 'w) ipc_system) option" where
  "initialize_semaphore_subsystem so s =
     (if semaphore_initialized s then Some (True, s)
      else if \<not> mutex_initialized s then Some (False, record_error ''Cannot initialize semaphores before mutexes'' s)
      else map_option (\<lambda>s. (True, s\<lparr>semaphore_initialized := True\<rparr>)) (call_init (so_init_semaphore so) s))"

definition initialize_event_subsystem :: "('w, 'c) subsystem_ops \<Rightarrow> ('m, 's, 'w) ipc_system \<Rightarrow> (bool \<times> ('m, 's, 'w) ipc_system) option" where
  "initialize_event_subsystem so s =
     (if event_initialized s then Some (True, s)
      else if \<not> mutex_initialized s then Some (False, record_error ''Cannot initialize events before mutexes'' s)
      else map_option (\<lambda>s. (True, s\<lparr>event_initialized := True\<rparr>)) (call_init (so_init_event so) s))"

definition initialize_message_subsystem ::
  "'m mutex_ops \<Rightarrow> ('m, 's, 'w) ipc_system \<Rightarrow> (bool \<times> ('m, 's, 'w) ipc_system) option" where
  "initialize_message_subsystem mo s =
     (if message_initialized s then Some (True, s)
      else if \<not> mutex_initialized s then Some (False, record_error ''Cannot initialize messages before mutexes'' s)
      else let ms = init_message_subsystem mo ((ipc_messages s)\<lparr>ms_stats := ipc_statistics s\<rparr>)
           in Some (True, s\<lparr>ipc_messages := ms, ipc_statistics := ms_stats ms, message_initialized := True\<rparr>))"

definition initialize_shared_memory_subsystem ::
  "('w, 'c) subsystem_ops \<Rightarrow> ('m, 's, 'w) ipc_system \<Rightarrow> (bool \<times> ('m, 's, 'w) ipc_system) option" where
  "initialize_shared_memory_subsystem so s =
     (if shared_memory_initialized s then Some (True, s)
      else if \<not> mutex_initialized s then Some (False, record_error ''Cannot initialize shared memory before mutexes'' s)
      else map_option (\<lambda>s. (True, s\<lparr>shared_memory_initialized := True\<rparr>)) (call_init (so_init_shared_memory so) s))"

text \<open>A step that returns false ends \<^verbatim>\<open>init_ipc_subsystems\<close> with false.\<close>

definition and_then :: "(bool \<times> 's) option \<Rightarrow> ('s \<Rightarrow> (bool \<times> 's) option) \<Rightarrow> (bool \<times> 's) option" where
  "and_then r f = (case r of None \<Rightarrow> None | Some (b, s) \<Rightarrow> if b then f s else Some (False, s))"

definition init_ipc_subsystems ::
  "'m mutex_ops \<Rightarrow> ('w, 'c) subsystem_ops \<Rightarrow> ('m, 's, 'w) ipc_system \<Rightarrow> (bool \<times> ('m, 's, 'w) ipc_system) option" where
  "init_ipc_subsystems mo so s =
     and_then (initialize_mutex_subsystem so (s\<lparr>ipc_statistics := init_ipc_stats\<rparr>)) (\<lambda>s.
     and_then (initialize_semaphore_subsystem so s) (\<lambda>s.
     and_then (initialize_event_subsystem so s) (\<lambda>s.
     and_then (initialize_message_subsystem mo s) (\<lambda>s.
     and_then (initialize_shared_memory_subsystem so s) (\<lambda>s.
       Some (True, s\<lparr>ipc_world := so_register_timeouts so (so_register_cleanup so (ipc_world s))\<rparr>))))))"

text \<open>The argument is the structure that the caller's pointer refers to, \<^const>\<open>None\<close> for a null pointer.\<close>

definition get_ipc_stats :: "ipc_stats option \<Rightarrow> ('m, 's, 'w) ipc_system \<Rightarrow> ipc_stats option" where
  "get_ipc_stats p s = (case p of None \<Rightarrow> None | Some _ \<Rightarrow> Some (ipc_statistics s))"

text \<open>\<^verbatim>\<open>unhealthy c msg\<close> is one test of \<^verbatim>\<open>check_ipc_health\<close>: it records the error and clears the result.\<close>

definition unhealthy :: "bool \<Rightarrow> string \<Rightarrow> bool \<times> ('m, 's, 'w) ipc_system \<Rightarrow> bool \<times> ('m, 's, 'w) ipc_system" where
  "unhealthy c msg r = (if c then (False, record_error msg (snd r)) else r)"

definition check_ipc_health :: "('m, 's, 'w) ipc_system \<Rightarrow> bool \<times> ('m, 's, 'w) ipc_system" where
  "check_ipc_health s =
     (let st = ipc_statistics s;
          r = unhealthy (\<not> mutex_initialized s) ''Mutex subsystem not initialized'' (True, s);
          r = unhealthy (\<not> semaphore_initialized s) ''Semaphore subsystem not initialized'' r;
          r = unhealthy (\<not> event_initialized s) ''Event subsystem not initialized'' r;
          r = unhealthy (\<not> message_initialized s) ''Message subsystem not initialized'' r;
          r = unhealthy (\<not> shared_memory_initialized s) ''Shared memory subsystem not initialized'' r;
          r = unhealthy (ipc_objects_created st > ipc_objects_destroyed st + 100) (''Possible IPC resource leak detected: '' @ decimal (unat (ipc_objects_created st)) @ '' created, ''
             @ decimal (unat (ipc_objects_destroyed st)) @ '' destroyed'') r
      in unhealthy (allocation_failures st > 10)
           (''Excessive allocation failures: '' @ decimal (unat (allocation_failures st))) r)"

definition reset_ipc_stats :: "('m, 's, 'w) ipc_system \<Rightarrow> ('m, 's, 'w) ipc_system" where
  "reset_ipc_stats s = s\<lparr>ipc_statistics := (ipc_statistics s)
     \<lparr>mutex_operations := 0, semaphore_operations := 0, event_operations := 0, message_operations := 0,
      shared_memory_operations := 0, total_wait_time := 0, stat_timeouts := 0, allocation_failures := 0,
      permission_failures := 0, timeout_failures := 0\<rparr>\<rparr>"

subsection \<open>Initialisation\<close>

definition all_initialized :: "('m, 's, 'w) ipc_system \<Rightarrow> bool" where
  "all_initialized s \<longleftrightarrow> mutex_initialized s \<and> semaphore_initialized s \<and> event_initialized s \<and>
     message_initialized s \<and> shared_memory_initialized s"

text \<open>The initialisers in the order mutexes, semaphores, events, messages, shared memory, without any flags.\<close>

definition start_all ::
    "'m mutex_ops \<Rightarrow> ('w, 'c) subsystem_ops \<Rightarrow> ('m, 's) msg_sys \<Rightarrow> ipc_stats \<times> 'w \<Rightarrow>
     (('m, 's) msg_sys \<times> ipc_stats \<times> 'w) option" where
  "start_all mo so ms x =
     Option.bind (so_init_mutex so x) (\<lambda>x. Option.bind (so_init_semaphore so x) (\<lambda>x.
     Option.bind (so_init_event so x) (\<lambda>(st, w).
       let ms1 = init_message_subsystem mo (ms\<lparr>ms_stats := st\<rparr>)
       in map_option (Pair ms1) (so_init_shared_memory so (ms_stats ms1, w)))))"

definition register_all :: "('w, 'c) subsystem_ops \<Rightarrow> 'w \<Rightarrow> 'w" where
  "register_all so w = so_register_timeouts so (so_register_cleanup so w)"

lemmas initialize_defs = initialize_mutex_subsystem_def initialize_semaphore_subsystem_def
  initialize_event_subsystem_def initialize_message_subsystem_def initialize_shared_memory_subsystem_def

lemma init_ipc_first:
  "init_ipc_subsystems mo so (ipc_boot ms w) = map_option (\<lambda>(ms1, st1, w1). (True, \<lparr>ipc_statistics = st1,
     mutex_initialized = True, semaphore_initialized = True, event_initialized = True, message_initialized = True,
     shared_memory_initialized = True, last_error = [], ipc_messages = ms1, ipc_world = register_all so w1\<rparr>))
     (start_all mo so ms (init_ipc_stats, w))"
  by (simp add: init_ipc_subsystems_def initialize_defs ipc_boot_def and_then_def start_all_def register_all_def Let_def
      split: option.splits bind_splits prod.splits)

lemma init_ipc_again:
  "all_initialized s \<Longrightarrow> init_ipc_subsystems mo so s =
     Some (True, s\<lparr>ipc_statistics := init_ipc_stats, ipc_world := register_all so (ipc_world s)\<rparr>)"
  by (simp add: init_ipc_subsystems_def initialize_defs all_initialized_def and_then_def register_all_def)

subsection \<open>Clean-up\<close>

text \<open>
  What the clean-up of every subsystem keeps, the clean-up after a task keeps, also while it is suspended. With the
  clean-up of \<^verbatim>\<open>kernel/shared_memory.c\<close> and clean-ups of the others that leave the regions alone, the tables
  of the regions stay consistent.
\<close>

lemma cleanup_task_ipc_keeps:
  assumes "\<And>w. P w \<Longrightarrow> run_keeps P (so_cleanup_mutexes so pid w)" "\<And>w. P w \<Longrightarrow> run_keeps P (so_cleanup_semaphores so pid w)"
    and "\<And>w. P w \<Longrightarrow> run_keeps P (so_cleanup_events so pid w)" "\<And>w. P w \<Longrightarrow> run_keeps P (so_cleanup_messages so pid w)"
    and "\<And>w. P w \<Longrightarrow> run_keeps P (so_cleanup_shared_memory so pid w)" "P w"
  shows "run_keeps P (cleanup_task_ipc so pid w)"
  unfolding cleanup_task_ipc_def by (intro run_keeps_bind assms)

lemma cleanup_task_ipc_regions:
  assumes "so_cleanup_shared_memory so pid = cleanup_task_shared_memory vo pid"
    and "\<And>w. shms_wf w \<Longrightarrow> run_keeps shms_wf (so_cleanup_mutexes so pid w)"
    and "\<And>w. shms_wf w \<Longrightarrow> run_keeps shms_wf (so_cleanup_semaphores so pid w)"
    and "\<And>w. shms_wf w \<Longrightarrow> run_keeps shms_wf (so_cleanup_events so pid w)"
    and "\<And>w. shms_wf w \<Longrightarrow> run_keeps shms_wf (so_cleanup_messages so pid w)" "shms_wf w"
  shows "run_keeps shms_wf (cleanup_task_ipc so pid w)"
  by (rule cleanup_task_ipc_keeps)
    (auto simp: assms cleanup_task_shared_memory_def MAX_SHARED_MEMORY_REGIONS_def intro!: cleanup_regions_keeps)

subsection \<open>The health check over any use\<close>

text \<open>A call of \<^verbatim>\<open>update_ipc_stats\<close> has the value 1, as in the documentation.\<close>

datatype ipc_call = Init_ipc | Update_stats int | Reset_stats | Check_health

fun ipc_call_step :: "'m mutex_ops \<Rightarrow> ('w, 'c) subsystem_ops \<Rightarrow> ipc_call \<Rightarrow> ('m, 's, 'w) ipc_system \<Rightarrow> ('m, 's, 'w) ipc_system option" where
  "ipc_call_step mo so Init_ipc s = map_option snd (init_ipc_subsystems mo so s)"
| "ipc_call_step mo so (Update_stats t) s = Some (s\<lparr>ipc_statistics := update_ipc_stats t 1 (ipc_statistics s)\<rparr>)"
| "ipc_call_step mo so Reset_stats s = Some (reset_ipc_stats s)"
| "ipc_call_step mo so Check_health s = Some (snd (check_ipc_health s))"

fun ipc_calls :: "'m mutex_ops \<Rightarrow> ('w, 'c) subsystem_ops \<Rightarrow> ipc_call list \<Rightarrow> ('m, 's, 'w) ipc_system \<Rightarrow> ('m, 's, 'w) ipc_system option" where
  "ipc_calls mo so [] s = Some s"
| "ipc_calls mo so (c # cs) s = Option.bind (ipc_call_step mo so c s) (ipc_calls mo so cs)"

text \<open>The objects counted as created and destroyed since the last initialisation, counted without bound.\<close>

fun count_objects :: "ipc_call \<Rightarrow> nat \<times> nat \<Rightarrow> nat \<times> nat" where
  "count_objects Init_ipc _ = (0, 0)"
| "count_objects (Update_stats t) (c, d) = (if t = 1 then (c + 1, d) else if t = 2 then (c, d + 1) else (c, d))"
| "count_objects Reset_stats cd = cd"
| "count_objects Check_health cd = cd"

definition stats_count :: "nat \<times> nat \<Rightarrow> ('m, 's, 'w) ipc_system \<Rightarrow> bool" where
  "stats_count cd s \<longleftrightarrow> all_initialized s \<and> unat (ipc_objects_created (ipc_statistics s)) = fst cd \<and>
     unat (ipc_objects_destroyed (ipc_statistics s)) = snd cd \<and> allocation_failures (ipc_statistics s) = 0"

lemma unat_inc: "unat x < 18446744073709551615 \<Longrightarrow> unat (x + 1 :: u64) = Suc (unat x)"
  by (simp add: unat_word_ariths)

lemma unhealthy_frame:
  "\<exists>e. snd r = t\<lparr>last_error := e\<rparr> \<Longrightarrow> \<exists>e. snd (unhealthy c m r) = t\<lparr>last_error := e\<rparr>"
  by (auto simp: unhealthy_def record_error_def)

lemma check_ipc_health_frame: "\<exists>e. snd (check_ipc_health s) = s\<lparr>last_error := e\<rparr>"
  unfolding check_ipc_health_def Let_def
  by (rule unhealthy_frame)+ (rule exI [of _ "last_error s"], simp)

lemma check_ipc_health_result:
  "fst (check_ipc_health s) \<longleftrightarrow> all_initialized s \<and>
     \<not> ipc_objects_created (ipc_statistics s) > ipc_objects_destroyed (ipc_statistics s) + 100 \<and>
     \<not> allocation_failures (ipc_statistics s) > 10"
proof -
  have "fst (unhealthy c m r) \<longleftrightarrow> \<not> c \<and> fst r" for c m and r :: "bool \<times> ('a, 'b, 'c) ipc_system"
    by (simp add: unhealthy_def)
  then show ?thesis by (auto simp: check_ipc_health_def Let_def all_initialized_def)
qed

lemma all_initialized_more [simp]:
  "all_initialized (s\<lparr>ipc_statistics := st\<rparr>) = all_initialized s"
  "all_initialized (s\<lparr>last_error := e\<rparr>) = all_initialized s"
  "all_initialized (s\<lparr>ipc_world := w\<rparr>) = all_initialized s"
  by (simp_all add: all_initialized_def)

definition inits :: "ipc_call list \<Rightarrow> nat" where
  "inits cs = length (filter (\<lambda>c. c = Init_ipc) cs)"

lemma ipc_call_step_count:
  assumes "stats_count (c, d) s" "c + 1 < 2 ^ 64" "d + 1 < 2 ^ 64"
  shows "\<exists>s'. ipc_call_step mo so x s = Some s' \<and> stats_count (count_objects x (c, d)) s' \<and>
           ipc_messages s' = ipc_messages s \<and> ipc_world s' = (register_all so ^^ inits [x]) (ipc_world s)"
proof (cases x)
  case Init_ipc
  then show ?thesis using assms by (simp add: init_ipc_again stats_count_def init_ipc_stats_def inits_def)
next
  case (Update_stats t)
  then show ?thesis using assms
    by (auto simp: stats_count_def update_ipc_stats_def IPC_STAT_OBJECT_CREATED_def IPC_STAT_OBJECT_DESTROYED_def
        inits_def unat_inc)
next
  case Reset_stats
  then show ?thesis using assms by (simp add: reset_ipc_stats_def stats_count_def inits_def)
next
  case Check_health
  obtain e where "snd (check_ipc_health s) = s\<lparr>last_error := e\<rparr>" using check_ipc_health_frame by blast
  then show ?thesis using assms Check_health by (simp add: stats_count_def inits_def)
qed

lemma count_objects_step: "count_objects x (c, d) = (c', d') \<Longrightarrow> c' \<le> c + 1 \<and> d' \<le> d + 1"
  by (cases x) (auto split: if_splits)

lemma ipc_calls_count:
  assumes "stats_count (c, d) s" "c + length cs < 2 ^ 64" "d + length cs < 2 ^ 64"
  shows "\<exists>s'. ipc_calls mo so cs s = Some s' \<and> stats_count (fold count_objects cs (c, d)) s' \<and>
           ipc_messages s' = ipc_messages s \<and> ipc_world s' = (register_all so ^^ inits cs) (ipc_world s)"
  using assms
proof (induction cs arbitrary: c d s)
  case Nil
  then show ?case by (simp add: inits_def)
next
  case (Cons x cs)
  obtain s1 where 1: "ipc_call_step mo so x s = Some s1" "stats_count (count_objects x (c, d)) s1"
      "ipc_messages s1 = ipc_messages s" "ipc_world s1 = (register_all so ^^ inits [x]) (ipc_world s)"
    using ipc_call_step_count [OF Cons.prems(1), of mo so x] Cons.prems(2,3) by auto
  obtain c' d' where cd: "count_objects x (c, d) = (c', d')" by (cases "count_objects x (c, d)")
  have "c' + length cs < 2 ^ 64" "d' + length cs < 2 ^ 64" using count_objects_step [OF cd] Cons.prems(2,3) by auto
  from Cons.IH [OF _ this, of s1] 1 cd obtain s' where "ipc_calls mo so cs s1 = Some s'"
      "stats_count (fold count_objects cs (c', d')) s'" "ipc_messages s' = ipc_messages s1" "ipc_world s' = (register_all so ^^ inits cs) (ipc_world s1)" by auto
  with 1 cd show ?case by (auto simp: inits_def funpow_swap1)
qed

lemma fold_count_le: "fst (fold count_objects cs cd) \<le> fst cd + length cs \<and> snd (fold count_objects cs cd) \<le> snd cd + length cs"
proof (induction cs arbitrary: cd)
  case (Cons x cs)
  obtain c d c' d' where cd: "cd = (c, d)" "count_objects x (c, d) = (c', d')"
    by (cases cd; cases "count_objects x cd") auto
  show ?case using Cons.IH [of "(c', d')"] count_objects_step [OF cd(2)] cd by auto
qed simp

lemma stats_count_health:
  assumes "stats_count (c, d) s" "d + 100 < 2 ^ 64"
  shows "fst (check_ipc_health s) \<longleftrightarrow> c \<le> d + 100"
proof -
  let ?d = "ipc_objects_destroyed (ipc_statistics s)"
  have "unat (?d + 100) = d + 100" using assms by (simp add: stats_count_def unat_word_ariths)
  then show ?thesis using assms
    by (simp add: check_ipc_health_result stats_count_def word_less_nat_alt not_less)
qed

text \<open>
  C25. When the initialisers of the subsystems return and have met no allocation failure, the first
  \<^verbatim>\<open>init_ipc_subsystems\<close> succeeds and runs each of them once, mutexes first. After that every sequence of
  IPC calls returns (the statistics updated by the value 1 each time), no later initialisation starts a
  subsystem again (only the two registrations are repeated), and \<^verbatim>\<open>check_ipc_health\<close> reports a healthy
  system exactly when at most 100 more objects were counted as created than as destroyed since the last
  initialisation, whatever was reset in between. Before a second initialisation the count starts from what the
  initialisers left in the statistics; the message subsystem counts itself as an object. The number of calls is
  limited so that the 64-bit counters do not wrap.
\<close>

theorem ipc_health_exact:
  assumes "start_all mo so ms (init_ipc_stats, w) = Some (ms1, st1, w1)" "allocation_failures st1 = 0"
    and "cd = (unat (ipc_objects_created st1), unat (ipc_objects_destroyed st1))"
    and "fst cd + length cs < 2 ^ 64" "snd cd + length cs + 100 < 2 ^ 64"
  shows "\<exists>s s'. init_ipc_subsystems mo so (ipc_boot ms w) = Some (True, s) \<and> ipc_messages s = ms1 \<and>
           ipc_world s = register_all so w1 \<and> ipc_calls mo so cs s = Some s' \<and> ipc_messages s' = ms1 \<and>
           ipc_world s' = (register_all so ^^ (1 + inits cs)) w1 \<and>
           (fst (check_ipc_health s') \<longleftrightarrow>
              fst (fold count_objects cs cd) \<le> snd (fold count_objects cs cd) + 100)"
proof -
  obtain s where s: "init_ipc_subsystems mo so (ipc_boot ms w) = Some (True, s)" "ipc_world s = register_all so w1"
      "ipc_messages s = ms1" "stats_count cd s"
    using assms by (simp add: init_ipc_first stats_count_def all_initialized_def)
  have "snd cd + length cs < 2 ^ 64" using assms(5) by simp
  with ipc_calls_count [of "fst cd" "snd cd" s cs mo so] s(4) assms(4)
  obtain s' where s': "ipc_calls mo so cs s = Some s'" "stats_count (fold count_objects cs cd) s'"
      "ipc_messages s' = ipc_messages s" "ipc_world s' = (register_all so ^^ inits cs) (ipc_world s)" by auto
  have "snd (fold count_objects cs cd) + 100 < 2 ^ 64" using fold_count_le [of cs cd] assms(5) by auto
  from stats_count_health [of "fst (fold count_objects cs cd)" "snd (fold count_objects cs cd)", OF _ this] s'(2)
  show ?thesis using s s' by (auto simp: funpow_swap1)
qed

text \<open>
  Subsystems that write down the order in which they are started and count nothing; registrations are not recorded.
\<close>

definition logging_ops :: "(nat list, unit) subsystem_ops" where
  "logging_ops = \<lparr>so_init_mutex = \<lambda>(st, w). Some (st, w @ [1]), so_init_semaphore = \<lambda>(st, w). Some (st, w @ [2]),
     so_init_event = \<lambda>(st, w). Some (st, w @ [3]), so_init_shared_memory = \<lambda>(st, w). Some (st, w @ [4]),
     so_cleanup_mutexes = \<lambda>_. Ret (), so_cleanup_semaphores = \<lambda>_. Ret (), so_cleanup_events = \<lambda>_. Ret (),
     so_cleanup_messages = \<lambda>_. Ret (), so_cleanup_shared_memory = \<lambda>_. Ret (), so_check_event_timeouts = Ret (),
     so_check_message_timeouts = Ret (), so_register_cleanup = id, so_register_timeouts = id\<rparr>"

definition plain_mutex :: "unit mutex_ops" where
  "plain_mutex = \<lparr>mtx_init = (True, ()), mtx_lock = id, mtx_unlock = id, mtx_destroy = id\<rparr>"

definition boot_messages :: "(unit, unit) msg_sys" where
  "boot_messages = \<lparr>ms_lock = (), ms_queues = [], ms_num_queues = 0, ms_next_message_id = 1, ms_initialized = False,
     ms_objs = Map.empty, ms_heap = kheap_boot, ms_stats = init_ipc_stats, ms_registry = registry_boot ()\<rparr>"

text \<open>The message subsystem counts as one object, so with a hundred more the system is reported as leaking.\<close>

theorem ipc_health_exact_witness:
  "\<exists>s s'. init_ipc_subsystems plain_mutex logging_ops (ipc_boot boot_messages []) = Some (True, s) \<and>
     ipc_calls plain_mutex logging_ops (replicate 100 (Update_stats 1)) s = Some s' \<and> ipc_world s' = [1, 2, 3, 4] \<and>
     ms_initialized (ipc_messages s') \<and> \<not> fst (check_ipc_health s')"
proof -
  define st where "st = update_ipc_stats 1 1 init_ipc_stats"
  define ms where "ms = init_message_subsystem plain_mutex boot_messages"
  have start: "start_all plain_mutex logging_ops boot_messages (init_ipc_stats, []) = Some (ms, st, [1, 2, 3, 4])"
    by (simp add: start_all_def logging_ops_def ms_def st_def init_message_subsystem_def count_created_def
        boot_messages_def IPC_STAT_OBJECT_CREATED_def)
  have st: "allocation_failures st = 0" "(1, 0) = (unat (ipc_objects_created st), unat (ipc_objects_destroyed st))"
    by (simp_all add: st_def update_ipc_stats_def init_ipc_stats_def IPC_STAT_OBJECT_CREATED_def)
  have count: "fold count_objects (replicate 100 (Update_stats 1)) (1, 0) = (101, 0)"
    by code_simp
  have "ms_initialized ms"
    by (simp add: ms_def init_message_subsystem_def count_created_def boot_messages_def)
  moreover have "register_all logging_ops w = w" for w
    by (simp add: register_all_def logging_ops_def)
  moreover from this have "(register_all logging_ops ^^ n) w = w" for n w
    by (induction n) simp_all
  ultimately show ?thesis
    using ipc_health_exact [OF start st, of "replicate 100 (Update_stats 1)"] count by auto
qed

end
