(* ===== verification/Vga_Console.thy ===== *)
theory Vga_Console
  imports Kernel_Prelude
begin

text \<open>
  The text console of \<^verbatim>\<open>kernel/main.c\<close>: the 80 by 25 cells of the VGA buffer, the cursor and the
  output functions. A write outside the buffer is the result \<^const>\<open>None\<close>. The specification
  is a terminal with unboundedly many lines, of which the screen shows the last 25.
\<close>

section \<open>Model\<close>

definition vga_width :: int where "vga_width = 80"
definition vga_height :: int where "vga_height = 25"

record vga =
  vga_buffer :: "u16 list"
  vga_row :: int
  vga_column :: int
  vga_color :: u8

text \<open>
  \<^verbatim>\<open>(uint16_t)(c | (vga_color << 8))\<close>: the operands are promoted to \<^verbatim>\<open>int\<close>, and
  \<^verbatim>\<open>char\<close> is signed.
\<close>

definition vga_cell :: "char \<Rightarrow> u8 \<Rightarrow> u16" where
  "vga_cell c color = ucast ((scast (of_char c :: u8) :: 32 word) OR push_bit 8 (ucast color))"

definition write_cell :: "int \<Rightarrow> u16 \<Rightarrow> vga \<Rightarrow> vga option" where
  "write_cell i v s =
     (if 0 \<le> i \<and> i < int (length (vga_buffer s)) then Some (s\<lparr>vga_buffer := (vga_buffer s)[nat i := v]\<rparr>) else None)"

text \<open>The loops run over cells of the buffer only.\<close>

definition init_vga_console :: "vga \<Rightarrow> vga" where
  "init_vga_console s =
     s\<lparr>vga_buffer := fold (\<lambda>y. fold (\<lambda>x b. b[y * 80 + x := vga_cell CHR '' '' (vga_color s)]) [0 ..< 80]) [0 ..< 25] (vga_buffer s),
       vga_row := 0, vga_column := 0\<rparr>"

definition vga_scroll :: "vga \<Rightarrow> vga" where
  "vga_scroll s =
     (let b1 = fold (\<lambda>y. fold (\<lambda>x b. b[y * 80 + x := b ! ((y + 1) * 80 + x)]) [0 ..< 80]) [0 ..< 24] (vga_buffer s);
          b2 = fold (\<lambda>x b. b[24 * 80 + x := vga_cell CHR '' '' (vga_color s)]) [0 ..< 80] b1
      in s\<lparr>vga_buffer := b2, vga_row := vga_height - 1\<rparr>)"

definition next_row :: "vga \<Rightarrow> vga" where
  "next_row s =
     (let s1 = s\<lparr>vga_column := 0, vga_row := vga_row s + 1\<rparr>
      in if vga_row s1 \<ge> vga_height then vga_scroll s1 else s1)"

definition kputchar :: "char \<Rightarrow> vga \<Rightarrow> vga option" where
  "kputchar c s =
     (if c = CHR 0x0A then Some (next_row s)
      else if c = CHR 0x0D then Some (s\<lparr>vga_column := 0\<rparr>)
      else if c = CHR 0x09 then
        let s1 = s\<lparr>vga_column := (vga_column s + 8) AND NOT 7\<rparr>
        in Some (if vga_column s1 \<ge> vga_width then next_row s1 else s1)
      else Option.bind (write_cell (vga_row s * vga_width + vga_column s) (vga_cell c (vga_color s)) s) (\<lambda>s1.
        let s2 = s1\<lparr>vga_column := vga_column s1 + 1\<rparr>
        in Some (if vga_column s2 \<ge> vga_width then next_row s2 else s2)))"

text \<open>\<^verbatim>\<open>strlen\<close> stops at the terminator; \<^verbatim>\<open>kputs\<close> calls it before every character.\<close>

definition c_strlen :: "string \<Rightarrow> nat" where
  "c_strlen str = length (takeWhile (\<lambda>c. c \<noteq> CHR 0x00) str)"

definition kputs :: "string \<Rightarrow> vga \<Rightarrow> vga option" where
  "kputs str s = fold (\<lambda>i r. Option.bind r (kputchar (str ! i))) [0 ..< c_strlen str] (Some s)"

definition kprintf :: "string \<Rightarrow> vga \<Rightarrow> (int \<times> vga) option" where
  "kprintf fmt s = map_option (Pair 0) (kputs fmt s)"

section \<open>Specification\<close>

record terminal =
  term_cells :: "nat \<Rightarrow> nat \<Rightarrow> u16"
  term_row :: nat
  term_col :: nat

definition blank_terminal :: "u8 \<Rightarrow> terminal" where
  "blank_terminal color = \<lparr>term_cells = (\<lambda>_ _. vga_cell CHR '' '' color), term_row = 0, term_col = 0\<rparr>"

definition term_advance :: "nat \<Rightarrow> terminal \<Rightarrow> terminal" where
  "term_advance col t = (if col < 80 then t\<lparr>term_col := col\<rparr> else t\<lparr>term_row := term_row t + 1, term_col := 0\<rparr>)"

definition term_put :: "u8 \<Rightarrow> char \<Rightarrow> terminal \<Rightarrow> terminal" where
  "term_put color c t =
     (if c = CHR 0x0A then t\<lparr>term_row := term_row t + 1, term_col := 0\<rparr>
      else if c = CHR 0x0D then t\<lparr>term_col := 0\<rparr>
      else if c = CHR 0x09 then term_advance ((term_col t div 8 + 1) * 8) t
      else term_advance (term_col t + 1)
             (t\<lparr>term_cells := (term_cells t)(term_row t := (term_cells t (term_row t))(term_col t := vga_cell c color))\<rparr>))"

definition first_shown :: "terminal \<Rightarrow> nat" where
  "first_shown t = term_row t - 24"

definition vga_shows :: "vga \<Rightarrow> terminal \<Rightarrow> bool" where
  "vga_shows s t \<longleftrightarrow>
     length (vga_buffer s) = 2000 \<and> term_col t < 80 \<and>
     vga_row s = int (term_row t - first_shown t) \<and> vga_column s = int (term_col t) \<and>
     (\<forall>y < 25. \<forall>x < 80. vga_buffer s ! (y * 80 + x) = term_cells t (first_shown t + y) x) \<and>
     (\<forall>r > term_row t. \<forall>x. term_cells t r x = vga_cell CHR '' '' (vga_color s))"

section \<open>Lemmas\<close>

lemma rows_length [simp]: "length (fold (\<lambda>y. fold (\<lambda>x l. l[k y x := f y x l]) xs) ys l) = length l"
  by (induction ys arbitrary: l) simp_all

lemma clear_cells:
  "n * 80 \<le> length l \<Longrightarrow>
   fold (\<lambda>y. fold (\<lambda>x l. l[y * 80 + x := v]) [0 ..< 80]) [0 ..< n] l ! j = (if j < n * 80 then v else l ! j)"
  by (induction n) (auto simp: fold_update_nth)

lemma copy_row:
  "b + 80 + n \<le> length l \<Longrightarrow> n \<le> 80 \<Longrightarrow>
   fold (\<lambda>x l. l[b + x := l ! (b + 80 + x)]) [0 ..< n] l ! j = (if b \<le> j \<and> j < b + n then l ! (j + 80) else l ! j)"
proof (induction n arbitrary: j)
  case (Suc n)
  then show ?case by (auto simp: nth_list_update less_Suc_eq ac_simps)
qed auto

lemma copy_rows:
  "n * 80 + 80 \<le> length l \<Longrightarrow>
   fold (\<lambda>y. fold (\<lambda>x l. l[y * 80 + x := l ! ((y + 1) * 80 + x)]) [0 ..< 80]) [0 ..< n] l ! j =
     (if j < n * 80 then l ! (j + 80) else l ! j)"
proof (induction n arbitrary: j)
  case (Suc n)
  have "fold (\<lambda>x l. l[n * 80 + x := l ! ((n + 1) * 80 + x)]) [0 ..< 80] l' =
      fold (\<lambda>x l. l[n * 80 + x := l ! (n * 80 + 80 + x)]) [0 ..< 80] l'" for l' :: "'a list"
    by (simp add: ac_simps)
  with Suc show ?case
    by (auto simp: copy_row)
qed simp

lemma vga_scroll_cells:
  assumes "length (vga_buffer s) = 2000" "y < 25" "x < 80"
  shows "vga_buffer (vga_scroll s) ! (y * 80 + x) =
     (if y < 24 then vga_buffer s ! ((y + 1) * 80 + x) else vga_cell CHR '' '' (vga_color s))"
proof -
  have "(y * 80 + x < 1920) = (y < 24)" using assms(3) by auto
  moreover have "y * 80 + x < 2000" using assms(2,3) by auto
  ultimately show ?thesis
    using assms copy_rows [of 24 "vga_buffer s" "y * 80 + x"]
      fold_update_nth [of 1920 80 _ "\<lambda>_. vga_cell CHR '' '' (vga_color s)" "y * 80 + x"]
    by (simp add: vga_scroll_def Let_def add.assoc add.commute [of 80])
qed

lemma vga_scroll_frame [simp]:
  "length (vga_buffer (vga_scroll s)) = length (vga_buffer s)" "vga_color (vga_scroll s) = vga_color s"
  "vga_column (vga_scroll s) = vga_column s" "vga_row (vga_scroll s) = 24"
  by (simp_all add: vga_scroll_def Let_def vga_height_def)

lemma init_vga_console_shows:
  assumes "length (vga_buffer s) = 2000"
  shows "vga_shows (init_vga_console s) (blank_terminal (vga_color s))"
  using assms clear_cells [of 25 "vga_buffer s" "vga_cell CHR '' '' (vga_color s)"]
  by (auto simp: vga_shows_def init_vga_console_def blank_terminal_def first_shown_def)

text \<open>The cursor column may be past the end of the row here: it is about to be reset.\<close>

lemma next_row_shows:
  assumes "vga_shows (s\<lparr>vga_column := 0\<rparr>) (t\<lparr>term_col := 0\<rparr>)"
  shows "vga_shows (next_row s) (t\<lparr>term_row := term_row t + 1, term_col := 0\<rparr>)"
proof (cases "term_row t < 24")
  case True
  then show ?thesis
    using assms by (auto simp: vga_shows_def next_row_def Let_def first_shown_def vga_height_def)
next
  case False
  then have top: "first_shown (t\<lparr>term_row := Suc (term_row t), term_col := 0\<rparr>) = Suc (first_shown t)"
      "term_row t = first_shown t + 24"
    by (auto simp: first_shown_def)
  have rows: "term_row t - first_shown t = 24"
    by (simp add: top(2))
  have "vga_row s = 24"
    using assms False by (simp add: vga_shows_def first_shown_def)
  then have nr: "next_row s = vga_scroll (s\<lparr>vga_column := 0, vga_row := 25\<rparr>)"
    by (simp add: next_row_def Let_def vga_height_def)
  have len: "length (vga_buffer s) = 2000"
    using assms by (simp add: vga_shows_def)
  have cells: "vga_buffer s ! (y * 80 + x) = term_cells t (first_shown t + y) x" if "y < 25" "x < 80" for x y
    using assms that by (simp add: vga_shows_def first_shown_def)
  have "vga_buffer (next_row s) ! (y * 80 + x) = term_cells t (Suc (first_shown t) + y) x" if "y < 25" "x < 80" for x y
  proof (cases "y < 24")
    case True
    then show ?thesis
      using cells [of "Suc y" x] that len by (simp add: nr vga_scroll_cells)
  next
    case False
    then show ?thesis
      using assms that top(2) len by (simp add: nr vga_scroll_cells vga_shows_def)
  qed
  moreover have "\<forall>r > Suc (term_row t). \<forall>x. term_cells t r x = vga_cell CHR '' '' (vga_color s)"
    using assms by (simp add: vga_shows_def)
  ultimately show ?thesis
    using len rows by (simp add: vga_shows_def top(1)) (simp add: nr)
qed

lemma tab_column: "0 \<le> c \<Longrightarrow> (c + 8 :: int) AND NOT 7 = (c div 8 + 1) * 8"
proof -
  have "(c + 8) AND NOT (mask 3) = push_bit 3 (drop_bit 3 (c + 8))"
    by (rule bit_eqI) (auto simp: bit_simps)
  then show ?thesis
    using div_add_self2 [of 8 c] by (simp add: mask_eq_exp_minus_1 push_bit_eq_mult drop_bit_eq_div distrib_right)
qed

lemma term_advance_shows:
  assumes "vga_shows s (t\<lparr>term_col := col'\<rparr>)" "col \<le> 80"
  shows "vga_shows (let s1 = s\<lparr>vga_column := int col\<rparr> in if vga_column s1 \<ge> vga_width then next_row s1 else s1)
           (term_advance col t)"
proof (cases "col < 80")
  case True
  then show ?thesis
    using assms by (simp add: term_advance_def vga_width_def vga_shows_def first_shown_def)
next
  case False
  have "vga_shows (s\<lparr>vga_column := int col, vga_column := 0\<rparr>) (t\<lparr>term_col := 0\<rparr>)"
    using assms by (simp add: vga_shows_def first_shown_def)
  from next_row_shows [OF this] False assms(2) show ?thesis
    by (simp add: term_advance_def vga_width_def)
qed

lemma cell_index_inj:
  assumes "x < 80" "x' < (80 :: nat)"
  shows "y * 80 + x = y' * 80 + x' \<longleftrightarrow> y' = y \<and> x' = x"
proof
  assume eq: "y * 80 + x = y' * 80 + x'"
  show "y' = y \<and> x' = x"
    using assms arg_cong [OF eq, of "\<lambda>n. n div 80"] arg_cong [OF eq, of "\<lambda>n. n mod 80"] by simp
qed simp

lemma write_cell_shows:
  assumes "vga_shows s t"
  shows "\<exists>s1. write_cell (vga_row s * vga_width + vga_column s) v s = Some s1 \<and>
     vga_column s1 = vga_column s \<and> vga_color s1 = vga_color s \<and>
     vga_shows s1 (t\<lparr>term_cells := (term_cells t)(term_row t := (term_cells t (term_row t))(term_col t := v))\<rparr>)"
proof -
  define y where "y = term_row t - first_shown t"
  have y: "y < 25" "term_row t = first_shown t + y"
    by (auto simp: y_def first_shown_def)
  have x: "term_col t < 80" and len: "length (vga_buffer s) = 2000"
    using assms by (simp_all add: vga_shows_def)
  have idx: "vga_row s * vga_width + vga_column s = int (y * 80 + term_col t)"
    using assms by (simp add: vga_shows_def y_def vga_width_def)
  have "y * 80 + term_col t < 2000"
    using x y(1) by simp
  then have wr: "write_cell (vga_row s * vga_width + vga_column s) v s =
      Some (s\<lparr>vga_buffer := (vga_buffer s)[y * 80 + term_col t := v]\<rparr>)"
    unfolding write_cell_def idx nat_int by (simp add: len)
  define t' where "t' = t\<lparr>term_cells := (term_cells t)(term_row t := (term_cells t (term_row t))(term_col t := v))\<rparr>"
  have cells: "vga_buffer s ! (y' * 80 + x') = term_cells t (first_shown t + y') x'" if "y' < 25" "x' < 80" for y' x'
    using assms that by (simp add: vga_shows_def)
  have "(vga_buffer s)[y * 80 + term_col t := v] ! (y' * 80 + x') = term_cells t' (first_shown t + y') x'"
    if "y' < 25" "x' < 80" for y' x'
  proof (cases "y' = y \<and> x' = term_col t")
    case True
    then show ?thesis
      using \<open>y * 80 + term_col t < 2000\<close> by (simp add: t'_def len y(2))
  next
    case False
    then have "y * 80 + term_col t \<noteq> y' * 80 + x'" using cell_index_inj [OF x that(2)] by blast
    with False show ?thesis
      using cells [OF that] by (auto simp: t'_def y(2))
  qed
  then have "vga_shows (s\<lparr>vga_buffer := (vga_buffer s)[y * 80 + term_col t := v]\<rparr>) t'"
    using assms by (simp add: vga_shows_def t'_def first_shown_def)
  then show ?thesis
    by (simp add: wr t'_def)
qed

lemma next_row_color [simp]: "vga_color (next_row s) = vga_color s"
  by (simp add: next_row_def Let_def)

lemma kputchar_shows:
  assumes "vga_shows s t"
  shows "\<exists>s'. kputchar c s = Some s' \<and> vga_color s' = vga_color s \<and> vga_shows s' (term_put (vga_color s) c t)"
proof -
  have col: "vga_column s = int (term_col t)" "term_col t < 80"
    using assms by (simp_all add: vga_shows_def)
  have cr: "vga_shows (s\<lparr>vga_column := 0\<rparr>) (t\<lparr>term_col := 0\<rparr>)"
    using assms by (simp add: vga_shows_def first_shown_def)
  consider "c = CHR 0x0A" | "c = CHR 0x0D" | "c = CHR 0x09" | "c \<notin> {CHR 0x0A, CHR 0x0D, CHR 0x09}" by blast
  then show ?thesis
  proof cases
    case 1
    then show ?thesis
      using next_row_shows [OF cr] by (simp add: kputchar_def term_put_def)
  next
    case 2
    then show ?thesis
      using cr by (simp add: kputchar_def term_put_def)
  next
    case 3
    have "(vga_column s + 8) AND NOT 7 = int ((term_col t div 8 + 1) * 8)" "(term_col t div 8 + 1) * 8 \<le> 80"
      using col tab_column [of "vga_column s"] by (simp_all add: zdiv_int)
    with 3 show ?thesis
      using term_advance_shows [of s "term_col t" t "(term_col t div 8 + 1) * 8"] assms
      by (auto simp: kputchar_def term_put_def Let_def)
  next
    case 4
    obtain s1 where s1: "write_cell (vga_row s * vga_width + vga_column s) (vga_cell c (vga_color s)) s = Some s1"
        "vga_column s1 = vga_column s" "vga_color s1 = vga_color s"
        "vga_shows s1 (t\<lparr>term_cells := (term_cells t)(term_row t := (term_cells t (term_row t))(term_col t := vga_cell c (vga_color s)))\<rparr>)"
      using write_cell_shows [OF assms] by blast
    with 4 col show ?thesis
      using term_advance_shows [of s1 "term_col t"
          "t\<lparr>term_cells := (term_cells t)(term_row t := (term_cells t (term_row t))(term_col t := vga_cell c (vga_color s)))\<rparr>"
          "term_col t + 1"]
      by (auto simp: kputchar_def term_put_def Let_def add.commute)
  qed
qed

section \<open>Properties\<close>

lemma kputs_fold: "kputs str s = fold (\<lambda>c r. Option.bind r (kputchar c)) (takeWhile (\<lambda>c. c \<noteq> CHR 0x00) str) (Some s)"
proof -
  have "takeWhile (\<lambda>c. c \<noteq> CHR 0x00) str = map ((!) str) [0 ..< c_strlen str]"
    by (rule nth_equalityI) (simp_all add: c_strlen_def takeWhile_nth)
  then show ?thesis
    by (simp add: kputs_def fold_map comp_def)
qed

text \<open>
  C19. Printing never writes outside the VGA buffer, and the screen shows the last 25 lines of everything that has been
  printed since the console was initialised: each cell is that of a terminal with unboundedly many
  lines, scrolled so that the cursor is visible, and the cursors agree.
\<close>

theorem console_shows_last_lines:
  assumes "length (vga_buffer s) = 2000"
  shows "\<exists>s'. kputs str (init_vga_console s) = Some s' \<and>
          vga_shows s' (fold (term_put (vga_color s)) (takeWhile (\<lambda>c. c \<noteq> CHR 0x00) str) (blank_terminal (vga_color s)))"
proof -
  have "\<exists>s'. fold (\<lambda>c r. Option.bind r (kputchar c)) cs (Some s) = Some s' \<and> vga_shows s' (fold (term_put (vga_color s)) cs t)"
    if "vga_shows s t" for cs t and s :: vga
    using that
  proof (induction cs arbitrary: s t)
    case (Cons c cs)
    obtain s1 where "kputchar c s = Some s1" "vga_color s1 = vga_color s" "vga_shows s1 (term_put (vga_color s) c t)"
      using kputchar_shows [OF Cons.prems] by blast
    with Cons.IH [of s1 "term_put (vga_color s) c t"] show ?case by simp
  qed simp
  from this [OF init_vga_console_shows [OF assms]] show ?thesis
    by (simp add: kputs_fold init_vga_console_def)
qed

text \<open>
  A character of the upper half is sign-extended before it is combined with the colour: the cell has the
  attribute 0xFF whatever the colour is.
\<close>

lemma vga_cell_high: "bit (of_char c :: u8) 7 \<Longrightarrow> drop_bit 8 (vga_cell c color) = 0xFF"
proof -
  have ff: "(0xFF :: u16) = mask 8" by (simp add: mask_eq_exp_minus_1)
  show "bit (of_char c :: u8) 7 \<Longrightarrow> drop_bit 8 (vga_cell c color) = 0xFF"
    unfolding ff by (rule bit_word_eqI) (auto simp: vga_cell_def bit_simps)
qed

section \<open>Concrete instances\<close>

definition sample_vga :: vga where
  "sample_vga = \<lparr>vga_buffer = replicate 2000 0, vga_row = 3, vga_column = 7, vga_color = 0x0F\<rparr>"

theorem console_shows_last_lines_witness:
  "\<exists>s'. kputs ''A'' (init_vga_console sample_vga) = Some s' \<and> vga_column s' = 1 \<and> vga_buffer s' ! 0 = vga_cell CHR ''A'' 0x0F"
proof -
  obtain s' where "kputs ''A'' (init_vga_console sample_vga) = Some s'"
      "vga_shows s' (term_put 0x0F CHR ''A'' (blank_terminal 0x0F))"
    using console_shows_last_lines [of sample_vga "''A''"] by (auto simp: sample_vga_def)
  then show ?thesis
    by (auto simp: vga_shows_def term_put_def term_advance_def blank_terminal_def first_shown_def
        dest: spec [of _ 0])
qed

end
