(* ===== verification/Boot_Info.thy ===== *)
theory Boot_Info
  imports Phys_Memory
begin

text \<open>
  The early boot of \<^verbatim>\<open>kernel/main.c\<close>: the memory map that the boot loader passes in the
  multiboot2 structure becomes the memory zones, from which the physical memory manager starts. The memory of
  the boot information is a function from addresses to bytes. A tag of size 0 makes the loop run forever and
  an entry size of 0 is a division fault: both are the result \<^const>\<open>None\<close>. Log output is left out.
\<close>

section \<open>Data\<close>

record memory_map_entry =
  me_base_addr :: u64
  me_length :: u64
  me_type :: u32

record boot =
  memory_zones :: memory_zones
  total_memory :: u64
  available_memory :: u64
  memory_map_entries :: u32

definition read32 :: "(u64 \<Rightarrow> u8) \<Rightarrow> u64 \<Rightarrow> u32" where
  "read32 m a =
     ucast (m a) OR push_bit 8 (ucast (m (a + 1))) OR push_bit 16 (ucast (m (a + 2))) OR push_bit 24 (ucast (m (a + 3)))"

definition read64 :: "(u64 \<Rightarrow> u8) \<Rightarrow> u64 \<Rightarrow> u64" where
  "read64 m a = ucast (read32 m a) OR push_bit 32 (ucast (read32 m (a + 4)))"

definition read_entry :: "(u64 \<Rightarrow> u8) \<Rightarrow> u64 \<Rightarrow> memory_map_entry" where
  "read_entry m a = \<lparr>me_base_addr = read64 m a, me_length = read64 m (a + 8), me_type = read32 m (a + 16)\<rparr>"

section \<open>The memory map\<close>

definition extend_zone :: "u64 \<Rightarrow> u64 \<Rightarrow> memory_zone \<Rightarrow> memory_zone" where
  "extend_zone start ending z =
     (if zone_size z = 0 then z\<lparr>start_address := start, end_address := ending\<rparr>
      else let z1 = (if start < start_address z then z\<lparr>start_address := start\<rparr> else z)
           in if ending > end_address z1 then z1\<lparr>end_address := ending\<rparr> else z1)"

definition add_available :: "u64 \<Rightarrow> u64 \<Rightarrow> u64 \<Rightarrow> memory_zone \<Rightarrow> memory_zone" where
  "add_available start ending len z =
     (let z1 = extend_zone start ending z; pages = len div PAGE_SIZE
      in z1\<lparr>zone_size := zone_size z1 + len, zone_free := zone_free z1 + len,
            zone_pages := zone_pages z1 + pages, zone_free_pages := zone_free_pages z1 + pages\<rparr>)"

definition add_reserved :: "u64 \<Rightarrow> u64 \<Rightarrow> u64 \<Rightarrow> memory_zone \<Rightarrow> memory_zone" where
  "add_reserved start ending len z =
     (let z1 = extend_zone start ending z; pages = len div PAGE_SIZE
      in z1\<lparr>zone_size := zone_size z1 + len, zone_pages := zone_pages z1 + pages\<rparr>)"

text \<open>The zone of available memory that starts at an address: below 16 MB it is for DMA.\<close>

definition zone_of :: "u64 \<Rightarrow> memory_zone_type" where
  "zone_of start = (if start < 0x1000000 then ZONE_DMA else ZONE_NORMAL)"

definition add_entry :: "memory_map_entry \<Rightarrow> boot \<Rightarrow> boot" where
  "add_entry e b =
     (let start = me_base_addr e; ending = start + me_length e; len = me_length e; zs = memory_zones b;
          b1 = b\<lparr>total_memory := total_memory b + len\<rparr>
      in if me_type e = 1
         then b1\<lparr>available_memory := available_memory b1 + len,
                 memory_zones := zs(zone_of start := add_available start ending len (zs (zone_of start)))\<rparr>
         else b1\<lparr>memory_zones := zs(ZONE_RESERVED := add_reserved start ending len (zs ZONE_RESERVED))\<rparr>)"

fun mmap_loop :: "(u64 \<Rightarrow> u8) \<Rightarrow> u64 \<Rightarrow> nat \<Rightarrow> u64 \<Rightarrow> boot \<Rightarrow> boot" where
  "mmap_loop m entry_size 0 entry b = b"
| "mmap_loop m entry_size (Suc n) entry b =
     mmap_loop m entry_size n (entry + entry_size) (add_entry (read_entry m entry) b)"

text \<open>A tag of type 6; its header has 16 bytes.\<close>

definition parse_mmap :: "(u64 \<Rightarrow> u8) \<Rightarrow> u64 \<Rightarrow> boot \<Rightarrow> boot option" where
  "parse_mmap m tag b =
     (let size = ucast (read32 m (tag + 4)) :: u64; entry_size = ucast (read32 m (tag + 8)) :: u64 in
      if entry_size = 0 then None
      else let entries = ucast ((size - 16) div entry_size) :: u32
           in Some (mmap_loop m entry_size (unat entries) (tag + 16) (b\<lparr>memory_map_entries := entries\<rparr>)))"

definition align_tag :: "u64 \<Rightarrow> u64" where
  "align_tag tag = (tag + 7) AND NOT 7"

partial_function (option) parse_tags :: "(u64 \<Rightarrow> u8) \<Rightarrow> u64 \<Rightarrow> u64 \<Rightarrow> boot \<Rightarrow> boot option" where
  "parse_tags m info_end p b =
     (if \<not> p < info_end then Some b
      else let tag = align_tag p in
        if read32 m tag = 0 then Some b
        else Option.bind (if read32 m tag = 6 then parse_mmap m tag b else Some b)
               (\<lambda>b1. parse_tags m info_end (tag + ucast (read32 m (tag + 4))) b1))"

definition parse_multiboot_info :: "(u64 \<Rightarrow> u8) \<Rightarrow> u64 \<Rightarrow> boot \<Rightarrow> boot option" where
  "parse_multiboot_info m multiboot_info b =
     (if multiboot_info = 0 then Some b
      else let mb_info = multiboot_info + 0xFFFFFFFF80000000; size = read32 m mb_info
           in parse_tags m (mb_info + ucast size) (mb_info + 8) b)"

section \<open>Initialisation\<close>

definition reset_zone :: "memory_zone_type \<Rightarrow> memory_zone \<Rightarrow> memory_zone" where
  "reset_zone t z = z\<lparr>zone_type := t, zone_size := 0, zone_free := 0, zone_pages := 0, zone_free_pages := 0\<rparr>"

text \<open>\<open>kstart\<close> and \<open>kend\<close> are the linker's addresses of the kernel image.\<close>

definition init_memory :: "u64 \<Rightarrow> u64 \<Rightarrow> boot \<times> phys_mem \<Rightarrow> boot \<times> phys_mem" where
  "init_memory kstart kend s =
     (let b = (fst s)\<lparr>memory_zones := (\<lambda>t. reset_zone t (memory_zones (fst s) t))\<rparr>
      in (b, init_physical_memory (memory_zones b) kstart kend (snd s)))"

definition early_init :: "(u64 \<Rightarrow> u8) \<Rightarrow> u64 \<Rightarrow> u64 \<Rightarrow> u64 \<Rightarrow> boot \<times> phys_mem \<Rightarrow> (boot \<times> phys_mem) option" where
  "early_init m multiboot_info kstart kend s =
     map_option (\<lambda>b. init_memory kstart kend (b, snd s)) (parse_multiboot_info m multiboot_info (fst s))"

definition empty_zone :: memory_zone where
  "empty_zone =
     \<lparr>start_address = 0, end_address = 0, zone_size = 0, zone_free = 0, zone_pages = 0, zone_free_pages = 0, zone_type = ZONE_NORMAL\<rparr>"

definition boot_start :: boot where
  "boot_start = \<lparr>memory_zones = (\<lambda>_. empty_zone), total_memory = 0, available_memory = 0, memory_map_entries = 0\<rparr>"

section \<open>The layout of the boot information\<close>

datatype boot_tag = Mmap u32 "memory_map_entry list" | Other_tag u32 u32

fun tag_size :: "boot_tag \<Rightarrow> nat" where
  "tag_size (Mmap entry_size es) = 16 + unat entry_size * length es"
| "tag_size (Other_tag ty sz) = unat sz"

fun tag_at :: "(u64 \<Rightarrow> u8) \<Rightarrow> u64 \<Rightarrow> boot_tag \<Rightarrow> bool" where
  "tag_at m p (Mmap entry_size es) \<longleftrightarrow>
     read32 m p = 6 \<and> unat (read32 m (p + 4)) = 16 + unat entry_size * length es \<and>
     read32 m (p + 8) = entry_size \<and> entry_size \<noteq> 0 \<and>
     (\<forall>i < length es. read_entry m (p + 16 + of_nat i * ucast entry_size) = es ! i)"
| "tag_at m p (Other_tag ty sz) \<longleftrightarrow> read32 m p = ty \<and> ty \<noteq> 0 \<and> ty \<noteq> 6 \<and> read32 m (p + 4) = sz"

text \<open>The tags follow each other, each aligned to 8 bytes, up to a tag of type 0 or the end.\<close>

fun tags_at :: "(u64 \<Rightarrow> u8) \<Rightarrow> u64 \<Rightarrow> u64 \<Rightarrow> boot_tag list \<Rightarrow> bool" where
  "tags_at m info_end p [] \<longleftrightarrow> info_end \<le> p \<or> read32 m (align_tag p) = 0"
| "tags_at m info_end p (t # ts) \<longleftrightarrow>
     p < info_end \<and> tag_at m (align_tag p) t \<and> tags_at m info_end (align_tag p + of_nat (tag_size t)) ts"

definition boot_info_at :: "(u64 \<Rightarrow> u8) \<Rightarrow> u64 \<Rightarrow> boot_tag list \<Rightarrow> bool" where
  "boot_info_at m multiboot_info ts \<longleftrightarrow>
     multiboot_info \<noteq> 0 \<and>
     (let mb_info = multiboot_info + 0xFFFFFFFF80000000
      in tags_at m (mb_info + ucast (read32 m mb_info)) (mb_info + 8) ts)"

fun tag_effect :: "boot_tag \<Rightarrow> boot \<Rightarrow> boot" where
  "tag_effect (Mmap entry_size es) b = fold add_entry es (b\<lparr>memory_map_entries := of_nat (length es)\<rparr>)"
| "tag_effect (Other_tag ty sz) b = b"

section \<open>Lemmas\<close>

lemma mmap_loop_fold:
  "(\<forall>i < length es. read_entry m (p + of_nat i * sz) = es ! i) \<Longrightarrow> mmap_loop m sz (length es) p b = fold add_entry es b"
proof (induction es arbitrary: p b)
  case (Cons e es)
  have "read_entry m p = e"
    using Cons.prems [rule_format, of 0] by simp
  moreover have "\<forall>i < length es. read_entry m (p + sz + of_nat i * sz) = es ! i"
    using Cons.prems by (auto dest: spec [of _ "Suc i" for i] simp: distrib_right add.assoc)
  ultimately show ?case
    using Cons.IH [of "p + sz"] by simp
qed simp

lemma ucast_of_nat_u32: "(ucast (of_nat n :: u64) :: u32) = of_nat n"
  by transfer simp

lemma unat_ucast_u32: "unat (ucast (w :: u32) :: u64) = unat w"
  by (simp add: unsigned_ucast_eq take_bit_nat_eq_self unsigned_less [THEN order.strict_trans])

lemma parse_mmap_effect:
  assumes "tag_at m p (Mmap entry_size es)"
  shows "parse_mmap m p b = Some (tag_effect (Mmap entry_size es) b)"
proof -
  define size :: u64 where "size = ucast (read32 m (p + 4))"
  have "unat (read32 m (p + 4)) < 2 ^ LENGTH(32)" by (rule unsigned_less)
  then have size: "unat size = 16 + unat entry_size * length es" "unat size < 2 ^ 32"
    using assms by (simp_all add: size_def unat_ucast_u32)
  have es: "entry_size \<noteq> 0" "unat (ucast entry_size :: u64) = unat entry_size" "0 < unat entry_size"
    using assms by (simp_all add: unat_ucast_u32 unat_gt_0)
  have "unat ((size - 16) div ucast entry_size) = (unat size - 16) div unat entry_size"
    using size by (simp add: unat_div unat_sub word_le_nat_alt es)
  then have n: "unat ((size - 16) div ucast entry_size) = length es"
    using es(3) by (simp add: size(1))
  have "length es \<le> unat entry_size * length es"
    using es(3) by simp
  with size have len: "length es < 2 ^ 32" by linarith
  have "(size - 16) div ucast entry_size = of_nat (length es)"
    using n len by (simp add: word_unat_eq_iff unat_of_nat)
  then have "ucast ((size - 16) div ucast entry_size) = (of_nat (length es) :: u32)"
    by (simp add: ucast_of_nat_u32)
  moreover have "(ucast entry_size :: u64) \<noteq> 0"
    using es(2,3) by (metis unat_0 less_irrefl)
  ultimately show ?thesis
    using assms es len mmap_loop_fold [of es m "p + 16" "ucast entry_size"]
    by (simp add: parse_mmap_def Let_def size_def [symmetric] unat_of_nat)
qed


lemma tag_at_size:
  assumes "tag_at m p t"
  shows "ucast (read32 m (p + 4)) = (of_nat (tag_size t) :: u64)"
proof -
  have "unat (read32 m (p + 4)) = tag_size t"
    using assms by (cases t) auto
  moreover have "unat (read32 m (p + 4)) < 2 ^ LENGTH(32)" by (rule unsigned_less)
  ultimately show ?thesis
    by (simp add: word_unat_eq_iff unat_ucast_u32 unat_of_nat)
qed

lemma parse_tags_effect: "tags_at m info_end p ts \<Longrightarrow> parse_tags m info_end p b = Some (fold tag_effect ts b)"
proof (induction ts arbitrary: p b)
  case Nil
  then show ?case by (subst parse_tags.simps) (auto simp: Let_def)
next
  case (Cons t ts)
  let ?tag = "align_tag p"
  have t: "p < info_end" "tag_at m ?tag t" "ucast (read32 m (?tag + 4)) = (of_nat (tag_size t) :: u64)"
    using Cons.prems tag_at_size by auto
  have "read32 m ?tag \<noteq> 0" "(if read32 m ?tag = 6 then parse_mmap m ?tag b else Some b) = Some (tag_effect t b)"
    using t(2) parse_mmap_effect [of m ?tag] by (cases t; auto)+
  then show ?case
    using Cons t(1,3) by (subst parse_tags.simps) (simp add: Let_def)
qed

text \<open>Available memory and reserved memory by zone, as a specification.\<close>

definition in_zone :: "memory_zone_type \<Rightarrow> memory_map_entry \<Rightarrow> bool" where
  "in_zone t e \<longleftrightarrow> t = (if me_type e = 1 then zone_of (me_base_addr e) else ZONE_RESERVED)"

definition entry_end :: "memory_map_entry \<Rightarrow> u64" where
  "entry_end e = me_base_addr e + me_length e"

definition zone_spans :: "memory_zone \<Rightarrow> memory_map_entry list \<Rightarrow> bool" where
  "zone_spans z es \<longleftrightarrow>
     zone_size z = sum_list (map me_length es) \<and> zone_pages z = sum_list (map (\<lambda>e. me_length e div PAGE_SIZE) es) \<and>
     (es \<noteq> [] \<longrightarrow> start_address z = Min (set (map me_base_addr es)) \<and> end_address z = Max (set (map entry_end es)))"

lemma extend_zone_bounds:
  "start_address (extend_zone s e z) = (if zone_size z = 0 then s else min s (start_address z))"
  "end_address (extend_zone s e z) = (if zone_size z = 0 then e else max e (end_address z))"
  by (auto simp: extend_zone_def Let_def min_def max_def)

lemma extend_zone_spans:
  assumes "zone_spans z es" "zone_size z = 0 \<longleftrightarrow> es = []"
  shows "start_address (extend_zone (me_base_addr e) (entry_end e) z) = Min (set (map me_base_addr (es @ [e])))"
    "end_address (extend_zone (me_base_addr e) (entry_end e) z) = Max (set (map entry_end (es @ [e])))"
proof -
  have "set (map f (es @ [e])) = insert (f e) (f ` set es)" for f :: "memory_map_entry \<Rightarrow> u64"
    by auto
  then show "start_address (extend_zone (me_base_addr e) (entry_end e) z) = Min (set (map me_base_addr (es @ [e])))"
    "end_address (extend_zone (me_base_addr e) (entry_end e) z) = Max (set (map entry_end (es @ [e])))"
    using assms by (simp_all add: extend_zone_bounds zone_spans_def)
qed

lemma extend_zone_sizes [simp]:
  "zone_size (extend_zone s e z) = zone_size z" "zone_pages (extend_zone s e z) = zone_pages z"
  by (simp_all add: extend_zone_def Let_def)

lemma add_entry_spans:
  assumes "\<And>t. zone_spans (memory_zones b t) (filter (in_zone t) es)"
    and "\<And>t. zone_size (memory_zones b t) = 0 \<longleftrightarrow> filter (in_zone t) es = []"
  shows "zone_spans (memory_zones (add_entry e b) t) (filter (in_zone t) (es @ [e]))"
proof (cases "in_zone t e")
  case True
  have "zone_spans (add_available (me_base_addr e) (entry_end e) (me_length e) (memory_zones b t)) (filter (in_zone t) es @ [e])"
    "zone_spans (add_reserved (me_base_addr e) (entry_end e) (me_length e) (memory_zones b t)) (filter (in_zone t) es @ [e])"
    using assms(1) [of t] extend_zone_spans [OF assms(1) assms(2), of e t]
    by (simp_all add: zone_spans_def add_available_def add_reserved_def Let_def)
  then show ?thesis
    using True by (auto simp: add_entry_def Let_def in_zone_def entry_end_def split: if_splits)
next
  case False
  then show ?thesis
    using assms(1) [of t] by (auto simp: add_entry_def Let_def in_zone_def)
qed

text \<open>Every sum of lengths is positive: no entry is empty and the lengths do not wrap around together.\<close>

lemma lengths_positive:
  assumes "\<forall>e \<in> set es. me_length e \<noteq> 0" "sum_list (map (unat \<circ> me_length) es) < 2 ^ 64" "es \<noteq> []"
  shows "sum_list (map me_length es) \<noteq> 0"
proof -
  have "unat (sum_list (map me_length xs)) = sum_list (map (unat \<circ> me_length) xs)"
    if "sum_list (map (unat \<circ> me_length) xs) < 2 ^ 64" for xs
    using that by (induction xs) (simp_all add: unat_word_ariths)
  then have "unat (sum_list (map me_length es)) = sum_list (map (unat \<circ> me_length) es)"
    using assms(2) by blast
  moreover have "sum_list (map (unat \<circ> me_length) es) \<noteq> 0"
    using assms(1,3) by (cases es) (auto simp: unat_eq_zero)
  ultimately show ?thesis by (metis unat_0)
qed


text \<open>The entries of all memory maps of the boot information.\<close>

definition tag_entries :: "boot_tag list \<Rightarrow> memory_map_entry list" where
  "tag_entries ts = concat (map (\<lambda>t. case t of Mmap sz es \<Rightarrow> es | Other_tag ty sz \<Rightarrow> []) ts)"

lemma zones_count [simp]: "memory_zones (b\<lparr>memory_map_entries := n\<rparr>) = memory_zones b"
  by simp

lemma add_entry_count: "add_entry e (b\<lparr>memory_map_entries := n\<rparr>) = (add_entry e b)\<lparr>memory_map_entries := n\<rparr>"
  by (simp add: add_entry_def Let_def)

lemma fold_add_entry_count:
  "fold add_entry es (b\<lparr>memory_map_entries := n\<rparr>) = (fold add_entry es b)\<lparr>memory_map_entries := n\<rparr>"
  by (induction es arbitrary: b) (simp_all add: add_entry_count)

lemma fold_tags_zones: "memory_zones (fold tag_effect ts b) = memory_zones (fold add_entry (tag_entries ts) b)"
proof -
  have "\<exists>n. fold tag_effect ts b = (fold add_entry (tag_entries ts) b)\<lparr>memory_map_entries := n\<rparr>"
  proof (induction ts arbitrary: b)
    case Nil
    show ?case by (rule exI [of _ "memory_map_entries b"]) (simp add: tag_entries_def)
  next
    case (Cons t ts)
    have entries: "tag_entries (t # ts) = tag_entries [t] @ tag_entries ts"
      by (simp add: tag_entries_def)
    have "\<exists>n. tag_effect t b = (fold add_entry (tag_entries [t]) b)\<lparr>memory_map_entries := n\<rparr>"
      by (cases t) (auto simp: tag_entries_def fold_add_entry_count intro: exI [of _ "memory_map_entries b"])
    then obtain n where "tag_effect t b = (fold add_entry (tag_entries [t]) b)\<lparr>memory_map_entries := n\<rparr>" ..
    with Cons [of "(fold add_entry (tag_entries [t]) b)\<lparr>memory_map_entries := n\<rparr>"] show ?case
      by (auto simp: entries fold_add_entry_count)
  qed
  then show ?thesis by auto
qed

lemma fold_add_entry_spans:
  assumes "\<forall>e \<in> set es. me_length e \<noteq> 0" "sum_list (map (unat \<circ> me_length) es) < 2 ^ 64"
  shows "zone_spans (memory_zones (fold add_entry es boot_start) t) (filter (in_zone t) es)"
  using assms
proof (induction es arbitrary: t rule: rev_induct)
  case Nil
  then show ?case by (simp add: zone_spans_def boot_start_def empty_zone_def)
next
  case (snoc e es)
  have spans: "zone_spans (memory_zones (fold add_entry es boot_start) t) (filter (in_zone t) es)" for t
    using snoc by simp
  have sub: "sum_list (map (unat \<circ> me_length) (filter P es)) \<le> sum_list (map (unat \<circ> me_length) es)" for P
    by (induction es) auto
  have "zone_size (memory_zones (fold add_entry es boot_start) t) = 0 \<longleftrightarrow> filter (in_zone t) es = []" for t
  proof -
    have "sum_list (map (unat \<circ> me_length) (filter (in_zone t) es)) < 2 ^ 64"
      using sub [of "in_zone t"] snoc.prems(2) by (simp add: comp_def)
    then show ?thesis
      using spans [of t] lengths_positive [of "filter (in_zone t) es"] snoc.prems(1) by (auto simp: zone_spans_def)
  qed
  then show ?case
    using add_entry_spans [OF spans] by simp
qed

section \<open>Properties\<close>

text \<open>
  C26. The memory map is read correctly. When the boot information holds the tags \<open>ts\<close>, the loop ends
  (in particular no tag is skipped and the loop does not run past the end), and
  every zone has the total size and the pages of its entries and reaches from the lowest to the highest
  address of them. No entry is empty, and the lengths of all together do not exceed 64 bits.
\<close>

theorem memory_map_becomes_zones:
  assumes "boot_info_at m multiboot_info ts"
    and "\<forall>e \<in> set (tag_entries ts). me_length e \<noteq> 0"
    and "sum_list (map (unat \<circ> me_length) (tag_entries ts)) < 2 ^ 64"
  shows "\<exists>b. parse_multiboot_info m multiboot_info boot_start = Some b \<and>
          (\<forall>t. zone_spans (memory_zones b t) (filter (in_zone t) (tag_entries ts)))"
  using parse_tags_effect fold_add_entry_spans [OF assms(2,3)] assms(1)
  by (auto simp: parse_multiboot_info_def boot_info_at_def Let_def fold_tags_zones)

lemma init_memory_no_free:
  assumes "free_pages pm = 0"
  shows "free_idxs (snd (init_memory kstart kend (b, pm))) = []"
proof -
  define zones where "zones = (\<lambda>t. reset_zone t (memory_zones b t))"
  have "init_physical_memory zones kstart kend pm = init_frames zones pm"
    by (simp add: init_physical_memory_fold Let_def zone_frames_def zones_def reset_zone_def)
  moreover have "free_idxs (init_frames zones pm) = []"
    by (auto simp: free_idxs_def filter_empty_conv init_frames_def Let_def tracked_def in_set_enumerate_eq page_flag_defs
        early_alloc_def)
  ultimately show ?thesis
    by (simp add: init_memory_def Let_def zones_def)
qed

text \<open>
  C36. The boot leaves no memory. \<^verbatim>\<open>early_init\<close> reads the memory map into the zones, and then
  \<^verbatim>\<open>init_memory\<close> sets their sizes to 0 before the physical memory manager looks at them: whatever memory
  the machine has, every later call of \<^verbatim>\<open>alloc_page\<close> returns \<^verbatim>\<open>NULL\<close>.
\<close>

theorem boot_leaves_no_page:
  assumes "boot_info_at m multiboot_info ts"
  shows "\<exists>b pm. early_init m multiboot_info kstart kend (boot_start, phys_mem_boot) = Some (b, pm) \<and>
           (\<forall>n. fst (alloc_page_n n pm) = replicate n NULL)"
proof -
  obtain b0 where "parse_multiboot_info m multiboot_info boot_start = Some b0"
    using parse_tags_effect assms by (auto simp: parse_multiboot_info_def boot_info_at_def Let_def)
  moreover define pm where "pm = snd (init_memory kstart kend (b0, phys_mem_boot))"
  have "free_idxs pm = []"
    unfolding pm_def by (rule init_memory_no_free) (simp add: phys_mem_boot_def)
  then have "fst (alloc_page_n n pm) = replicate n NULL" for n
  proof (induction n arbitrary: pm)
    case (Suc n)
    then show ?case
      using alloc_page_free_idxs [of pm] by (simp add: split_beta)
  qed simp
  ultimately show ?thesis
    by (auto simp: early_init_def pm_def prod_eq_iff)
qed

text \<open>A tag of size 0 that is not the last one keeps the loop running forever.\<close>

lemma parse_tags_size_0:
  assumes "p < info_end" "align_tag p < info_end" "align_tag (align_tag p) = align_tag p"
    and "read32 m (align_tag p) \<notin> {0, 6}" "read32 m (align_tag p + 4) = 0"
  shows "parse_tags m info_end p b = None"
proof -
  define P where "P = (\<lambda>m' e q (b' :: boot) (y :: boot). \<not> (m' = m \<and> e = info_end \<and> q < info_end \<and> align_tag q = align_tag p))"
  have "P m' e q b' y" if "parse_tags m' e q b' = Some y" for m' e q b' y
  proof (rule parse_tags.raw_induct [OF _ that, of P], goal_cases)
    case (1 f m' e q b' y)
    have "f m info_end (align_tag p) b' = Some y" if "\<not> P m' e q b' y"
      using that 1(2) assms by (auto simp: P_def Let_def)
    then show ?case
      using 1(1) [of m info_end "align_tag p" b' y] assms(2,3) by (auto simp: P_def)
  qed
  then show ?thesis
    using assms(1) by (fastforce simp: P_def intro: option.exhaust [of "parse_tags m info_end p b"])
qed

section \<open>Concrete instances\<close>

text \<open>A machine with one page at 16 MB: the memory map has one entry.\<close>

definition sample_bytes :: "u8 list" where
  "sample_bytes =
     [56, 0, 0, 0, 0, 0, 0, 0,  6, 0, 0, 0, 40, 0, 0, 0,  24, 0, 0, 0, 0, 0, 0, 0,
      0, 0, 0, 1, 0, 0, 0, 0,  0, 0x10, 0, 0, 0, 0, 0, 0,  1, 0, 0, 0, 0, 0, 0, 0,  0, 0, 0, 0, 8, 0, 0, 0]"

definition sample_boot_mem :: "u64 \<Rightarrow> u8" where
  "sample_boot_mem a = (let i = unat (a - 0xFFFFFFFF80010000) in if i < 56 then sample_bytes ! i else 0)"

definition sample_entry :: memory_map_entry where
  "sample_entry = \<lparr>me_base_addr = 0x1000000, me_length = 0x1000, me_type = 1\<rparr>"

lemma sample_boot_info: "boot_info_at sample_boot_mem 0x10000 [Mmap 24 [sample_entry]]"
  by (simp add: boot_info_at_def Let_def align_tag_def read32_def read64_def read_entry_def sample_boot_mem_def
      sample_bytes_def sample_entry_def)

theorem memory_map_becomes_zones_witness:
  "\<exists>b. parse_multiboot_info sample_boot_mem 0x10000 boot_start = Some b \<and>
       zone_size (memory_zones b ZONE_NORMAL) = 0x1000 \<and> start_address (memory_zones b ZONE_NORMAL) = 0x1000000 \<and>
       zone_size (memory_zones b ZONE_DMA) = 0"
proof -
  obtain b where "parse_multiboot_info sample_boot_mem 0x10000 boot_start = Some b"
      and z: "\<forall>t. zone_spans (memory_zones b t) (filter (in_zone t) [sample_entry])"
    using memory_map_becomes_zones [OF sample_boot_info] by (auto simp: tag_entries_def sample_entry_def)
  then show ?thesis
    using z [rule_format, of ZONE_NORMAL] z [rule_format, of ZONE_DMA]
    by (simp add: zone_spans_def in_zone_def zone_of_def sample_entry_def)
qed

theorem boot_leaves_no_page_witness:
  "\<exists>b pm. early_init sample_boot_mem 0x10000 0 0 (boot_start, phys_mem_boot) = Some (b, pm) \<and>
          fst (alloc_page_n 2 pm) = [NULL, NULL]"
proof -
  obtain b pm where "early_init sample_boot_mem 0x10000 0 0 (boot_start, phys_mem_boot) = Some (b, pm)"
      "\<forall>n. fst (alloc_page_n n pm) = replicate n NULL"
    using boot_leaves_no_page [OF sample_boot_info, of 0 0] by blast
  moreover have "replicate 2 NULL = [NULL, NULL]" by (simp add: numeral_2_eq_2)
  ultimately show ?thesis by metis
qed

end
