(* ===== verification/Boot_Paging.thy ===== *)
theory Boot_Paging
  imports Kernel_Prelude
begin

text \<open>
  The boot code of \<^verbatim>\<open>boot/boot.S\<close> up to the call of \<^verbatim>\<open>kernel_main\<close>: the check of the loader, the page
  tables that \<^verbatim>\<open>setup_paging\<close> writes, and the control registers. Memory is a function from byte addresses to the
  32-bit word stored there. The processor's translation through four levels of tables is \<^verbatim>\<open>mmu\<close>, and what it
  gives for the addresses at which \<^verbatim>\<open>boot/linker.ld\<close> places the kernel is proved at the end.
\<close>

unbundle bit_operations_syntax

section \<open>Data\<close>

definition KERNEL_PAGE_FLAGS :: u32 where "KERNEL_PAGE_FLAGS = 0x1 OR 0x2"
definition KERNEL_HUGE_PAGE_FLAGS :: u32 where "KERNEL_HUGE_PAGE_FLAGS = 0x1 OR 0x2 OR 0x80"
definition KERNEL_VMA :: u64 where "KERNEL_VMA = 0xFFFFFFFF80000000"

text \<open>The control registers and the memory; the low half of the register EFER is the one the code changes.\<close>

record boot_cpu =
  boot_mem :: "nat \<Rightarrow> u32"
  cr0 :: u32
  cr3 :: u32
  cr4 :: u32
  efer :: u32

text \<open>The labels whose values the linker chooses; the four tables follow each other.\<close>

record boot_labels =
  l_multiboot_info :: u32
  l_pml4 :: u32

definition l_pdpt1 :: "boot_labels \<Rightarrow> u32" where "l_pdpt1 l = l_pml4 l + 4096"
definition l_pdpt2 :: "boot_labels \<Rightarrow> u32" where "l_pdpt2 l = l_pml4 l + 8192"
definition l_pd :: "boot_labels \<Rightarrow> u32" where "l_pd l = l_pml4 l + 12288"

section \<open>The code\<close>

definition movl :: "u32 \<Rightarrow> u32 \<Rightarrow> (nat \<Rightarrow> u32) \<Rightarrow> (nat \<Rightarrow> u32)" where
  "movl v a m = m(unat a := v)"

fun rep_stosl :: "nat \<Rightarrow> u32 \<Rightarrow> u32 \<Rightarrow> (nat \<Rightarrow> u32) \<Rightarrow> (nat \<Rightarrow> u32)" where
  "rep_stosl 0 eax edi m = m"
| "rep_stosl (Suc ecx) eax edi m = rep_stosl ecx eax (edi + 4) (movl eax edi m)"

text \<open>The loop tests its counter after the body; it is entered with 512.\<close>

fun setup_pd_entry :: "nat \<Rightarrow> u32 \<Rightarrow> u32 \<Rightarrow> (nat \<Rightarrow> u32) \<Rightarrow> (nat \<Rightarrow> u32)" where
  "setup_pd_entry 0 esi edi m = m"
| "setup_pd_entry (Suc ecx) esi edi m =
     setup_pd_entry ecx (esi + 0x200000) (edi + 8) (movl 0 (edi + 4) (movl (esi OR KERNEL_HUGE_PAGE_FLAGS) edi m))"

definition setup_paging :: "boot_labels \<Rightarrow> boot_cpu \<Rightarrow> boot_cpu" where
  "setup_paging l c =
     (let m = rep_stosl 1024 0 (l_pml4 l) (boot_mem c);
          m = movl (l_pml4 l OR KERNEL_PAGE_FLAGS) (l_pml4 l + 511 * 8) m;
          m = movl (l_pdpt1 l OR KERNEL_PAGE_FLAGS) (l_pml4 l) m;
          m = movl (l_pdpt2 l OR KERNEL_PAGE_FLAGS) (l_pml4 l + 510 * 8) m;
          m = movl (l_pd l OR KERNEL_PAGE_FLAGS) (l_pdpt1 l) m;
          m = movl (l_pd l OR KERNEL_PAGE_FLAGS) (l_pdpt2 l + 510 * 8) m;
          m = setup_pd_entry 512 0 (l_pd l) m
      in c\<lparr>boot_mem := m, cr3 := l_pml4 l\<rparr>)"

text \<open>
  \<^verbatim>\<open>_start\<close> with the values that the loader leaves in \<^verbatim>\<open>eax\<close> and \<^verbatim>\<open>ebx\<close>: \<^const>\<open>None\<close> when it halts
  at \<^verbatim>\<open>boot_error\<close>, else the state at \<^verbatim>\<open>long_mode_start\<close>.
\<close>

definition boot_start :: "boot_labels \<Rightarrow> u32 \<Rightarrow> u32 \<Rightarrow> boot_cpu \<Rightarrow> boot_cpu option" where
  "boot_start l eax ebx c =
     (let c = c\<lparr>boot_mem := movl ebx (l_multiboot_info l) (boot_mem c)\<rparr> in
      if eax \<noteq> 0x36D76289 then None
      else let c = c\<lparr>cr4 := cr4 c OR 0x20\<rparr>;
               c = setup_paging l c;
               c = c\<lparr>efer := efer c OR 0x100\<rparr>
           in Some (c\<lparr>cr0 := cr0 c OR (0x1 OR 0x80000000)\<rparr>))"

section \<open>The processor\<close>

text \<open>
  Address translation in 64-bit mode: nine bits of the address select the entry at each level, bit 0 of an entry says
  that it is present, bits 12 to 51 are the next table or the page, and bit 7 makes an entry of the second or third
  level a page of 1 GB or 2 MB.
\<close>

definition qword :: "(nat \<Rightarrow> u32) \<Rightarrow> nat \<Rightarrow> nat" where
  "qword m p = unat (m p) + 2 ^ 32 * unat (m (p + 4))"

definition entry_base :: "nat \<Rightarrow> nat" where
  "entry_base e = e mod 2 ^ 52 div 4096 * 4096"

definition mmu_entry :: "(nat \<Rightarrow> u32) \<Rightarrow> nat \<Rightarrow> nat \<Rightarrow> nat option" where
  "mmu_entry m t i = (let e = qword m (t + 8 * i) in if odd e then Some e else None)"

definition mmu :: "(nat \<Rightarrow> u32) \<Rightarrow> nat \<Rightarrow> nat \<Rightarrow> nat option" where
  "mmu m t v =
     (case mmu_entry m t (v div 2 ^ 39 mod 512) of None \<Rightarrow> None | Some e4 \<Rightarrow>
      case mmu_entry m (entry_base e4) (v div 2 ^ 30 mod 512) of None \<Rightarrow> None | Some e3 \<Rightarrow>
      if bit e3 7 then Some (entry_base e3 div 2 ^ 30 * 2 ^ 30 + v mod 2 ^ 30) else
      case mmu_entry m (entry_base e3) (v div 2 ^ 21 mod 512) of None \<Rightarrow> None | Some e2 \<Rightarrow>
      if bit e2 7 then Some (entry_base e2 div 2 ^ 21 * 2 ^ 21 + v mod 2 ^ 21) else
      case mmu_entry m (entry_base e2) (v div 2 ^ 12 mod 512) of None \<Rightarrow> None | Some e1 \<Rightarrow>
      Some (entry_base e1 + v mod 2 ^ 12))"

definition translate :: "boot_cpu \<Rightarrow> u64 \<Rightarrow> nat option" where
  "translate c v = mmu (boot_mem c) (unat (cr3 c) div 4096 * 4096) (unat v)"

section \<open>The tables after the boot code\<close>

text \<open>The tables are aligned and lie below 4 GB, behind the saved pointer, and are zero in the image.\<close>

definition labels_ok :: "boot_labels \<Rightarrow> bool" where
  "labels_ok l \<longleftrightarrow> 4096 dvd unat (l_pml4 l) \<and> unat (l_pml4 l) + 16384 < 2 ^ 32 \<and>
     unat (l_multiboot_info l) + 8 \<le> unat (l_pml4 l)"

definition image_zero :: "boot_labels \<Rightarrow> boot_cpu \<Rightarrow> bool" where
  "image_zero l c \<longleftrightarrow> (\<forall>k < 4096. boot_mem c (unat (l_pml4 l) + 4 * k) = 0)"

lemma unat_add_small: "unat (a :: u32) + n < 2 ^ 32 \<Longrightarrow> unat (a + of_nat n) = unat a + n"
  by (simp add: unat_word_ariths unat_of_nat)

lemma rep_stosl_eq:
  "unat edi + 4 * n < 2 ^ 32 \<Longrightarrow>
   rep_stosl n v edi m x = (if unat edi \<le> x \<and> x < unat edi + 4 * n \<and> 4 dvd (x - unat edi) then v else m x)"
proof (induction n arbitrary: edi m)
  case (Suc n)
  have 4: "unat (edi + 4) = unat edi + 4" using Suc.prems unat_add_small [of edi 4] by simp
  have d: "4 dvd (x - unat edi) \<longleftrightarrow> 4 dvd (x - (unat edi + 4))" if "unat edi + 4 \<le> x"
    using that by presburger
  have e: "x = unat edi" if "unat edi \<le> x" "x < unat edi + 4" "4 dvd (x - unat edi)" using that by presburger
  show ?case
  proof (cases "unat edi + 4 \<le> x")
    case True
    then show ?thesis using Suc.prems d by (simp add: Suc.IH 4 movl_def)
  next
    case False
    then show ?thesis using Suc.prems e by (auto simp: Suc.IH 4 movl_def)
  qed
qed auto

lemma setup_pd_below: "unat edi + 8 * n < 2 ^ 32 \<Longrightarrow> x < unat edi \<Longrightarrow> setup_pd_entry n esi edi m x = m x"
proof (induction n arbitrary: edi esi m)
  case (Suc n)
  have "unat (edi + 8) = unat edi + 8" "unat (edi + 4) = unat edi + 4"
    using Suc.prems unat_add_small [of edi 8] unat_add_small [of edi 4] by simp_all
  then show ?case using Suc by (simp add: movl_def)
qed simp

lemma setup_pd_eq:
  assumes "unat edi + 8 * n < 2 ^ 32" "k < n"
  shows "setup_pd_entry n esi edi m (unat edi + 8 * k) = (esi + of_nat k * 0x200000) OR KERNEL_HUGE_PAGE_FLAGS \<and>
         setup_pd_entry n esi edi m (unat edi + 8 * k + 4) = 0"
  using assms
proof (induction n arbitrary: edi esi m k)
  case (Suc n)
  have 8: "unat (edi + 8) = unat edi + 8" "unat (edi + 4) = unat edi + 4"
    using Suc.prems unat_add_small [of edi 8] unat_add_small [of edi 4] by simp_all
  show ?case
  proof (cases k)
    case 0
    then show ?thesis using Suc.prems by (simp add: setup_pd_below 8 movl_def)
  next
    case (Suc j)
    then show ?thesis using Suc.prems Suc.IH [of "edi + 8" j "esi + 0x200000"] by (simp add: 8 algebra_simps)
  qed
qed simp

lemma or_flags:
  assumes "4096 dvd unat (a :: u32)" "unat f < 4096" "unat a + 4096 < 2 ^ 32"
  shows "unat (a OR f) = unat a + unat f"
proof -
  have t: "unat (take_bit 12 x) = unat x mod 4096" for x :: u32
    by (simp only: unsigned_take_bit_eq) (simp add: take_bit_eq_mod)
  have "take_bit 12 a = 0" using assms(1) by (simp only: word_unat_eq_iff t) simp
  moreover have "take_bit 12 f = f" using assms(2) by (simp only: word_unat_eq_iff t) simp
  moreover have "a AND take_bit 12 f = take_bit 12 a AND f" by (simp only: take_bit_eq_mask ac_simps)
  ultimately have "a AND f = 0" by simp
  then have "a OR f = a + f" using word_plus_and_or [of a f] by simp
  then show ?thesis using assms by (simp add: unat_word_ariths)
qed

text \<open>The memory after \<^verbatim>\<open>setup_paging\<close>, by the four tables at address \<open>p\<close>.\<close>

definition boot_tables :: "nat \<Rightarrow> (nat \<Rightarrow> u32) \<Rightarrow> bool" where
  "boot_tables p m \<longleftrightarrow> (\<forall>i < 512.
     qword m (p + 8 * i) = (if i = 0 then p + 4096 + 3 else if i = 510 then p + 8192 + 3 else if i = 511 then p + 3 else 0) \<and>
     qword m (p + 4096 + 8 * i) = (if i = 0 then p + 12288 + 3 else 0) \<and>
     qword m (p + 8192 + 8 * i) = (if i = 510 then p + 12288 + 3 else 0) \<and>
     qword m (p + 12288 + 8 * i) = i * 2 ^ 21 + 0x83)"

lemma label_values:
  assumes "labels_ok l"
  shows "unat (l_pdpt1 l) = unat (l_pml4 l) + 4096" "unat (l_pdpt2 l) = unat (l_pml4 l) + 8192"
    "unat (l_pd l) = unat (l_pml4 l) + 12288" "unat (l_pml4 l + 511 * 8) = unat (l_pml4 l) + 4088"
    "unat (l_pml4 l + 510 * 8) = unat (l_pml4 l) + 4080" "unat (l_pdpt2 l + 510 * 8) = unat (l_pml4 l) + 12272"
  using assms unat_add_small [of "l_pml4 l" 4096] unat_add_small [of "l_pml4 l" 8192] unat_add_small [of "l_pml4 l" 12288]
    unat_add_small [of "l_pml4 l" 4088] unat_add_small [of "l_pml4 l" 4080] unat_add_small [of "l_pml4 l" 12272]
  by (simp_all add: labels_ok_def l_pdpt1_def l_pdpt2_def l_pd_def add.commute)

lemma label_entries:
  assumes "labels_ok l"
  shows "unat (l_pml4 l OR KERNEL_PAGE_FLAGS) = unat (l_pml4 l) + 3"
    "unat (l_pdpt1 l OR KERNEL_PAGE_FLAGS) = unat (l_pml4 l) + 4099"
    "unat (l_pdpt2 l OR KERNEL_PAGE_FLAGS) = unat (l_pml4 l) + 8195"
    "unat (l_pd l OR KERNEL_PAGE_FLAGS) = unat (l_pml4 l) + 12291"
  using assms
  by (simp_all add: or_flags label_values labels_ok_def KERNEL_PAGE_FLAGS_def dvd_add_left_iff)

lemma pd_entry_value:
  assumes "k < 512"
  shows "unat ((of_nat k * 0x200000 :: u32) OR KERNEL_HUGE_PAGE_FLAGS) = k * 2 ^ 21 + 0x83"
proof -
  have k: "unat (of_nat k * 0x200000 :: u32) = k * 2 ^ 21" using assms by (simp add: unat_word_ariths unat_of_nat)
  have "4096 dvd k * (2 ^ 21 :: nat)" by (rule dvd_mult) simp
  then show ?thesis using assms k by (subst or_flags) (simp_all add: KERNEL_HUGE_PAGE_FLAGS_def)
qed

lemma setup_paging_below:
  assumes "labels_ok l" "x < unat (l_pml4 l) + 12288"
  shows "boot_mem (setup_paging l c) x = ((rep_stosl 1024 0 (l_pml4 l) (boot_mem c))
     (unat (l_pml4 l) + 4088 := l_pml4 l OR KERNEL_PAGE_FLAGS, unat (l_pml4 l) := l_pdpt1 l OR KERNEL_PAGE_FLAGS,
      unat (l_pml4 l) + 4080 := l_pdpt2 l OR KERNEL_PAGE_FLAGS, unat (l_pml4 l) + 4096 := l_pd l OR KERNEL_PAGE_FLAGS,
      unat (l_pml4 l) + 12272 := l_pd l OR KERNEL_PAGE_FLAGS)) x"
proof -
  have "unat (l_pd l) + 8 * 512 < 2 ^ 32" "x < unat (l_pd l)"
    using assms by (simp_all add: label_values labels_ok_def)
  note b = setup_pd_below [OF this, of 0]
  have "boot_mem (setup_paging l c) = setup_pd_entry 512 0 (l_pd l) ((rep_stosl 1024 0 (l_pml4 l) (boot_mem c))
     (unat (l_pml4 l) + 4088 := l_pml4 l OR KERNEL_PAGE_FLAGS, unat (l_pml4 l) := l_pdpt1 l OR KERNEL_PAGE_FLAGS,
      unat (l_pml4 l) + 4080 := l_pdpt2 l OR KERNEL_PAGE_FLAGS, unat (l_pml4 l) + 4096 := l_pd l OR KERNEL_PAGE_FLAGS,
      unat (l_pml4 l) + 12272 := l_pd l OR KERNEL_PAGE_FLAGS))"
    using label_values [OF assms(1)] by (simp add: setup_paging_def Let_def movl_def del: fun_upd_apply)
  then show ?thesis by (simp only: b)
qed

lemma setup_paging_pd:
  assumes "labels_ok l" "i < 512"
  shows "qword (boot_mem (setup_paging l c)) (unat (l_pml4 l) + 12288 + 8 * i) = i * 2 ^ 21 + 0x83"
proof -
  have "unat (l_pd l) + 8 * 512 < 2 ^ 32" using assms by (simp add: label_values labels_ok_def)
  from setup_pd_eq [OF this assms(2), of 0] pd_entry_value [OF assms(2)] show ?thesis
    by (simp add: setup_paging_def Let_def qword_def label_values [OF assms(1)])
qed

text \<open>The first three tables: zero but for the entries written one by one.\<close>

lemma setup_paging_low:
  assumes "labels_ok l" "image_zero l c" "k < 3072"
  shows "boot_mem (setup_paging l c) (unat (l_pml4 l) + 4 * k) =
     (if k = 0 then l_pdpt1 l OR KERNEL_PAGE_FLAGS else if k = 1020 then l_pdpt2 l OR KERNEL_PAGE_FLAGS
      else if k = 1022 then l_pml4 l OR KERNEL_PAGE_FLAGS else if k = 1024 \<or> k = 3068 then l_pd l OR KERNEL_PAGE_FLAGS
      else 0)"
proof -
  have "rep_stosl 1024 0 (l_pml4 l) (boot_mem c) (unat (l_pml4 l) + 4 * k) = 0"
    using assms by (subst rep_stosl_eq) (simp_all add: labels_ok_def image_zero_def)
  then show ?thesis using assms(3) by (subst setup_paging_below [OF assms(1)]) auto
qed

lemma setup_paging_tables:
  assumes "labels_ok l" "image_zero l c"
  shows "boot_tables (unat (l_pml4 l)) (boot_mem (setup_paging l c))"
proof -
  let ?p = "unat (l_pml4 l)" and ?m = "boot_mem (setup_paging l c)"
  have q: "qword ?m (?p + 8 * j) =
      (if j = 0 then ?p + 4099 else if j = 510 then ?p + 8195 else if j = 511 then ?p + 3
       else if j = 512 \<or> j = 1534 then ?p + 12291 else 0)" if "j < 1536" for j
    using setup_paging_low [OF assms, of "2 * j"] setup_paging_low [OF assms, of "2 * j + 1"] that
    by (auto simp: qword_def label_entries [OF assms(1)] algebra_simps)
  show ?thesis unfolding boot_tables_def
  proof (intro allI impI conjI)
    fix i :: nat
    assume i: "i < 512"
    show "qword ?m (?p + 8 * i) = (if i = 0 then ?p + 4096 + 3 else if i = 510 then ?p + 8192 + 3 else if i = 511 then ?p + 3 else 0)"
      using i q [of i] by simp
    show "qword ?m (?p + 4096 + 8 * i) = (if i = 0 then ?p + 12288 + 3 else 0)"
      using i q [of "512 + i"] by (simp add: add_mult_distrib2 add.assoc)
    show "qword ?m (?p + 8192 + 8 * i) = (if i = 510 then ?p + 12288 + 3 else 0)"
      using i q [of "1024 + i"] by (simp add: add_mult_distrib2 add.assoc)
    show "qword ?m (?p + 12288 + 8 * i) = i * 2 ^ 21 + 0x83" by (rule setup_paging_pd [OF assms(1) i])
  qed
qed

section \<open>The address space\<close>

lemma walk_arith:
  assumes "r < (2 ^ 30 :: nat)"
  shows "(c * 2 ^ 30 + r) div 2 ^ 39 = c div 512" "(c * 2 ^ 30 + r) div 2 ^ 30 = c"
    "(c * 2 ^ 30 + r) div 2 ^ 21 mod 512 = r div 2 ^ 21" "(c * 2 ^ 30 + r) mod 2 ^ 21 = r mod 2 ^ 21"
proof -
  show c: "(c * 2 ^ 30 + r) div 2 ^ 30 = c" using assms by simp
  have "(c * 2 ^ 30 + r) div (2 ^ 30 * 512) = c div 512" unfolding div_mult2_eq c ..
  then show "(c * 2 ^ 30 + r) div 2 ^ 39 = c div 512" by simp
  have e: "c * 2 ^ 30 + r = r + c * 512 * 2 ^ 21" by simp
  have "(c * 2 ^ 30 + r) div 2 ^ 21 = c * 512 + r div 2 ^ 21" unfolding e by (subst div_mult_self1) simp_all
  moreover have "r div 2 ^ 21 < 512" using assms by (simp add: less_mult_imp_div_less)
  ultimately show "(c * 2 ^ 30 + r) div 2 ^ 21 mod 512 = r div 2 ^ 21" by simp
  show "(c * 2 ^ 30 + r) mod 2 ^ 21 = r mod 2 ^ 21" unfolding e by (rule mod_mult_self1)
qed

lemma table_entry:
  assumes "4096 dvd p" "p + f < 2 ^ 52" "f < 4096"
  shows "entry_base (p + f) = p"
  using assms by (auto simp: entry_base_def dvd_def)

lemma table_entry_small:
  assumes "4096 dvd p"
  shows "odd (p + 3)" "\<not> bit (p + 3 :: nat) 7" "p < 2 ^ 32 \<Longrightarrow> entry_base (p + 3) = p"
proof -
  obtain k where p: "p = 4096 * k" using assms by (rule dvdE)
  show "odd (p + 3)" by (simp add: p)
  have "(p + 3) div 2 ^ 7 = k * 2 ^ 5" by (simp add: p)
  then show "\<not> bit (p + 3 :: nat) 7" by (simp add: bit_iff_odd)
  show "p < 2 ^ 32 \<Longrightarrow> entry_base (p + 3) = p" by (rule table_entry [OF assms]) simp_all
qed

lemma huge_entry:
  assumes "i < 512"
  shows "odd (i * 2 ^ 21 + 0x83 :: nat)" "bit (i * 2 ^ 21 + 0x83 :: nat) 7" "entry_base (i * 2 ^ 21 + 0x83) = i * 2 ^ 21"
proof -
  show "odd (i * 2 ^ 21 + 0x83 :: nat)" by simp
  have "(i * 2 ^ 21 + 0x83) div 2 ^ 7 = i * 2 ^ 14 + (1 :: nat)" by simp
  then show "bit (i * 2 ^ 21 + 0x83 :: nat) 7" by (simp add: bit_iff_odd)
  show "entry_base (i * 2 ^ 21 + 0x83) = i * 2 ^ 21" using assms by (intro table_entry) (auto intro!: dvd_mult)
qed

lemma mmu_pd:
  assumes t: "boot_tables p m" "4096 dvd p" "p + 16384 < 2 ^ 32" and r: "r < 2 ^ 30"
    and c: "c div 512 mod 512 = 0 \<and> c mod 512 = 0 \<or> c div 512 mod 512 = 510 \<and> c mod 512 = 510"
  shows "mmu m p (c * 2 ^ 30 + r) = Some r"
proof -
  have i: "r div 2 ^ 21 < 512" using r by (simp add: less_mult_imp_div_less)
  have d: "4096 dvd p + 4096" "4096 dvd p + 8192" "4096 dvd p + 12288" using t(2) by (simp_all add: dvd_add_left_iff)
  have T: "qword m (p + 8 * 0) = p + 4096 + 3" "qword m (p + 8 * 510) = p + 8192 + 3"
      "qword m (p + 4096 + 8 * 0) = p + 12288 + 3" "qword m (p + 8192 + 8 * 510) = p + 12288 + 3"
      "qword m (p + 12288 + 8 * (r div 2 ^ 21)) = r div 2 ^ 21 * 2 ^ 21 + 0x83"
    using t(1) [unfolded boot_tables_def, rule_format, of 0] t(1) [unfolded boot_tables_def, rule_format, of 510]
      t(1) [unfolded boot_tables_def, rule_format, OF i] by simp_all
  have E: "entry_base (p + 4096 + 3) = p + 4096" "entry_base (p + 8192 + 3) = p + 8192" "entry_base (p + 12288 + 3) = p + 12288"
    by (rule table_entry_small(3); use d t(3) in simp)+
  have f: "r div 2 ^ 21 * 2 ^ 21 div 2 ^ 21 * 2 ^ 21 + r mod 2 ^ 21 = r" by simp
  show ?thesis using c
    by (elim disjE conjE) (simp_all only: mmu_def mmu_entry_def Let_def walk_arith [OF r] T E
      d [THEN table_entry_small(1)] d [THEN table_entry_small(2)] huge_entry [OF i] f if_True if_False option.case simp_thms)
qed

lemma mmu_kernel:
  assumes t: "boot_tables p m" "4096 dvd p" "p + 16384 < 2 ^ 32" and r: "r < 510 * 2 ^ 21"
    and c: "c div 512 mod 512 = 511" "c mod 512 = 510"
  shows "mmu m p (c * 2 ^ 30 + r) = None"
proof -
  have i: "r div 2 ^ 21 < 510" "r < 2 ^ 30" using r by (simp_all add: less_mult_imp_div_less)
  have T: "qword m (p + 8 * 511) = p + 3" "qword m (p + 8 * 510) = p + 8192 + 3"
      "qword m (p + 8192 + 8 * (r div 2 ^ 21)) = 0"
    using t(1) [unfolded boot_tables_def, rule_format, of 511] t(1) [unfolded boot_tables_def, rule_format, of 510]
      t(1) [unfolded boot_tables_def, rule_format, of "r div 2 ^ 21"] i by simp_all
  have d: "4096 dvd p + 8192" using t(2) by (simp add: dvd_add_left_iff)
  have E: "entry_base (p + 3) = p" "entry_base (p + 8192 + 3) = p + 8192"
    by (rule table_entry_small(3); use d t(2,3) in simp)+
  show ?thesis
    by (simp only: mmu_def mmu_entry_def Let_def walk_arith [OF i(2)] c T E table_entry_small(1,2) [OF t(2)]
      table_entry_small(1,2) [OF d] if_True if_False option.case simp_thms even_zero)
qed

lemma unat_add_64: "unat (a :: u64) + unat v < 2 ^ 64 \<Longrightarrow> unat (a + v) = unat a + unat v"
  by (simp add: unat_word_ariths)

lemma setup_paging_keeps:
  assumes "labels_ok l" "x < unat (l_pml4 l)"
  shows "boot_mem (setup_paging l c) x = boot_mem c x"
proof -
  have "rep_stosl 1024 0 (l_pml4 l) (boot_mem c) x = boot_mem c x"
    using assms by (subst rep_stosl_eq) (simp_all add: labels_ok_def)
  then show ?thesis using assms by (subst setup_paging_below) auto
qed

lemma translate_boot:
  assumes "boot_tables p (boot_mem c)" "unat (cr3 c) = p" "4096 dvd p" "p + 16384 < 2 ^ 32"
  shows "v < 0x40000000 \<Longrightarrow> translate c v = Some (unat v)"
    "v < 0x40000000 \<Longrightarrow> translate c (0xFFFFFF7F80000000 + v) = Some (unat v)"
    "v < 0x3FC00000 \<Longrightarrow> translate c (KERNEL_VMA + v) = None"
proof -
  have t: "translate c x = mmu (boot_mem c) p (unat x)" for x using assms(2,3) by (simp add: translate_def)
  show "translate c v = Some (unat v)" if "v < 0x40000000"
    using mmu_pd [OF assms(1,3,4), where r = "unat v" and c = 0] that by (simp add: t word_less_nat_alt)
  show "translate c (0xFFFFFF7F80000000 + v) = Some (unat v)" if "v < 0x40000000"
    using mmu_pd [OF assms(1,3,4), where r = "unat v" and c = "0x3FFFFFDFE"] unat_add_64 [of "0xFFFFFF7F80000000" v] that
    by (simp add: t word_less_nat_alt)
  show "translate c (KERNEL_VMA + v) = None" if "v < 0x3FC00000"
    using mmu_kernel [OF assms(1,3,4), where r = "unat v" and c = "0x3FFFFFFFE"] unat_add_64 [of KERNEL_VMA v] that
    by (simp add: t word_less_nat_alt KERNEL_VMA_def)
qed

lemma image_zero_saved: "labels_ok l \<Longrightarrow> image_zero l c \<Longrightarrow> image_zero l (c\<lparr>boot_mem := movl v (l_multiboot_info l) (boot_mem c), cr4 := r\<rparr>)"
  by (auto simp: image_zero_def labels_ok_def movl_def)

text \<open>
  C23. With the loader's magic number the boot code reaches 64-bit mode with paging on, the pointer of the loader saved,
  every address of the first gigabyte mapped to itself, and the same gigabyte mapped a second time at
  \<open>0xFFFFFF7F80000000\<close>. The addresses from \<^verbatim>\<open>KERNEL_VMA\<close> on, at which the linker script places the kernel and
  its stack, are not mapped: the last entry of the top table refers to that table itself, and the entry for the second
  mapping stands one place too low. With any other number the code halts.
\<close>

theorem boot_address_space:
  assumes "labels_ok l" "image_zero l c"
  shows "if eax \<noteq> 0x36D76289 then boot_start l eax ebx c = None
         else \<exists>c'. boot_start l eax ebx c = Some c' \<and> bit (cr0 c') 0 \<and> bit (cr0 c') 31 \<and> bit (cr4 c') 5 \<and> bit (efer c') 8 \<and>
           boot_mem c' (unat (l_multiboot_info l)) = ebx \<and>
           (\<forall>v. v < 0x40000000 \<longrightarrow> translate c' v = Some (unat v) \<and> translate c' (0xFFFFFF7F80000000 + v) = Some (unat v)) \<and>
           (\<forall>v. v < 0x3FC00000 \<longrightarrow> translate c' (KERNEL_VMA + v) = None)"
proof (cases "eax = 0x36D76289")
  case True
  define c1 where "c1 = setup_paging l (c\<lparr>boot_mem := movl ebx (l_multiboot_info l) (boot_mem c), cr4 := cr4 c OR 0x20\<rparr>)"
  define c' where "c' = c1\<lparr>efer := efer c1 OR 0x100, cr0 := cr0 c1 OR (0x1 OR 0x80000000)\<rparr>"
  have start: "boot_start l eax ebx c = Some c'" by (simp add: True boot_start_def c'_def c1_def Let_def)
  have r: "cr3 c' = l_pml4 l" "cr4 c' = cr4 c OR 0x20" "boot_mem c' = boot_mem c1"
    by (simp_all add: c'_def c1_def setup_paging_def Let_def)
  have "boot_tables (unat (l_pml4 l)) (boot_mem c')"
    unfolding r c1_def by (intro setup_paging_tables image_zero_saved assms)
  note v = translate_boot [OF this, unfolded r, OF refl]
  have "boot_mem c' (unat (l_multiboot_info l)) = ebx"
    using assms(1) by (simp add: r c1_def setup_paging_keeps labels_ok_def movl_def)
  moreover have "bit (cr0 c') 0" "bit (cr0 c') 31" "bit (efer c') 8"
    by (simp_all add: c'_def bit_or_iff)
  moreover have "bit (cr4 c') 5" unfolding r by (simp add: bit_or_iff)
  ultimately show ?thesis using True start v assms(1) by (simp add: labels_ok_def)
qed (simp add: boot_start_def)

definition demo_labels :: boot_labels where
  "demo_labels = \<lparr>l_multiboot_info = 0x103000, l_pml4 = 0x104000\<rparr>"

definition demo_cpu :: boot_cpu where
  "demo_cpu = \<lparr>boot_mem = \<lambda>_. 0, cr0 = 1, cr3 = 0, cr4 = 0, efer = 0\<rparr>"

theorem boot_address_space_witness:
  "\<exists>c'. boot_start demo_labels 0x36D76289 0x9000 demo_cpu = Some c' \<and> translate c' 0xB8000 = Some 0xB8000 \<and>
     translate c' (KERNEL_VMA + 0x110000) = None"
proof -
  have h: "labels_ok demo_labels" "image_zero demo_labels demo_cpu"
    by (simp_all add: labels_ok_def image_zero_def demo_labels_def demo_cpu_def)
  obtain c' where c: "boot_start demo_labels 0x36D76289 0x9000 demo_cpu = Some c'"
      "\<forall>v. v < 0x40000000 \<longrightarrow> translate c' v = Some (unat v)" "\<forall>v. v < 0x3FC00000 \<longrightarrow> translate c' (KERNEL_VMA + v) = None"
    using boot_address_space [OF h, of "0x36D76289" "0x9000"] by auto
  show ?thesis using c(1) c(2) [rule_format, of "0xB8000"] c(3) [rule_format, of "0x110000"] by auto
qed

end
