(* ===== verification/Spec2Isabelle.thy ===== *)
theory Spec2Isabelle
  imports Msg_Ring_Props Scheduler_Faults Event_Props Page_Directory_Props Message_Passing_Props Interrupt_Props Ipc_Init Vga_Console Boot_Info Boot_Paging
begin

text \<open>
  A verification development of the EdgeX microkernel. The kernel is C and x86-64 assembly; file names below are relative to
  the source directory \<^verbatim>\<open>src\<close>.

  \<^bold>\<open>The program.\<close> \<^verbatim>\<open>boot/boot.S\<close> enters 64-bit mode and calls \<^verbatim>\<open>kernel/main.c\<close>, which reads the memory map of the
  loader and starts the physical page allocator and the heap (\<^verbatim>\<open>kernel/memory.c\<close>). \<^verbatim>\<open>kernel/interrupt.c\<close> installs the
  descriptor table and the interrupt controllers, \<^verbatim>\<open>kernel/scheduler.c\<close> runs tasks, and \<^verbatim>\<open>kernel/ipc.c\<close> gives them mutexes and
  semaphores, on which events (\<^verbatim>\<open>kernel/event.c\<close>), message queues (\<^verbatim>\<open>kernel/message.c\<close>) and shared memory
  (\<^verbatim>\<open>kernel/shared_memory.c\<close>) are built. \<^verbatim>\<open>kernel/memory/page_directory.c\<close> manages address spaces.
  \<^verbatim>\<open>kernel/ipc/message\<close> is a second message system with a registry of the queues of each task, and \<^verbatim>\<open>kernel/ipc_init.c\<close> starts
  the subsystems.

  \<^bold>\<open>Conventions.\<close> A C structure is a record, a static variable a field of the state of its file, a function a definition
  from states to states. Machine integers are words; natural numbers stand where the code bounds a value by an array size. A
  result \<^const>\<open>None\<close> is a call that does not return or follows a pointer to nothing, or, for interrupts, a kernel panic.
  A call that can block is a \<^verbatim>\<open>run\<close> (\<^verbatim>\<open>Kernel_Calls\<close>): it returns, or it is suspended with the state at the switch and the rest of
  the call as a function of the state in which the task runs again. Layered states are extended records: the kernel state of
  \<^verbatim>\<open>Kernel_Calls\<close>, then the pools of \<^verbatim>\<open>Ipc_Sync\<close>, then events, messages or shared memory. Code that the repository declares but
  does not define is a record of operations that the definitions take as an argument, with its laws as hypotheses.
  Linked lists are heaps of nodes; loops over them are partial functions into options, and the lemmas show that they end on well-formed
  lists. No definition uses fuel.

  \<^bold>\<open>The theories.\<close>
  \<^item> \<^verbatim>\<open>Kernel_Prelude\<close>: word types, error codes, C strings, and the lemmas on lists and words that the components share.
  \<^item> \<^verbatim>\<open>Phys_Memory\<close>, \<^verbatim>\<open>Kernel_Heap\<close> (\<^verbatim>\<open>kernel/memory.c\<close>): page frames with reference counts, \<^verbatim>\<open>kmalloc\<close> and the byte operations.
    Every sequence of calls keeps the frame states legal and the free counter exact up to the pages that \<^verbatim>\<open>alloc_dma_page\<close> hands out
    twice; \<^verbatim>\<open>alloc_page\<close> hands out pages in order, each once; allocation
    and release are inverse; heap blocks of sizes that do not wrap are disjoint; \<^verbatim>\<open>memmove\<close> and \<^verbatim>\<open>memcmp\<close> are correct.
  \<^item> \<^verbatim>\<open>Boot_Paging\<close> (\<^verbatim>\<open>boot/boot.S\<close>, \<^verbatim>\<open>boot/linker.ld\<close>), \<^verbatim>\<open>Boot_Info\<close>, \<^verbatim>\<open>Vga_Console\<close> (\<^verbatim>\<open>kernel/main.c\<close>): the first page tables under
    the processor's translation, the memory map, the text console. The address space at the call of \<^verbatim>\<open>kernel_main\<close> is
    determined, the tag loop ends and the zones have the sizes of their entries, the screen shows the last lines printed.
  \<^item> \<^verbatim>\<open>Interrupts\<close>, \<^verbatim>\<open>Interrupt_Props\<close> (\<^verbatim>\<open>kernel/interrupt.c\<close>, \<^verbatim>\<open>init_pit\<close> of \<^verbatim>\<open>kernel/init.c\<close>): stubs as instruction sequences on a
    register file and a stack, the descriptor table, both controllers as devices behind ports, handler tables and dispatch. An interrupt is
    invisible to the code it interrupts, for all vectors but 21 and 29, the unmasked lines are those that were enabled, and a handled line is acknowledged.
  \<^item> \<^verbatim>\<open>Task_Context\<close>, \<^verbatim>\<open>Scheduler\<close>, \<^verbatim>\<open>Scheduler_Queues\<close>, \<^verbatim>\<open>Scheduler_Frame\<close>, \<^verbatim>\<open>Scheduler_Props\<close>, \<^verbatim>\<open>Scheduler_Faults\<close>
    (\<^verbatim>\<open>kernel/scheduler.c\<close>): task control blocks linked in a heap, the context switch on registers. The queue operations are
    refined to lists; ready tasks are picked by priority and age; sleepers wake when due; blocking runs the first ready task and
    unblocking makes exactly the given task ready.
  \<^item> \<^verbatim>\<open>Kernel_Calls\<close>, \<^verbatim>\<open>Waiter_Lists\<close>, \<^verbatim>\<open>Ipc_Sync\<close>, \<^verbatim>\<open>Ipc_Sync_Props\<close> (\<^verbatim>\<open>kernel/ipc.c\<close>): wait queues, mutexes, semaphores. Wait queues are
    first-in first-out, semaphores neither lose nor invent units, only the owner releases a mutex, the timeout check wakes exactly the due tasks.
  \<^item> \<^verbatim>\<open>Event_Notify\<close>, \<^verbatim>\<open>Event_Props\<close> (\<^verbatim>\<open>kernel/event.c\<close>): events and event sets; removal from a set and reference counts.
  \<^item> \<^verbatim>\<open>Message_Format\<close>, \<^verbatim>\<open>Message_Passing\<close>, \<^verbatim>\<open>Message_Passing_Props\<close> (\<^verbatim>\<open>kernel/message.c\<close>): queues of linked messages refined to four
    levels of first-in first-out lists for non-blocking calls, with the number of messages that the heap allows.
  \<^item> \<^verbatim>\<open>Shared_Memory\<close>, \<^verbatim>\<open>Shared_Memory_Props\<close> (\<^verbatim>\<open>kernel/shared_memory.c\<close>): regions, mapping tables, pages. The tables implement maps and
    stay consistent through every call and suspension; pages follow the size of the region.
  \<^item> \<^verbatim>\<open>Sync_Ops\<close>, \<^verbatim>\<open>Queue_Registry\<close>, \<^verbatim>\<open>Msg_Ring\<close>, \<^verbatim>\<open>Msg_Ring_Refine\<close>, \<^verbatim>\<open>Msg_Ring_Props\<close> (\<^verbatim>\<open>kernel/ipc/message\<close>): the registry refined to a
    map, the ring buffers refined to lists, delivery as a stable sort by priority where low and normal messages do not meet, clean-up after a task.
  \<^item> \<^verbatim>\<open>Ipc_Stats\<close>, \<^verbatim>\<open>Ipc_Init\<close> (\<^verbatim>\<open>kernel/ipc_init.c\<close>): statistics, start (with the message subsystem of \<^verbatim>\<open>Msg_Ring\<close>), clean-up
    and health check.
  \<^item> \<^verbatim>\<open>Page_Directory\<close>, \<^verbatim>\<open>Page_Tables\<close>, \<^verbatim>\<open>Page_Mapping\<close>, \<^verbatim>\<open>Page_Directory_Props\<close> (\<^verbatim>\<open>kernel/memory/page_directory.c\<close>): four-level tables in
    physical memory as a tree. Mapping a range with flags in the low twelve bits translates exactly that range, unmapping restores
    the translations, a copy-on-write fault on a page of 4K gives a private copy and on a large page fails.

  \<^bold>\<open>Interfaces.\<close> The locale \<^verbatim>\<open>page_provider\<close> is what page directories need of a page allocator, interpreted on the allocator of
  \<^verbatim>\<open>kernel/memory.c\<close>; \<^verbatim>\<open>counting_semaphore\<close> is what the message ring needs of a semaphore, interpreted on the semaphores of
  \<^verbatim>\<open>kernel/ipc.c\<close>; \<^verbatim>\<open>waiter_owner\<close> is what the loops over waiters need of the object that owns the list, interpreted on wait queues,
  events and event sets; \<^verbatim>\<open>queue_directory\<close> is the contract of the registry, interpreted on its arrays.

  \<^bold>\<open>Where the code does not do what it means to.\<close> The kernel is linked at addresses that the boot tables do not map; the memory zones are
  cleared before the page allocator reads them; the second interrupt controller is never enabled; system call and yield
  end in a panic; the list of all tasks shares its links with the ready queues, so that creating tasks does not return; copy-on-write
  lifts write protection; reserving a page range has no effect, and the frames of the kernel image stay free; the execute-disable bit
  becomes part of a translated address; normal messages do not overtake low ones; calls meant to block on a message queue return. Each is a theorem about the definitions, and the functional theorems
  above say what holds of each component on its own.

  \<^bold>\<open>Not modelled.\<close> Log output, the translation cache, the bytes that \<^verbatim>\<open>early_alloc\<close> clears, and interleavings inside a call other than at the points where it blocks.
  Of \<^verbatim>\<open>boot/boot.S\<close> the descriptor table and the segment loads, of \<^verbatim>\<open>kernel/init.c\<close> all but the timer: \<^verbatim>\<open>init_kernel\<close> calls
  \<^verbatim>\<open>create_kernel_task\<close> with other parameters than its declaration has, and its test tasks print and sleep.
  \<^verbatim>\<open>kernel/memory/shared_memory.c\<close> breaks off in the middle of a function, after which the file starts again, and
  \<^verbatim>\<open>kernel/ipc/event/event.c\<close> has fragments of functions inside other definitions and is cut off; the build compiles neither.
  \<^verbatim>\<open>kernel/shared_memory.c\<close> repeats itself from line 662 on. The
  files under \<^verbatim>\<open>crypto\<close>, \<^verbatim>\<open>libc\<close> and \<^verbatim>\<open>sync\<close> are empty.
\<close>

end
